(* ===== verification/Hold_Prelude.thy ===== *)
theory Hold_Prelude
  imports Main "HOL-Library.Word" "HOL-Library.Multiset"
begin

text \<open>
  Shared vocabulary of the development: Rust strings, results, comparators and saturating
  machine arithmetic, with the generic lemmas the components use.

  \<^item> A Rust \<^verbatim>\<open>String\<close> or \<^verbatim>\<open>&str\<close> is its UTF-8 byte sequence, an HOL \<open>string\<close>
    whose characters are bytes: \<open>length\<close> is \<^verbatim>\<open>str::len\<close>. \<open>trim\<close> strips the encodings of every
    character with the Unicode property White\_Space, as \<^verbatim>\<open>str::trim\<close> does.
    \<^verbatim>\<open>str::to_lowercase\<close> rests on the Unicode case tables; the definitions that call it take
    the lower-casing function as their argument \<open>lc\<close>.
  \<^item> A \<^verbatim>\<open>Result<T, E>\<close> is a sum \<open>'e + 'a\<close> with \<open>Inl\<close> for \<^verbatim>\<open>Err\<close>.
  \<^item> A Rust \<^verbatim>\<open>Ordering\<close> is \<open>ordering\<close>; \<open>sort_by\<close> is the stable slice sort. The locale
    \<open>comparator\<close> states what a comparison function promises its clients.
  \<^item> Timestamps (\<^verbatim>\<open>DateTime<Utc>\<close>) are integers, nanoseconds since the Unix epoch; ULIDs are
    128-bit words, compared as unsigned numbers as \<^verbatim>\<open>ulid::Ulid\<close> is.
\<close>

named_theorems hold_eval \<open>unfoldings that evaluate string and comparator constants on closed terms\<close>
named_theorems comparator_simps \<open>facts about comparators and sorting\<close>

type_synonym datetime = int
type_synonym ulid = "128 word"
type_synonym u8 = "8 word"
type_synonym u16 = "16 word"
type_synonym u32 = "32 word"
type_synonym u64 = "64 word"
type_synonym u128 = "128 word"

section \<open>Results\<close>

definition result_bind :: "'e + 'a \<Rightarrow> ('a \<Rightarrow> 'e + 'b) \<Rightarrow> 'e + 'b" where
  "result_bind r f = (case r of Inl e \<Rightarrow> Inl e | Inr x \<Rightarrow> f x)"

lemma result_bind_simps [simp]:
  "result_bind (Inl e) f = Inl e"
  "result_bind (Inr x) f = f x"
  by (simp_all add: result_bind_def)

lemma result_bind_Inr_iff [simp]:
  "result_bind r f = Inr y \<longleftrightarrow> (\<exists>x. r = Inr x \<and> f x = Inr y)"
  by (cases r) simp_all

lemma result_bind_Inl_iff:
  "result_bind r f = Inl e \<longleftrightarrow> r = Inl e \<or> (\<exists>x. r = Inr x \<and> f x = Inl e)"
  by (cases r) simp_all

text \<open>\<^verbatim>\<open>if cond { return Err(e) }\<close>\<close>

definition ensure :: "bool \<Rightarrow> 'e \<Rightarrow> 'e + unit" where
  "ensure b e = (if b then Inr () else Inl e)"

lemma ensure_simps [simp]:
  "ensure True e = Inr ()"
  "ensure False e = Inl e"
  "ensure b e = Inr u \<longleftrightarrow> b"
  "ensure b e = Inl e' \<longleftrightarrow> \<not> b \<and> e' = e"
  by (auto simp: ensure_def)

text \<open>\<^verbatim>\<open>Iterator::try_for_each\<close>: the first error, in order, or \<^verbatim>\<open>Ok(())\<close>.\<close>

fun try_for_each :: "('a \<Rightarrow> 'e + unit) \<Rightarrow> 'a list \<Rightarrow> 'e + unit" where
  "try_for_each f [] = Inr ()"
| "try_for_each f (x # xs) = result_bind (f x) (\<lambda>_. try_for_each f xs)"

lemma try_for_each_Inr_iff [simp]:
  "try_for_each f xs = Inr u \<longleftrightarrow> (\<forall>x \<in> set xs. f x = Inr ())"
  by (induction xs) auto

section \<open>Strings as UTF-8 byte sequences\<close>

definition byte :: "char \<Rightarrow> nat" where
  "byte c = of_char c"

lemma byte_less [simp]: "byte c < 256"
  by (simp add: byte_def)

lemma byte_inject [simp]: "byte a = byte b \<longleftrightarrow> a = b"
  by (simp add: byte_def)

lemma byte_char_of [simp]: "n < 256 \<Longrightarrow> byte (char_of n) = n"
  by (simp add: byte_def)

text \<open>White\_Space characters by their encoding: one byte, two bytes (U+0085, U+00A0) or three
  bytes (U+1680, U+2000 to U+200A, U+2028, U+2029, U+202F, U+205F, U+3000).\<close>

definition ws1 :: "char \<Rightarrow> bool" where
  "ws1 a \<longleftrightarrow> (9 \<le> byte a \<and> byte a \<le> 13) \<or> byte a = 32"

definition ws2 :: "char \<Rightarrow> char \<Rightarrow> bool" where
  "ws2 a b \<longleftrightarrow> byte a = 194 \<and> (byte b = 133 \<or> byte b = 160)"

definition ws3 :: "char \<Rightarrow> char \<Rightarrow> char \<Rightarrow> bool" where
  "ws3 a b c \<longleftrightarrow>
     (byte a = 225 \<and> byte b = 154 \<and> byte c = 128)
   \<or> (byte a = 226 \<and> byte b = 128 \<and>
        ((128 \<le> byte c \<and> byte c \<le> 138) \<or> byte c = 168 \<or> byte c = 169 \<or> byte c = 175))
   \<or> (byte a = 226 \<and> byte b = 129 \<and> byte c = 159)
   \<or> (byte a = 227 \<and> byte b = 128 \<and> byte c = 128)"

text \<open>\<open>ws_len s\<close> is the number of bytes of the whitespace character \<open>s\<close> starts with, 0 if it
  starts with none; \<open>ws_len_rev\<close> is the same at the end of a string given backwards.\<close>

definition ws_len :: "string \<Rightarrow> nat" where
  "ws_len s = (case s of
      [] \<Rightarrow> 0
    | a # r \<Rightarrow> if ws1 a then 1 else
        (case r of
           [] \<Rightarrow> 0
         | b # r' \<Rightarrow> if ws2 a b then 2 else
             (case r' of [] \<Rightarrow> 0 | c # _ \<Rightarrow> if ws3 a b c then 3 else 0)))"

definition ws_len_rev :: "string \<Rightarrow> nat" where
  "ws_len_rev s = (case s of
      [] \<Rightarrow> 0
    | c # r \<Rightarrow> if ws1 c then 1 else
        (case r of
           [] \<Rightarrow> 0
         | b # r' \<Rightarrow> if ws2 b c then 2 else
             (case r' of [] \<Rightarrow> 0 | a # _ \<Rightarrow> if ws3 a b c then 3 else 0)))"

lemma ws_len_le: "ws_len s \<le> length s"
  by (simp add: ws_len_def split: list.splits)

lemma ws_len_rev_le: "ws_len_rev s \<le> length s"
  by (simp add: ws_len_rev_def split: list.splits)

text \<open>\<open>strip wl s\<close> drops leading characters as long as \<open>wl\<close> recognises one.\<close>

function strip :: "(string \<Rightarrow> nat) \<Rightarrow> string \<Rightarrow> string" where
  "strip wl s = (if wl s = 0 \<or> s = [] then s else strip wl (drop (wl s) s))"
  by pat_completeness auto
termination
  by (relation "measure (\<lambda>(wl, s). length s)") auto

declare strip.simps [simp del]

definition trim_start :: "string \<Rightarrow> string" where
  "trim_start s = strip ws_len s"

definition trim_end :: "string \<Rightarrow> string" where
  "trim_end s = rev (strip ws_len_rev (rev s))"

definition trim :: "string \<Rightarrow> string" where
  "trim s = trim_end (trim_start s)"

definition blank :: "string \<Rightarrow> bool" where
  "blank s \<longleftrightarrow> trim s = []"

lemma strip_fixed: "wl s = 0 \<or> s = [] \<Longrightarrow> strip wl s = s"
  by (subst strip.simps) simp

lemma strip_stops: "wl (strip wl s) = 0 \<or> strip wl s = []"
proof (induction wl s rule: strip.induct)
  case (1 wl s)
  show ?case
  proof (cases "wl s = 0 \<or> s = []")
    case True
    then show ?thesis by (simp add: strip_fixed)
  next
    case False
    with "1.IH" show ?thesis by (subst (1 2) strip.simps) simp
  qed
qed

lemma strip_suffix: "\<exists>p. s = p @ strip wl s"
proof (induction wl s rule: strip.induct)
  case (1 wl s)
  show ?case
  proof (cases "wl s = 0 \<or> s = []")
    case True
    then show ?thesis by (simp add: strip_fixed)
  next
    case False
    with "1.IH" obtain p where p: "drop (wl s) s = p @ strip wl (drop (wl s) s)" by blast
    have "s = take (wl s) s @ drop (wl s) s" by simp
    also have "\<dots> = (take (wl s) s @ p) @ strip wl (drop (wl s) s)" by (subst p) simp
    also have "strip wl (drop (wl s) s) = strip wl s" using False by (subst (2) strip.simps) simp
    finally show ?thesis by blast
  qed
qed

lemma strip_idem [simp]: "strip wl (strip wl s) = strip wl s"
  by (rule strip_fixed, rule strip_stops)

lemma trim_end_prefix: "\<exists>q. s = trim_end s @ q"
proof -
  obtain p where "rev s = p @ strip ws_len_rev (rev s)" using strip_suffix by blast
  then have "rev (rev s) = rev (p @ strip ws_len_rev (rev s))" by (rule arg_cong)
  then show ?thesis by (auto simp: trim_end_def)
qed

text \<open>A whitespace head survives appending: a prefix of a string that starts with no whitespace
  starts with none either.\<close>

lemma ws_len_append: "ws_len (s @ q) = 0 \<Longrightarrow> s @ q \<noteq> [] \<Longrightarrow> ws_len s = 0"
  by (auto simp: ws_len_def split: list.splits if_splits)

lemma trim_start_trim_end:
  assumes "ws_len s = 0 \<or> s = []"
  shows "trim_start (trim_end s) = trim_end s"
proof -
  obtain q where q: "s = trim_end s @ q" using trim_end_prefix by blast
  have "ws_len (trim_end s) = 0 \<or> trim_end s = []"
  proof (cases "s = []")
    case True
    with q show ?thesis by simp
  next
    case False
    with assms have "ws_len (trim_end s @ q) = 0" using q by simp
    with False q show ?thesis using ws_len_append by metis
  qed
  then show ?thesis by (simp add: trim_start_def strip_fixed)
qed

lemma trim_end_idem [simp]: "trim_end (trim_end s) = trim_end s"
  by (simp add: trim_end_def)

lemma trim_idem [simp]: "trim (trim s) = trim s"
proof -
  have "ws_len (trim_start s) = 0 \<or> trim_start s = []"
    unfolding trim_start_def by (rule strip_stops)
  then have "trim_start (trim_end (trim_start s)) = trim_end (trim_start s)"
    by (rule trim_start_trim_end)
  then show ?thesis by (simp add: trim_def)
qed

lemma length_trim: "length (trim s) \<le> length s"
proof -
  obtain q where q: "trim_start s = trim_end (trim_start s) @ q" using trim_end_prefix by blast
  obtain p where p: "s = p @ trim_start s" using strip_suffix unfolding trim_start_def by blast
  have "length s = length p + length (trim_start s)" using arg_cong [OF p, of length] by simp
  moreover have "length (trim_start s) = length (trim s) + length q"
    using arg_cong [OF q, of length] by (simp add: trim_def)
  ultimately show ?thesis by simp
qed

text \<open>A string that trimming leaves at its length is left unchanged: \<^verbatim>\<open>s.trim().len() == s.len()\<close>
  is a faithful test for "already trimmed".\<close>

lemma trim_same_length: "length (trim s) = length s \<Longrightarrow> trim s = s"
proof -
  assume len: "length (trim s) = length s"
  obtain q where q: "trim_start s = trim s @ q"
    using trim_end_prefix unfolding trim_def by blast
  obtain p where p: "s = p @ trim_start s" using strip_suffix unfolding trim_start_def by blast
  from p q have s: "s = p @ trim s @ q" by simp
  have "length s = length p + length (trim s) + length q" using arg_cong [OF s, of length] by simp
  with len have "p = []" "q = []" by auto
  with s show "trim s = s" by simp
qed

lemma trim_Nil [simp]: "trim [] = []"
  by (simp add: trim_def trim_start_def trim_end_def strip_fixed)

text \<open>A string that starts and ends with a printable ASCII character is already trimmed.\<close>

definition graphic :: "char \<Rightarrow> bool" where
  "graphic c \<longleftrightarrow> 33 \<le> byte c \<and> byte c \<le> 126"

lemma graphic_not_ws:
  assumes "graphic a"
  shows "\<not> ws1 a" "\<not> ws2 a b" "\<not> ws2 b a" "\<not> ws3 a b c" "\<not> ws3 c b a"
  using assms by (simp_all add: graphic_def ws1_def ws2_def ws3_def)

lemma ws_len_graphic: "graphic a \<Longrightarrow> ws_len (a # r) = 0 \<and> ws_len_rev (a # r) = 0"
  by (simp add: ws_len_def ws_len_rev_def graphic_not_ws split: list.split)

lemma trim_graphic:
  assumes "s \<noteq> []" "graphic (hd s)" "graphic (last s)"
  shows "trim s = s"
proof -
  from assms(1,2) have "ws_len s = 0" by (cases s) (simp_all add: ws_len_graphic)
  then have start: "trim_start s = s" by (simp add: trim_start_def strip_fixed)
  from assms(1,3) have "graphic (hd (rev s))" and "rev s \<noteq> []" by (simp_all add: hd_rev)
  then have "ws_len_rev (rev s) = 0" by (cases "rev s") (simp_all add: ws_len_graphic)
  then show ?thesis by (simp add: trim_def start trim_end_def strip_fixed)
qed

lemma blank_trim [simp]: "blank (trim s) = blank s"
  by (simp add: blank_def)

lemma blank_Nil [simp]: "blank []"
  by (simp add: blank_def)

text \<open>ASCII case and character classes.\<close>

definition ascii_lower :: "char \<Rightarrow> char" where
  "ascii_lower c = (if 65 \<le> byte c \<and> byte c \<le> 90 then char_of (byte c + 32) else c)"

definition to_ascii_lowercase :: "string \<Rightarrow> string" where
  "to_ascii_lowercase s = map ascii_lower s"

definition is_ascii_lowercase :: "char \<Rightarrow> bool" where
  "is_ascii_lowercase c \<longleftrightarrow> 97 \<le> byte c \<and> byte c \<le> 122"

definition is_ascii_digit :: "char \<Rightarrow> bool" where
  "is_ascii_digit c \<longleftrightarrow> 48 \<le> byte c \<and> byte c \<le> 57"

definition is_ascii_alphanumeric :: "char \<Rightarrow> bool" where
  "is_ascii_alphanumeric c \<longleftrightarrow>
     is_ascii_digit c \<or> is_ascii_lowercase c \<or> (65 \<le> byte c \<and> byte c \<le> 90)"

lemma ascii_lower_idem [simp]: "ascii_lower (ascii_lower c) = ascii_lower c"
  by (auto simp: ascii_lower_def)

lemma to_ascii_lowercase_idem [simp]: "to_ascii_lowercase (to_ascii_lowercase s) = to_ascii_lowercase s"
  by (simp add: to_ascii_lowercase_def)

lemma length_to_ascii_lowercase [simp]: "length (to_ascii_lowercase s) = length s"
  by (simp add: to_ascii_lowercase_def)

text \<open>Decimal rendering of \<^verbatim>\<open>{n}\<close> in a format string.\<close>

fun show_nat :: "nat \<Rightarrow> string" where
  "show_nat n = (if n < 10 then [char_of (48 + n)] else show_nat (n div 10) @ [char_of (48 + n mod 10)])"

declare show_nat.simps [simp del]

text \<open>\<^verbatim>\<open>str::split\<close> by a byte predicate (the pieces between separators, empty ones included)
  and \<^verbatim>\<open>str::split_once\<close> by one ASCII byte.\<close>

fun split_by :: "(char \<Rightarrow> bool) \<Rightarrow> string \<Rightarrow> string list" where
  "split_by p [] = [[]]"
| "split_by p (c # cs) =
     (if p c then [] # split_by p cs
      else (case split_by p cs of [] \<Rightarrow> [[c]] | w # ws \<Rightarrow> (c # w) # ws))"

fun split_once :: "char \<Rightarrow> string \<Rightarrow> (string \<times> string) option" where
  "split_once d [] = None"
| "split_once d (c # cs) =
     (if c = d then Some ([], cs)
      else map_option (\<lambda>(a, b). (c # a, b)) (split_once d cs))"

lemma split_by_not_Nil [simp]: "split_by p s \<noteq> []"
  by (induction s) (auto split: list.splits)

lemma split_by_no_sep: "w \<in> set (split_by p s) \<Longrightarrow> c \<in> set w \<Longrightarrow> \<not> p c"
proof (induction s arbitrary: w)
  case Nil
  then show ?case by simp
next
  case (Cons a s)
  show ?case
  proof (cases "p a")
    case True
    with Cons show ?thesis by auto
  next
    case False
    obtain v vs where v: "split_by p s = v # vs" by (cases "split_by p s") simp_all
    with False Cons.prems have "w = a # v \<or> w \<in> set vs" by simp
    with v False Cons.IH [of v] Cons.IH [of w] Cons.prems show ?thesis by auto
  qed
qed

lemma split_once_Some: "split_once d s = Some (a, b) \<longleftrightarrow> s = a @ d # b \<and> d \<notin> set a"
proof (induction s arbitrary: a)
  case Nil
  then show ?case by simp
next
  case (Cons c s)
  then show ?case by (cases a) auto
qed

text \<open>Whether a substring occurs (\<^verbatim>\<open>str::contains\<close>).\<close>

fun starts_with :: "string \<Rightarrow> string \<Rightarrow> bool" where
  "starts_with [] s = True"
| "starts_with (p # ps) [] = False"
| "starts_with (p # ps) (c # cs) = (p = c \<and> starts_with ps cs)"

fun contains_str :: "string \<Rightarrow> string \<Rightarrow> bool" where
  "contains_str p [] = (p = [])"
| "contains_str p (c # cs) = (starts_with p (c # cs) \<or> contains_str p cs)"

lemma starts_with_iff: "starts_with p s \<longleftrightarrow> (\<exists>r. s = p @ r)"
  by (induction p s rule: starts_with.induct) auto

section \<open>Comparators and the stable sort\<close>

datatype ordering = LessThan | EqualTo | GreaterThan

fun reverse_ordering :: "ordering \<Rightarrow> ordering" where
  "reverse_ordering LessThan = GreaterThan"
| "reverse_ordering EqualTo = EqualTo"
| "reverse_ordering GreaterThan = LessThan"

definition then_with :: "ordering \<Rightarrow> ordering \<Rightarrow> ordering" where
  "then_with a b = (if a = EqualTo then b else a)"

definition cmp_ord :: "'a::linorder \<Rightarrow> 'a \<Rightarrow> ordering" where
  "cmp_ord a b = (if a < b then LessThan else if a = b then EqualTo else GreaterThan)"

text \<open>\<^verbatim>\<open>slice::sort_by\<close> is a stable sort: equal elements keep their order.\<close>

fun insort_by :: "('a \<Rightarrow> 'a \<Rightarrow> ordering) \<Rightarrow> 'a \<Rightarrow> 'a list \<Rightarrow> 'a list" where
  "insort_by cmp x [] = [x]"
| "insort_by cmp x (y # ys) =
     (if cmp x y = GreaterThan then y # insort_by cmp x ys else x # y # ys)"

definition sort_by :: "('a \<Rightarrow> 'a \<Rightarrow> ordering) \<Rightarrow> 'a list \<Rightarrow> 'a list" where
  "sort_by cmp xs = foldr (insort_by cmp) xs []"

text \<open>\<^verbatim>\<open>Iterator::max_by\<close>: the last of the greatest elements.\<close>

definition max_by :: "('a \<Rightarrow> 'a \<Rightarrow> ordering) \<Rightarrow> 'a list \<Rightarrow> 'a option" where
  "max_by cmp xs = (case xs of [] \<Rightarrow> None
     | x # r \<Rightarrow> Some (foldl (\<lambda>m y. if cmp m y = GreaterThan then m else y) x r))"

lemma max_by_mem: "foldl (\<lambda>m y. if cmp m y = GreaterThan then m else y) x xs \<in> insert x (set xs)"
proof (induction xs arbitrary: x)
  case Nil
  then show ?case by simp
next
  case (Cons y ys)
  then show ?case by (cases "cmp x y = GreaterThan") auto
qed

lemma max_by_Nil_iff [simp]: "max_by cmp xs = None \<longleftrightarrow> xs = []"
  by (simp add: max_by_def split: list.split)

lemma mset_insort_by [simp]: "mset (insort_by cmp x xs) = add_mset x (mset xs)"
  by (induction xs) auto

lemma mset_sort_by [simp]: "mset (sort_by cmp xs) = mset xs"
  by (induction xs) (auto simp: sort_by_def)

lemma set_sort_by [simp]: "set (sort_by cmp xs) = set xs"
  by (metis mset_sort_by set_mset_mset)

lemma length_sort_by [simp]: "length (sort_by cmp xs) = length xs"
  by (metis mset_sort_by size_mset)

lemma distinct_sort_by [simp]: "distinct (sort_by cmp xs) = distinct xs"
  by (metis mset_eq_imp_distinct_iff mset_sort_by)

lemma then_with_simps [comparator_simps, simp]:
  "then_with EqualTo b = b"
  "then_with LessThan b = LessThan"
  "then_with GreaterThan b = GreaterThan"
  by (simp_all add: then_with_def)

lemma then_with_Equal_iff [simp]: "then_with a b = EqualTo \<longleftrightarrow> a = EqualTo \<and> b = EqualTo"
  by (simp add: then_with_def)

lemma then_with_Greater_iff:
  "then_with a b = GreaterThan \<longleftrightarrow> a = GreaterThan \<or> a = EqualTo \<and> b = GreaterThan"
  by (cases a) simp_all

lemma then_with_Less_iff:
  "then_with a b = LessThan \<longleftrightarrow> a = LessThan \<or> a = EqualTo \<and> b = LessThan"
  by (cases a) simp_all

lemma reverse_then_with [simp]:
  "reverse_ordering (then_with a b) = then_with (reverse_ordering a) (reverse_ordering b)"
  by (cases a) simp_all

lemma reverse_reverse [simp]: "reverse_ordering (reverse_ordering a) = a"
  by (cases a) simp_all

text \<open>
  What \<^verbatim>\<open>sort_by\<close> and \<^verbatim>\<open>max_by\<close> ask of a comparison function: swapping the arguments reverses
  the answer, and not-greater is transitive. The contract gives that the sort is correct: the
  result is ordered, and any ordered rearrangement of distinguishable elements is that result.
\<close>

locale comparator =
  fixes cmp :: "'a \<Rightarrow> 'a \<Rightarrow> ordering"
  assumes cmp_swap: "cmp b a = reverse_ordering (cmp a b)"
    and cmp_trans: "cmp a b \<noteq> GreaterThan \<Longrightarrow> cmp b c \<noteq> GreaterThan \<Longrightarrow> cmp a c \<noteq> GreaterThan"
begin

abbreviation le_cmp :: "'a \<Rightarrow> 'a \<Rightarrow> bool" where
  "le_cmp a b \<equiv> cmp a b \<noteq> GreaterThan"

lemma cmp_refl [simp]: "cmp a a = EqualTo"
  using cmp_swap [of a a] by (cases "cmp a a") simp_all

lemma le_total: "le_cmp a b \<or> le_cmp b a"
  by (cases "cmp a b") (simp_all add: cmp_swap [of b a])

lemma Greater_imp_le: "cmp a b = GreaterThan \<Longrightarrow> le_cmp b a"
  using le_total [of a b] by simp

lemma sorted_insort_by:
  "sorted_wrt le_cmp xs \<Longrightarrow> sorted_wrt le_cmp (insort_by cmp x xs)"
proof (induction xs)
  case Nil
  then show ?case by simp
next
  case (Cons y ys)
  show ?case
  proof (cases "cmp x y = GreaterThan")
    case True
    have "set (insort_by cmp x ys) = insert x (set ys)"
      by (metis mset_insort_by set_mset_add_mset_insert set_mset_mset)
    with True Cons Greater_imp_le [OF True] show ?thesis by auto
  next
    case False
    with Cons.prems show ?thesis by (auto dest: cmp_trans [of x y])
  qed
qed

lemma sorted_sort_by: "sorted_wrt le_cmp (sort_by cmp xs)"
  by (induction xs) (simp_all add: sort_by_def sorted_insort_by)

lemma insort_by_front:
  "(\<forall>y \<in> set xs. le_cmp x y) \<Longrightarrow> insort_by cmp x xs = x # xs"
  by (cases xs) auto

lemma sort_by_sorted: "sorted_wrt le_cmp xs \<Longrightarrow> sort_by cmp xs = xs"
  by (induction xs) (auto simp: sort_by_def insort_by_front)

text \<open>Filtering commutes with the stable sort.\<close>

lemma filter_insort_by:
  "sorted_wrt le_cmp xs \<Longrightarrow> filter P (insort_by cmp x xs) = (if P x then insort_by cmp x (filter P xs) else filter P xs)"
proof (induction xs)
  case (Cons y ys)
  have "insort_by cmp x (filter P ys) = x # filter P ys" if "le_cmp x y"
    using Cons.prems that by (intro insort_by_front) (auto dest: cmp_trans [of x y])
  with Cons show ?case by auto
qed simp

lemma filter_sort_by: "filter P (sort_by cmp xs) = sort_by cmp (filter P xs)"
proof (induction xs)
  case (Cons x xs)
  have "sort_by cmp (y # ys) = insort_by cmp y (sort_by cmp ys)" for y ys by (simp add: sort_by_def)
  with Cons show ?case by (simp add: filter_insort_by [OF sorted_sort_by])
qed (simp add: sort_by_def)

text \<open>Where the comparator tells the elements at hand apart, the ordered arrangement is unique.\<close>

lemma sorted_unique_on:
  "sorted_wrt le_cmp xs \<Longrightarrow> sorted_wrt le_cmp ys \<Longrightarrow> mset xs = mset ys \<Longrightarrow>
   \<forall>a \<in> set xs. \<forall>b \<in> set xs. cmp a b = EqualTo \<longrightarrow> a = b \<Longrightarrow> xs = ys"
proof (induction xs arbitrary: ys)
  case Nil
  then show ?case by simp
next
  case (Cons x xs)
  from Cons.prems(3) obtain y ys' where ys: "ys = y # ys'" by (cases ys) auto
  have sets: "insert x (set xs) = insert y (set ys')"
    using Cons.prems(3) ys by (metis list.simps(15) set_mset_mset)
  have xy: "le_cmp x y" using Cons.prems(1) sets by (cases "x = y") auto
  have yx: "le_cmp y x" using Cons.prems(2) ys sets by (cases "x = y") auto
  have "cmp x y = EqualTo" using xy yx by (cases "cmp x y") (simp_all add: cmp_swap [of y x])
  moreover have "y \<in> set (x # xs)" using sets by auto
  ultimately have "x = y" using Cons.prems(4) by (meson list.set_intros(1))
  with Cons ys show ?case by auto
qed

lemma sort_by_unique_on:
  "mset xs = mset ys \<Longrightarrow> \<forall>a \<in> set xs. \<forall>b \<in> set xs. cmp a b = EqualTo \<longrightarrow> a = b \<Longrightarrow> sort_by cmp xs = sort_by cmp ys"
  by (rule sorted_unique_on) (simp_all add: sorted_sort_by)

lemma max_by_step:
  "\<forall>y \<in> insert x (set xs). le_cmp y (foldl (\<lambda>m y. if cmp m y = GreaterThan then m else y) x xs)"
proof (induction xs arbitrary: x)
  case Nil
  then show ?case by simp
next
  case (Cons y ys)
  define m where "m = (if cmp x y = GreaterThan then x else y)"
  define r where "r = foldl (\<lambda>m y. if cmp m y = GreaterThan then m else y) m ys"
  have "le_cmp x m" "le_cmp y m" using Greater_imp_le [of x y] by (auto simp: m_def)
  moreover have IH: "le_cmp m r" "\<forall>z \<in> set ys. le_cmp z r" using Cons.IH [of m] by (simp_all add: r_def)
  ultimately have "le_cmp x r" "le_cmp y r" using cmp_trans by blast+
  with IH show ?case by (simp add: r_def m_def)
qed

lemma max_by_max: "max_by cmp xs = Some m \<Longrightarrow> m \<in> set xs \<and> (\<forall>y \<in> set xs. le_cmp y m)"
  using max_by_step [of "hd xs" "tl xs"] max_by_mem [of cmp "hd xs" "tl xs"] by (cases xs) (auto simp: max_by_def)

end

text \<open>Comparators that tell distinct elements apart: their sort has exactly one possible result.\<close>

locale strict_comparator = comparator +
  assumes cmp_eq: "cmp a b = EqualTo \<Longrightarrow> a = b"
begin

lemma sorted_unique:
  "sorted_wrt le_cmp xs \<Longrightarrow> sorted_wrt le_cmp ys \<Longrightarrow> mset xs = mset ys \<Longrightarrow> xs = ys"
  by (rule sorted_unique_on) (auto intro: cmp_eq)

lemma sort_by_unique: "mset xs = mset ys \<Longrightarrow> sort_by cmp xs = sort_by cmp ys"
  by (rule sorted_unique) (simp_all add: sorted_sort_by)

end

interpretation ord_cmp: strict_comparator cmp_ord
  by unfold_locales (auto simp: cmp_ord_def split: if_splits)

text \<open>Lexicographic combination and reversal of comparators.\<close>

definition cmp_then :: "('a \<Rightarrow> 'a \<Rightarrow> ordering) \<Rightarrow> ('a \<Rightarrow> 'a \<Rightarrow> ordering) \<Rightarrow> 'a \<Rightarrow> 'a \<Rightarrow> ordering" where
  "cmp_then c1 c2 a b = then_with (c1 a b) (c2 a b)"

lemma comparator_cmp_then:
  assumes c1: "comparator c1" and c2: "comparator c2"
  shows "comparator (cmp_then c1 c2)"
proof
  fix a b
  show "cmp_then c1 c2 b a = reverse_ordering (cmp_then c1 c2 a b)"
    using comparator.cmp_swap [OF c1, of b a] comparator.cmp_swap [OF c2, of b a]
    by (simp add: cmp_then_def)
next
  fix a b c
  assume ab: "cmp_then c1 c2 a b \<noteq> GreaterThan" and bc: "cmp_then c1 c2 b c \<noteq> GreaterThan"
  have t1: "c1 a c \<noteq> GreaterThan"
    using ab bc comparator.cmp_trans [OF c1, of a b c] by (auto simp: cmp_then_def then_with_Greater_iff)
  have eq: "c1 a b = EqualTo \<and> c1 b c = EqualTo" if "c1 a c = EqualTo"
  proof -
    have ca: "c1 c a \<noteq> GreaterThan" using that comparator.cmp_swap [OF c1, of c a] by simp
    have 1: "c1 a b \<noteq> GreaterThan" and 2: "c1 b c \<noteq> GreaterThan"
      using ab bc by (auto simp: cmp_then_def then_with_Greater_iff)
    have 3: "c1 b a \<noteq> GreaterThan" using comparator.cmp_trans [OF c1 2 ca] .
    have 4: "c1 c b \<noteq> GreaterThan" using comparator.cmp_trans [OF c1 ca 1] .
    show ?thesis
      using 1 2 3 4 comparator.cmp_swap [OF c1, of b a] comparator.cmp_swap [OF c1, of c b]
      by (cases "c1 a b"; cases "c1 b c") auto
  qed
  show "cmp_then c1 c2 a c \<noteq> GreaterThan"
    using t1 eq ab bc comparator.cmp_trans [OF c2, of a b c]
    by (auto simp: cmp_then_def then_with_Greater_iff)
qed

lemma comparator_on:
  assumes "comparator c"
  shows "comparator (\<lambda>a b. c (f a) (f b))"
  using assms unfolding comparator_def by blast

lemma comparator_flip:
  assumes "comparator c"
  shows "comparator (\<lambda>a b. c b a)"
  using assms unfolding comparator_def by blast

section \<open>Saturating and checked machine arithmetic\<close>

definition word_max :: "'n::len word" where
  "word_max = - 1"

definition saturating_add :: "'n::len word \<Rightarrow> 'n word \<Rightarrow> 'n word" where
  "saturating_add a b = (if unat a + unat b < 2 ^ LENGTH('n) then a + b else - 1)"

definition saturating_sub :: "'n::len word \<Rightarrow> 'n word \<Rightarrow> 'n word" where
  "saturating_sub a b = (if b \<le> a then a - b else 0)"

definition saturating_mul :: "'n::len word \<Rightarrow> 'n word \<Rightarrow> 'n word" where
  "saturating_mul a b = (if unat a * unat b < 2 ^ LENGTH('n) then a * b else - 1)"

definition checked_add :: "'n::len word \<Rightarrow> 'n word \<Rightarrow> 'n word option" where
  "checked_add a b = (if unat a + unat b < 2 ^ LENGTH('n) then Some (a + b) else None)"

lemma unat_minus_one_word: "unat (- 1 :: 'n::len word) = 2 ^ LENGTH('n) - 1"
  by (simp add: unsigned_minus_1_eq_mask mask_eq_exp_minus_1)

lemma unat_saturating_add:
  "unat (saturating_add a b :: 'n::len word) = min (unat a + unat b) (2 ^ LENGTH('n) - 1)"
  by (auto simp: saturating_add_def unat_word_ariths unat_minus_one_word)

lemma unat_saturating_sub: "unat (saturating_sub a b :: 'n::len word) = unat a - unat b"
  by (auto simp: saturating_sub_def unat_sub word_le_nat_alt)

lemma unat_saturating_mul:
  "unat (saturating_mul a b :: 'n::len word) = min (unat a * unat b) (2 ^ LENGTH('n) - 1)"
  by (auto simp: saturating_mul_def unat_word_ariths unat_minus_one_word)

end
