(* ===== verification/Hold_Error.thy ===== *)
theory Hold_Error
  imports Hold_Prelude
begin

text \<open>
  The error hierarchy of \<^verbatim>\<open>src/src/error.rs\<close>. A boxed error source
  (\<^verbatim>\<open>Box<dyn std::error::Error>\<close>) is the string it renders to; a \<^verbatim>\<open>Duration\<close> is its number of
  nanoseconds, bounded by the largest value the type holds.
\<close>

type_synonym duration = nat

text \<open>\<^verbatim>\<open>Duration::MAX\<close>: \<^verbatim>\<open>u64::MAX\<close> seconds and 999999999 nanoseconds.\<close>

definition duration_max :: duration where
  "duration_max = (2 ^ 64 - 1) * 1000000000 + 999999999"

record validation_error =
  ve_field :: string
  ve_message :: string

definition validation_error_new :: "string \<Rightarrow> string \<Rightarrow> validation_error" where
  "validation_error_new f msg = \<lparr>ve_field = f, ve_message = msg\<rparr>"

text \<open>The parse errors of the domain enums render a fixed message followed by the offending
  value in debug form; the model keeps the two parts apart.\<close>

datatype parse_enum_error = ParseEnumError (pee_message: string) (pee_value: "string option")

datatype embedding_error =
    Transient string
  | RateLimited string "duration option"
  | Permanent string
  | Disabled

fun retry_after :: "embedding_error \<Rightarrow> duration option" where
  "retry_after (RateLimited src after) = after"
| "retry_after (Transient src) = None"
| "retry_after (Permanent src) = None"
| "retry_after Disabled = None"

definition is_retryable :: "embedding_error \<Rightarrow> bool" where
  "is_retryable e = (case e of Transient _ \<Rightarrow> True | RateLimited _ _ \<Rightarrow> True | _ \<Rightarrow> False)"

datatype store_error =
    Database string
  | Serialization string
  | NotFound string
  | Conflict string
  | MigrationFailed string string

datatype engine_error =
    Config string
  | Validation validation_error
  | Store store_error
  | EmbeddingUnavailable string
  | SearchUnavailable string
  | Embedding embedding_error
  | ShuttingDown

lemma is_retryable_simps [simp]:
  "is_retryable (Transient s)"
  "is_retryable (RateLimited s d)"
  "\<not> is_retryable (Permanent s)"
  "\<not> is_retryable Disabled"
  by (simp_all add: is_retryable_def)

lemma retry_after_retryable: "retry_after e = Some d \<Longrightarrow> is_retryable e"
  by (cases e) simp_all

end
