(* ===== verification/F64.thy ===== *)
theory F64
  imports Hold_Prelude
begin

text \<open>
  IEEE-754 binary64 values as their 64-bit patterns: one sign bit, eleven exponent bits,
  fifty-two fraction bits. The predicates and comparisons the code applies to \<^verbatim>\<open>f64\<close> are defined
  on the bits, so infinities, NaNs and the two zeros are what they are in the program:
  \<^verbatim>\<open>f64::is_finite\<close>, the IEEE order behind \<open><\<close> and \<open>>\<close>, \<^verbatim>\<open>f64::total_cmp\<close>,
  \<^verbatim>\<open>f64::clamp(0.0, 1.0)\<close> and \<^verbatim>\<open>f64::max\<close>. Rounding arithmetic is not defined here; the
  definitions that add, multiply or divide take those operations as arguments.
\<close>

unbundle bit_operations_syntax

type_synonym f64 = "64 word"

definition f64_sign :: "f64 \<Rightarrow> bool" where
  "f64_sign x \<longleftrightarrow> bit x 63"

definition f64_exponent :: "f64 \<Rightarrow> f64" where
  "f64_exponent x = drop_bit 52 x AND 0x7FF"

definition f64_magnitude :: "f64 \<Rightarrow> f64" where
  "f64_magnitude x = x AND 0x7FFFFFFFFFFFFFFF"

definition f64_is_finite :: "f64 \<Rightarrow> bool" where
  "f64_is_finite x \<longleftrightarrow> f64_magnitude x < 0x7FF0000000000000"

definition f64_is_nan :: "f64 \<Rightarrow> bool" where
  "f64_is_nan x \<longleftrightarrow> 0x7FF0000000000000 < f64_magnitude x"

abbreviation f64_zero :: f64 where "f64_zero \<equiv> 0"
abbreviation f64_half :: f64 where "f64_half \<equiv> 0x3FE0000000000000"
abbreviation f64_four_fifths :: f64 where "f64_four_fifths \<equiv> 0x3FE999999999999A"
abbreviation f64_one :: f64 where "f64_one \<equiv> 0x3FF0000000000000"
abbreviation f64_ten :: f64 where "f64_ten \<equiv> 0x4024000000000000"
abbreviation f64_neg_infinity :: f64 where "f64_neg_infinity \<equiv> 0xFFF0000000000000"

text \<open>The key of a non-NaN value in the real order: the magnitude bits, negated below zero.
  Both zeros have key 0.\<close>

definition f64_key :: "f64 \<Rightarrow> int" where
  "f64_key x = (if f64_sign x then - uint (f64_magnitude x) else uint (f64_magnitude x))"

definition f64_lt :: "f64 \<Rightarrow> f64 \<Rightarrow> bool" where
  "f64_lt x y \<longleftrightarrow> \<not> f64_is_nan x \<and> \<not> f64_is_nan y \<and> f64_key x < f64_key y"

definition f64_le :: "f64 \<Rightarrow> f64 \<Rightarrow> bool" where
  "f64_le x y \<longleftrightarrow> \<not> f64_is_nan x \<and> \<not> f64_is_nan y \<and> f64_key x \<le> f64_key y"

text \<open>\<^verbatim>\<open>f64::total_cmp\<close>: the bits as a two's complement integer, with the magnitude bits of
  negative values flipped.\<close>

definition f64_total_key :: "f64 \<Rightarrow> int" where
  "f64_total_key x = sint (if f64_sign x then x XOR 0x7FFFFFFFFFFFFFFF else x)"

definition f64_total_cmp :: "f64 \<Rightarrow> f64 \<Rightarrow> ordering" where
  "f64_total_cmp x y = cmp_ord (f64_total_key x) (f64_total_key y)"

text \<open>\<^verbatim>\<open>value.clamp(0.0, 1.0)\<close> on a value that is not NaN.\<close>

definition f64_clamp01 :: "f64 \<Rightarrow> f64" where
  "f64_clamp01 x = (if f64_lt x f64_zero then f64_zero else if f64_lt f64_one x then f64_one else x)"

text \<open>\<^verbatim>\<open>f64::max\<close>: the other operand when one is NaN.\<close>

definition f64_max :: "f64 \<Rightarrow> f64 \<Rightarrow> f64" where
  "f64_max x y = (if f64_is_nan x then y else if f64_is_nan y then x else if f64_lt x y then y else x)"

lemma f64_is_finite_not_nan: "f64_is_finite x \<Longrightarrow> \<not> f64_is_nan x"
  by (auto simp: f64_is_finite_def f64_is_nan_def)

lemma f64_total_key_inj: "f64_total_key x = f64_total_key y \<Longrightarrow> x = y"
proof -
  have sgn: "bit (x XOR 0x7FFFFFFFFFFFFFFF :: f64) 63 = bit x 63" for x :: f64
    by (simp add: bit_xor_iff)
  assume "f64_total_key x = f64_total_key y"
  then have eq: "(if f64_sign x then x XOR 0x7FFFFFFFFFFFFFFF else x) =
      (if f64_sign y then y XOR 0x7FFFFFFFFFFFFFFF else y)"
    unfolding f64_total_key_def by (rule signed_word_eqI)
  then have "f64_sign x = f64_sign y"
    using sgn [of x] sgn [of y] by (auto simp: f64_sign_def split: if_splits)
  with eq have "x = y \<or> x XOR 0x7FFFFFFFFFFFFFFF = y XOR 0x7FFFFFFFFFFFFFFF"
    by (auto split: if_splits)
  then show "x = y"
    by (metis bit.xor_left_self xor.commute)
qed

interpretation f64_cmp: strict_comparator f64_total_cmp
proof (unfold_locales, goal_cases)
  case (1 b a)
  then show ?case by (simp add: f64_total_cmp_def ord_cmp.cmp_swap [of "f64_total_key b"])
next
  case (2 a b c)
  then show ?case unfolding f64_total_cmp_def by (rule ord_cmp.cmp_trans)
next
  case (3 a b)
  then show ?case unfolding f64_total_cmp_def
    by (intro f64_total_key_inj, intro ord_cmp.cmp_eq)
qed

lemma f64_constants [simp]:
  "\<not> f64_is_nan f64_zero" "\<not> f64_is_nan f64_one" "f64_key f64_zero = 0" "f64_key f64_one = 0x3FF0000000000000"
  by code_simp+

lemma f64_clamp01_le:
  assumes "f64_is_finite x"
  shows "f64_le f64_zero (f64_clamp01 x) \<and> f64_le (f64_clamp01 x) f64_one"
  using f64_is_finite_not_nan [OF assms]
  by (simp add: f64_clamp01_def f64_le_def f64_lt_def not_less)

text \<open>Clamping leaves a value of the unit interval alone, bit for bit.\<close>

lemma f64_clamp01_id: "f64_le f64_zero x \<Longrightarrow> f64_le x f64_one \<Longrightarrow> f64_clamp01 x = x"
  by (auto simp: f64_clamp01_def f64_le_def f64_lt_def)

end
