(* ===== verification/Hold_Types.thy ===== *)
theory Hold_Types
  imports Hold_Error F64
begin

text \<open>
  The domain types of \<^verbatim>\<open>src/src/types.rs\<close>: identifiers, enums with their textual forms,
  memories, provenance, access policies and the rules that decide what a caller may see and
  change.

  Two interfaces are stated as locales. \<open>parse_print\<close> is the contract of a type with
  \<^verbatim>\<open>Display\<close> and \<^verbatim>\<open>FromStr\<close>; \<open>trimmed_newtype\<close> is the contract of the validated string
  newtypes. Each is interpreted on every type of this theory that has it.
\<close>

section \<open>Textual forms\<close>

locale parse_print =
  fixes show_t :: "'a \<Rightarrow> string"
    and parse_t :: "string \<Rightarrow> 'e + 'a"
  assumes parse_show: "parse_t (show_t x) = Inr x"
begin

lemma show_inj: "show_t x = show_t y \<Longrightarrow> x = y"
  by (metis parse_show sum.inject(2))

lemma show_not_rejected: "parse_t s = Inl e \<Longrightarrow> s \<noteq> show_t x"
  by (auto simp: parse_show)

end

locale exact_parse_print = parse_print +
  assumes show_parse: "parse_t s = Inr x \<Longrightarrow> show_t x = s"
begin

lemma parse_iff: "parse_t s = Inr x \<longleftrightarrow> show_t x = s"
  using parse_show show_parse by blast

lemma parse_domain: "(\<exists>x. parse_t s = Inr x) \<longleftrightarrow> s \<in> range show_t"
  by (auto simp: parse_iff)

end

text \<open>A string newtype whose constructor trims and rejects blank input.\<close>

locale trimmed_newtype =
  fixes new_t :: "string \<Rightarrow> 'a option"
    and str_t :: "'a \<Rightarrow> string"
    and try_from_t :: "string \<Rightarrow> 'e + 'a"
  assumes new_Some: "new_t s = Some x \<Longrightarrow> str_t x = trim s \<and> \<not> blank s"
    and new_None: "new_t s = None \<longleftrightarrow> blank s"
    and str_inj: "str_t x = str_t y \<Longrightarrow> x = y"
    and try_from_iff: "try_from_t s = Inr x \<longleftrightarrow> new_t s = Some x"
begin

lemma new_trimmed: "new_t s = Some x \<Longrightarrow> trim (str_t x) = str_t x \<and> str_t x \<noteq> []"
  using new_Some [of s x] by (auto simp: blank_def)

text \<open>Serialising a value (\<^verbatim>\<open>into = "String"\<close>) and reading it back gives the value.\<close>

lemma new_roundtrip:
  assumes "new_t s = Some x"
  shows "new_t (str_t x) = Some x" and "try_from_t (str_t x) = Inr x"
proof -
  from new_Some [OF assms] have str: "str_t x = trim s" and nb: "\<not> blank s" by auto
  have "new_t (str_t x) \<noteq> None" by (simp add: new_None str nb)
  then obtain y where y: "new_t (str_t x) = Some y" by blast
  from new_Some [OF y] str have "str_t y = str_t x" by simp
  with y show new: "new_t (str_t x) = Some x" by (auto dest: str_inj)
  then show "try_from_t (str_t x) = Inr x" by (simp add: try_from_iff)
qed

end

subsection \<open>Memory types\<close>

datatype memory_type = MemSemantic | MemEpisodic | MemProcedural

definition memory_type_default :: memory_type where
  "memory_type_default = MemSemantic"

fun memory_type_to_string :: "memory_type \<Rightarrow> string" where
  "memory_type_to_string MemSemantic = ''semantic''"
| "memory_type_to_string MemEpisodic = ''episodic''"
| "memory_type_to_string MemProcedural = ''procedural''"

definition memory_type_from_str :: "string \<Rightarrow> parse_enum_error + memory_type" where
  "memory_type_from_str s =
     (if s = ''semantic'' then Inr MemSemantic
      else if s = ''episodic'' then Inr MemEpisodic
      else if s = ''procedural'' then Inr MemProcedural
      else Inl (ParseEnumError ''unknown memory type: '' (Some s)))"

interpretation memory_type_text: exact_parse_print memory_type_to_string memory_type_from_str
proof (unfold_locales, goal_cases)
  case (1 x)
  then show ?case by (cases x) (simp_all add: memory_type_from_str_def)
next
  case (2 s x)
  then show ?case by (auto simp: memory_type_from_str_def split: if_splits)
qed

text \<open>The derived order follows the declaration.\<close>

instantiation memory_type :: linorder
begin

definition rank_memory_type :: "memory_type \<Rightarrow> nat" where
  "rank_memory_type m = (case m of MemSemantic \<Rightarrow> 0 | MemEpisodic \<Rightarrow> 1 | MemProcedural \<Rightarrow> 2)"

definition less_eq_memory_type :: "memory_type \<Rightarrow> memory_type \<Rightarrow> bool" where
  "less_eq_memory_type a b \<longleftrightarrow> rank_memory_type a \<le> rank_memory_type b"

definition less_memory_type :: "memory_type \<Rightarrow> memory_type \<Rightarrow> bool" where
  "less_memory_type a b \<longleftrightarrow> rank_memory_type a < rank_memory_type b"

instance
proof
  fix x y :: memory_type
  assume "x \<le> y" "y \<le> x"
  then show "x = y"
    by (cases x; cases y) (simp_all add: less_eq_memory_type_def rank_memory_type_def)
qed (auto simp: less_eq_memory_type_def less_memory_type_def)

end

subsection \<open>Validated identifiers\<close>

datatype agent_id = AgentId (agent_id_str: string)

definition agent_id_new :: "string \<Rightarrow> agent_id option" where
  "agent_id_new s = (let trimmed = trim s in if trimmed = [] then None else Some (AgentId trimmed))"

definition agent_id_try_from :: "string \<Rightarrow> parse_enum_error + agent_id" where
  "agent_id_try_from s =
     (case agent_id_new s of Some x \<Rightarrow> Inr x
      | None \<Rightarrow> Inl (ParseEnumError ''agent ID cannot be blank'' None))"

datatype conversation_key = ConversationKey (conversation_key_str: string)

definition conversation_key_new :: "string \<Rightarrow> conversation_key option" where
  "conversation_key_new s =
     (let trimmed = trim s in if trimmed = [] then None else Some (ConversationKey trimmed))"

definition conversation_key_try_from :: "string \<Rightarrow> parse_enum_error + conversation_key" where
  "conversation_key_try_from s =
     (case conversation_key_new s of Some x \<Rightarrow> Inr x
      | None \<Rightarrow> Inl (ParseEnumError ''conversation key cannot be blank'' None))"

datatype entity_type = EntityType (entity_type_str: string)

definition entity_type_new :: "string \<Rightarrow> entity_type option" where
  "entity_type_new s = (let trimmed = trim s in if trimmed = [] then None else Some (EntityType trimmed))"

definition entity_type_try_from :: "string \<Rightarrow> parse_enum_error + entity_type" where
  "entity_type_try_from s =
     (case entity_type_new s of Some x \<Rightarrow> Inr x
      | None \<Rightarrow> Inl (ParseEnumError ''entity type cannot be blank'' None))"

lemmas newtype_defs =
  agent_id_new_def agent_id_try_from_def conversation_key_new_def conversation_key_try_from_def
  entity_type_new_def entity_type_try_from_def

interpretation agent_id_nt: trimmed_newtype agent_id_new agent_id_str agent_id_try_from
  by unfold_locales
    (auto simp: newtype_defs blank_def Let_def split: if_splits option.splits intro: agent_id.expand)

interpretation conversation_key_nt:
  trimmed_newtype conversation_key_new conversation_key_str conversation_key_try_from
  by unfold_locales
    (auto simp: newtype_defs blank_def Let_def split: if_splits option.splits intro: conversation_key.expand)

interpretation entity_type_nt: trimmed_newtype entity_type_new entity_type_str entity_type_try_from
  by unfold_locales
    (auto simp: newtype_defs blank_def Let_def split: if_splits option.splits intro: entity_type.expand)

subsection \<open>Search modes\<close>

datatype search_mode = ModeAuto | ModeSemantic | ModeText | ModeKeyword | ModeHybrid

fun search_mode_to_string :: "search_mode \<Rightarrow> string" where
  "search_mode_to_string ModeAuto = ''auto''"
| "search_mode_to_string ModeSemantic = ''semantic''"
| "search_mode_to_string ModeText = ''text''"
| "search_mode_to_string ModeKeyword = ''keyword''"
| "search_mode_to_string ModeHybrid = ''hybrid''"

definition search_mode_from_str :: "string \<Rightarrow> parse_enum_error + search_mode" where
  "search_mode_from_str s =
     (let t = trim s in
      if t = ''auto'' \<or> t = [] then Inr ModeAuto
      else if t = ''semantic'' then Inr ModeSemantic
      else if t = ''text'' then Inr ModeText
      else if t = ''keyword'' then Inr ModeKeyword
      else if t = ''hybrid'' then Inr ModeHybrid
      else Inl (ParseEnumError ''unknown search mode: '' (Some t)))"

lemma trim_search_mode_to_string: "trim (search_mode_to_string m) = search_mode_to_string m"
  by (rule trim_graphic; cases m; simp add: graphic_def byte_def)

interpretation search_mode_text: parse_print search_mode_to_string search_mode_from_str
proof (unfold_locales, goal_cases)
  case (1 x)
  then show ?case
    using trim_search_mode_to_string [of x] by (cases x) (simp_all add: search_mode_from_str_def)
qed

subsection \<open>Entities, importance and confidence\<close>

record entity =
  e_name :: string
  e_type :: entity_type

text \<open>Scores are the bit patterns of \<^verbatim>\<open>f64\<close> values.\<close>

definition clamp_importance :: "f64 \<Rightarrow> f64" where
  "clamp_importance v = (if \<not> f64_is_finite v then f64_half else f64_clamp01 v)"

datatype importance = Importance (importance_value: f64)

definition importance_default :: importance where
  "importance_default = Importance f64_half"

definition importance_new :: "f64 \<Rightarrow> importance" where
  "importance_new v = Importance (clamp_importance v)"

datatype confidence = Confidence (confidence_value: f64)

definition confidence_default :: confidence where
  "confidence_default = Confidence f64_four_fifths"

definition confidence_new :: "f64 \<Rightarrow> confidence" where
  "confidence_new v =
     (if \<not> f64_is_finite v then confidence_default
      else Confidence (if f64_lt v f64_zero then f64_zero
                       else if f64_lt f64_one v then f64_one else v))"

definition in_unit :: "f64 \<Rightarrow> bool" where
  "in_unit v \<longleftrightarrow> f64_le f64_zero v \<and> f64_le v f64_one"

lemma in_unit_defaults [simp]: "in_unit f64_half" "in_unit f64_four_fifths"
  by code_simp+

lemma in_unit_new:
  "in_unit (importance_value (importance_new v))" "in_unit (confidence_value (confidence_new v))"
  using f64_clamp01_le [of v]
  by (simp_all add: importance_new_def clamp_importance_def confidence_new_def confidence_default_def
      in_unit_def [symmetric] flip: f64_clamp01_def)

section \<open>Memories\<close>

type_synonym memory_id = ulid

record provenance =
  p_source_agent :: "string option"
  p_source_conversation :: "string option"
  p_origin_conversation :: "string option"
  p_source_user :: "string option"

definition provenance_default :: provenance where
  "provenance_default =
     \<lparr>p_source_agent = None, p_source_conversation = None, p_origin_conversation = None, p_source_user = None\<rparr>"

datatype redactable_field =
    FieldContent | FieldTags | FieldProvenance | FieldEntities | FieldImportance | FieldExpiresAt
  | FieldUnknown string

fun redactable_field_to_string :: "redactable_field \<Rightarrow> string" where
  "redactable_field_to_string FieldContent = ''content''"
| "redactable_field_to_string FieldTags = ''tags''"
| "redactable_field_to_string FieldProvenance = ''provenance''"
| "redactable_field_to_string FieldEntities = ''entities''"
| "redactable_field_to_string FieldImportance = ''importance''"
| "redactable_field_to_string FieldExpiresAt = ''expires_at''"
| "redactable_field_to_string (FieldUnknown s) = s"

definition redactable_field_from_str :: "string \<Rightarrow> redactable_field" where
  "redactable_field_from_str s =
     (if s = ''content'' then FieldContent
      else if s = ''tags'' then FieldTags
      else if s = ''provenance'' then FieldProvenance
      else if s = ''entities'' then FieldEntities
      else if s = ''importance'' then FieldImportance
      else if s = ''expires_at'' then FieldExpiresAt
      else FieldUnknown s)"

datatype access_policy =
    Public
  | Restricted "string list"
  | Redacted "redactable_field list"

fun access_policy_to_string :: "access_policy \<Rightarrow> string" where
  "access_policy_to_string Public = ''public''"
| "access_policy_to_string (Restricted allowed) = ''restricted''"
| "access_policy_to_string (Redacted visible_fields) = ''redacted''"

datatype access_level = LevelFull | LevelRedacted | LevelDenied

fun access_level_to_string :: "access_level \<Rightarrow> string" where
  "access_level_to_string LevelFull = ''full''"
| "access_level_to_string LevelRedacted = ''redacted''"
| "access_level_to_string LevelDenied = ''denied''"

record memory =
  m_id :: memory_id
  m_content :: string
  m_tags :: "string list"
  m_provenance :: provenance
  m_access_policy :: access_policy
  m_created_at :: datetime
  m_updated_at :: datetime
  m_record_revision :: int
  m_expires_at :: "datetime option"
  m_has_embedding :: bool
  m_memory_type :: memory_type
  m_importance :: importance
  m_confidence :: confidence
  m_impression_count :: u64
  m_last_impressed_at :: "datetime option"
  m_superseded_by :: "memory_id option"
  m_activity_mass :: f64
  m_last_used_at :: "datetime option"
  m_entities :: "entity list"
  m_was_redacted :: bool

subsection \<open>Who may see and change a memory\<close>

text \<open>\<^verbatim>\<open>caller.filter(|s| !s.trim().is_empty())\<close>: a blank caller is no caller.\<close>

definition normalize_caller :: "string option \<Rightarrow> string option" where
  "normalize_caller caller =
     (case caller of None \<Rightarrow> None | Some s \<Rightarrow> if trim s = [] then None else Some s)"

definition check_access_level :: "memory \<Rightarrow> string option \<Rightarrow> access_level" where
  "check_access_level m c =
     (let caller = normalize_caller c in
      case m_access_policy m of
        Public \<Rightarrow> LevelFull
      | Restricted allowed \<Rightarrow>
          (case caller of
             None \<Rightarrow> LevelDenied
           | Some who \<Rightarrow>
               if p_source_agent (m_provenance m) = Some who \<or> who \<in> set allowed
               then LevelFull else LevelDenied)
      | Redacted _ \<Rightarrow>
          (case caller of
             None \<Rightarrow> LevelDenied
           | Some who \<Rightarrow>
               if p_source_agent (m_provenance m) = Some who then LevelFull else LevelRedacted))"

definition field_visible_in_view :: "memory \<Rightarrow> redactable_field \<Rightarrow> bool" where
  "field_visible_in_view m field =
     (if \<not> m_was_redacted m then True
      else (case m_access_policy m of
              Redacted visible_fields \<Rightarrow> field \<in> set visible_fields
            | Public \<Rightarrow> True
            | Restricted _ \<Rightarrow> True))"

definition content_searchable_by :: "memory \<Rightarrow> string option \<Rightarrow> bool" where
  "content_searchable_by m caller =
     (case check_access_level m caller of
        LevelFull \<Rightarrow> True
      | LevelRedacted \<Rightarrow>
          (case m_access_policy m of
             Redacted visible_fields \<Rightarrow> FieldContent \<in> set visible_fields
           | Public \<Rightarrow> False
           | Restricted _ \<Rightarrow> False)
      | LevelDenied \<Rightarrow> False)"

definition write_access_allowed :: "provenance \<Rightarrow> access_policy \<Rightarrow> string \<Rightarrow> bool" where
  "write_access_allowed prov policy caller =
     (let owner = p_source_agent prov; is_owner = (owner = Some caller) in
      case policy of
        Public \<Rightarrow> owner = None \<or> is_owner
      | Redacted _ \<Rightarrow> is_owner
      | Restricted allowed \<Rightarrow> is_owner \<or> caller \<in> set allowed)"

definition has_write_access :: "memory \<Rightarrow> string \<Rightarrow> bool" where
  "has_write_access m caller = write_access_allowed (m_provenance m) (m_access_policy m) caller"

definition optimistic_revision :: "memory \<Rightarrow> int option" where
  "optimistic_revision m = (if m_was_redacted m then None else Some (m_record_revision m))"

definition redacted :: "memory \<Rightarrow> memory" where
  "redacted m =
     (let visible = (case m_access_policy m of
                       Redacted visible_fields \<Rightarrow> visible_fields
                     | Public \<Rightarrow> []
                     | Restricted _ \<Rightarrow> []);
          has_field = (\<lambda>field. field \<in> set visible)
      in m\<lparr>m_content := if has_field FieldContent then m_content m else ''[redacted]'',
           m_tags := if has_field FieldTags then m_tags m else [],
           m_provenance := if has_field FieldProvenance then m_provenance m else provenance_default,
           m_expires_at := if has_field FieldExpiresAt then m_expires_at m else None,
           m_entities := if has_field FieldEntities then m_entities m else [],
           m_record_revision := 0,
           m_impression_count := 0,
           m_last_impressed_at := None,
           m_was_redacted := True\<rparr>)"

definition sanitize_for_wire :: "memory \<Rightarrow> memory" where
  "sanitize_for_wire m =
     (if m_was_redacted m
      then m\<lparr>m_updated_at := m_created_at m,
             m_confidence := confidence_default,
             m_superseded_by := None,
             m_activity_mass := f64_zero,
             m_last_used_at := None\<rparr>
      else m)"

definition apply_access_policy :: "memory \<Rightarrow> string option \<Rightarrow> memory option" where
  "apply_access_policy m caller =
     (case check_access_level m caller of
        LevelFull \<Rightarrow> Some m
      | LevelRedacted \<Rightarrow> Some (redacted m)
      | LevelDenied \<Rightarrow> None)"

subsection \<open>Tombstones\<close>

record memory_tombstone =
  t_memory_id :: memory_id
  t_provenance :: provenance
  t_access_policy :: access_policy
  t_deleted_at :: datetime
  t_deleted_by_principal :: "string option"

definition tombstone_from_memory :: "memory \<Rightarrow> datetime \<Rightarrow> string option \<Rightarrow> memory_tombstone" where
  "tombstone_from_memory m deleted_at deleted_by =
     \<lparr>t_memory_id = m_id m, t_provenance = m_provenance m, t_access_policy = m_access_policy m,
      t_deleted_at = deleted_at, t_deleted_by_principal = deleted_by\<rparr>"

definition tombstone_check_access_level :: "memory_tombstone \<Rightarrow> string option \<Rightarrow> access_level" where
  "tombstone_check_access_level t c =
     (let caller = normalize_caller c in
      case t_access_policy t of
        Public \<Rightarrow> LevelFull
      | Restricted allowed \<Rightarrow>
          (case caller of
             None \<Rightarrow> LevelDenied
           | Some who \<Rightarrow>
               if p_source_agent (t_provenance t) = Some who \<or> who \<in> set allowed
               then LevelFull else LevelDenied)
      | Redacted _ \<Rightarrow>
          (case caller of
             None \<Rightarrow> LevelDenied
           | Some who \<Rightarrow>
               if p_source_agent (t_provenance t) = Some who then LevelFull else LevelRedacted))"

subsection \<open>Audit actions and write outcomes\<close>

datatype audit_action =
    AuditStore | AuditUpdate | AuditDelete | AuditSupersede
  | AuditBulkDelete | AuditBulkUpdate | AuditConsolidate | AuditReassign

fun audit_action_to_string :: "audit_action \<Rightarrow> string" where
  "audit_action_to_string AuditStore = ''store''"
| "audit_action_to_string AuditUpdate = ''update''"
| "audit_action_to_string AuditDelete = ''delete''"
| "audit_action_to_string AuditSupersede = ''supersede''"
| "audit_action_to_string AuditBulkDelete = ''bulk_delete''"
| "audit_action_to_string AuditBulkUpdate = ''bulk_update''"
| "audit_action_to_string AuditConsolidate = ''consolidate''"
| "audit_action_to_string AuditReassign = ''reassign''"

definition audit_action_from_str :: "string \<Rightarrow> parse_enum_error + audit_action" where
  "audit_action_from_str s =
     (if s = ''store'' then Inr AuditStore
      else if s = ''update'' then Inr AuditUpdate
      else if s = ''delete'' then Inr AuditDelete
      else if s = ''supersede'' then Inr AuditSupersede
      else if s = ''bulk_delete'' then Inr AuditBulkDelete
      else if s = ''bulk_update'' then Inr AuditBulkUpdate
      else if s = ''consolidate'' then Inr AuditConsolidate
      else if s = ''reassign'' then Inr AuditReassign
      else Inl (ParseEnumError ''unknown audit action: '' (Some s)))"

datatype write_outcome = Applied | OutcomeNotFound | OutcomeDenied

fun write_outcome_to_string :: "write_outcome \<Rightarrow> string" where
  "write_outcome_to_string Applied = ''applied''"
| "write_outcome_to_string OutcomeNotFound = ''not_found''"
| "write_outcome_to_string OutcomeDenied = ''denied''"

interpretation audit_action_text: exact_parse_print audit_action_to_string audit_action_from_str
proof (unfold_locales, goal_cases)
  case (1 x)
  then show ?case by (cases x) (simp_all add: audit_action_from_str_def)
next
  case (2 s x)
  then show ?case by (auto simp: audit_action_from_str_def split: if_splits)
qed

section \<open>Properties\<close>

subsection \<open>Confidentiality of redacted views\<close>

text \<open>The parts of a memory a redacted view may show: the always-visible fields and the redactable
  fields the policy lists.\<close>

definition same_visible :: "redactable_field list \<Rightarrow> memory \<Rightarrow> memory \<Rightarrow> bool" where
  "same_visible visible m m' \<longleftrightarrow>
     m_id m = m_id m' \<and> m_access_policy m = m_access_policy m' \<and> m_created_at m = m_created_at m' \<and>
     m_has_embedding m = m_has_embedding m' \<and> m_memory_type m = m_memory_type m' \<and>
     m_importance m = m_importance m' \<and>
     (FieldContent \<in> set visible \<longrightarrow> m_content m = m_content m') \<and>
     (FieldTags \<in> set visible \<longrightarrow> m_tags m = m_tags m') \<and>
     (FieldProvenance \<in> set visible \<longrightarrow> m_provenance m = m_provenance m') \<and>
     (FieldExpiresAt \<in> set visible \<longrightarrow> m_expires_at m = m_expires_at m') \<and>
     (FieldEntities \<in> set visible \<longrightarrow> m_entities m = m_entities m')"

definition owned_by :: "memory \<Rightarrow> string option \<Rightarrow> bool" where
  "owned_by m caller \<longleftrightarrow> caller \<noteq> None \<and> p_source_agent (m_provenance m) = caller"

text \<open>What leaves the server for a caller: the access policy, then the wire sanitiser.\<close>

definition wire_view :: "memory \<Rightarrow> string option \<Rightarrow> memory option" where
  "wire_view m caller = map_option sanitize_for_wire (apply_access_policy m caller)"

lemma normalize_caller_simps [simp]:
  "normalize_caller None = None"
  "normalize_caller (Some who) = (if blank who then None else Some who)"
  by (simp_all add: normalize_caller_def blank_def)

lemma check_access_level_Redacted:
  assumes "m_access_policy m = Redacted visible" and "\<not> owned_by m caller"
  shows "check_access_level m caller = (if normalize_caller caller = None then LevelDenied else LevelRedacted)"
  using assms
  by (cases caller) (auto simp: check_access_level_def owned_by_def Let_def)

lemma redacted_sanitized_eq:
  assumes "m_access_policy m = Redacted visible" and "same_visible visible m m'"
  shows "sanitize_for_wire (redacted m) = sanitize_for_wire (redacted m')"
  using assms
  by (cases m; cases m')
    (simp add: same_visible_def redacted_def sanitize_for_wire_def Let_def cong del: if_weak_cong)

text \<open>Claim C1. Redaction is non-interfering: when the policy of a memory is \<^verbatim>\<open>Redacted\<close> and the
  caller owns neither of two memories that agree on the always-visible fields and on the fields the
  policy lists, the two wire views are equal. Hidden content, tags, provenance, expiry, entities,
  revisions, usage and supersession data cannot be told apart from outside.\<close>

theorem redaction_noninterference:
  assumes policy: "m_access_policy m = Redacted visible"
    and same: "same_visible visible m m'"
    and m: "\<not> owned_by m caller" and m': "\<not> owned_by m' caller"
  shows "wire_view m caller = wire_view m' caller"
proof -
  from policy same have policy': "m_access_policy m' = Redacted visible"
    by (simp add: same_visible_def)
  show ?thesis
    using check_access_level_Redacted [OF policy m] check_access_level_Redacted [OF policy' m']
      redacted_sanitized_eq [OF policy same]
    by (simp add: wire_view_def apply_access_policy_def)
qed

text \<open>Write access implies full read access for every caller that names itself: a caller
  with a non-blank name that may change a memory also reads it unredacted.\<close>

lemma write_access_implies_full_read:
  assumes "has_write_access m who" and "\<not> blank who"
  shows "check_access_level m (Some who) = LevelFull"
  using assms
  by (cases "m_access_policy m")
    (auto simp: has_write_access_def write_access_allowed_def check_access_level_def Let_def)

text \<open>Deleting a memory does not change who may see it: the tombstone of a memory grants
  every caller exactly the access level the live memory granted.\<close>

lemma tombstone_preserves_access_level:
  "tombstone_check_access_level (tombstone_from_memory m at who) caller = check_access_level m caller"
  by (cases "m_access_policy m"; cases caller)
    (simp_all add: tombstone_check_access_level_def check_access_level_def tombstone_from_memory_def Let_def)

text \<open>Content-derived retrieval leaks no hidden content: for a stored (unredacted) memory,
  a caller may match on the content exactly when the caller's own view shows the content field, and
  then the view carries the stored content unchanged.\<close>

lemma content_searchable_iff_visible:
  assumes "\<not> m_was_redacted m"
  shows "content_searchable_by m caller \<longleftrightarrow>
    (\<exists>v. apply_access_policy m caller = Some v \<and> field_visible_in_view v FieldContent \<and>
         m_content v = m_content m)"
  using assms
  by (cases "m_access_policy m")
    (auto simp: content_searchable_by_def apply_access_policy_def field_visible_in_view_def
      check_access_level_def redacted_def Let_def split: option.splits if_splits)

subsection \<open>Textual and numeric types\<close>

text \<open>Field names of a redaction policy survive storage: rendering a parsed name gives the
  name back for every string, and parsing a rendered field gives the field back for every field
  that parsing can produce.\<close>

lemma redactable_field_roundtrip:
  "redactable_field_to_string (redactable_field_from_str s) = s \<and>
   redactable_field_from_str (redactable_field_to_string (redactable_field_from_str s)) =
     redactable_field_from_str s"
  by (simp add: redactable_field_from_str_def)

text \<open>Importance and confidence scores are in the unit interval for every one of the
  \<open>2 ^ 64\<close> bit patterns they can be built from, infinities and NaNs included, and a value that
  already lies there is kept bit for bit.\<close>

lemma scores_in_unit_interval:
  "in_unit (importance_value (importance_new v)) \<and> in_unit (confidence_value (confidence_new v)) \<and>
   (in_unit v \<and> f64_is_finite v \<longrightarrow>
      importance_new v = Importance v \<and> confidence_new v = Confidence v)"
proof (intro conjI impI)
  show "in_unit (importance_value (importance_new v))" "in_unit (confidence_value (confidence_new v))"
    by (rule in_unit_new)+
next
  assume v: "in_unit v \<and> f64_is_finite v"
  then have id: "f64_clamp01 v = v" by (simp add: in_unit_def f64_clamp01_id)
  show "importance_new v = Importance v"
    using v id by (simp add: importance_new_def clamp_importance_def)
  show "confidence_new v = Confidence v"
    using v id by (simp add: confidence_new_def flip: f64_clamp01_def)
qed

text \<open>An agent identifier is trimmed and non-blank, and serialising it and reading it back
  yields the same identifier.\<close>

lemma agent_id_roundtrip:
  assumes "agent_id_new s = Some x"
  shows "trim (agent_id_str x) = agent_id_str x \<and> agent_id_str x \<noteq> [] \<and>
    agent_id_try_from (agent_id_str x) = Inr x"
  using agent_id_nt.new_trimmed [OF assms] agent_id_nt.new_roundtrip(2) [OF assms] by simp

section \<open>Witnesses\<close>

definition sample_memory :: memory where
  "sample_memory =
     \<lparr>m_id = 7, m_content = ''secret plan'', m_tags = [''ops''],
      m_provenance = provenance_default\<lparr>p_source_agent := Some ''alice''\<rparr>,
      m_access_policy = Redacted [FieldTags], m_created_at = 100, m_updated_at = 250,
      m_record_revision = 3, m_expires_at = None, m_has_embedding = True,
      m_memory_type = MemEpisodic, m_importance = importance_default,
      m_confidence = confidence_default, m_impression_count = 4, m_last_impressed_at = None,
      m_superseded_by = None, m_activity_mass = f64_one, m_last_used_at = Some 240,
      m_entities = [], m_was_redacted = False\<rparr>"

lemma trim_bob: "trim ''bob'' = ''bob''"
  by (rule trim_graphic) (simp_all add: graphic_def byte_def)

theorem redaction_noninterference_witness:
  "wire_view sample_memory (Some ''bob'') =
   wire_view (sample_memory\<lparr>m_content := ''other'', m_updated_at := 999, m_superseded_by := Some 8\<rparr>) (Some ''bob'')"
  by (rule redaction_noninterference [of _ "[FieldTags]"])
    (simp_all add: sample_memory_def same_visible_def owned_by_def provenance_default_def)

end
