(* ===== verification/Validation.thy ===== *)
theory Validation
  imports Hold_Types
begin

text \<open>
  Input validation and normalisation, \<^verbatim>\<open>src/src/validation.rs\<close>. Every rejection is the
  \<^verbatim>\<open>ValidationError\<close> the code builds, field and message. The two functions of the \<^verbatim>\<open>chrono\<close> crate
  that the expiry computation calls are arguments of \<open>ttl_seconds_to_expiry\<close>.
\<close>

abbreviation v_err :: "string \<Rightarrow> string \<Rightarrow> validation_error + 'a" where
  "v_err f msg \<equiv> Inl (validation_error_new f msg)"

definition ttl_seconds_to_expiry ::
  "(int \<Rightarrow> 'delta option) \<Rightarrow> (datetime \<Rightarrow> 'delta \<Rightarrow> datetime option) \<Rightarrow>
   u64 \<Rightarrow> datetime \<Rightarrow> validation_error + datetime" where
  "ttl_seconds_to_expiry try_seconds checked_add_signed ttl_seconds now =
     (if uint ttl_seconds > 2 ^ 63 - 1
      then v_err ''ttl_seconds'' ''value is too large: out of range integral type conversion attempted''
      else (case try_seconds (uint ttl_seconds) of
              None \<Rightarrow> v_err ''ttl_seconds'' ''value is out of range''
            | Some duration \<Rightarrow>
                (case checked_add_signed now duration of
                   None \<Rightarrow> v_err ''ttl_seconds'' ''value causes timestamp overflow''
                 | Some t \<Rightarrow> Inr t)))"

definition validate_optional_non_empty :: "string \<Rightarrow> string option \<Rightarrow> validation_error + unit" where
  "validate_optional_non_empty field_name value =
     (if (case value of None \<Rightarrow> False | Some s \<Rightarrow> trim s = [])
      then v_err field_name ''cannot be empty when provided'' else Inr ())"

definition validate_optional_string_array :: "string \<Rightarrow> string list option \<Rightarrow> validation_error + unit" where
  "validate_optional_string_array field_name values =
     (if (case values of None \<Rightarrow> False | Some items \<Rightarrow> list_ex (\<lambda>item. trim item = []) items)
      then v_err field_name ''cannot contain empty values'' else Inr ())"

definition validate_string_array :: "string \<Rightarrow> string list \<Rightarrow> validation_error + unit" where
  "validate_string_array field_name values = validate_optional_string_array field_name (Some values)"

definition normalize_optional_non_empty ::
  "string \<Rightarrow> string option \<Rightarrow> validation_error + string option" where
  "normalize_optional_non_empty field_name value =
     result_bind (validate_optional_non_empty field_name value)
       (\<lambda>_. Inr (map_option (\<lambda>v. if length (trim v) = length v then v else trim v) value))"

definition normalize_non_empty :: "string \<Rightarrow> string \<Rightarrow> validation_error + string" where
  "normalize_non_empty field_name value =
     result_bind (validate_optional_non_empty field_name (Some value))
       (\<lambda>_. let trimmed = trim value in
            if length trimmed = length value then Inr value else Inr trimmed)"

definition validate_content_length :: "string \<Rightarrow> nat \<Rightarrow> validation_error + unit" where
  "validate_content_length content max_content_length =
     (if length content > max_content_length
      then v_err ''content'' (''exceeds maximum length of '' @ show_nat max_content_length @
             '' bytes (got '' @ show_nat (length content) @ '')'')
      else Inr ())"

definition validate_batch_len :: "string \<Rightarrow> nat \<Rightarrow> nat \<Rightarrow> validation_error + unit" where
  "validate_batch_len field_name len max_batch_size =
     (if len = 0 then v_err field_name ''cannot be empty''
      else if len > max_batch_size
      then v_err field_name (''exceeds maximum batch size of '' @ show_nat max_batch_size)
      else Inr ())"

definition validate_tags :: "string \<Rightarrow> string list \<Rightarrow> nat \<Rightarrow> nat \<Rightarrow> validation_error + unit" where
  "validate_tags field_name tags max_tags max_tag_length =
     (if length tags > max_tags
      then v_err field_name (''exceeds maximum of '' @ show_nat max_tags @ '' tags (got '' @
             show_nat (length tags) @ '')'')
      else try_for_each (\<lambda>tag.
        if length tag > max_tag_length
        then v_err field_name (''contains a tag exceeding maximum length of '' @ show_nat max_tag_length @
               '' bytes (got '' @ show_nat (length tag) @ '')'')
        else Inr ()) tags)"

definition normalize_optional_string_array ::
  "string \<Rightarrow> string list option \<Rightarrow> validation_error + string list option" where
  "normalize_optional_string_array field_name values =
     result_bind (validate_optional_string_array field_name values)
       (\<lambda>_. Inr (map_option (map trim) values))"

definition has_control_byte :: "string \<Rightarrow> bool" where
  "has_control_byte s = list_ex (\<lambda>b. byte b \<le> 31) s"

definition normalize_entity_parts :: "string \<Rightarrow> string \<Rightarrow> validation_error + (string \<times> entity_type)" where
  "normalize_entity_parts raw_name raw_type =
     (let name = trim raw_name in
      if name = [] then v_err ''entities'' ''entity name cannot be empty'' else
      let etype = trim raw_type in
      if etype = [] then v_err ''entities'' ''entity type cannot be empty'' else
      if has_control_byte name
      then v_err ''entities'' ''entity name cannot contain ASCII control characters'' else
      if has_control_byte etype
      then v_err ''entities'' ''entity type cannot contain ASCII control characters'' else
      (case entity_type_new etype of
         None \<Rightarrow> v_err ''entities'' ''entity type cannot be empty''
       | Some et \<Rightarrow> Inr (name, et)))"

definition entity_new :: "string \<Rightarrow> string \<Rightarrow> entity option" where
  "entity_new name etype =
     (case normalize_entity_parts name etype of
        Inl _ \<Rightarrow> None
      | Inr (n, et) \<Rightarrow> Some \<lparr>e_name = n, e_type = et\<rparr>)"

definition validate_entities_with_limits :: "entity list \<Rightarrow> nat \<Rightarrow> nat \<Rightarrow> validation_error + unit" where
  "validate_entities_with_limits entities max_entities max_len =
     (if length entities > max_entities
      then v_err ''entities'' (''exceeds maximum of '' @ show_nat max_entities @ '' entities (got '' @
             show_nat (length entities) @ '')'')
      else try_for_each (\<lambda>e.
        result_bind (normalize_entity_parts (e_name e) (entity_type_str (e_type e))) (\<lambda>_.
        if length (e_name e) > max_len
        then v_err ''entities'' (''entity name exceeds maximum length of '' @ show_nat max_len @
               '' bytes (got '' @ show_nat (length (e_name e)) @ '')'')
        else if length (entity_type_str (e_type e)) > max_len
        then v_err ''entities'' (''entity type exceeds maximum length of '' @ show_nat max_len @
               '' bytes (got '' @ show_nat (length (entity_type_str (e_type e))) @ '')'')
        else Inr ())) entities)"

definition normalize_entities :: "entity list \<Rightarrow> entity list" where
  "normalize_entities entities = map (\<lambda>e. \<lparr>e_name = trim (e_name e), e_type = e_type e\<rparr>) entities"

definition validate_non_blank :: "string \<Rightarrow> string \<Rightarrow> validation_error + unit" where
  "validate_non_blank field_name value =
     (if trim value = [] then v_err field_name ''cannot be blank'' else Inr ())"

text \<open>The message of the upper bound carries an en dash, written here as its UTF-8 bytes.\<close>

definition validate_max_distance :: "f64 option \<Rightarrow> validation_error + unit" where
  "validate_max_distance max_distance =
     (case max_distance of
        None \<Rightarrow> Inr ()
      | Some d \<Rightarrow>
          if \<not> f64_is_finite d \<or> f64_lt d f64_zero
          then v_err ''max_distance'' ''must be a finite non-negative number''
          else if f64_lt f64_ten d
          then v_err ''max_distance''
                 (''exceeds maximum of 10 (typical L2 distance range for normalized vectors is 0.0'' @
                  [CHR 0xE2, CHR 0x80, CHR 0x93] @ ''2.0)'')
          else Inr ())"

section \<open>Lemmas\<close>

lemma normalize_non_empty_iff: "normalize_non_empty f v = Inr w \<longleftrightarrow> \<not> blank v \<and> w = trim v"
  by (auto simp: normalize_non_empty_def validate_optional_non_empty_def blank_def Let_def
      dest: trim_same_length)

lemma normalize_optional_non_empty_iff:
  "normalize_optional_non_empty f v = Inr w \<longleftrightarrow>
     (\<forall>s. v = Some s \<longrightarrow> \<not> blank s) \<and> w = map_option trim v"
  by (cases v)
    (auto simp: normalize_optional_non_empty_def validate_optional_non_empty_def blank_def
      dest: trim_same_length)

lemma entity_type_new_trim: "trim s \<noteq> [] \<Longrightarrow> entity_type_new (trim s) = Some (EntityType (trim s))"
  by (simp add: entity_type_new_def)

lemma normalize_entity_parts_Inr:
  "normalize_entity_parts name etype = Inr r \<longleftrightarrow>
     \<not> blank name \<and> \<not> blank etype \<and> \<not> has_control_byte (trim name) \<and> \<not> has_control_byte (trim etype) \<and>
     r = (trim name, EntityType (trim etype))"
  by (auto simp: normalize_entity_parts_def entity_type_new_trim blank_def Let_def)

lemma normalize_entity_parts_Inl:
  "normalize_entity_parts name etype = Inl err \<Longrightarrow>
     blank name \<or> blank etype \<or> has_control_byte (trim name) \<or> has_control_byte (trim etype)"
  using normalize_entity_parts_Inr [of name etype "(trim name, EntityType (trim etype))"] by auto

lemma entity_new_Some:
  "entity_new name etype = Some e \<longleftrightarrow>
     \<not> blank name \<and> \<not> blank etype \<and> \<not> has_control_byte (trim name) \<and> \<not> has_control_byte (trim etype) \<and>
     e = \<lparr>e_name = trim name, e_type = EntityType (trim etype)\<rparr>"
  by (auto simp: entity_new_def normalize_entity_parts_Inr dest: normalize_entity_parts_Inl split: sum.splits)

lemma validate_entities_iff:
  "validate_entities_with_limits es max_entities max_len = Inr () \<longleftrightarrow>
     length es \<le> max_entities \<and>
     (\<forall>e \<in> set es. entity_new (e_name e) (entity_type_str (e_type e)) \<noteq> None \<and>
        length (e_name e) \<le> max_len \<and> length (entity_type_str (e_type e)) \<le> max_len)"
proof -
  have new: "entity_new n t \<noteq> None \<longleftrightarrow> (\<exists>r. normalize_entity_parts n t = Inr r)" for n t
    by (auto simp: entity_new_def split: sum.splits)
  show ?thesis
    unfolding new by (auto simp: validate_entities_with_limits_def not_less split: if_splits)
qed

lemma entity_new_trim: "entity_new (trim n) t = entity_new n t"
  using entity_new_Some [of "trim n" t] entity_new_Some [of n t]
  by (cases "entity_new (trim n) t"; cases "entity_new n t") auto

section \<open>Properties\<close>

text \<open>Entity normalisation: \<^verbatim>\<open>Entity::new\<close> succeeds exactly on a name and a type that
  contain a visible character and no ASCII control character inside; the entity it builds carries
  the trimmed strings, and building an entity from them again yields the same entity.\<close>

lemma entity_new_normal_form:
  "entity_new name etype = Some e \<longleftrightarrow>
     (\<not> blank name \<and> \<not> blank etype \<and> \<not> has_control_byte (trim name) \<and> \<not> has_control_byte (trim etype) \<and>
      e = \<lparr>e_name = trim name, e_type = EntityType (trim etype)\<rparr> \<and>
      entity_new (e_name e) (entity_type_str (e_type e)) = Some e)"
  by (auto simp: entity_new_Some)

text \<open>Accepted entities stay acceptable after normalisation: a list that passes the limits
  check passes it again, with the same limits, once its names are trimmed, and trimming is
  idempotent.\<close>

lemma normalize_entities_keeps_valid:
  assumes "validate_entities_with_limits es max_entities max_len = Inr ()"
  shows "validate_entities_with_limits (normalize_entities es) max_entities max_len = Inr () \<and>
    normalize_entities (normalize_entities es) = normalize_entities es"
proof
  show "validate_entities_with_limits (normalize_entities es) max_entities max_len = Inr ()"
    using assms le_trans [OF length_trim]
    by (auto simp: validate_entities_iff normalize_entities_def entity_new_trim)
  show "normalize_entities (normalize_entities es) = normalize_entities es"
    by (simp add: normalize_entities_def)
qed

text \<open>A time-to-live never yields an expiry in the past: if \<^verbatim>\<open>chrono\<close> builds a delta of the
  given number of seconds and adds deltas exactly where it adds them at all, an accepted TTL gives
  exactly \<open>now\<close> plus that many seconds, and a TTL above \<^verbatim>\<open>i64::MAX\<close> is always rejected.\<close>

lemma ttl_seconds_to_expiry_exact:
  assumes secs: "\<And>n d. try_seconds n = Some d \<Longrightarrow> d = n * 1000000000"
    and add: "\<And>t d t'. checked_add_signed t d = Some t' \<Longrightarrow> t' = t + d"
  shows "(ttl_seconds_to_expiry try_seconds checked_add_signed ttl now = Inr t \<longrightarrow>
            t = now + uint ttl * 1000000000 \<and> now \<le> t) \<and>
         (2 ^ 63 \<le> uint ttl \<longrightarrow>
            (\<exists>e. ttl_seconds_to_expiry try_seconds checked_add_signed ttl now = Inl e))"
  using secs add unsigned_greater_eq [of ttl]
  by (fastforce simp: ttl_seconds_to_expiry_def split: option.splits if_splits)

section \<open>Witnesses\<close>

definition chrono_seconds :: "int \<Rightarrow> int option" where
  "chrono_seconds n = (if \<bar>n\<bar> \<le> (2 ^ 63 - 1) div 1000 then Some (n * 1000000000) else None)"

definition chrono_add :: "datetime \<Rightarrow> int \<Rightarrow> datetime option" where
  "chrono_add t d = (if t + d \<le> 8210266876799 * 1000000000 then Some (t + d) else None)"

end
