(* ===== verification/Context_Types.thy ===== *)
theory Context_Types
  imports Hold_Types "HOL-Library.Char_ord" "HOL-Library.List_Lexorder"
begin

text \<open>
  Governed contexts, \<^verbatim>\<open>src/src/context.rs\<close>: identifiers, kinds, definitions, references,
  envelopes, identities and the similarity measure behind duplicate protection.

  Code of other crates is an argument of the definitions that call it: the URL parser
  (\<open>url_api\<close>, the accessors of \<^verbatim>\<open>url::Url\<close> the code uses), SHA-256 (\<open>sha256\<close>) and the Unicode
  lower-casing of \<^verbatim>\<open>str::to_lowercase\<close> (\<open>lc\<close>). The quotient of two counts as \<^verbatim>\<open>f64\<close> is the
  argument \<open>fdiv\<close>.
\<close>

section \<open>Constants and keys\<close>

type_synonym context_id = ulid

definition ANONYMOUS_PRINCIPAL :: string where "ANONYMOUS_PRINCIPAL = ''anonymous''"
definition LEGACY_SYSTEM_PRINCIPAL :: string where "LEGACY_SYSTEM_PRINCIPAL = ''@localhold/legacy-system''"
definition LEGACY_ALL_PRINCIPALS_GRANT :: string where "LEGACY_ALL_PRINCIPALS_GRANT = ''*''"
definition OPERATOR_PRINCIPAL :: string where "OPERATOR_PRINCIPAL = ''operator''"
definition UNRESOLVED_CONTEXT_KEY :: string where "UNRESOLVED_CONTEXT_KEY = ''inbox/unresolved''"

definition MAX_CONTEXT_REFS :: nat where "MAX_CONTEXT_REFS = 32"
definition MAX_CONTEXT_HINTS :: nat where "MAX_CONTEXT_HINTS = 32"
definition MAX_CONTEXT_SURFACE_LEN :: nat where "MAX_CONTEXT_SURFACE_LEN = 512"
definition MAX_CONTEXT_DISPLAY_NAME_LEN :: nat where "MAX_CONTEXT_DISPLAY_NAME_LEN = 256"
definition MAX_CONTEXT_DESCRIPTION_LEN :: nat where "MAX_CONTEXT_DESCRIPTION_LEN = 4096"
definition MAX_CONTEXT_IDENTITY_VALUE_LEN :: nat where "MAX_CONTEXT_IDENTITY_VALUE_LEN = 4096"
definition MAX_CONTEXT_CONFIRMATIONS :: nat where "MAX_CONTEXT_CONFIRMATIONS = 5"
definition MAX_EFFECTIVE_CONTEXTS :: nat where "MAX_EFFECTIVE_CONTEXTS = 512"

definition normalize_context_key :: "(string \<Rightarrow> string) \<Rightarrow> string \<Rightarrow> string" where
  "normalize_context_key lc value = lc (trim value)"

definition non_blank :: "string \<Rightarrow> string option" where
  "non_blank s = (if trim s = [] then None else Some (trim s))"

definition effective_legacy_scope_key :: "string option \<Rightarrow> string option \<Rightarrow> string option" where
  "effective_legacy_scope_key metadata_scope provenance_scope =
     (case Option.bind metadata_scope non_blank of
        Some v \<Rightarrow> Some v
      | None \<Rightarrow> Option.bind provenance_scope non_blank)"

section \<open>Legacy scopes\<close>

record scope_definition =
  sd_scope_key :: string
  sd_display_name :: string
  sd_description :: "string option"
  sd_aliases :: "string list"
  sd_matchers :: "string list"
  sd_parent :: "string option"
  sd_related :: "string list"

definition scope_definition_new :: "string \<Rightarrow> string \<Rightarrow> scope_definition" where
  "scope_definition_new scope_key display_name =
     \<lparr>sd_scope_key = scope_key, sd_display_name = display_name, sd_description = None,
      sd_aliases = [], sd_matchers = [], sd_parent = None, sd_related = []\<rparr>"

definition validate_legacy_scope_key :: "string \<Rightarrow> string + unit" where
  "validate_legacy_scope_key value =
     (if trim value = [] \<or> length value > MAX_CONTEXT_SURFACE_LEN
      then Inl (''scope key must be non-empty and at most '' @ show_nat MAX_CONTEXT_SURFACE_LEN @ '' bytes'')
      else Inr ())"

definition legacy_scope_display_name :: "string \<Rightarrow> string" where
  "legacy_scope_display_name value =
     (case find (\<lambda>part. part \<noteq> []) (rev (split_by (\<lambda>c. c = CHR ''/'') (trim value))) of
        Some part \<Rightarrow> part
      | None \<Rightarrow> trim value)"

definition validate_implicit_legacy_context_key :: "string \<Rightarrow> string + unit" where
  "validate_implicit_legacy_context_key value =
     result_bind (validate_legacy_scope_key value) (\<lambda>_.
     if length (legacy_scope_display_name value) > MAX_CONTEXT_DISPLAY_NAME_LEN
     then Inl (''implicit compatibility context display name must be at most '' @
               show_nat MAX_CONTEXT_DISPLAY_NAME_LEN @ '' bytes'')
     else Inr ())"

definition validate_legacy_scope_definition :: "scope_definition \<Rightarrow> string + unit" where
  "validate_legacy_scope_definition sd =
     result_bind (validate_legacy_scope_key (sd_scope_key sd)) (\<lambda>_.
     result_bind (ensure (\<not> (trim (sd_display_name sd) = [] \<or>
         length (sd_display_name sd) > MAX_CONTEXT_DISPLAY_NAME_LEN))
       (''display_name must be non-empty and at most '' @ show_nat MAX_CONTEXT_DISPLAY_NAME_LEN @ '' bytes'')) (\<lambda>_.
     result_bind (ensure (case sd_description sd of None \<Rightarrow> True | Some d \<Rightarrow> length d \<le> MAX_CONTEXT_DESCRIPTION_LEN)
       (''description accepts at most '' @ show_nat MAX_CONTEXT_DESCRIPTION_LEN @ '' bytes'')) (\<lambda>_.
     result_bind (ensure (\<not> (length (sd_aliases sd) > MAX_CONTEXT_REFS \<or> length (sd_related sd) > MAX_CONTEXT_REFS \<or>
         length (sd_matchers sd) > MAX_CONTEXT_HINTS))
       (''aliases and related accept at most '' @ show_nat MAX_CONTEXT_REFS @
        '' entries; matchers accepts at most '' @ show_nat MAX_CONTEXT_HINTS)) (\<lambda>_.
     result_bind (ensure (\<not> list_ex (\<lambda>v. trim v = [] \<or> length v > MAX_CONTEXT_SURFACE_LEN)
         (sd_aliases sd @ sd_matchers sd))
       (''scope aliases and matchers must be non-empty and at most '' @ show_nat MAX_CONTEXT_SURFACE_LEN @ '' bytes'')) (\<lambda>_.
     result_bind (try_for_each validate_implicit_legacy_context_key (sd_related sd)) (\<lambda>_.
     (case sd_parent sd of
        None \<Rightarrow> Inr ()
      | Some p \<Rightarrow> validate_implicit_legacy_context_key p)))))))"

section \<open>Context kinds\<close>

datatype context_kind = ContextKind (kind_str: string)

definition KIND_CUSTOM :: string where "KIND_CUSTOM = ''custom''"
definition KIND_DOMAIN :: string where "KIND_DOMAIN = ''domain''"
definition KIND_ORGANIZATION :: string where "KIND_ORGANIZATION = ''organization''"
definition KIND_PROJECT :: string where "KIND_PROJECT = ''project''"

definition kind_char :: "char \<Rightarrow> bool" where
  "kind_char c \<longleftrightarrow> is_ascii_lowercase c \<or> is_ascii_digit c \<or> c = CHR ''-'' \<or> c = CHR ''_''"

definition context_kind_new :: "string \<Rightarrow> parse_enum_error + context_kind" where
  "context_kind_new raw =
     (let value = to_ascii_lowercase (trim raw);
          valid = (value \<noteq> [] \<and> length value \<le> 64 \<and> list_all kind_char value)
      in if \<not> valid
         then Inl (ParseEnumError (''context kind must contain 1-64 lowercase ASCII letters, digits, ''
           @ [CHR 0x27] @ ''-'' @ [CHR 0x27] @ '' or '' @ [CHR 0x27] @ ''_'' @ [CHR 0x27]) None)
         else Inr (ContextKind value))"

definition context_kind_from_legacy_scope :: "(string \<Rightarrow> string) \<Rightarrow> string \<Rightarrow> context_kind" where
  "context_kind_from_legacy_scope lc key =
     (let prefix = (case split_once (CHR ''/'') (normalize_context_key lc key) of
                      None \<Rightarrow> [] | Some (prefix, rest) \<Rightarrow> prefix)
      in if prefix = KIND_PROJECT then ContextKind KIND_PROJECT
         else if prefix = KIND_DOMAIN then ContextKind KIND_DOMAIN
         else if prefix = KIND_ORGANIZATION \<or> prefix = ''org'' then ContextKind KIND_ORGANIZATION
         else ContextKind KIND_CUSTOM)"

text \<open>The derived order compares the kind strings byte by byte.\<close>

instantiation context_kind :: linorder
begin

definition less_eq_context_kind :: "context_kind \<Rightarrow> context_kind \<Rightarrow> bool" where
  "less_eq_context_kind a b \<longleftrightarrow> kind_str a \<le> kind_str b"

definition less_context_kind :: "context_kind \<Rightarrow> context_kind \<Rightarrow> bool" where
  "less_context_kind a b \<longleftrightarrow> kind_str a < kind_str b"

instance
  by standard
    (auto simp: less_eq_context_kind_def less_context_kind_def intro: context_kind.expand)

end

datatype context_lifecycle = Active | Archived

fun context_lifecycle_to_string :: "context_lifecycle \<Rightarrow> string" where
  "context_lifecycle_to_string Active = ''active''"
| "context_lifecycle_to_string Archived = ''archived''"

definition context_lifecycle_from_str :: "string \<Rightarrow> parse_enum_error + context_lifecycle" where
  "context_lifecycle_from_str s =
     (if s = ''active'' then Inr Active
      else if s = ''archived'' then Inr Archived
      else Inl (ParseEnumError ''unknown context lifecycle: '' (Some s)))"

interpretation context_lifecycle_text: exact_parse_print context_lifecycle_to_string context_lifecycle_from_str
proof (unfold_locales, goal_cases)
  case (1 x)
  then show ?case by (cases x) (simp_all add: context_lifecycle_from_str_def)
next
  case (2 s x)
  then show ?case by (auto simp: context_lifecycle_from_str_def split: if_splits)
qed

section \<open>Definitions, references and envelopes\<close>

record context_definition =
  cd_id :: context_id
  cd_kind :: context_kind
  cd_key :: string
  cd_display_name :: string
  cd_description :: "string option"
  cd_owner_principal :: string
  cd_guidance :: "string option"
  cd_parent_id :: "context_id option"
  cd_lifecycle :: context_lifecycle
  cd_frozen :: bool
  cd_created_at :: datetime
  cd_updated_at :: datetime

record context_identity =
  ci_scheme :: string
  ci_namespace :: "string option"
  ci_fingerprint :: string
  ci_redacted_label :: string

record context_identity_input =
  ii_scheme :: string
  ii_value :: string
  ii_namespace :: "string option"

record context_reference =
  cr_id :: "context_id option"
  cr_kind :: "context_kind option"
  cr_key :: "string option"
  cr_identity :: "context_identity_input option"

record context_envelope =
  ce_refs :: "context_reference list"
  ce_hints :: "string list"
  ce_include_descendants :: bool
  ce_allow_unresolved :: bool

definition validate_identity_input_limits :: "context_identity_input \<Rightarrow> string + unit" where
  "validate_identity_input_limits input =
     (if length (ii_scheme input) > 32 then Inl ''context identity scheme is too long''
      else if length (ii_value input) > MAX_CONTEXT_IDENTITY_VALUE_LEN
      then Inl (''context identity value accepts at most '' @ show_nat MAX_CONTEXT_IDENTITY_VALUE_LEN @ '' bytes'')
      else if (case ii_namespace input of None \<Rightarrow> False | Some n \<Rightarrow> length n > 128)
      then Inl ''context identity namespace accepts at most 128 bytes''
      else Inr ())"

fun context_reference_validate_parts ::
  "context_id option \<Rightarrow> context_kind option \<Rightarrow> string option \<Rightarrow> context_identity_input option \<Rightarrow> string + unit" where
  "context_reference_validate_parts (Some i) None None None = Inr ()"
| "context_reference_validate_parts None (Some k) None (Some ident) = validate_identity_input_limits ident"
| "context_reference_validate_parts None (Some k) (Some key) None =
     (if trim key \<noteq> [] \<and> length key \<le> MAX_CONTEXT_SURFACE_LEN then Inr ()
      else Inl ''a context ref must contain exactly one locator: id, kind+key, or kind+identity'')"
| "context_reference_validate_parts i k key ident =
     Inl ''a context ref must contain exactly one locator: id, kind+key, or kind+identity''"

definition context_reference_validate :: "context_reference \<Rightarrow> string + unit" where
  "context_reference_validate r =
     context_reference_validate_parts (cr_id r) (cr_kind r) (cr_key r) (cr_identity r)"

definition context_envelope_validate_limits :: "context_envelope \<Rightarrow> string + unit" where
  "context_envelope_validate_limits env =
     (if length (ce_refs env) > MAX_CONTEXT_REFS
      then Inl (''context.refs accepts at most '' @ show_nat MAX_CONTEXT_REFS @ '' entries'')
      else if length (ce_hints env) > MAX_CONTEXT_HINTS
      then Inl (''context.hints accepts at most '' @ show_nat MAX_CONTEXT_HINTS @ '' entries'')
      else result_bind (try_for_each context_reference_validate (ce_refs env)) (\<lambda>_.
        if list_ex (\<lambda>hint. length hint > MAX_CONTEXT_SURFACE_LEN) (ce_hints env)
        then Inl (''each context hint accepts at most '' @ show_nat MAX_CONTEXT_SURFACE_LEN @ '' bytes'')
        else Inr ()))"

record context_descriptor =
  dsc_id :: context_id
  dsc_kind :: context_kind
  dsc_key :: string
  dsc_display_name :: string

definition context_descriptor_from :: "context_definition \<Rightarrow> context_descriptor" where
  "context_descriptor_from c =
     \<lparr>dsc_id = cd_id c, dsc_kind = cd_kind c, dsc_key = cd_key c, dsc_display_name = cd_display_name c\<rparr>"

record context_record =
  rec_context :: context_definition
  rec_aliases :: "string list"
  rec_identities :: "context_identity list"
  rec_hints :: "string list"

end
