(* ===== verification/Context_Identity.thy ===== *)
theory Context_Identity
  imports Context_Types
begin

text \<open>
  Durable context identities and duplicate protection, \<^verbatim>\<open>src/src/context.rs\<close>.

  \<open>normalize_context_identity\<close> turns a typed identity into a fingerprint and a label that does
  not show the value. The URL parser is the argument \<open>api\<close>: a record with the accessors of
  \<^verbatim>\<open>url::Url\<close> the code calls, over an abstract type of parsed URLs. \<open>sha256\<close> is the digest
  function. The similarity score divides two counts; \<open>fdiv\<close> is that division as \<^verbatim>\<open>f64\<close>.
\<close>

section \<open>Identities\<close>

record 'u url_api =
  url_parse :: "string \<Rightarrow> 'u option"
  url_scheme :: "'u \<Rightarrow> string"
  url_host_str :: "'u \<Rightarrow> string option"
  url_path :: "'u \<Rightarrow> string"
  url_port :: "'u \<Rightarrow> u16 option"
  url_username :: "'u \<Rightarrow> string"
  url_password :: "'u \<Rightarrow> string option"
  url_query :: "'u \<Rightarrow> string option"
  url_fragment :: "'u \<Rightarrow> string option"
  url_set_username :: "string \<Rightarrow> 'u \<Rightarrow> 'u"
  url_set_password :: "string option \<Rightarrow> 'u \<Rightarrow> 'u"
  url_set_query :: "string option \<Rightarrow> 'u \<Rightarrow> 'u"
  url_set_fragment :: "string option \<Rightarrow> 'u \<Rightarrow> 'u"
  url_to_string :: "'u \<Rightarrow> string"

text \<open>The bytes of the ellipsis U+2026, and of NUL.\<close>

definition ellipsis :: string where "ellipsis = [CHR 0xE2, CHR 0x80, CHR 0xA6]"
definition nul :: char where "nul = CHR 0x00"

definition valid_namespace :: "string \<Rightarrow> bool" where
  "valid_namespace value \<longleftrightarrow> length value \<le> 128 \<and>
     list_all (\<lambda>c. is_ascii_alphanumeric c \<or> c \<in> set ''._-/:'') value"

text \<open>\<^verbatim>\<open>str::trim_matches('/')\<close>, \<^verbatim>\<open>str::is_char_boundary\<close> and \<^verbatim>\<open>str::get(i..)\<close>.\<close>

definition trim_slashes :: "string \<Rightarrow> string" where
  "trim_slashes s = rev (dropWhile (\<lambda>c. c = CHR ''/'') (rev (dropWhile (\<lambda>c. c = CHR ''/'') s)))"

definition utf8_continuation :: "char \<Rightarrow> bool" where
  "utf8_continuation c \<longleftrightarrow> 128 \<le> byte c \<and> byte c < 192"

definition is_char_boundary :: "string \<Rightarrow> nat \<Rightarrow> bool" where
  "is_char_boundary s i \<longleftrightarrow> i = length s \<or> (i < length s \<and> \<not> utf8_continuation (s ! i))"

definition str_get_from :: "string \<Rightarrow> nat \<Rightarrow> string option" where
  "str_get_from s i = (if is_char_boundary s i then Some (drop i s) else None)"

definition str_get_to :: "string \<Rightarrow> nat \<Rightarrow> string option" where
  "str_get_to s i = (if is_char_boundary s i then Some (take i s) else None)"

definition parse_git_url :: "'u url_api \<Rightarrow> string \<Rightarrow> string + 'u" where
  "parse_git_url api raw =
     (if contains_str ''://'' raw
      then (case url_parse api raw of
              None \<Rightarrow> Inl ''git_remote must be an absolute remote URL'' | Some u \<Rightarrow> Inr u)
      else (case split_once (CHR '':'') raw of
              None \<Rightarrow> Inl ''git_remote must be an absolute URL or SSH scp-style remote''
            | Some (authority, path) \<Rightarrow>
                if \<not> (CHR ''@'' \<in> set authority \<and> path \<noteq> [])
                then Inl ''git_remote must be an absolute URL or SSH scp-style remote''
                else (case url_parse api (''ssh://'' @ authority @ ''/'' @ path) of
                        None \<Rightarrow> Inl ''git_remote SSH form is invalid'' | Some u \<Rightarrow> Inr u)))"

definition strip_git_suffix :: "string \<Rightarrow> string" where
  "strip_git_suffix path =
     (let suffix_start = length path - 4 in
      case str_get_from path suffix_start of
        Some suffix \<Rightarrow> if to_ascii_lowercase suffix = ''.git'' then take suffix_start path else path
      | None \<Rightarrow> path)"

definition normalize_git_remote :: "'u url_api \<Rightarrow> string \<Rightarrow> string + (string \<times> string)" where
  "normalize_git_remote api raw0 =
     (let raw = trim raw0 in
      if raw = [] then Inl ''git_remote value cannot be blank''
      else result_bind (parse_git_url api raw) (\<lambda>parsed.
        if url_scheme api parsed = ''file'' then Inl ''local paths are resolver hints, not durable identities''
        else (case url_host_str api parsed of
           None \<Rightarrow> Inl ''git_remote requires a host''
         | Some h \<Rightarrow>
             (let host = to_ascii_lowercase h;
                  path = strip_git_suffix (trim_slashes (url_path api parsed))
              in if path = [] then Inl ''git_remote requires a repository path''
                 else (let authority = (case url_port api parsed of
                                          None \<Rightarrow> host | Some p \<Rightarrow> host @ '':'' @ show_nat (unat p))
                       in Inr (authority @ ''/'' @ path, authority @ ''/'' @ ellipsis @ ''#''))))))"

definition normalize_uri :: "'u url_api \<Rightarrow> string \<Rightarrow> string + (string \<times> string)" where
  "normalize_uri api raw =
     (case url_parse api (trim raw) of
        None \<Rightarrow> Inl ''uri must be absolute''
      | Some parsed \<Rightarrow>
          if url_scheme api parsed \<notin> {''https'', ''ssh'', ''git''}
          then Inl ''uri scheme is not allowed by the default identity policy''
          else if url_username api parsed \<noteq> [] \<or> url_password api parsed \<noteq> None \<or>
                  url_query api parsed \<noteq> None \<or> url_fragment api parsed \<noteq> None
          then Inl ''uri credentials, query, and fragment are not permitted''
          else if url_host_str api parsed = None then Inl ''uri requires an authority host''
          else (let u = url_set_fragment api None (url_set_query api None
                          (url_set_password api None (url_set_username api [] parsed)));
                    host = (case url_host_str api u of None \<Rightarrow> ''host'' | Some h \<Rightarrow> h)
                in Inr (url_to_string api u, url_scheme api u @ ''://'' @ host @ ''/'' @ ellipsis @ ''#'')))"

definition HEX :: string where "HEX = ''0123456789abcdef''"

fun hex_lower :: "u8 list \<Rightarrow> string" where
  "hex_lower [] = []"
| "hex_lower (b # bs) = HEX ! unat (drop_bit 4 b) # HEX ! unat (b AND 0x0F) # hex_lower bs"

text \<open>The canonical text, the label prefix and the stored namespace of an identity.\<close>

definition canonical_identity ::
  "'u url_api \<Rightarrow> string \<Rightarrow> string option \<Rightarrow> string \<Rightarrow> string + (string \<times> string \<times> string option)" where
  "canonical_identity api scheme namespace value =
     (if scheme = ''git_remote'' then
        if namespace \<noteq> None then Inl ''git_remote does not accept namespace''
        else result_bind (normalize_git_remote api value) (\<lambda>(canonical, label). Inr (canonical, label, None))
      else if scheme = ''uri'' then
        if namespace \<noteq> None then Inl ''uri does not accept namespace''
        else result_bind (normalize_uri api value) (\<lambda>(canonical, label). Inr (canonical, label, None))
      else if scheme = ''namespaced_id'' then
        (case namespace of
           None \<Rightarrow> Inl ''namespaced_id requires namespace''
         | Some ns \<Rightarrow>
             if \<not> valid_namespace ns \<or> trim value = []
             then Inl ''namespaced_id requires a valid namespace and non-empty opaque value''
             else Inr (ns @ nul # trim value, ns @ '':'' @ ellipsis, Some ns))
      else Inl ''unsupported context identity scheme'')"

definition normalize_context_identity ::
  "'u url_api \<Rightarrow> (string \<Rightarrow> u8 list) \<Rightarrow> context_identity_input \<Rightarrow> string + context_identity" where
  "normalize_context_identity api sha256 input =
     result_bind (validate_identity_input_limits input) (\<lambda>_.
     let scheme = to_ascii_lowercase (trim (ii_scheme input));
         namespace = Option.bind (ii_namespace input) non_blank
     in result_bind (canonical_identity api scheme namespace (ii_value input))
          (\<lambda>(canonical, label_prefix, stored_namespace).
        let fingerprint = hex_lower (sha256 (scheme @ nul # canonical));
            redacted_label = label_prefix @
              (case str_get_to fingerprint 8 of Some p \<Rightarrow> p | None \<Rightarrow> fingerprint)
        in Inr \<lparr>ci_scheme = scheme, ci_namespace = stored_namespace, ci_fingerprint = fingerprint,
                ci_redacted_label = redacted_label\<rparr>))"

section \<open>Similarity\<close>

definition context_tokens :: "(string \<Rightarrow> string) \<Rightarrow> string \<Rightarrow> string set" where
  "context_tokens lc value =
     set (filter (\<lambda>t. t \<noteq> []) (split_by (\<lambda>c. \<not> is_ascii_alphanumeric c) (normalize_context_key lc value)))"

text \<open>\<^verbatim>\<open>str::chars\<close>: the encodings of the characters of a valid UTF-8 string, and
  \<^verbatim>\<open>windows(3)\<close>.\<close>

function utf8_chars :: "string \<Rightarrow> string list" where
  "utf8_chars [] = []"
| "utf8_chars (c # s) =
     (c # takeWhile utf8_continuation s) # utf8_chars (dropWhile utf8_continuation s)"
  by pat_completeness auto
termination
  by (relation "measure length") (auto simp: length_dropWhile_le le_imp_less_Suc)

fun windows3 :: "'a list \<Rightarrow> 'a list list" where
  "windows3 (a # b # c # r) = [a, b, c] # windows3 (b # c # r)"
| "windows3 _ = []"

definition context_trigrams :: "(string \<Rightarrow> string) \<Rightarrow> string \<Rightarrow> string set" where
  "context_trigrams lc value =
     (let normalized = normalize_context_key lc value;
          chars = utf8_chars normalized
      in if length chars < 3 then (if normalized = [] then {} else {normalized})
         else set (map concat (windows3 chars)))"

definition normalized_set_overlap :: "(nat \<Rightarrow> nat \<Rightarrow> f64) \<Rightarrow> string set \<Rightarrow> string set \<Rightarrow> f64" where
  "normalized_set_overlap fdiv left right =
     (let denominator = max (card left) (card right) in
      if denominator = 0 then f64_zero else fdiv (card (left \<inter> right)) denominator)"

record similarity_query =
  sq_tokens :: "string set"
  sq_trigrams :: "string set"

definition similarity_query_new :: "(string \<Rightarrow> string) \<Rightarrow> string \<Rightarrow> similarity_query" where
  "similarity_query_new lc query = \<lparr>sq_tokens = context_tokens lc query, sq_trigrams = context_trigrams lc query\<rparr>"

definition similarity_score ::
  "(string \<Rightarrow> string) \<Rightarrow> (nat \<Rightarrow> nat \<Rightarrow> f64) \<Rightarrow> similarity_query \<Rightarrow> string \<Rightarrow> string \<Rightarrow> string list \<Rightarrow> f64" where
  "similarity_score lc fdiv q key display_name aliases =
     fold (\<lambda>surface acc. f64_max acc
             (f64_max (normalized_set_overlap fdiv (sq_tokens q) (context_tokens lc surface))
                      (normalized_set_overlap fdiv (sq_trigrams q) (context_trigrams lc surface))))
       (key # display_name # aliases) f64_zero"

definition context_duplicate_similarity ::
  "(string \<Rightarrow> string) \<Rightarrow> (nat \<Rightarrow> nat \<Rightarrow> f64) \<Rightarrow> string \<Rightarrow> string \<Rightarrow> string \<Rightarrow> string list \<Rightarrow> f64" where
  "context_duplicate_similarity lc fdiv query key display_name aliases =
     similarity_score lc fdiv (similarity_query_new lc query) key display_name aliases"

section \<open>Hexadecimal digests\<close>

lemma length_hex_lower [simp]: "length (hex_lower bs) = 2 * length bs"
  by (induction bs) simp_all

lemma unat_nibbles: "unat (drop_bit 4 (b :: u8)) < 16" "unat (b AND 0x0F :: u8) < 16"
proof -
  have "unat b < 256" using unsigned_less [of b, where 'a = nat] by simp
  then show "unat (drop_bit 4 b) < 16"
    unfolding unat_drop_bit_eq by (simp add: drop_bit_eq_div less_mult_imp_div_less)
  have "b AND 0x0F = take_bit 4 b" by (simp add: take_bit_eq_mask mask_eq_exp_minus_1)
  then have "unat (b AND 0x0F) = take_bit 4 (unat b)" by (simp only: unsigned_take_bit_eq)
  also have "\<dots> < 16" by (simp add: take_bit_eq_mod)
  finally show "unat (b AND 0x0F) < 16" .
qed

lemma hex_digits: "distinct HEX" "length HEX = 16" "list_all (\<lambda>c. byte c < 128) HEX"
  by code_simp+

lemma hex_digit_inj: "i < 16 \<Longrightarrow> j < 16 \<Longrightarrow> HEX ! i = HEX ! j \<longleftrightarrow> i = j"
  using nth_eq_iff_index_eq [OF hex_digits(1)] hex_digits(2) by simp

lemma nibbles_inj:
  fixes a b :: u8
  assumes hi: "drop_bit 4 a = drop_bit 4 b" and lo: "a AND 0x0F = b AND 0x0F"
  shows "a = b"
proof -
  have m: "x AND 0x0F = take_bit 4 x" for x :: u8
    by (simp add: take_bit_eq_mask mask_eq_exp_minus_1)
  have "a = push_bit 4 (drop_bit 4 a) + take_bit 4 a" by (simp add: bits_ident)
  also have "\<dots> = push_bit 4 (drop_bit 4 b) + take_bit 4 b" using hi lo by (simp add: m)
  also have "\<dots> = b" by (simp add: bits_ident)
  finally show ?thesis .
qed

lemma hex_lower_inj: "hex_lower as = hex_lower bs \<Longrightarrow> as = bs"
proof (induction as arbitrary: bs)
  case Nil
  then show ?case by (cases bs) simp_all
next
  case (Cons a as)
  then obtain b bs' where bs: "bs = b # bs'" by (cases bs) simp_all
  with Cons.prems have "drop_bit 4 a = drop_bit 4 b" "a AND 0x0F = b AND 0x0F" "hex_lower as = hex_lower bs'"
    by (simp_all add: hex_digit_inj unat_nibbles word_unat_eq_iff)
  then show ?case using bs Cons.IH nibbles_inj by blast
qed

lemma hex_lower_ascii: "c \<in> set (hex_lower bs) \<Longrightarrow> c \<in> set HEX"
  by (induction bs) (auto simp: unat_nibbles hex_digits)

lemma hex_lower_boundary: "i \<le> length (hex_lower bs) \<Longrightarrow> is_char_boundary (hex_lower bs) i"
proof (cases "i = length (hex_lower bs)")
  case False
  assume "i \<le> length (hex_lower bs)"
  with False have i: "i < length (hex_lower bs)" by simp
  then have "hex_lower bs ! i \<in> set (hex_lower bs)" by (rule nth_mem)
  then have "hex_lower bs ! i \<in> set HEX" by (rule hex_lower_ascii)
  then have "byte (hex_lower bs ! i) < 128" using hex_digits(3) by (auto simp: list_all_iff)
  with i show ?thesis by (simp add: is_char_boundary_def utf8_continuation_def)
qed (simp add: is_char_boundary_def)

section \<open>Properties of identities\<close>

text \<open>The bytes whose digest is the fingerprint.\<close>

definition identity_preimage :: "'u url_api \<Rightarrow> context_identity_input \<Rightarrow> string" where
  "identity_preimage api input =
     (let scheme = to_ascii_lowercase (trim (ii_scheme input)) in
      case canonical_identity api scheme (Option.bind (ii_namespace input) non_blank) (ii_value input) of
        Inl e \<Rightarrow> [] | Inr (canonical, _) \<Rightarrow> scheme @ nul # canonical)"

lemma valid_namespace_no_nul: "valid_namespace ns \<Longrightarrow> nul \<notin> set ns"
proof
  assume "valid_namespace ns" "nul \<in> set ns"
  then have "is_ascii_alphanumeric nul \<or> nul \<in> set ''._-/:''"
    by (auto simp: valid_namespace_def list_all_iff)
  moreover have "\<not> (is_ascii_alphanumeric nul \<or> nul \<in> set ''._-/:'')" by code_simp
  ultimately show False by simp
qed

lemma canonical_identity_scheme:
  "canonical_identity api scheme ns v = Inr r \<Longrightarrow> scheme \<in> {''git_remote'', ''uri'', ''namespaced_id''}"
  by (auto simp: canonical_identity_def split: if_splits)

lemma scheme_no_nul: "scheme \<in> {''git_remote'', ''uri'', ''namespaced_id''} \<Longrightarrow> nul \<notin> set scheme"
  by (auto simp: nul_def)

text \<open>What a successful normalisation returns.\<close>

lemma normalize_context_identity_Inr:
  assumes "normalize_context_identity api sha256 input = Inr i"
  obtains canonical label ns where
    "canonical_identity api (ci_scheme i) (Option.bind (ii_namespace input) non_blank) (ii_value input)
       = Inr (canonical, label, ns)"
    "ci_scheme i = to_ascii_lowercase (trim (ii_scheme input))" "ci_namespace i = ns"
    "ci_fingerprint i = hex_lower (sha256 (ci_scheme i @ nul # canonical))"
    "identity_preimage api input = ci_scheme i @ nul # canonical"
    "length (sha256 (ci_scheme i @ nul # canonical)) \<ge> 4 \<Longrightarrow>
       ci_redacted_label i = label @ take 8 (ci_fingerprint i)"
proof -
  from assms obtain canonical label ns where c:
    "canonical_identity api (to_ascii_lowercase (trim (ii_scheme input)))
       (Option.bind (ii_namespace input) non_blank) (ii_value input) = Inr (canonical, label, ns)"
    and i: "i = \<lparr>ci_scheme = to_ascii_lowercase (trim (ii_scheme input)), ci_namespace = ns,
      ci_fingerprint = hex_lower (sha256 (to_ascii_lowercase (trim (ii_scheme input)) @ nul # canonical)),
      ci_redacted_label = label @ (case str_get_to (hex_lower (sha256 (to_ascii_lowercase (trim (ii_scheme input)) @ nul # canonical))) 8
         of Some p \<Rightarrow> p | None \<Rightarrow> hex_lower (sha256 (to_ascii_lowercase (trim (ii_scheme input)) @ nul # canonical)))\<rparr>"
    by (auto simp: normalize_context_identity_def Let_def)
  show ?thesis
    by (rule that [of canonical label ns])
      (use c i in \<open>simp_all add: identity_preimage_def Let_def str_get_to_def hex_lower_boundary\<close>)
qed

lemma nul_split_unique: "a @ nul # b = c @ nul # d \<Longrightarrow> nul \<notin> set a \<Longrightarrow> nul \<notin> set c \<Longrightarrow> a = c \<and> b = d"
  by (metis option.inject prod.inject split_once_Some)

text \<open>Claim C30. Fingerprints identify contexts: when the digest does not collide on the two
  identity texts, two accepted identities with the same fingerprint have the same scheme, and
  for \<^verbatim>\<open>namespaced_id\<close> the same namespace and the same trimmed opaque value, so no two different
  external identifiers are merged by the encoding.\<close>

theorem fingerprint_identifies:
  assumes "normalize_context_identity api sha256 a = Inr i"
    and "normalize_context_identity api sha256 b = Inr j"
    and "ci_fingerprint i = ci_fingerprint j"
    and "sha256 (identity_preimage api a) = sha256 (identity_preimage api b) \<Longrightarrow>
         identity_preimage api a = identity_preimage api b"
  shows "ci_scheme i = ci_scheme j \<and>
    (ci_scheme i = ''namespaced_id'' \<longrightarrow>
       ci_namespace i = ci_namespace j \<and> trim (ii_value a) = trim (ii_value b))"
proof -
  obtain ca la na where a: "canonical_identity api (ci_scheme i) (Option.bind (ii_namespace a) non_blank) (ii_value a) = Inr (ca, la, na)"
      "ci_namespace i = na" "ci_fingerprint i = hex_lower (sha256 (ci_scheme i @ nul # ca))"
      "identity_preimage api a = ci_scheme i @ nul # ca"
    using normalize_context_identity_Inr [OF assms(1)] by metis
  obtain cb lb nb where b: "canonical_identity api (ci_scheme j) (Option.bind (ii_namespace b) non_blank) (ii_value b) = Inr (cb, lb, nb)"
      "ci_namespace j = nb" "ci_fingerprint j = hex_lower (sha256 (ci_scheme j @ nul # cb))"
      "identity_preimage api b = ci_scheme j @ nul # cb"
    using normalize_context_identity_Inr [OF assms(2)] by metis
  have "ci_scheme i @ nul # ca = ci_scheme j @ nul # cb"
    using assms(3,4) a(3,4) b(3,4) hex_lower_inj by metis
  then have eq: "ci_scheme i = ci_scheme j" "ca = cb"
    using nul_split_unique scheme_no_nul [OF canonical_identity_scheme [OF a(1)]]
      scheme_no_nul [OF canonical_identity_scheme [OF b(1)]] by blast+
  have ns: "\<exists>n. na = Some n \<and> valid_namespace n \<and> ca = n @ nul # trim (ii_value a)"
      "\<exists>n. nb = Some n \<and> valid_namespace n \<and> cb = n @ nul # trim (ii_value b)"
    if "ci_scheme i = ''namespaced_id''"
    using a(1) b(1) that eq(1) by (auto simp: canonical_identity_def split: option.splits if_splits)
  show ?thesis
  proof (intro conjI impI)
    assume "ci_scheme i = ''namespaced_id''"
    from ns [OF this] obtain n m where n: "na = Some n" "valid_namespace n" "ca = n @ nul # trim (ii_value a)"
      and m: "nb = Some m" "valid_namespace m" "cb = m @ nul # trim (ii_value b)" by auto
    have "n = m \<and> trim (ii_value a) = trim (ii_value b)"
      using nul_split_unique valid_namespace_no_nul n m eq(2) by metis
    then show "ci_namespace i = ci_namespace j" "trim (ii_value a) = trim (ii_value b)"
      using n m a(2) b(2) by simp_all
  qed (rule eq(1))
qed

text \<open>A URL parser and a digest to run the definitions with: every text is its own URL.\<close>

definition sample_url_api :: "string url_api" where
  "sample_url_api = \<lparr>url_parse = Some, url_scheme = \<lambda>_. ''https'', url_host_str = \<lambda>_. Some ''Host.Example'',
     url_path = \<lambda>_. ''/Org/Repo.git'', url_port = \<lambda>_. None, url_username = \<lambda>_. [], url_password = \<lambda>_. None,
     url_query = \<lambda>_. None, url_fragment = \<lambda>_. None, url_set_username = \<lambda>_ u. u, url_set_password = \<lambda>_ u. u,
     url_set_query = \<lambda>_ u. u, url_set_fragment = \<lambda>_ u. u, url_to_string = \<lambda>u. u\<rparr>"

definition sample_digest :: "string \<Rightarrow> u8 list" where
  "sample_digest s = take 32 (map of_char s @ replicate 32 0)"

definition sample_identity :: "string \<Rightarrow> context_identity_input" where
  "sample_identity v = \<lparr>ii_scheme = '' Namespaced_ID '', ii_value = v, ii_namespace = Some ''jira''\<rparr>"

theorem fingerprint_identifies_witness:
  "trim (ii_value (sample_identity '' A-1'')) = trim (ii_value (sample_identity ''A-1 ''))"
proof -
  let ?n = "normalize_context_identity sample_url_api sample_digest"
  have ok: "isl (?n (sample_identity '' A-1'')) = False" "isl (?n (sample_identity ''A-1 '')) = False"
    "ci_fingerprint (projr (?n (sample_identity '' A-1''))) = ci_fingerprint (projr (?n (sample_identity ''A-1 '')))"
    "ci_scheme (projr (?n (sample_identity '' A-1''))) = ''namespaced_id''"
    "identity_preimage sample_url_api (sample_identity '' A-1'') = identity_preimage sample_url_api (sample_identity ''A-1 '')"
    by code_simp+
  then have "?n (sample_identity '' A-1'') = Inr (projr (?n (sample_identity '' A-1'')))"
    "?n (sample_identity ''A-1 '') = Inr (projr (?n (sample_identity ''A-1 '')))"
    by (simp_all add: isl_def sum.collapse(2))
  from fingerprint_identifies [OF this ok(3)] ok(4,5) show ?thesis by simp
qed

section \<open>Properties of the similarity score\<close>

text \<open>What the code relies on of the division of two counts: a quotient \<open>a / b\<close> with \<open>a \<le> b\<close> and
  \<open>0 < b\<close> lies in the unit interval, and it is exactly one when the counts are equal.\<close>

definition exact_ratio :: "(nat \<Rightarrow> nat \<Rightarrow> f64) \<Rightarrow> bool" where
  "exact_ratio fdiv \<longleftrightarrow> (\<forall>a b. 0 < b \<longrightarrow> a \<le> b \<longrightarrow> in_unit (fdiv a b)) \<and> (\<forall>b. 0 < b \<longrightarrow> fdiv b b = f64_one)"

lemma finite_context_sets [simp]: "finite (context_tokens lc v)" "finite (context_trigrams lc v)"
  by (simp_all add: context_tokens_def context_trigrams_def Let_def)

lemma overlap_in_unit:
  assumes "exact_ratio fdiv" "finite a" "finite b"
  shows "in_unit (normalized_set_overlap fdiv a b)"
proof (cases "max (card a) (card b) = 0")
  case True
  then show ?thesis by (simp add: normalized_set_overlap_def in_unit_def f64_le_def)
next
  case False
  have "card (a \<inter> b) \<le> card a" using assms(2) by (simp add: card_mono)
  with False assms(1) show ?thesis by (auto simp: normalized_set_overlap_def exact_ratio_def Let_def)
qed

lemma overlap_commute: "normalized_set_overlap fdiv a b = normalized_set_overlap fdiv b a"
  by (simp add: normalized_set_overlap_def max.commute Int_commute)

lemma overlap_self: "exact_ratio fdiv \<Longrightarrow> finite a \<Longrightarrow> a \<noteq> {} \<Longrightarrow> normalized_set_overlap fdiv a a = f64_one"
  by (simp add: normalized_set_overlap_def exact_ratio_def Let_def card_gt_0_iff)

lemma f64_max_in_unit: "in_unit x \<Longrightarrow> in_unit y \<Longrightarrow> in_unit (f64_max x y)"
  by (auto simp: f64_max_def)

lemma in_unit_zero: "in_unit f64_zero"
  by (simp add: in_unit_def f64_le_def)

text \<open>In the unit interval \<^verbatim>\<open>max\<close> with 1.0 is at least 1.0.\<close>

lemma f64_max_one:
  "in_unit x \<Longrightarrow> f64_le f64_one y \<Longrightarrow> f64_le f64_one (f64_max x y)"
  "in_unit x \<Longrightarrow> f64_le f64_one y \<Longrightarrow> f64_le f64_one (f64_max y x)"
  by (auto simp: f64_max_def in_unit_def f64_le_def f64_lt_def)

lemma fold_f64_max_in_unit:
  "(\<And>s. s \<in> set ss \<Longrightarrow> in_unit (f s)) \<Longrightarrow> in_unit acc \<Longrightarrow> in_unit (fold (\<lambda>s a. f64_max a (f s)) ss acc)"
  by (induction ss arbitrary: acc) (simp_all add: f64_max_in_unit)

lemma fold_f64_max_one:
  assumes "\<And>s. s \<in> set ss \<Longrightarrow> in_unit (f s)" "in_unit acc"
    and "f64_le f64_one acc \<or> (\<exists>s \<in> set ss. f64_le f64_one (f s))"
  shows "f64_le f64_one (fold (\<lambda>s a. f64_max a (f s)) ss acc)"
  using assms
proof (induction ss arbitrary: acc)
  case Nil
  then show ?case by simp
next
  case (Cons s ss)
  have "in_unit (f s)" using Cons.prems(1) by simp
  then have "in_unit (f64_max acc (f s))" using Cons.prems(2) by (simp add: f64_max_in_unit)
  moreover have "f64_le f64_one (f64_max acc (f s)) \<or> (\<exists>s \<in> set ss. f64_le f64_one (f s))"
    using Cons.prems(2,3) \<open>in_unit (f s)\<close> f64_max_one by auto
  ultimately show ?case using Cons.IH Cons.prems(1) by simp
qed

lemma surface_in_unit:
  assumes "exact_ratio fdiv"
  shows "in_unit (f64_max (normalized_set_overlap fdiv (context_tokens lc q) (context_tokens lc s))
                          (normalized_set_overlap fdiv (context_trigrams lc q) (context_trigrams lc s)))"
  using assms by (simp add: f64_max_in_unit overlap_in_unit)

lemma utf8_chars_concat: "concat (utf8_chars s) = s"
  by (induction s rule: utf8_chars.induct) simp_all

lemma three_elements: "3 \<le> length xs \<Longrightarrow> \<exists>a b c r. xs = a # b # c # r"
  by (auto simp: numeral_3_eq_3 Suc_le_length_iff)

lemma context_trigrams_nonempty: "normalize_context_key lc v \<noteq> [] \<Longrightarrow> context_trigrams lc v \<noteq> {}"
proof (cases "length (utf8_chars (normalize_context_key lc v)) < 3")
  case False
  then obtain a b c r where "utf8_chars (normalize_context_key lc v) = a # b # c # r"
    using three_elements by (metis not_less)
  then show ?thesis by (simp add: context_trigrams_def Let_def)
qed (simp add: context_trigrams_def)

text \<open>The duplicate-protection score lies in the unit interval, and it is 1.0 whenever
  the normalised query equals the normalised key, display name or some alias of the existing
  context: an exact duplicate, up to case and surrounding space, always reaches the top score.\<close>

lemma duplicate_similarity_detects_exact:
  assumes "exact_ratio fdiv"
    and "surface \<in> set (key # display_name # aliases)"
    and "normalize_context_key lc query = normalize_context_key lc surface"
    and "normalize_context_key lc query \<noteq> []"
  shows "in_unit (context_duplicate_similarity lc fdiv query key display_name aliases) \<and>
         f64_le f64_one (context_duplicate_similarity lc fdiv query key display_name aliases)"
proof -
  let ?f = "\<lambda>s. f64_max (normalized_set_overlap fdiv (context_tokens lc query) (context_tokens lc s))
                          (normalized_set_overlap fdiv (context_trigrams lc query) (context_trigrams lc s))"
  let ?ss = "key # display_name # aliases"
  have score: "context_duplicate_similarity lc fdiv query key display_name aliases
      = fold (\<lambda>s a. f64_max a (?f s)) ?ss f64_zero"
    by (simp add: context_duplicate_similarity_def similarity_score_def similarity_query_new_def)
  have unit: "in_unit (?f s)" for s using assms(1) by (rule surface_in_unit)
  have "context_trigrams lc surface = context_trigrams lc query"
    using assms(3) by (simp add: context_trigrams_def)
  moreover have "context_trigrams lc query \<noteq> {}" using assms(4) by (rule context_trigrams_nonempty)
  ultimately have "normalized_set_overlap fdiv (context_trigrams lc query) (context_trigrams lc surface) = f64_one"
    using overlap_self [OF assms(1)] by simp
  moreover have "in_unit (normalized_set_overlap fdiv (context_tokens lc query) (context_tokens lc surface))"
    using assms(1) by (simp add: overlap_in_unit)
  ultimately have "f64_le f64_one (?f surface)"
    by (intro f64_max_one(1)) (simp_all add: f64_le_def)
  with assms(2) have "\<exists>s \<in> set ?ss. f64_le f64_one (?f s)" by blast
  then show ?thesis unfolding score
    using fold_f64_max_in_unit [of ?ss ?f f64_zero] fold_f64_max_one [of ?ss ?f f64_zero] unit in_unit_zero by blast
qed

end
