(* ===== verification/Context_Policy.thy ===== *)
theory Context_Policy
  imports Context_Identity
begin

text \<open>
  Context policies, \<^verbatim>\<open>src/src/context.rs\<close>: the layered merge of operator ceilings, principal
  customisation and active anchors, and the choice of the most specific anchors by walking the
  context hierarchy.

  A \<^verbatim>\<open>BTreeSet\<close> is a sorted list without duplicates (\<open>btree_set\<close>), a \<^verbatim>\<open>BTreeMap\<close> an association
  list with distinct keys in key order. \<open>evaluate_context_policy\<close> is the linear merge of the code,
  cut at its section boundaries into an operator, a principal, an anchor and a ceiling stage.
\<close>

section \<open>Policy documents\<close>

datatype context_policy_layer = LayerOperator | LayerPrincipal

fun context_policy_layer_to_string :: "context_policy_layer \<Rightarrow> string" where
  "context_policy_layer_to_string LayerOperator = ''operator''"
| "context_policy_layer_to_string LayerPrincipal = ''principal''"

definition context_policy_layer_from_str :: "string \<Rightarrow> parse_enum_error + context_policy_layer" where
  "context_policy_layer_from_str s =
     (if s = ''operator'' then Inr LayerOperator
      else if s = ''principal'' then Inr LayerPrincipal
      else Inl (ParseEnumError ''unknown context policy layer: '' (Some s)))"

interpretation context_policy_layer_text:
  exact_parse_print context_policy_layer_to_string context_policy_layer_from_str
proof (unfold_locales, goal_cases)
  case (1 x)
  then show ?case by (cases x) (simp_all add: context_policy_layer_from_str_def)
next
  case (2 s x)
  then show ?case by (auto simp: context_policy_layer_from_str_def split: if_splits)
qed

record context_kind_definition =
  kd_kind :: context_kind
  kd_display_name :: string
  kd_builtin :: bool
  kd_enabled :: bool
  kd_created_at :: datetime
  kd_updated_at :: datetime

record context_kind_policy =
  kp_allowed :: "bool option"
  kp_required :: "bool option"
  kp_allowed_companion_kinds :: "context_kind list option"
  kp_allowed_identity_schemes :: "string list option"
  kp_agent_creation :: "bool option"
  kp_require_identity :: "bool option"
  kp_default_context_id :: "context_id option"
  kp_include_descendants :: "bool option"
  kp_guidance :: "string option"

definition context_kind_policy_default :: context_kind_policy where
  "context_kind_policy_default =
     \<lparr>kp_allowed = None, kp_required = None, kp_allowed_companion_kinds = None,
      kp_allowed_identity_schemes = None, kp_agent_creation = None, kp_require_identity = None,
      kp_default_context_id = None, kp_include_descendants = None, kp_guidance = None\<rparr>"

text \<open>\<open>unique\<close> holds the normalised schemes seen so far.\<close>

fun validate_identity_schemes_from :: "string set \<Rightarrow> string list \<Rightarrow> string + unit" where
  "validate_identity_schemes_from unique [] = Inr ()"
| "validate_identity_schemes_from unique (scheme # schemes) =
     (let normalized = to_ascii_lowercase (trim scheme) in
      if normalized \<notin> {''git_remote'', ''uri'', ''namespaced_id''}
      then Inl ''allowed_identity_schemes contains an unsupported scheme''
      else if normalized \<in> unique then Inl ''allowed_identity_schemes must be unique''
      else validate_identity_schemes_from (insert normalized unique) schemes)"

definition validate_identity_schemes :: "string list \<Rightarrow> string + unit" where
  "validate_identity_schemes schemes = validate_identity_schemes_from {} schemes"

definition context_kind_policy_validate :: "context_kind_policy \<Rightarrow> string + unit" where
  "context_kind_policy_validate p =
     result_bind (case kp_allowed_identity_schemes p of
                    None \<Rightarrow> Inr () | Some schemes \<Rightarrow> validate_identity_schemes schemes) (\<lambda>_.
     if (case kp_allowed_companion_kinds p of None \<Rightarrow> False | Some kinds \<Rightarrow> \<not> distinct kinds)
     then Inl ''allowed_companion_kinds must be unique''
     else if (case kp_guidance p of None \<Rightarrow> False | Some g \<Rightarrow> trim g = [])
     then Inl ''policy guidance cannot be blank''
     else Inr ())"

record context_kind_policy_record =
  pr_layer :: context_policy_layer
  pr_principal :: string
  pr_kind :: context_kind
  pr_policy :: context_kind_policy
  pr_updated_at :: datetime

record context_kind_policy_draft =
  pd_layer :: context_policy_layer
  pd_principal :: string
  pd_kind :: context_kind
  pd_policy :: context_kind_policy

record context_anchor_policy =
  ap_kinds :: "(string \<times> context_kind_policy) list"

definition context_anchor_policy_validate :: "context_anchor_policy \<Rightarrow> string + unit" where
  "context_anchor_policy_validate p = try_for_each (\<lambda>(kind, policy).
     case context_kind_new kind of
       Inl e \<Rightarrow> Inl (pee_message e)
     | Inr normalized \<Rightarrow>
         if kind_str normalized \<noteq> kind then Inl ''anchor policy kind keys must already be normalized''
         else context_kind_policy_validate policy) (ap_kinds p)"

record context_anchor_policy_record =
  ar_anchor_context_id :: context_id
  ar_principal :: string
  ar_policy :: context_anchor_policy
  ar_updated_at :: datetime

record context_anchor_policy_draft =
  ad_anchor_context_id :: context_id
  ad_principal :: string
  ad_policy :: context_anchor_policy

record context_definition_patch =
  cp_display_name :: string
  cp_description :: "string option"
  cp_guidance :: "string option"
  cp_aliases :: "string list"
  cp_identities :: "context_identity list"
  cp_resolver_hints :: "string list"

record effective_context_policy =
  ep_kind :: context_kind
  ep_allowed :: bool
  ep_required :: bool
  ep_allowed_companion_kinds :: "context_kind list option"
  ep_allowed_identity_schemes :: "string list"
  ep_agent_creation :: bool
  ep_require_identity :: bool
  ep_default_context_id :: "context_id option"
  ep_include_descendants :: bool
  ep_guidance :: "string list"
  ep_ambiguities :: "string list"

section \<open>The merge\<close>

definition btree_set :: "'a::linorder list \<Rightarrow> 'a list" where
  "btree_set xs = sort (remdups xs)"

definition btree_inter :: "'a list \<Rightarrow> 'a list \<Rightarrow> 'a list" where
  "btree_inter xs ys = filter (\<lambda>x. x \<in> set ys) xs"

definition default_identity_schemes :: "string list" where
  "default_identity_schemes = btree_set [''git_remote'', ''namespaced_id'', ''uri'']"

definition normalized_scheme_set :: "string list \<Rightarrow> string list" where
  "normalized_scheme_set values = btree_set (map (\<lambda>v. to_ascii_lowercase (trim v)) values)"

fun intersect_optional_kind_set :: "context_kind list option \<Rightarrow> context_kind list option \<Rightarrow> context_kind list option" where
  "intersect_optional_kind_set current None = current"
| "intersect_optional_kind_set None (Some next_kinds) = Some (btree_set next_kinds)"
| "intersect_optional_kind_set (Some c) (Some next_kinds) = Some (btree_inter c (btree_set next_kinds))"

definition intersect_optional_schemes :: "string list \<Rightarrow> string list option \<Rightarrow> string list" where
  "intersect_optional_schemes current schemes =
     (case schemes of None \<Rightarrow> current | Some s \<Rightarrow> btree_inter current (normalized_scheme_set s))"

text \<open>The new target and the ambiguities to append.\<close>

definition merge_anchor_bool :: "string \<Rightarrow> bool list \<Rightarrow> bool \<Rightarrow> bool \<times> string list" where
  "merge_anchor_bool field values target =
     (case btree_set values of
        [] \<Rightarrow> (target, [])
      | [v] \<Rightarrow> (v, [])
      | _ \<Rightarrow> (target, [''active anchor policies specify conflicting '' @ field @ '' values'']))"

definition opt_field :: "'p option \<Rightarrow> ('p \<Rightarrow> 'a option) \<Rightarrow> 'a option" where
  "opt_field policy field = Option.bind policy field"

definition unwrap_or :: "'a option \<Rightarrow> 'a \<Rightarrow> 'a" where
  "unwrap_or x d = (case x of None \<Rightarrow> d | Some v \<Rightarrow> v)"

definition or_else :: "'a option \<Rightarrow> 'a option \<Rightarrow> 'a option" where
  "or_else x y = (case x of None \<Rightarrow> y | Some v \<Rightarrow> Some v)"

definition operator_allowed :: "context_kind_policy option \<Rightarrow> bool" where
  "operator_allowed operator = unwrap_or (opt_field operator kp_allowed) True"

definition operator_creation_ceiling :: "context_kind_policy option \<Rightarrow> bool" where
  "operator_creation_ceiling operator \<longleftrightarrow> opt_field operator kp_agent_creation \<noteq> Some False"

definition operator_identity_required :: "context_kind_policy option \<Rightarrow> bool" where
  "operator_identity_required operator \<longleftrightarrow> opt_field operator kp_require_identity = Some True"

definition policy_operator_stage :: "context_kind \<Rightarrow> context_kind_policy option \<Rightarrow> effective_context_policy" where
  "policy_operator_stage kind operator =
     (let default_project = (kind_str kind = KIND_PROJECT) in
      \<lparr>ep_kind = kind,
       ep_allowed = operator_allowed operator,
       ep_required = unwrap_or (opt_field operator kp_required) False,
       ep_allowed_companion_kinds = map_option btree_set (opt_field operator kp_allowed_companion_kinds),
       ep_allowed_identity_schemes = (case opt_field operator kp_allowed_identity_schemes of
          None \<Rightarrow> default_identity_schemes | Some s \<Rightarrow> normalized_scheme_set s),
       ep_agent_creation = unwrap_or (opt_field operator kp_agent_creation) default_project,
       ep_require_identity = unwrap_or (opt_field operator kp_require_identity) default_project,
       ep_default_context_id = opt_field operator kp_default_context_id,
       ep_include_descendants = unwrap_or (opt_field operator kp_include_descendants) False,
       ep_guidance = (case Option.bind (opt_field operator kp_guidance) non_blank of None \<Rightarrow> [] | Some g \<Rightarrow> [g]),
       ep_ambiguities = []\<rparr>)"

definition policy_principal_stage ::
  "context_kind_policy option \<Rightarrow> context_kind_policy option \<Rightarrow> effective_context_policy \<Rightarrow> effective_context_policy" where
  "policy_principal_stage operator principal_policy st =
     (case principal_policy of
        None \<Rightarrow> st
      | Some policy \<Rightarrow>
          let allowed1 = (if kp_allowed policy = Some False then False else ep_allowed st);
              allowed2 = (if operator_allowed operator then unwrap_or (kp_allowed policy) allowed1 else allowed1)
          in st\<lparr>ep_allowed := allowed2,
             ep_required := (if opt_field operator kp_required \<noteq> Some True
                             then unwrap_or (kp_required policy) (ep_required st) else ep_required st),
             ep_agent_creation := (if operator_creation_ceiling operator
                                   then unwrap_or (kp_agent_creation policy) (ep_agent_creation st) else False),
             ep_require_identity := (if \<not> operator_identity_required operator
                                     then unwrap_or (kp_require_identity policy) (ep_require_identity st)
                                     else ep_require_identity st),
             ep_default_context_id := or_else (kp_default_context_id policy) (ep_default_context_id st),
             ep_include_descendants := unwrap_or (kp_include_descendants policy) (ep_include_descendants st),
             ep_guidance := ep_guidance st @
               (case Option.bind (kp_guidance policy) non_blank of None \<Rightarrow> [] | Some g \<Rightarrow> [g]),
             ep_allowed_companion_kinds :=
               intersect_optional_kind_set (ep_allowed_companion_kinds st) (kp_allowed_companion_kinds policy),
             ep_allowed_identity_schemes :=
               intersect_optional_schemes (ep_allowed_identity_schemes st) (kp_allowed_identity_schemes policy)\<rparr>)"

text \<open>The loop over the anchors: set intersections and guidance.\<close>

definition anchor_step :: "context_kind_policy \<Rightarrow> effective_context_policy \<Rightarrow> effective_context_policy" where
  "anchor_step policy st = st\<lparr>
     ep_allowed_companion_kinds :=
       intersect_optional_kind_set (ep_allowed_companion_kinds st) (kp_allowed_companion_kinds policy),
     ep_allowed_identity_schemes :=
       intersect_optional_schemes (ep_allowed_identity_schemes st) (kp_allowed_identity_schemes policy),
     ep_guidance :=
       (case Option.bind (kp_guidance policy) non_blank of
          None \<Rightarrow> ep_guidance st
        | Some g \<Rightarrow> if g \<in> set (ep_guidance st) then ep_guidance st else ep_guidance st @ [g])\<rparr>"

text \<open>The scalar fields, merged before the loop.\<close>

definition anchor_default :: "context_kind_policy list \<Rightarrow> context_id option \<Rightarrow> context_id option \<times> string list" where
  "anchor_default anchors inherited =
     (case btree_set (List.map_filter kp_default_context_id anchors) of
        [] \<Rightarrow> (inherited, [])
      | [d] \<Rightarrow> (Some d, [])
      | _ \<Rightarrow> (inherited, [''active anchor policies specify conflicting default_context_id values'']))"

definition anchor_scalars ::
  "context_kind_policy option \<Rightarrow> context_kind_policy list \<Rightarrow> effective_context_policy \<Rightarrow> effective_context_policy" where
  "anchor_scalars operator anchors st =
     (let required = merge_anchor_bool ''required'' (List.map_filter kp_required anchors) (ep_required st);
          require_identity =
            merge_anchor_bool ''require_identity'' (List.map_filter kp_require_identity anchors) (ep_require_identity st);
          include_descendants =
            merge_anchor_bool ''include_descendants'' (List.map_filter kp_include_descendants anchors) (ep_include_descendants st);
          default_context_id = anchor_default anchors (ep_default_context_id st)
      in st\<lparr>ep_required := fst required, ep_require_identity := fst require_identity,
            ep_include_descendants := fst include_descendants,
            ep_allowed := (if list_ex (\<lambda>p. kp_allowed p = Some False) anchors then False
                       else if operator_allowed operator \<and> list_ex (\<lambda>p. kp_allowed p = Some True) anchors then True
                       else ep_allowed st),
            ep_agent_creation := (if list_ex (\<lambda>p. kp_agent_creation p = Some False) anchors \<or>
                                 \<not> operator_creation_ceiling operator then False
                              else if list_ex (\<lambda>p. kp_agent_creation p = Some True) anchors then True
                              else ep_agent_creation st),
            ep_default_context_id := fst default_context_id,
            ep_ambiguities := ep_ambiguities st @ snd required @ snd require_identity @
              snd include_descendants @ snd default_context_id\<rparr>)"

definition policy_anchor_stage ::
  "context_kind_policy option \<Rightarrow> context_kind_policy list \<Rightarrow> effective_context_policy \<Rightarrow> effective_context_policy" where
  "policy_anchor_stage operator anchors st =
     (if anchors = [] then st else fold anchor_step anchors (anchor_scalars operator anchors st))"

definition policy_ceiling_stage :: "context_kind_policy option \<Rightarrow> effective_context_policy \<Rightarrow> effective_context_policy" where
  "policy_ceiling_stage operator st = st\<lparr>
     ep_allowed := (if \<not> operator_allowed operator then False else ep_allowed st),
     ep_required := (if opt_field operator kp_required = Some True then True else ep_required st),
     ep_require_identity := (if operator_identity_required operator then True else ep_require_identity st),
     ep_agent_creation := (if \<not> operator_creation_ceiling operator then False else ep_agent_creation st)\<rparr>"

definition evaluate_context_policy ::
  "context_kind \<Rightarrow> context_kind_policy option \<Rightarrow> context_kind_policy option \<Rightarrow> context_kind_policy list \<Rightarrow>
   effective_context_policy" where
  "evaluate_context_policy kind operator principal_policy anchors =
     policy_ceiling_stage operator
       (policy_anchor_stage operator anchors
         (policy_principal_stage operator principal_policy
           (policy_operator_stage kind operator)))"

section \<open>Most specific anchors\<close>

text \<open>\<^verbatim>\<open>by_id\<close>: collecting into a \<^verbatim>\<open>BTreeMap\<close> keeps the last record of an id.\<close>

definition record_parent :: "context_record list \<Rightarrow> context_id \<Rightarrow> context_id option" where
  "record_parent records i =
     Option.bind (map_of (rev (map (\<lambda>r. (cd_id (rec_context r), cd_parent_id (rec_context r))) records)) i) (\<lambda>p. p)"

lemma finite_dom_record_parent [simp]: "finite (dom (record_parent records))"
proof (rule finite_subset)
  let ?m = "map_of (rev (map (\<lambda>r. (cd_id (rec_context r), cd_parent_id (rec_context r))) records))"
  show "dom (record_parent records) \<subseteq> dom ?m"
    by (auto simp: record_parent_def dom_def bind_eq_Some_conv)
  show "finite (dom ?m)" by (rule finite_dom_map_of)
qed

text \<open>Each turn either visits a new id that has a parent, or reaches the end.\<close>

lemma ancestor_walk_decreases:
  assumes "c \<notin> visited"
  shows "2 * card (dom (record_parent records) - insert c visited) + (if record_parent records c = None then 0 else 1)
       < 2 * card (dom (record_parent records) - visited) + (1 :: nat)"
proof (cases "record_parent records c")
  case None
  then have "dom (record_parent records) - insert c visited = dom (record_parent records) - visited" by auto
  with None show ?thesis by simp
next
  case (Some p)
  then have "c \<in> dom (record_parent records) - visited" using assms by auto
  then have "card (dom (record_parent records) - insert c visited) < card (dom (record_parent records) - visited)"
    by (intro psubset_card_mono) auto
  with Some show ?thesis by simp
qed

function ancestor_walk :: "context_record list \<Rightarrow> context_id \<Rightarrow> context_id option \<Rightarrow> context_id set \<Rightarrow> bool" where
  "ancestor_walk records ancestor_id None visited = False"
| "ancestor_walk records ancestor_id (Some context_id) visited =
     (if context_id = ancestor_id then True
      else if context_id \<in> visited then False
      else ancestor_walk records ancestor_id (record_parent records context_id) (insert context_id visited))"
  by pat_completeness auto
termination
  by (relation "measure (\<lambda>(records, a, cursor, visited).
        2 * card (dom (record_parent records) - visited) + (if cursor = None then 0 else 1))")
    (auto simp: ancestor_walk_decreases [simplified] simp del: Diff_insert)

definition context_is_ancestor :: "context_record list \<Rightarrow> context_id \<Rightarrow> context_id \<Rightarrow> bool" where
  "context_is_ancestor records ancestor_id descendant_id =
     ancestor_walk records ancestor_id (record_parent records descendant_id) {}"

definition find_kind_policy ::
  "context_policy_layer \<Rightarrow> context_kind \<Rightarrow> context_kind_policy_record list \<Rightarrow> context_kind_policy option" where
  "find_kind_policy layer kind kind_policies =
     map_option pr_policy (find (\<lambda>r. pr_layer r = layer \<and> pr_kind r = kind) kind_policies)"

definition active_anchor_records ::
  "context_kind \<Rightarrow> context_anchor_policy_record list \<Rightarrow> context_id list \<Rightarrow> context_anchor_policy_record list" where
  "active_anchor_records kind anchor_policies active =
     filter (\<lambda>r. ar_anchor_context_id r \<in> set active \<and> map_of (ap_kinds (ar_policy r)) (kind_str kind) \<noteq> None)
       anchor_policies"

definition most_specific_anchors ::
  "context_record list \<Rightarrow> context_anchor_policy_record list \<Rightarrow> context_anchor_policy_record list" where
  "most_specific_anchors records anchor_records =
     (let anchor_ids = map ar_anchor_context_id anchor_records in
      filter (\<lambda>candidate. \<not> list_ex (\<lambda>other_id. other_id \<noteq> ar_anchor_context_id candidate \<and>
                context_is_ancestor records (ar_anchor_context_id candidate) other_id) anchor_ids) anchor_records)"

definition evaluate_effective_context_policy ::
  "context_kind \<Rightarrow> context_kind_definition list \<Rightarrow> context_kind_policy_record list \<Rightarrow>
   context_anchor_policy_record list \<Rightarrow> context_record list \<Rightarrow> context_id list \<Rightarrow> effective_context_policy" where
  "evaluate_effective_context_policy kind kinds kind_policies anchor_policies records active_context_ids =
     (let operator = find_kind_policy LayerOperator kind kind_policies;
          principal_policy = find_kind_policy LayerPrincipal kind kind_policies;
          anchor_records = most_specific_anchors records
            (active_anchor_records kind anchor_policies active_context_ids);
          anchors = List.map_filter (\<lambda>r. map_of (ap_kinds (ar_policy r)) (kind_str kind)) anchor_records;
          effective = evaluate_context_policy kind operator principal_policy anchors
      in if (case find (\<lambda>d. kd_kind d = kind) kinds of None \<Rightarrow> True | Some d \<Rightarrow> \<not> kd_enabled d)
         then effective\<lparr>ep_allowed := False,
                ep_guidance := ep_guidance effective @
                  [''Context kind '' @ kind_str kind @ '' is disabled by the operator.'']\<rparr>
         else effective)"

section \<open>Sets\<close>

lemma set_btree_set [simp]: "set (btree_set xs) = set xs"
  by (simp add: btree_set_def)

lemma btree_set_sorted [simp]: "sorted (btree_set xs)" "distinct (btree_set xs)"
  by (simp_all add: btree_set_def)

lemma btree_set_cong: "set xs = set ys \<Longrightarrow> btree_set xs = btree_set ys"
  using sorted_distinct_set_unique [of "btree_set xs" "btree_set ys"] by simp

lemma btree_set_id: "sorted xs \<Longrightarrow> distinct xs \<Longrightarrow> btree_set xs = xs"
  by (intro sorted_distinct_set_unique) simp_all

lemma set_btree_inter [simp]: "set (btree_inter xs ys) = set xs \<inter> set ys"
  by (auto simp: btree_inter_def)

lemma btree_inter_sorted: "sorted xs \<Longrightarrow> sorted (btree_inter xs ys)" "distinct xs \<Longrightarrow> distinct (btree_inter xs ys)"
  by (simp_all add: btree_inter_def sorted_filter [where f = id, simplified])

lemma set_map_filter: "set (List.map_filter f xs) = {y. \<exists>x \<in> set xs. f x = Some y}"
  by (induction xs) (auto split: option.splits)

lemma map_filter_set_cong: "set xs = set ys \<Longrightarrow> set (List.map_filter f xs) = set (List.map_filter f ys)"
  by (simp add: set_map_filter)

lemmas unfold_stages = policy_ceiling_stage_def policy_anchor_stage_def policy_principal_stage_def
  policy_operator_stage_def evaluate_context_policy_def Let_def

lemma anchor_step_scalars [simp]:
  "ep_kind (fold anchor_step as st) = ep_kind st"
  "ep_allowed (fold anchor_step as st) = ep_allowed st"
  "ep_required (fold anchor_step as st) = ep_required st"
  "ep_agent_creation (fold anchor_step as st) = ep_agent_creation st"
  "ep_require_identity (fold anchor_step as st) = ep_require_identity st"
  "ep_default_context_id (fold anchor_step as st) = ep_default_context_id st"
  "ep_include_descendants (fold anchor_step as st) = ep_include_descendants st"
  "ep_ambiguities (fold anchor_step as st) = ep_ambiguities st"
  by (induction as arbitrary: st) (simp_all add: anchor_step_def)

text \<open>What one layer states about identity schemes and companion kinds; a layer that is silent
  restricts nothing.\<close>

definition stated_schemes :: "context_kind_policy \<Rightarrow> string set" where
  "stated_schemes p = (case kp_allowed_identity_schemes p of
     None \<Rightarrow> UNIV | Some s \<Rightarrow> set (normalized_scheme_set s))"

definition stated_companions :: "context_kind_policy \<Rightarrow> context_kind set" where
  "stated_companions p = (case kp_allowed_companion_kinds p of None \<Rightarrow> UNIV | Some ks \<Rightarrow> set ks)"

definition companion_set :: "context_kind list option \<Rightarrow> context_kind set" where
  "companion_set c = (case c of None \<Rightarrow> UNIV | Some ks \<Rightarrow> set ks)"

lemma set_intersect_schemes:
  "set (intersect_optional_schemes c (kp_allowed_identity_schemes p)) = set c \<inter> stated_schemes p"
  by (simp add: intersect_optional_schemes_def stated_schemes_def split: option.splits)

lemma companion_set_intersect:
  "companion_set (intersect_optional_kind_set c (kp_allowed_companion_kinds p)) = companion_set c \<inter> stated_companions p"
  by (cases "(c, kp_allowed_companion_kinds p)" rule: intersect_optional_kind_set.cases)
    (simp_all add: companion_set_def stated_companions_def)

lemma fold_anchor_step_sets:
  "set (ep_allowed_identity_schemes (fold anchor_step as st)) =
     set (ep_allowed_identity_schemes st) \<inter> (\<Inter>p \<in> set as. stated_schemes p)"
  "companion_set (ep_allowed_companion_kinds (fold anchor_step as st)) =
     companion_set (ep_allowed_companion_kinds st) \<inter> (\<Inter>p \<in> set as. stated_companions p)"
  by (induction as arbitrary: st) (auto simp: anchor_step_def set_intersect_schemes companion_set_intersect)

text \<open>Both set-valued results stay sorted and duplicate-free, as the \<^verbatim>\<open>BTreeSet\<close>s they model.\<close>

definition canonical_sets :: "effective_context_policy \<Rightarrow> bool" where
  "canonical_sets e \<longleftrightarrow>
     sorted (ep_allowed_identity_schemes e) \<and> distinct (ep_allowed_identity_schemes e) \<and>
     (case ep_allowed_companion_kinds e of None \<Rightarrow> True | Some ks \<Rightarrow> sorted ks \<and> distinct ks)"

lemma canonical_intersect:
  "sorted c \<and> distinct c \<Longrightarrow> sorted (intersect_optional_schemes c s) \<and> distinct (intersect_optional_schemes c s)"
  "(case k of None \<Rightarrow> True | Some ks \<Rightarrow> sorted ks \<and> distinct ks) \<Longrightarrow>
   (case intersect_optional_kind_set k n of None \<Rightarrow> True | Some ks \<Rightarrow> sorted ks \<and> distinct ks)"
  by (simp add: intersect_optional_schemes_def btree_inter_sorted split: option.splits)
    (cases "(k, n)" rule: intersect_optional_kind_set.cases; simp add: btree_inter_sorted)

lemma canonical_fold: "canonical_sets st \<Longrightarrow> canonical_sets (fold anchor_step as st)"
proof (induction as arbitrary: st)
  case (Cons p as)
  then have "canonical_sets (anchor_step p st)"
    by (simp add: canonical_sets_def anchor_step_def canonical_intersect)
  with Cons.IH show ?case by simp
qed simp

lemma canonical_operator_stage: "canonical_sets (policy_operator_stage kind operator)"
  by (auto simp: canonical_sets_def policy_operator_stage_def Let_def normalized_scheme_set_def
      default_identity_schemes_def split: option.splits)

lemma canonical_principal_stage:
  "canonical_sets st \<Longrightarrow> canonical_sets (policy_principal_stage operator pp st)"
  by (cases pp) (simp_all add: canonical_sets_def policy_principal_stage_def Let_def canonical_intersect)

lemma principal_stage_sets:
  "set (ep_allowed_identity_schemes (policy_principal_stage operator pp st)) =
     set (ep_allowed_identity_schemes st) \<inter> (\<Inter>p \<in> set_option pp. stated_schemes p)"
  "companion_set (ep_allowed_companion_kinds (policy_principal_stage operator pp st)) =
     companion_set (ep_allowed_companion_kinds st) \<inter> (\<Inter>p \<in> set_option pp. stated_companions p)"
  by (cases pp; simp add: policy_principal_stage_def Let_def set_intersect_schemes companion_set_intersect)+

lemma canonical_sets_cong:
  "ep_allowed_identity_schemes e = ep_allowed_identity_schemes e' \<Longrightarrow>
   ep_allowed_companion_kinds e = ep_allowed_companion_kinds e' \<Longrightarrow> canonical_sets e = canonical_sets e'"
  by (simp add: canonical_sets_def)

text \<open>The anchor stage is the anchor loop on a state that differs in the scalars only.\<close>

lemma policy_anchor_stage_fold:
  obtains st' where "policy_anchor_stage operator anchors st = fold anchor_step anchors st'"
    "ep_allowed_identity_schemes st' = ep_allowed_identity_schemes st"
    "ep_allowed_companion_kinds st' = ep_allowed_companion_kinds st" "ep_guidance st' = ep_guidance st"
proof (rule that)
  let ?st = "if anchors = [] then st else anchor_scalars operator anchors st"
  show "policy_anchor_stage operator anchors st = fold anchor_step anchors ?st"
    "ep_allowed_identity_schemes ?st = ep_allowed_identity_schemes st"
    "ep_allowed_companion_kinds ?st = ep_allowed_companion_kinds st" "ep_guidance ?st = ep_guidance st"
    by (simp_all add: policy_anchor_stage_def anchor_scalars_def Let_def)
qed

lemma canonical_anchor_stage: "canonical_sets st \<Longrightarrow> canonical_sets (policy_anchor_stage operator anchors st)"
  by (rule policy_anchor_stage_fold [of operator anchors st])
    (metis canonical_fold canonical_sets_cong)

lemma canonical_evaluate: "canonical_sets (evaluate_context_policy kind operator pp anchors)"
proof -
  have "canonical_sets (policy_ceiling_stage operator st) = canonical_sets st" for st
    by (rule canonical_sets_cong) (simp_all add: policy_ceiling_stage_def)
  then show ?thesis unfolding evaluate_context_policy_def
    using canonical_anchor_stage canonical_principal_stage canonical_operator_stage by simp
qed

lemma evaluate_schemes:
  "set (ep_allowed_identity_schemes (evaluate_context_policy kind operator pp anchors)) =
     set (ep_allowed_identity_schemes (policy_operator_stage kind operator)) \<inter>
     (\<Inter>p \<in> set_option pp \<union> set anchors. stated_schemes p)"
proof -
  obtain st' where st': "policy_anchor_stage operator anchors (policy_principal_stage operator pp (policy_operator_stage kind operator))
      = fold anchor_step anchors st'"
    "ep_allowed_identity_schemes st' = ep_allowed_identity_schemes (policy_principal_stage operator pp (policy_operator_stage kind operator))"
    by (rule policy_anchor_stage_fold)
  show ?thesis
    unfolding evaluate_context_policy_def policy_ceiling_stage_def st'(1)
    by (simp add: fold_anchor_step_sets st'(2) principal_stage_sets INT_Un Int_assoc)
qed

lemma evaluate_companions:
  "companion_set (ep_allowed_companion_kinds (evaluate_context_policy kind operator pp anchors)) =
     (\<Inter>p \<in> set_option operator \<union> set_option pp \<union> set anchors. stated_companions p)"
proof -
  obtain st' where st': "policy_anchor_stage operator anchors (policy_principal_stage operator pp (policy_operator_stage kind operator))
      = fold anchor_step anchors st'"
    "ep_allowed_companion_kinds st' = ep_allowed_companion_kinds (policy_principal_stage operator pp (policy_operator_stage kind operator))"
    by (rule policy_anchor_stage_fold)
  have op: "companion_set (ep_allowed_companion_kinds (policy_operator_stage kind operator))
      = (\<Inter>p \<in> set_option operator. stated_companions p)"
    by (cases operator) (auto simp: policy_operator_stage_def Let_def opt_field_def companion_set_def
        stated_companions_def split: option.splits)
  show ?thesis
    unfolding evaluate_context_policy_def policy_ceiling_stage_def st'(1)
    by (simp add: fold_anchor_step_sets st'(2) principal_stage_sets op INT_Un Int_assoc)
qed

section \<open>Properties of the merge\<close>

text \<open>Claim C25. Operator ceilings cannot be lifted: whatever the principal's policy and the active
  anchors say, a kind the operator denies is not allowed, a kind it requires is required, an
  identity requirement stays, and creation it forbids stays forbidden.\<close>

theorem operator_ceilings_hold:
  "(kp_allowed op = Some False \<longrightarrow> \<not> ep_allowed (evaluate_context_policy kind (Some op) pp anchors)) \<and>
   (kp_required op = Some True \<longrightarrow> ep_required (evaluate_context_policy kind (Some op) pp anchors)) \<and>
   (kp_require_identity op = Some True \<longrightarrow> ep_require_identity (evaluate_context_policy kind (Some op) pp anchors)) \<and>
   (kp_agent_creation op = Some False \<longrightarrow> \<not> ep_agent_creation (evaluate_context_policy kind (Some op) pp anchors))"
  by (simp add: evaluate_context_policy_def policy_ceiling_stage_def operator_allowed_def
      operator_creation_ceiling_def operator_identity_required_def opt_field_def unwrap_or_def)

definition strict_policy :: context_kind_policy where
  "strict_policy = context_kind_policy_default\<lparr>kp_allowed := Some False, kp_required := Some True,
     kp_require_identity := Some True, kp_agent_creation := Some False\<rparr>"

definition lenient_policy :: context_kind_policy where
  "lenient_policy = context_kind_policy_default\<lparr>kp_allowed := Some True, kp_required := Some False,
     kp_require_identity := Some False, kp_agent_creation := Some True,
     kp_allowed_identity_schemes := Some ['' URI'']\<rparr>"

theorem operator_ceilings_hold_witness:
  "\<not> ep_allowed (evaluate_context_policy (ContextKind KIND_PROJECT) (Some strict_policy) (Some lenient_policy) [lenient_policy])
   \<and> ep_required (evaluate_context_policy (ContextKind KIND_PROJECT) (Some strict_policy) (Some lenient_policy) [lenient_policy])"
  using operator_ceilings_hold [of strict_policy "ContextKind KIND_PROJECT" "Some lenient_policy" "[lenient_policy]"]
  by (simp add: strict_policy_def)

text \<open>The accepted identity schemes are exactly the operator's schemes (the three
  built-in ones when it names none) cut down by every layer that names schemes, and the companion
  kinds are exactly the intersection of what the layers state; both come out sorted and without
  duplicates.\<close>

lemma policy_sets_are_intersections:
  "set (ep_allowed_identity_schemes (evaluate_context_policy kind operator pp anchors)) =
     (case opt_field operator kp_allowed_identity_schemes of
        None \<Rightarrow> {''git_remote'', ''namespaced_id'', ''uri''}
      | Some s \<Rightarrow> (\<lambda>v. to_ascii_lowercase (trim v)) ` set s)
     \<inter> (\<Inter>p \<in> set_option pp \<union> set anchors. stated_schemes p) \<and>
   companion_set (ep_allowed_companion_kinds (evaluate_context_policy kind operator pp anchors)) =
     (\<Inter>p \<in> set_option operator \<union> set_option pp \<union> set anchors. stated_companions p) \<and>
   canonical_sets (evaluate_context_policy kind operator pp anchors)"
  unfolding evaluate_schemes evaluate_companions
  by (simp add: canonical_evaluate policy_operator_stage_def Let_def normalized_scheme_set_def
      default_identity_schemes_def split: option.splits)

text \<open>The anchor scalars read the anchors through sets only.\<close>

lemma policy_anchor_stage_scalars:
  assumes "mset anchors = mset anchors'"
  shows "ep_kind (policy_anchor_stage op anchors st) = ep_kind (policy_anchor_stage op anchors' st)"
    "ep_allowed (policy_anchor_stage op anchors st) = ep_allowed (policy_anchor_stage op anchors' st)"
    "ep_required (policy_anchor_stage op anchors st) = ep_required (policy_anchor_stage op anchors' st)"
    "ep_agent_creation (policy_anchor_stage op anchors st) = ep_agent_creation (policy_anchor_stage op anchors' st)"
    "ep_require_identity (policy_anchor_stage op anchors st) = ep_require_identity (policy_anchor_stage op anchors' st)"
    "ep_default_context_id (policy_anchor_stage op anchors st) = ep_default_context_id (policy_anchor_stage op anchors' st)"
    "ep_include_descendants (policy_anchor_stage op anchors st) = ep_include_descendants (policy_anchor_stage op anchors' st)"
    "ep_ambiguities (policy_anchor_stage op anchors st) = ep_ambiguities (policy_anchor_stage op anchors' st)"
proof -
  have same: "set anchors = set anchors'" using assms by (rule mset_eq_setD)
  have empty: "anchors = [] \<longleftrightarrow> anchors' = []" using assms by auto
  have ex: "list_ex P anchors = list_ex P anchors'" for P by (simp add: list_ex_iff same)
  have bs: "btree_set (List.map_filter f anchors) = btree_set (List.map_filter f anchors')"
    for f :: "context_kind_policy \<Rightarrow> 'b::linorder option"
    by (rule btree_set_cong) (simp add: map_filter_set_cong [OF same])
  have mb: "merge_anchor_bool fld (List.map_filter f anchors) t = merge_anchor_bool fld (List.map_filter f anchors') t"
    for fld f t by (simp add: merge_anchor_bool_def bs)
  have "anchor_scalars op anchors st = anchor_scalars op anchors' st"
    by (simp add: anchor_scalars_def anchor_default_def Let_def ex bs mb)
  then have "policy_anchor_stage op anchors st = fold anchor_step anchors (if anchors = [] then st else anchor_scalars op anchors st)"
    "policy_anchor_stage op anchors' st = fold anchor_step anchors' (if anchors = [] then st else anchor_scalars op anchors st)"
    using empty by (auto simp: policy_anchor_stage_def)
  then show "ep_kind (policy_anchor_stage op anchors st) = ep_kind (policy_anchor_stage op anchors' st)"
    "ep_allowed (policy_anchor_stage op anchors st) = ep_allowed (policy_anchor_stage op anchors' st)"
    "ep_required (policy_anchor_stage op anchors st) = ep_required (policy_anchor_stage op anchors' st)"
    "ep_agent_creation (policy_anchor_stage op anchors st) = ep_agent_creation (policy_anchor_stage op anchors' st)"
    "ep_require_identity (policy_anchor_stage op anchors st) = ep_require_identity (policy_anchor_stage op anchors' st)"
    "ep_default_context_id (policy_anchor_stage op anchors st) = ep_default_context_id (policy_anchor_stage op anchors' st)"
    "ep_include_descendants (policy_anchor_stage op anchors st) = ep_include_descendants (policy_anchor_stage op anchors' st)"
    "ep_ambiguities (policy_anchor_stage op anchors st) = ep_ambiguities (policy_anchor_stage op anchors' st)"
    by simp_all
qed

lemma canonical_sets_unique:
  assumes "canonical_sets e" "canonical_sets e'"
    and "set (ep_allowed_identity_schemes e) = set (ep_allowed_identity_schemes e')"
  shows "ep_allowed_identity_schemes e = ep_allowed_identity_schemes e'"
  using assms by (intro sorted_distinct_set_unique) (simp_all add: canonical_sets_def)

lemma companions_stated:
  "ep_allowed_companion_kinds (fold anchor_step as st) = None \<longleftrightarrow>
     ep_allowed_companion_kinds st = None \<and> (\<forall>p \<in> set as. kp_allowed_companion_kinds p = None)"
proof (induction as arbitrary: st)
  case (Cons p as)
  have "intersect_optional_kind_set c (kp_allowed_companion_kinds p) = None \<longleftrightarrow>
      c = None \<and> kp_allowed_companion_kinds p = None" for c
    by (cases "(c, kp_allowed_companion_kinds p)" rule: intersect_optional_kind_set.cases) auto
  with Cons show ?case by (auto simp: anchor_step_def)
qed simp

lemma policy_anchor_stage_companions_None:
  "ep_allowed_companion_kinds (policy_anchor_stage op anchors st) = None \<longleftrightarrow>
     ep_allowed_companion_kinds st = None \<and> (\<forall>p \<in> set anchors. kp_allowed_companion_kinds p = None)"
  by (rule policy_anchor_stage_fold [of op anchors st]) (simp add: companions_stated)

lemma companions_unique:
  assumes "canonical_sets e" "canonical_sets e'"
    and "companion_set (ep_allowed_companion_kinds e) = companion_set (ep_allowed_companion_kinds e')"
    and "ep_allowed_companion_kinds e = None \<longleftrightarrow> ep_allowed_companion_kinds e' = None"
  shows "ep_allowed_companion_kinds e = ep_allowed_companion_kinds e'"
proof (cases "ep_allowed_companion_kinds e")
  case (Some ks)
  with assms(4) obtain ks' where ks': "ep_allowed_companion_kinds e' = Some ks'" by auto
  with Some assms(1,2,3) have "ks = ks'"
    by (intro sorted_distinct_set_unique) (simp_all add: canonical_sets_def companion_set_def)
  with Some ks' show ?thesis by simp
qed (use assms(4) in simp)

lemma fold_anchor_guidance:
  "set (ep_guidance (fold anchor_step as st)) =
     set (ep_guidance st) \<union> {g. \<exists>p \<in> set as. Option.bind (kp_guidance p) non_blank = Some g}"
  by (induction as arbitrary: st) (auto simp: anchor_step_def split: option.splits)

lemma policy_anchor_stage_guidance:
  "set (ep_guidance (policy_anchor_stage op anchors st)) =
     set (ep_guidance st) \<union> {g. \<exists>p \<in> set anchors. Option.bind (kp_guidance p) non_blank = Some g}"
  by (rule policy_anchor_stage_fold [of op anchors st]) (simp add: fold_anchor_guidance)

text \<open>Claim C26. Equally specific anchors have no order: permuting the active anchors changes
  nothing of the effective policy but the order of the guidance lines.\<close>

theorem anchor_order_irrelevant:
  assumes "mset anchors = mset anchors'"
  shows "(evaluate_context_policy kind op pp anchors)\<lparr>ep_guidance := []\<rparr> =
         (evaluate_context_policy kind op pp anchors')\<lparr>ep_guidance := []\<rparr> \<and>
         set (ep_guidance (evaluate_context_policy kind op pp anchors)) =
         set (ep_guidance (evaluate_context_policy kind op pp anchors'))"
proof -
  let ?e = "evaluate_context_policy kind op pp anchors" and ?e' = "evaluate_context_policy kind op pp anchors'"
  have same: "set anchors = set anchors'" using assms by (rule mset_eq_setD)
  have schemes: "ep_allowed_identity_schemes ?e = ep_allowed_identity_schemes ?e'"
    by (rule canonical_sets_unique) (simp_all add: canonical_evaluate evaluate_schemes same)
  have companions: "ep_allowed_companion_kinds ?e = ep_allowed_companion_kinds ?e'"
    by (rule companions_unique)
      (simp_all add: canonical_evaluate evaluate_companions same, simp add: evaluate_context_policy_def
        policy_ceiling_stage_def policy_anchor_stage_companions_None same)
  have scalars: "ep_kind ?e = ep_kind ?e'" "ep_allowed ?e = ep_allowed ?e'" "ep_required ?e = ep_required ?e'"
    "ep_agent_creation ?e = ep_agent_creation ?e'" "ep_require_identity ?e = ep_require_identity ?e'"
    "ep_default_context_id ?e = ep_default_context_id ?e'" "ep_include_descendants ?e = ep_include_descendants ?e'"
    "ep_ambiguities ?e = ep_ambiguities ?e'"
    by (simp_all add: evaluate_context_policy_def policy_ceiling_stage_def policy_anchor_stage_scalars [OF assms])
  have "set (ep_guidance ?e) = set (ep_guidance ?e')"
    by (simp add: evaluate_context_policy_def policy_ceiling_stage_def policy_anchor_stage_guidance same)
  with schemes companions scalars show ?thesis by (simp add: effective_context_policy.equality)
qed

theorem anchor_order_irrelevant_witness:
  "ep_ambiguities (evaluate_context_policy (ContextKind KIND_PROJECT) None None [strict_policy, lenient_policy]) =
   ep_ambiguities (evaluate_context_policy (ContextKind KIND_PROJECT) None None [lenient_policy, strict_policy])"
  using anchor_order_irrelevant [of "[strict_policy, lenient_policy]" "[lenient_policy, strict_policy]"
      "ContextKind KIND_PROJECT" None None, THEN conjunct1, THEN arg_cong [where f = ep_ambiguities]]
  by (simp add: add_mset_commute)

text \<open>A conflict between anchors keeps the inherited value and is reported.\<close>

lemma merge_anchor_bool_cases:
  "merge_anchor_bool field values target =
     (if True \<in> set values \<and> False \<in> set values
      then (target, [''active anchor policies specify conflicting '' @ field @ '' values''])
      else if True \<in> set values then (True, [])
      else if False \<in> set values then (False, [])
      else (target, []))"
proof -
  have "btree_set values = btree_set ((if False \<in> set values then [False] else []) @ (if True \<in> set values then [True] else []))"
  proof (rule btree_set_cong)
    have "x = True \<or> x = False" for x :: bool by simp
    then show "set values = set ((if False \<in> set values then [False] else []) @ (if True \<in> set values then [True] else []))"
      by (auto split: if_splits) (metis (full_types))+
  qed
  then show ?thesis by (simp add: merge_anchor_bool_def btree_set_def)
qed

text \<open>Among active anchors a denial wins, and conflicting scalars are never resolved
  arbitrarily: one anchor that denies the kind or its creation is decisive, and two anchors that
  disagree about a requirement leave the inherited value in force (unless the operator requires
  it) and add an ambiguity that names the field.\<close>

lemma anchor_denial_wins:
  "((\<exists>p \<in> set anchors. kp_allowed p = Some False) \<longrightarrow> \<not> ep_allowed (evaluate_context_policy kind op pp anchors)) \<and>
   ((\<exists>p \<in> set anchors. kp_agent_creation p = Some False) \<longrightarrow>
      \<not> ep_agent_creation (evaluate_context_policy kind op pp anchors)) \<and>
   ((\<exists>p \<in> set anchors. kp_required p = Some True) \<and> (\<exists>p \<in> set anchors. kp_required p = Some False) \<longrightarrow>
      ep_required (evaluate_context_policy kind op pp anchors) = ep_required (evaluate_context_policy kind op pp []) \<and>
      ''active anchor policies specify conflicting required values'' \<in>
        set (ep_ambiguities (evaluate_context_policy kind op pp anchors)))"
proof (intro conjI impI, goal_cases)
  case 1
  then show ?case
    by (auto simp: evaluate_context_policy_def policy_ceiling_stage_def policy_anchor_stage_def
        anchor_scalars_def Let_def list_ex_iff)
next
  case 2
  then show ?case
    by (auto simp: evaluate_context_policy_def policy_ceiling_stage_def policy_anchor_stage_def
        anchor_scalars_def Let_def list_ex_iff)
next
  case 3
  then have "True \<in> set (List.map_filter kp_required anchors)" "False \<in> set (List.map_filter kp_required anchors)"
    "anchors \<noteq> []"
    by (auto simp: set_map_filter)
  then show ?case
    by (simp add: evaluate_context_policy_def policy_ceiling_stage_def policy_anchor_stage_def
        anchor_scalars_def Let_def merge_anchor_bool_cases)
next
  case 4
  then have "True \<in> set (List.map_filter kp_required anchors)" "False \<in> set (List.map_filter kp_required anchors)"
    "anchors \<noteq> []"
    by (auto simp: set_map_filter)
  then show ?case
    by (simp add: evaluate_context_policy_def policy_ceiling_stage_def policy_anchor_stage_def
        anchor_scalars_def Let_def merge_anchor_bool_cases)
qed

section \<open>The hierarchy\<close>

definition parent_rel :: "context_record list \<Rightarrow> (context_id \<times> context_id) set" where
  "parent_rel records = {(c, p). record_parent records c = Some p}"

lemma ancestor_walk_sound:
  "ancestor_walk records a cursor visited \<Longrightarrow> \<exists>c. cursor = Some c \<and> (c, a) \<in> (parent_rel records)\<^sup>*"
proof (induction records a cursor visited rule: ancestor_walk.induct)
  case (2 records a c visited)
  show ?case
  proof (cases "c = a")
    case False
    with "2.prems" have "c \<notin> visited" by (simp split: if_splits)
    with False 2 obtain p where "record_parent records c = Some p" "(p, a) \<in> (parent_rel records)\<^sup>*" by auto
    then show ?thesis by (auto simp: parent_rel_def intro: converse_rtrancl_into_rtrancl)
  qed simp
qed simp

lemma closed_rtrancl:
  "(x, y) \<in> R\<^sup>* \<Longrightarrow> x \<in> V \<Longrightarrow> (\<And>u w. u \<in> V \<Longrightarrow> (u, w) \<in> R \<Longrightarrow> w \<in> V) \<Longrightarrow> y \<in> V"
  by (induction rule: rtrancl_induct) auto

text \<open>When the walk stops without meeting \<open>a\<close>, everything reachable was visited.\<close>

lemma ancestor_walk_complete:
  assumes "\<not> ancestor_walk records a cursor visited"
    and "\<And>v. v \<in> visited \<Longrightarrow> v \<noteq> a \<and> (\<forall>w. record_parent records v = Some w \<longrightarrow> w \<in> visited \<or> cursor = Some w)"
    and "x \<in> visited \<union> set_option cursor"
  shows "(x, a) \<notin> (parent_rel records)\<^sup>*"
  using assms
proof (induction records a cursor visited rule: ancestor_walk.induct)
  case (1 records a visited)
  then have "u \<in> visited \<Longrightarrow> (u, w) \<in> parent_rel records \<Longrightarrow> w \<in> visited" for u w
    by (auto simp: parent_rel_def)
  then have "(x, a) \<in> (parent_rel records)\<^sup>* \<Longrightarrow> a \<in> visited"
    using closed_rtrancl [of x a "parent_rel records" visited] "1.prems"(3) by simp
  with "1.prems"(2) show ?case by blast
next
  case (2 records a c visited)
  show ?case
  proof (cases "c \<in> visited")
    case True
    with 2 have "u \<in> visited \<Longrightarrow> (u, w) \<in> parent_rel records \<Longrightarrow> w \<in> visited" for u w
      by (auto simp: parent_rel_def)
    then have "(x, a) \<in> (parent_rel records)\<^sup>* \<Longrightarrow> a \<in> visited"
      using closed_rtrancl [of x a "parent_rel records" visited] "2.prems"(3) True by auto
    with "2.prems"(2) show ?thesis by blast
  next
    case False
    with "2.prems"(1) have "c \<noteq> a" "\<not> ancestor_walk records a (record_parent records c) (insert c visited)"
      by (auto split: if_splits)
    moreover have "v \<noteq> a \<and> (\<forall>w. record_parent records v = Some w \<longrightarrow> w \<in> insert c visited \<or> record_parent records c = Some w)"
      if "v \<in> insert c visited" for v using that "2.prems"(2) \<open>c \<noteq> a\<close> by auto
    ultimately show ?thesis using "2.IH" False "2.prems"(3) by auto
  qed
qed

lemma context_is_ancestor_iff:
  "context_is_ancestor records a d \<longleftrightarrow> (d, a) \<in> (parent_rel records)\<^sup>+"
proof
  assume "context_is_ancestor records a d"
  then obtain c where "record_parent records d = Some c" "(c, a) \<in> (parent_rel records)\<^sup>*"
    unfolding context_is_ancestor_def using ancestor_walk_sound by blast
  then show "(d, a) \<in> (parent_rel records)\<^sup>+"
    by (auto simp: parent_rel_def intro: rtrancl_into_trancl2)
next
  assume "(d, a) \<in> (parent_rel records)\<^sup>+"
  then obtain c where "record_parent records d = Some c" "(c, a) \<in> (parent_rel records)\<^sup>*"
    by (auto dest!: tranclD simp: parent_rel_def)
  then show "context_is_ancestor records a d"
    using ancestor_walk_complete [of records a "Some c" "{}" c]
    by (auto simp: context_is_ancestor_def simp del: ancestor_walk.simps)
qed

text \<open>The ancestor test terminates on every hierarchy, cyclic ones included, and decides
  exactly the transitive closure of the parent relation.\<close>

lemma context_is_ancestor_is_trancl:
  "context_is_ancestor records a d = ((d, a) \<in> {(c, p). record_parent records c = Some p}\<^sup>+)"
  using context_is_ancestor_iff by (simp add: parent_rel_def)

lemma finite_parent_rel: "finite (parent_rel records)"
proof (rule finite_subset)
  show "parent_rel records \<subseteq> (\<lambda>c. (c, the (record_parent records c))) ` dom (record_parent records)"
    by (force simp: parent_rel_def)
qed simp

lemma most_specific_exists:
  assumes "acyclic (parent_rel records)" "r \<in> set rs"
  shows "\<exists>r' \<in> set (most_specific_anchors records rs).
    ar_anchor_context_id r' = ar_anchor_context_id r \<or>
    (ar_anchor_context_id r', ar_anchor_context_id r) \<in> (parent_rel records)\<^sup>+"
proof -
  let ?R = "(parent_rel records)\<^sup>+"
  have "wf ((parent_rel records))" by (rule finite_acyclic_wf) (simp_all add: finite_parent_rel assms)
  have "wf ?R" using \<open>wf (parent_rel records)\<close> by (rule wf_trancl)
  define Q where "Q = {i \<in> ar_anchor_context_id ` set rs. i = ar_anchor_context_id r \<or> (i, ar_anchor_context_id r) \<in> ?R}"
  have "ar_anchor_context_id r \<in> Q" using assms(2) by (auto simp: Q_def)
  with \<open>wf ?R\<close> obtain m where m: "m \<in> Q" "\<And>y. (y, m) \<in> ?R \<Longrightarrow> y \<notin> Q" by (rule wfE_min) blast
  from m(1) obtain r' where r': "r' \<in> set rs" "m = ar_anchor_context_id r'" by (auto simp: Q_def)
  have "(y, m) \<notin> ?R" if "y \<in> ar_anchor_context_id ` set rs" for y
  proof
    assume y: "(y, m) \<in> ?R"
    with m(1) have "(y, ar_anchor_context_id r) \<in> ?R" by (auto simp: Q_def intro: trancl_trans)
    with that have "y \<in> Q" by (simp add: Q_def)
    with m(2) y show False by blast
  qed
  then have "r' \<in> set (most_specific_anchors records rs)"
    using r' by (auto simp: most_specific_anchors_def Let_def list_ex_iff context_is_ancestor_iff)
  with m(1) r' show ?thesis by (auto simp: Q_def)
qed

text \<open>Claim C27. On an acyclic hierarchy the selection of the most specific anchors never loses the
  policy of a kind: every active anchor with an override for the kind is itself kept or has a
  descendant anchor that is kept, and no two kept anchors are ancestor and descendant.\<close>

theorem most_specific_anchor_survives:
  assumes "acyclic {(c, p). record_parent records c = Some p}"
    and "r \<in> set (active_anchor_records kind anchor_policies active)"
  shows "(\<exists>r' \<in> set (most_specific_anchors records (active_anchor_records kind anchor_policies active)).
      ar_anchor_context_id r' = ar_anchor_context_id r \<or>
      context_is_ancestor records (ar_anchor_context_id r) (ar_anchor_context_id r')) \<and>
    (\<forall>x \<in> set (most_specific_anchors records (active_anchor_records kind anchor_policies active)).
     \<forall>y \<in> set (most_specific_anchors records (active_anchor_records kind anchor_policies active)).
       \<not> context_is_ancestor records (ar_anchor_context_id x) (ar_anchor_context_id y))"
proof
  have ac: "acyclic (parent_rel records)" using assms(1) by (simp add: parent_rel_def)
  from most_specific_exists [OF this assms(2)] show "\<exists>r' \<in> set (most_specific_anchors records (active_anchor_records kind anchor_policies active)).
      ar_anchor_context_id r' = ar_anchor_context_id r \<or>
      context_is_ancestor records (ar_anchor_context_id r) (ar_anchor_context_id r')"
    by (simp add: context_is_ancestor_iff)
  have "\<not> context_is_ancestor records a a" for a
    using ac by (simp add: context_is_ancestor_iff acyclic_def)
  then show "\<forall>x \<in> set (most_specific_anchors records (active_anchor_records kind anchor_policies active)).
     \<forall>y \<in> set (most_specific_anchors records (active_anchor_records kind anchor_policies active)).
       \<not> context_is_ancestor records (ar_anchor_context_id x) (ar_anchor_context_id y)"
    by (auto simp: most_specific_anchors_def Let_def list_ex_iff)
qed

definition sample_record :: "context_id \<Rightarrow> context_id option \<Rightarrow> context_record" where
  "sample_record i p = \<lparr>rec_context = \<lparr>cd_id = i, cd_kind = ContextKind KIND_PROJECT, cd_key = ''k'',
      cd_display_name = ''K'', cd_description = None, cd_owner_principal = ''alice'', cd_guidance = None,
      cd_parent_id = p, cd_lifecycle = Active, cd_frozen = False, cd_created_at = 0, cd_updated_at = 0\<rparr>,
     rec_aliases = [], rec_identities = [], rec_hints = []\<rparr>"

definition sample_anchor :: "context_id \<Rightarrow> context_anchor_policy_record" where
  "sample_anchor i = \<lparr>ar_anchor_context_id = i, ar_principal = ''alice'',
     ar_policy = \<lparr>ap_kinds = [(''project'', strict_policy)]\<rparr>, ar_updated_at = 0\<rparr>"

theorem most_specific_anchor_survives_witness:
  "\<exists>r' \<in> set (most_specific_anchors [sample_record 2 (Some 1), sample_record 1 None]
       (active_anchor_records (ContextKind ''project'') [sample_anchor 1, sample_anchor 2] [1, 2])).
     ar_anchor_context_id r' = 1 \<or>
     context_is_ancestor [sample_record 2 (Some 1), sample_record 1 None] 1 (ar_anchor_context_id r')"
proof -
  let ?rs = "[sample_record 2 (Some 1), sample_record 1 None]"
  have "{(c, p). record_parent ?rs c = Some p} = {(2, 1)}"
    by (auto simp: record_parent_def sample_record_def split: if_splits)
  then have "acyclic {(c, p). record_parent ?rs c = Some p}"
    by (simp add: acyclic_insert) (simp add: acyclic_def)
  moreover have "sample_anchor 1 \<in> set (active_anchor_records (ContextKind ''project'') [sample_anchor 1, sample_anchor 2] [1, 2])"
    by (simp add: active_anchor_records_def sample_anchor_def)
  ultimately show ?thesis
    using most_specific_anchor_survives [of ?rs "sample_anchor 1" "ContextKind ''project''" "[sample_anchor 1, sample_anchor 2]" "[1, 2]"]
    by (simp add: sample_anchor_def [of 1])
qed

end
