(* ===== verification/Http_Auth.thy ===== *)
theory Http_Auth
  imports Context_Types
begin

text \<open>
  Principals and bearer tokens, \<^verbatim>\<open>src/src/http_auth.rs\<close>. A header map is seen through the function
  \<open>header\<close>: the text of the first value of a header, \<open>None\<close> when the header is missing or its
  value is not visible ASCII (\<^verbatim>\<open>headers.get(name)?.to_str().ok()\<close>).
\<close>

definition ascii_whitespace :: "char \<Rightarrow> bool" where
  "ascii_whitespace c \<longleftrightarrow> byte c \<in> {9, 10, 12, 13, 32}"

definition split_ascii_whitespace :: "string \<Rightarrow> string list" where
  "split_ascii_whitespace s = filter (\<lambda>w. w \<noteq> []) (split_by ascii_whitespace s)"

definition bearer_token :: "(string \<Rightarrow> string option) \<Rightarrow> string option" where
  "bearer_token header =
     (case header ''authorization'' of
        None \<Rightarrow> None
      | Some value \<Rightarrow>
          (case split_ascii_whitespace value of
             scheme # token # rest \<Rightarrow>
               if to_ascii_lowercase scheme \<noteq> ''bearer'' \<or> rest \<noteq> [] then None else Some token
           | _ \<Rightarrow> None))"

definition bearer_matches :: "(string \<Rightarrow> string option) \<Rightarrow> string \<Rightarrow> bool" where
  "bearer_matches header expected =
     (case bearer_token header of None \<Rightarrow> False | Some token \<Rightarrow> token = expected)"

definition is_reserved_principal :: "string \<Rightarrow> bool" where
  "is_reserved_principal p \<longleftrightarrow>
     p \<in> {OPERATOR_PRINCIPAL, LEGACY_SYSTEM_PRINCIPAL, LEGACY_ALL_PRINCIPALS_GRANT, ANONYMOUS_PRINCIPAL}"

definition trusted_proxy_principal :: "(string \<Rightarrow> string option) \<Rightarrow> string \<Rightarrow> string option" where
  "trusted_proxy_principal header header_name =
     (case header header_name of
        None \<Rightarrow> None
      | Some v \<Rightarrow> (let p = trim v in if p \<noteq> [] \<and> \<not> is_reserved_principal p then Some p else None))"

lemma split_ascii_whitespace_tokens:
  assumes "w \<in> set (split_ascii_whitespace s)"
  shows "w \<noteq> [] \<and> (\<forall>c \<in> set w. \<not> ascii_whitespace c)"
  using assms split_by_no_sep by (fastforce simp: split_ascii_whitespace_def)

lemma bearer_token_Some:
  "bearer_token header = Some t \<longleftrightarrow>
     (\<exists>v scheme. header ''authorization'' = Some v \<and> split_ascii_whitespace v = [scheme, t] \<and>
        to_ascii_lowercase scheme = ''bearer'')"
  by (auto simp: bearer_token_def split: option.splits list.splits)

text \<open>An empty configured token, or one with white space in it, matches no request.\<close>

lemma bearer_matches_graphic:
  assumes "bearer_matches header expected"
  shows "expected \<noteq> [] \<and> (\<forall>c \<in> set expected. \<not> ascii_whitespace c)"
proof -
  from assms obtain v scheme where "split_ascii_whitespace v = [scheme, expected]"
    by (auto simp: bearer_matches_def bearer_token_Some split: option.splits)
  then have "expected \<in> set (split_ascii_whitespace v)" by simp
  then show ?thesis by (rule split_ascii_whitespace_tokens)
qed

lemma trusted_proxy_principal_Some:
  "trusted_proxy_principal header name = Some p \<Longrightarrow> trim p = p \<and> p \<noteq> [] \<and> \<not> is_reserved_principal p"
  by (auto simp: trusted_proxy_principal_def Let_def split: option.splits if_splits)

end
