(* ===== verification/Context_Store.thy ===== *)
theory Context_Store
  imports Context_Policy Http_Auth
begin

text \<open>
  The SQLite context store, \<^verbatim>\<open>src/src/store/context_store.rs\<close> over the tables of
  \<^verbatim>\<open>src/src/store/schema.rs\<close> (\<^verbatim>\<open>CONTEXT_DDL\<close>).

  The database is a record of tables, a table a list of rows in insertion order. An operation
  is a function from the database to an error or the new database and the result; an error leaves
  the database as it was, as the dropped transaction does. Every write transaction of the code is
  \<^verbatim>\<open>BEGIN IMMEDIATE\<close>, so operations do not interleave. An \<^verbatim>\<open>INSERT\<close> checks the primary keys,
  unique constraints, checks and foreign keys of the schema and fails with \<open>Database\<close>.

  Identifiers are stored as text by the code and read back; the model stores the values. Messages
  keep the format string of the code, with \<^verbatim>\<open>{}\<close> where a value is interpolated. Policies and audit
  details, JSON documents in the tables, are stored as the values they encode.
\<close>

section \<open>Tables\<close>

record context_row =
  cx_def :: context_definition
  cx_normalized_key :: string

record alias_row =
  al_context_id :: context_id
  al_alias :: string
  al_normalized :: string
  al_created_at :: datetime

record identity_row =
  ir_context_id :: context_id
  ir_owner_principal :: string
  ir_kind :: context_kind
  ir_scheme :: string
  ir_namespace :: string
  ir_fingerprint :: string
  ir_redacted_label :: string
  ir_created_at :: datetime

record hint_row =
  hr_context_id :: context_id
  hr_hint :: string
  hr_normalized :: string
  hr_created_at :: datetime

record context_grant =
  g_context_id :: context_id
  g_grantee_principal :: string
  g_granted_by :: string
  g_created_at :: datetime

record relation_row =
  rl_from :: context_id
  rl_to :: context_id
  rl_relation :: string

record membership_row =
  mc_memory_id :: memory_id
  mc_context_id :: context_id
  mc_ordinal :: nat
  mc_created_at :: datetime

record context_audit_draft =
  cad_actor_principal :: string
  cad_action :: string
  cad_context_id :: "context_id option"
  cad_memory_id :: "memory_id option"
  cad_details :: "string option"

definition context_audit_draft_new :: "string \<Rightarrow> string \<Rightarrow> context_audit_draft" where
  "context_audit_draft_new actor_principal action =
     \<lparr>cad_actor_principal = actor_principal, cad_action = action, cad_context_id = None,
      cad_memory_id = None, cad_details = None\<rparr>"

definition with_context :: "context_id \<Rightarrow> context_audit_draft \<Rightarrow> context_audit_draft" where
  "with_context context_id a = a\<lparr>cad_context_id := Some context_id\<rparr>"

record context_audit_event =
  cae_id :: nat
  cae_actor_principal :: string
  cae_action :: string
  cae_context_id :: "context_id option"
  cae_memory_id :: "memory_id option"
  cae_timestamp :: datetime
  cae_details :: "string option"

text \<open>A row of \<^verbatim>\<open>memories\<close>: the columns a \<^verbatim>\<open>Memory\<close> is read from, the entities and the redaction mark
  not among them and left empty, and the columns of the re-embedding protocol.\<close>

record memory_row = memory +
  mr_embedding_revision :: int
  mr_embedding_claimed_at :: "datetime option"
  mr_embedding_claim_token :: "string option"

record metadata_row =
  md_memory_id :: memory_id
  md_scope_key :: "string option"
  md_summary :: "string option"
  md_agent_label :: "string option"
  md_created_by_principal :: "string option"
  md_quality_flags :: "string list"
  md_schema_version :: int
  md_updated_at :: datetime

record context_db =
  t_kinds :: "context_kind_definition list"
  t_contexts :: "context_row list"
  t_aliases :: "alias_row list"
  t_identities :: "identity_row list"
  t_hints :: "hint_row list"
  t_grants :: "context_grant list"
  t_relations :: "relation_row list"
  t_memory_contexts :: "membership_row list"
  t_kind_policies :: "context_kind_policy_record list"
  t_anchor_overrides :: "context_anchor_policy_record list"
  t_audit :: "context_audit_event list"
  t_audit_next :: nat
  t_memories :: "memory_row list"
  t_metadata :: "metadata_row list"

type_synonym 'a tx = "store_error + (context_db \<times> 'a)"

section \<open>Authorization\<close>

definition context_visible :: "context_db \<Rightarrow> context_definition \<Rightarrow> string \<Rightarrow> bool" where
  "context_visible db c p \<longleftrightarrow> cd_owner_principal c = p \<or>
     list_ex (\<lambda>g. g_context_id g = cd_id c \<and> g_grantee_principal g \<in> {p, LEGACY_ALL_PRINCIPALS_GRANT}) (t_grants db)"

definition find_context :: "context_db \<Rightarrow> context_id \<Rightarrow> context_definition option" where
  "find_context db i = find (\<lambda>c. cd_id c = i) (map cx_def (t_contexts db))"

definition fetch_context_authorized :: "context_db \<Rightarrow> context_id \<Rightarrow> string \<Rightarrow> context_definition option" where
  "fetch_context_authorized db i p = find (\<lambda>c. cd_id c = i \<and> context_visible db c p) (map cx_def (t_contexts db))"

definition context_use_allowed :: "context_db \<Rightarrow> context_id \<Rightarrow> string \<Rightarrow> bool \<Rightarrow> bool" where
  "context_use_allowed db i p require_active =
     list_ex (\<lambda>c. cd_id c = i \<and>
         list_ex (\<lambda>k. kd_kind k = cd_kind c \<and> kd_enabled k) (t_kinds db) \<and>
         (require_active \<longrightarrow> cd_lifecycle c = Active) \<and> context_visible db c p)
       (map cx_def (t_contexts db))"

definition normalize_explicit_grantee :: "string \<Rightarrow> store_error + string" where
  "normalize_explicit_grantee grantee0 =
     (let grantee = trim grantee0 in
      if grantee = [] \<or> is_reserved_principal grantee
      then Inl (Conflict ''ordinary context grants require one explicit non-reserved principal'')
      else Inr grantee)"

fun normalize_explicit_grantees_from :: "string set \<Rightarrow> string list \<Rightarrow> store_error + string list" where
  "normalize_explicit_grantees_from unique [] = Inr []"
| "normalize_explicit_grantees_from unique (g # gs) =
     result_bind (normalize_explicit_grantee g) (\<lambda>grantee.
       if grantee \<in> unique then Inl (Conflict ''context grant principals must be unique'')
       else result_bind (normalize_explicit_grantees_from (insert grantee unique) gs)
              (\<lambda>rest. Inr (grantee # rest)))"

definition normalize_explicit_grantees :: "string list \<Rightarrow> store_error + string list" where
  "normalize_explicit_grantees grantees = normalize_explicit_grantees_from {} grantees"

definition context_owner_state :: "context_db \<Rightarrow> context_id \<Rightarrow> (string \<times> bool) option" where
  "context_owner_state db i = map_option (\<lambda>c. (cd_owner_principal c, cd_frozen c)) (find_context db i)"

definition require_mutable_owned_context :: "context_db \<Rightarrow> context_id \<Rightarrow> string \<Rightarrow> store_error + unit" where
  "require_mutable_owned_context db i p =
     (case context_owner_state db i of
        None \<Rightarrow> Inl (NotFound ''context not found: {}'')
      | Some (owner, frozen) \<Rightarrow>
          if owner \<noteq> p then Inl (Conflict ''principal {} does not own context {}'')
          else if frozen then Inl (Conflict ''context {} is a frozen legacy compatibility context'')
          else Inr ())"

definition validate_audit_actor :: "context_audit_draft \<Rightarrow> string \<Rightarrow> store_error + unit" where
  "validate_audit_actor audit p =
     (if trim p = [] \<or> trim (cad_actor_principal audit) = []
      then Inl (Conflict ''context audit actor and authorized principal cannot be blank'')
      else if cad_actor_principal audit \<noteq> p
      then Inl (Conflict ''context audit actor must match the authorized principal'')
      else Inr ())"

text \<open>The row id is the next value of the table's \<^verbatim>\<open>AUTOINCREMENT\<close> counter.\<close>

definition insert_context_audit ::
  "context_audit_draft \<Rightarrow> context_id option \<Rightarrow> memory_id option \<Rightarrow> datetime \<Rightarrow> context_db \<Rightarrow> context_db" where
  "insert_context_audit audit context_id memory_id now db =
     db\<lparr>t_audit := t_audit db @
         [\<lparr>cae_id = t_audit_next db, cae_actor_principal = cad_actor_principal audit,
           cae_action = cad_action audit, cae_context_id = context_id, cae_memory_id = memory_id,
           cae_timestamp = now, cae_details = cad_details audit\<rparr>],
        t_audit_next := Suc (t_audit_next db)\<rparr>"

definition memory_read_allowed :: "provenance \<Rightarrow> access_policy \<Rightarrow> string \<Rightarrow> bool" where
  "memory_read_allowed prov policy p =
     (case policy of
        Public \<Rightarrow> True
      | Redacted _ \<Rightarrow> trim p \<noteq> []
      | Restricted allowed \<Rightarrow> trim p \<noteq> [] \<and> (p_source_agent prov = Some p \<or> p \<in> set allowed))"

section \<open>Validation of drafts and patches\<close>

definition is_ascii_hexdigit :: "char \<Rightarrow> bool" where
  "is_ascii_hexdigit c \<longleftrightarrow> is_ascii_digit c \<or> (97 \<le> byte c \<and> byte c \<le> 102) \<or> (65 \<le> byte c \<and> byte c \<le> 70)"

text \<open>\<^verbatim>\<open>chars().any(char::is_control)\<close>: general category Cc is U+0000 to U+001F and U+007F to U+009F,
  the latter from U+0080 on encoded as C2 80 to C2 9F.\<close>

fun has_control_char :: "string \<Rightarrow> bool" where
  "has_control_char [] = False"
| "has_control_char [a] = (byte a < 32 \<or> byte a = 127)"
| "has_control_char (a # b # s) =
     (byte a < 32 \<or> byte a = 127 \<or> (byte a = 194 \<and> 128 \<le> byte b \<and> byte b < 160) \<or> has_control_char (b # s))"

definition validate_identity :: "context_identity \<Rightarrow> store_error + unit" where
  "validate_identity identity =
     (if ci_scheme identity \<notin> {''git_remote'', ''uri'', ''namespaced_id''}
      then Inl (Conflict ''unsupported context identity scheme {}'')
      else if ci_scheme identity = ''namespaced_id'' \<and>
              (case ci_namespace identity of None \<Rightarrow> True | Some ns \<Rightarrow> ns = [])
      then Inl (Conflict ''namespaced_id requires a non-empty namespace'')
      else if ci_scheme identity \<noteq> ''namespaced_id'' \<and> ci_namespace identity \<noteq> None
      then Inl (Conflict ''identity scheme {} does not accept a namespace'')
      else if length (ci_fingerprint identity) \<noteq> 64 \<or> \<not> list_all is_ascii_hexdigit (ci_fingerprint identity)
      then Inl (Conflict ''context identity fingerprint must be a 64-character hexadecimal SHA-256 digest'')
      else if trim (ci_redacted_label identity) = [] \<or>
              length (ci_redacted_label identity) > MAX_CONTEXT_DISPLAY_NAME_LEN \<or>
              has_control_char (ci_redacted_label identity)
      then Inl (Conflict ''context identity redacted label cannot be blank'')
      else Inr ())"

definition over_length :: "nat \<Rightarrow> string option \<Rightarrow> bool" where
  "over_length n s = (case s of None \<Rightarrow> False | Some v \<Rightarrow> length v > n)"

definition validate_definition_patch_surfaces :: "context_definition_patch \<Rightarrow> store_error + unit" where
  "validate_definition_patch_surfaces patch =
     (if trim (cp_display_name patch) = [] \<or> length (cp_display_name patch) > MAX_CONTEXT_DISPLAY_NAME_LEN
      then Inl (Conflict ''context display name is blank or too long'')
      else if over_length MAX_CONTEXT_DESCRIPTION_LEN (cp_description patch) \<or>
              over_length MAX_CONTEXT_DESCRIPTION_LEN (cp_guidance patch)
      then Inl (Conflict ''context description or guidance exceeds the supported length'')
      else if length (cp_aliases patch) > MAX_CONTEXT_REFS \<or> length (cp_identities patch) > MAX_CONTEXT_REFS \<or>
              length (cp_resolver_hints patch) > MAX_CONTEXT_HINTS
      then Inl (Conflict ''context aliases, identities, or hints exceed protocol limits'')
      else if list_ex (\<lambda>v. length v > MAX_CONTEXT_SURFACE_LEN) (cp_aliases patch @ cp_resolver_hints patch)
      then Inl (Conflict ''context alias or hint exceeds the supported length'')
      else Inr ())"

record context_create_draft =
  dr_id :: context_id
  dr_kind :: context_kind
  dr_key :: string
  dr_normalized_key :: string
  dr_display_name :: string
  dr_description :: "string option"
  dr_owner_principal :: string
  dr_guidance :: "string option"
  dr_parent_id :: "context_id option"
  dr_aliases :: "(string \<times> string) list"
  dr_identities :: "context_identity list"
  dr_resolver_hints :: "string list"
  dr_confirm_distinct_from :: "context_id list"
  dr_enforce_fuzzy_confirmation :: bool
  dr_frozen :: bool

definition context_create_draft_private ::
  "(string \<Rightarrow> string) \<Rightarrow> context_id \<Rightarrow> context_kind \<Rightarrow> string \<Rightarrow> string \<Rightarrow> string \<Rightarrow> context_create_draft" where
  "context_create_draft_private lc i kind key display_name owner_principal =
     \<lparr>dr_id = i, dr_kind = kind, dr_key = key, dr_normalized_key = normalize_context_key lc key,
      dr_display_name = display_name, dr_description = None, dr_owner_principal = owner_principal,
      dr_guidance = None, dr_parent_id = None, dr_aliases = [], dr_identities = [],
      dr_resolver_hints = [], dr_confirm_distinct_from = [],
      dr_enforce_fuzzy_confirmation = False, dr_frozen = False\<rparr>"

text \<open>\<open>seen\<close> holds the normalised aliases already inserted.\<close>

fun validate_draft_aliases :: "(string \<Rightarrow> string) \<Rightarrow> string set \<Rightarrow> (string \<times> string) list \<Rightarrow> store_error + unit" where
  "validate_draft_aliases lc seen [] = Inr ()"
| "validate_draft_aliases lc seen ((alias, normalized) # rest) =
     (if trim alias = [] \<or> length alias > MAX_CONTEXT_SURFACE_LEN \<or>
         normalized \<noteq> normalize_context_key lc alias \<or> normalized \<in> seen
      then Inl (Conflict ''context aliases must be non-empty, normalized, and unique'')
      else validate_draft_aliases lc (insert normalized seen) rest)"

definition validate_create_draft ::
  "(string \<Rightarrow> string) \<Rightarrow> context_create_draft \<Rightarrow> context_audit_draft \<Rightarrow> store_error + unit" where
  "validate_create_draft lc draft audit =
     result_bind (validate_audit_actor audit (dr_owner_principal draft)) (\<lambda>_.
     if trim (dr_key draft) = [] \<or> length (dr_key draft) > MAX_CONTEXT_SURFACE_LEN \<or>
        dr_normalized_key draft \<noteq> normalize_context_key lc (dr_key draft)
     then Inl (Conflict ''context key and normalized_key are inconsistent'')
     else if trim (dr_display_name draft) = [] \<or> length (dr_display_name draft) > MAX_CONTEXT_DISPLAY_NAME_LEN
     then Inl (Conflict ''context display name cannot be blank'')
     else if over_length MAX_CONTEXT_DESCRIPTION_LEN (dr_description draft) \<or>
             over_length MAX_CONTEXT_DESCRIPTION_LEN (dr_guidance draft)
     then Inl (Conflict ''context description or guidance exceeds the supported length'')
     else if trim (dr_owner_principal draft) = []
     then Inl (Conflict ''context owner principal cannot be blank'')
     else if dr_frozen draft \<and> dr_owner_principal draft \<noteq> LEGACY_SYSTEM_PRINCIPAL
     then Inl (Conflict ''only the legacy system principal may create frozen compatibility contexts'')
     else if dr_parent_id draft = Some (dr_id draft)
     then Inl (Conflict ''a context cannot be its own parent'')
     else if length (dr_aliases draft) > MAX_CONTEXT_REFS \<or> length (dr_resolver_hints draft) > MAX_CONTEXT_HINTS \<or>
             length (dr_confirm_distinct_from draft) > MAX_CONTEXT_CONFIRMATIONS
     then Inl (Conflict ''context aliases, hints, or confirmations exceed protocol limits'')
     else result_bind (validate_draft_aliases lc {} (dr_aliases draft)) (\<lambda>_.
       if list_ex (\<lambda>h. trim h = [] \<or> length h > MAX_CONTEXT_SURFACE_LEN) (dr_resolver_hints draft)
       then Inl (Conflict ''context resolver hints must be non-empty and bounded'')
       else try_for_each validate_identity (dr_identities draft)))"

section \<open>Duplicate protection\<close>

abbreviation f64_fuzzy_threshold :: f64 where "f64_fuzzy_threshold \<equiv> 0x3FE70A3D70A3D70A"

definition fuzzy_candidate_cmp ::
  "context_id \<times> string \<times> f64 \<Rightarrow> context_id \<times> string \<times> f64 \<Rightarrow> ordering" where
  "fuzzy_candidate_cmp l r =
     then_with (then_with (f64_total_cmp (snd (snd r)) (snd (snd l))) (cmp_ord (fst (snd l)) (fst (snd r))))
       (cmp_ord (fst l) (fst r))"

text \<open>\<^verbatim>\<open>Vec::dedup_by_key\<close>: drops an element whose key equals that of the last kept one.\<close>

fun dedup_by_key :: "('a \<Rightarrow> 'k) \<Rightarrow> 'a list \<Rightarrow> 'a list" where
  "dedup_by_key key (x # y # xs) =
     (if key x = key y then dedup_by_key key (x # xs) else x # dedup_by_key key (y # xs))"
| "dedup_by_key key xs = xs"

definition fuzzy_candidates ::
  "(string \<Rightarrow> string) \<Rightarrow> (nat \<Rightarrow> nat \<Rightarrow> f64) \<Rightarrow> context_create_draft \<Rightarrow>
   (context_id \<times> string \<times> string \<times> string list) list \<Rightarrow> (context_id \<times> string \<times> f64) list" where
  "fuzzy_candidates lc fdiv draft existing =
     (let similarity = similarity_query_new lc (dr_key draft @ '' '' @ dr_display_name draft) in
      List.map_filter (\<lambda>(i, key, display_name, aliases).
        let is_exact = (normalize_context_key lc key = dr_normalized_key draft);
            score = similarity_score lc fdiv similarity key display_name aliases
        in if \<not> is_exact \<and> f64_le f64_fuzzy_threshold score then Some (i, key, score) else None) existing)"

definition validate_fuzzy_confirmation ::
  "(string \<Rightarrow> string) \<Rightarrow> (nat \<Rightarrow> nat \<Rightarrow> f64) \<Rightarrow> context_create_draft \<Rightarrow>
   (context_id \<times> string \<times> string \<times> string list) list \<Rightarrow> store_error + unit" where
  "validate_fuzzy_confirmation lc fdiv draft existing =
     (if \<not> dr_enforce_fuzzy_confirmation draft then Inr ()
      else
       (let current = take MAX_CONTEXT_CONFIRMATIONS (dedup_by_key fst
              (sort_by fuzzy_candidate_cmp (fuzzy_candidates lc fdiv draft existing)));
            current_ids = sort (map fst current);
            confirmed = dedup_by_key id (sort (dr_confirm_distinct_from draft))
        in if current_ids \<noteq> confirmed
           then Inl (Conflict ''fuzzy context candidates changed; resolve candidates and submit a fresh confirm_distinct_from set'')
           else Inr ()))"

end
