(* ===== verification/Context_Selection.thy ===== *)
theory Context_Selection
  imports Context_Store
begin

text \<open>
  Expansion of a context selection, \<^verbatim>\<open>expand_context_definitions\<close> of
  \<^verbatim>\<open>src/src/store/context_store.rs\<close>, and three contracts between components: what the store
  accepts of normalised identities, of principals asserted by a proxy, and how its read check
  relates to the access levels of a memory.
\<close>

section \<open>Selection\<close>

definition definition_by_id :: "context_definition list \<Rightarrow> context_id \<Rightarrow> context_definition option" where
  "definition_by_id definitions i = map_of (rev (map (\<lambda>c. (cd_id c, c)) definitions)) i"

text \<open>The accumulator: the result and the set of ids already in it.\<close>

type_synonym selection = "context_definition list \<times> context_id set"

definition append_context_once :: "context_definition \<Rightarrow> selection \<Rightarrow> selection" where
  "append_context_once c acc =
     (if cd_id c \<in> snd acc then acc else (fst acc @ [c], insert (cd_id c) (snd acc)))"

lemma finite_dom_by_id [simp]: "finite (dom (definition_by_id definitions))"
  by (simp add: definition_by_id_def [abs_def] finite_dom_map_of)

text \<open>The walk to the ancestors of one directly selected context.\<close>

function include_ancestors ::
  "context_definition list \<Rightarrow> context_id option \<Rightarrow> context_id set \<Rightarrow> selection \<Rightarrow> store_error + selection" where
  "include_ancestors definitions None ancestors acc = Inr acc"
| "include_ancestors definitions (Some parent_id) ancestors acc =
     (if parent_id \<in> ancestors then Inl (Conflict ''context hierarchy contains a cycle'')
      else (case definition_by_id definitions parent_id of
              None \<Rightarrow> Inl (Conflict ''context {} references unavailable parent {}'')
            | Some parent \<Rightarrow>
                include_ancestors definitions (cd_parent_id parent) (insert parent_id ancestors)
                  (if cd_lifecycle parent = Active then append_context_once parent acc else acc)))"
  by pat_completeness auto
termination
proof (relation "measure (\<lambda>(definitions, cursor, ancestors, acc).
    card (dom (definition_by_id definitions) - ancestors))", goal_cases)
  case (2 definitions parent_id ancestors acc parent)
  then have "dom (definition_by_id definitions) - insert parent_id ancestors
      \<subset> dom (definition_by_id definitions) - ancestors" by auto
  then show ?case by (simp add: psubset_card_mono del: Diff_insert)
qed simp

text \<open>The walk from a candidate upwards to one of the selected anchors.\<close>

definition parent_of :: "context_definition list \<Rightarrow> context_id \<Rightarrow> context_id option" where
  "parent_of definitions i = Option.bind (definition_by_id definitions i) cd_parent_id"

lemma dom_parent_of: "dom (parent_of definitions) \<subseteq> dom (definition_by_id definitions)"
  by (auto simp: parent_of_def bind_eq_Some_conv)

lemma anchored_walk_decreases:
  assumes "c \<notin> visited"
  shows "2 * card (dom (parent_of definitions) - insert c visited) + (if parent_of definitions c = None then 0 else 1)
       < 2 * card (dom (parent_of definitions) - visited) + (1 :: nat)"
proof (cases "parent_of definitions c")
  case None
  then have "dom (parent_of definitions) - insert c visited = dom (parent_of definitions) - visited" by auto
  with None show ?thesis by simp
next
  case (Some p)
  have "finite (dom (parent_of definitions))" using finite_subset [OF dom_parent_of] by simp
  moreover have "dom (parent_of definitions) - insert c visited \<subset> dom (parent_of definitions) - visited"
    using Some assms by auto
  ultimately have "card (dom (parent_of definitions) - insert c visited) < card (dom (parent_of definitions) - visited)"
    by (simp add: psubset_card_mono)
  with Some show ?thesis by simp
qed

function anchored_walk ::
  "context_definition list \<Rightarrow> context_id list \<Rightarrow> context_id option \<Rightarrow> context_id set \<Rightarrow> store_error + bool" where
  "anchored_walk definitions anchors None visited = Inr False"
| "anchored_walk definitions anchors (Some parent_id) visited =
     (if parent_id \<in> visited then Inl (Conflict ''context hierarchy contains a cycle'')
      else if parent_id \<in> set anchors then Inr True
      else anchored_walk definitions anchors (parent_of definitions parent_id) (insert parent_id visited))"
  by pat_completeness auto
termination
  by (relation "measure (\<lambda>(definitions, anchors, cursor, visited).
        2 * card (dom (parent_of definitions) - visited) + (if cursor = None then 0 else 1))")
    (auto simp: anchored_walk_decreases [simplified] simp del: Diff_insert)

fun expand_direct :: "context_definition list \<Rightarrow> context_id list \<Rightarrow> selection \<Rightarrow> store_error + selection" where
  "expand_direct definitions [] acc = Inr acc"
| "expand_direct definitions (direct_id # rest) acc =
     (case definition_by_id definitions direct_id of
        None \<Rightarrow> Inl (NotFound ''context not found, archived, or not granted: {}'')
      | Some direct \<Rightarrow>
          if cd_lifecycle direct \<noteq> Active then Inl (Conflict ''context {} is archived and cannot be selected'')
          else result_bind (include_ancestors definitions (cd_parent_id direct) {} (append_context_once direct acc))
                 (expand_direct definitions rest))"

fun expand_descendants ::
  "context_definition list \<Rightarrow> context_id list \<Rightarrow> context_definition list \<Rightarrow> selection \<Rightarrow> store_error + selection" where
  "expand_descendants definitions anchors [] acc = Inr acc"
| "expand_descendants definitions anchors (candidate # rest) acc =
     result_bind (anchored_walk definitions anchors (cd_parent_id candidate) {}) (\<lambda>found.
       expand_descendants definitions anchors rest (if found then append_context_once candidate acc else acc))"

definition is_active :: "context_definition \<Rightarrow> bool" where
  "is_active c \<longleftrightarrow> cd_lifecycle c = Active"

definition expand_context_definitions ::
  "context_definition list \<Rightarrow> context_id list \<Rightarrow> bool \<Rightarrow> store_error + context_definition list" where
  "expand_context_definitions definitions direct_ids include_descendants =
     (if length (filter is_active definitions) > MAX_EFFECTIVE_CONTEXTS
      then Inl (Conflict ''context selection expands beyond the maximum of {} effective contexts'')
      else result_bind (expand_direct definitions direct_ids ([], {})) (\<lambda>acc.
        if include_descendants
        then result_bind (expand_descendants definitions direct_ids (filter is_active definitions) acc)
               (\<lambda>acc'. Inr (fst acc'))
        else Inr (fst acc)))"

section \<open>Correctness of the expansion\<close>

definition def_parents :: "context_definition list \<Rightarrow> (context_id \<times> context_id) set" where
  "def_parents definitions = {(i, p). parent_of definitions i = Some p}"

text \<open>The ids a walk that starts at \<open>cursor\<close> meets.\<close>

definition reach_from :: "context_definition list \<Rightarrow> context_id option \<Rightarrow> context_id set" where
  "reach_from definitions cursor = {j. \<exists>c. cursor = Some c \<and> (c, j) \<in> (def_parents definitions)\<^sup>*}"

lemma reach_from_None [simp]: "reach_from definitions None = {}"
  by (simp add: reach_from_def)

lemma reach_from_Some: "reach_from definitions (Some i) = insert i (reach_from definitions (parent_of definitions i))"
  by (auto simp: reach_from_def def_parents_def elim: converse_rtranclE intro: converse_rtrancl_into_rtrancl)

lemma reach_from_parent: "j \<in> reach_from definitions (parent_of definitions i) \<longleftrightarrow> (i, j) \<in> (def_parents definitions)\<^sup>+"
  by (auto simp: reach_from_def def_parents_def dest: tranclD intro: rtrancl_into_trancl2)

lemma definition_by_id_distinct:
  "distinct (map cd_id definitions) \<Longrightarrow> definition_by_id definitions i = Some c \<longleftrightarrow> c \<in> set definitions \<and> cd_id c = i"
  unfolding definition_by_id_def by (subst map_of_eq_Some_iff) (auto simp: rev_map [symmetric] comp_def)

definition selection_ok :: "context_definition list \<Rightarrow> selection \<Rightarrow> bool" where
  "selection_ok definitions acc \<longleftrightarrow> snd acc = cd_id ` set (fst acc) \<and> distinct (map cd_id (fst acc)) \<and>
     set (fst acc) \<subseteq> set definitions \<and> list_all is_active (fst acc)"

lemma append_context_once_ok:
  assumes "selection_ok definitions acc" "c \<in> set definitions" "is_active c" "distinct (map cd_id definitions)"
  shows "selection_ok definitions (append_context_once c acc)"
    "set (fst (append_context_once c acc)) = insert c (set (fst acc))"
proof -
  show "selection_ok definitions (append_context_once c acc)"
    using assms by (auto simp: selection_ok_def append_context_once_def)
  have "c \<in> set (fst acc)" if "cd_id c \<in> snd acc"
  proof -
    from that assms(1) obtain d where d: "d \<in> set (fst acc)" "cd_id d = cd_id c" by (auto simp: selection_ok_def)
    with assms have "d = c" by (auto simp: selection_ok_def distinct_map dest: inj_onD)
    with d show ?thesis by simp
  qed
  then show "set (fst (append_context_once c acc)) = insert c (set (fst acc))"
    by (auto simp: append_context_once_def)
qed

lemma include_ancestors_Inr:
  assumes "include_ancestors definitions cursor anc acc = Inr acc'"
    "distinct (map cd_id definitions)" "selection_ok definitions acc"
  shows "selection_ok definitions acc' \<and>
    set (fst acc') = set (fst acc) \<union> {c \<in> set definitions. is_active c \<and> cd_id c \<in> reach_from definitions cursor}"
  using assms
proof (induction definitions cursor anc acc rule: include_ancestors.induct)
  case (2 definitions i anc acc)
  from "2.prems"(1) obtain parent where p: "i \<notin> anc" "definition_by_id definitions i = Some parent"
    "include_ancestors definitions (cd_parent_id parent) (insert i anc)
       (if cd_lifecycle parent = Active then append_context_once parent acc else acc) = Inr acc'"
    by (auto split: if_splits option.splits)
  have parent: "parent \<in> set definitions" "cd_id parent = i"
    using p(2) "2.prems"(2) by (simp_all add: definition_by_id_distinct)
  have po: "parent_of definitions i = cd_parent_id parent" using p(2) by (simp add: parent_of_def)
  let ?acc = "if cd_lifecycle parent = Active then append_context_once parent acc else acc"
  have acc: "selection_ok definitions ?acc"
    "set (fst ?acc) = set (fst acc) \<union> (if is_active parent then {parent} else {})"
    using append_context_once_ok [OF "2.prems"(3) parent(1) _ "2.prems"(2)] "2.prems"(3)
    by (auto simp: is_active_def)
  have uniq: "c = parent" if "c \<in> set definitions" "cd_id c = i" for c
    using that parent "2.prems"(2) by (auto simp: distinct_map dest: inj_onD)
  have ih: "selection_ok definitions acc'" "set (fst acc') = set (fst ?acc) \<union>
      {c \<in> set definitions. is_active c \<and> cd_id c \<in> reach_from definitions (cd_parent_id parent)}"
    using "2.IH" [OF p(1,2) p(3) "2.prems"(2) acc(1)] by blast+
  have "{c \<in> set definitions. is_active c \<and> cd_id c \<in> insert i R} =
      (if is_active parent then {parent} else {}) \<union> {c \<in> set definitions. is_active c \<and> cd_id c \<in> R}" for R
    using parent by (auto dest: uniq)
  then show ?case unfolding ih(2) acc(2) reach_from_Some po using ih(1) by auto
qed simp

lemma anchored_walk_Inr:
  "anchored_walk definitions anchors cursor visited = Inr b \<Longrightarrow>
     b \<longleftrightarrow> (\<exists>a \<in> set anchors. a \<in> reach_from definitions cursor)"
proof (induction definitions anchors cursor visited rule: anchored_walk.induct)
  case (2 definitions anchors i visited)
  show ?case
  proof (cases "i \<in> set anchors")
    case True
    with "2.prems" show ?thesis by (auto simp: reach_from_Some split: if_splits)
  next
    case False
    with "2.prems" have "i \<notin> visited" "anchored_walk definitions anchors (parent_of definitions i) (insert i visited) = Inr b"
      by (auto split: if_splits)
    with "2.IH" False show ?thesis by (auto simp: reach_from_Some)
  qed
qed simp

lemma expand_direct_Inr:
  assumes "expand_direct definitions ids acc = Inr acc'" "distinct (map cd_id definitions)" "selection_ok definitions acc"
  shows "selection_ok definitions acc' \<and> set (fst acc') = set (fst acc) \<union>
    {c \<in> set definitions. is_active c \<and> (\<exists>d \<in> set ids. cd_id c = d \<or> (d, cd_id c) \<in> (def_parents definitions)\<^sup>+)}"
  using assms
proof (induction definitions ids acc rule: expand_direct.induct)
  case (2 definitions i rest acc)
  from "2.prems"(1) obtain direct acc1 where d: "definition_by_id definitions i = Some direct" "is_active direct"
    "include_ancestors definitions (cd_parent_id direct) {} (append_context_once direct acc) = Inr acc1"
    "expand_direct definitions rest acc1 = Inr acc'"
    by (auto simp: is_active_def split: option.splits if_splits)
  have direct: "direct \<in> set definitions" "cd_id direct = i"
    using d(1) "2.prems"(2) by (simp_all add: definition_by_id_distinct)
  have po: "parent_of definitions i = cd_parent_id direct" using d(1) by (simp add: parent_of_def)
  note app = append_context_once_ok [OF "2.prems"(3) direct(1) d(2) "2.prems"(2)]
  have acc1: "selection_ok definitions acc1" "set (fst acc1) = insert direct (set (fst acc)) \<union>
      {c \<in> set definitions. is_active c \<and> (i, cd_id c) \<in> (def_parents definitions)\<^sup>+}"
    using include_ancestors_Inr [OF d(3) "2.prems"(2) app(1)] app(2)
    by (simp_all add: po [symmetric] reach_from_parent)
  have uniq: "c = direct" if "c \<in> set definitions" "cd_id c = i" for c
    using that direct "2.prems"(2) by (auto simp: distinct_map dest: inj_onD)
  have "selection_ok definitions acc' \<and> set (fst acc') = set (fst acc1) \<union>
    {c \<in> set definitions. is_active c \<and> (\<exists>d \<in> set rest. cd_id c = d \<or> (d, cd_id c) \<in> (def_parents definitions)\<^sup>+)}"
    using "2.IH" [OF d(1) _ d(4) "2.prems"(2) acc1(1)] d(2) by (simp add: is_active_def)
  moreover have "{c \<in> set definitions. is_active c \<and> (\<exists>d \<in> set (i # rest). cd_id c = d \<or> (d, cd_id c) \<in> R)} =
      insert direct {c \<in> set definitions. is_active c \<and> (i, cd_id c) \<in> R} \<union>
      {c \<in> set definitions. is_active c \<and> (\<exists>d \<in> set rest. cd_id c = d \<or> (d, cd_id c) \<in> R)}" for R
    using direct d(2) by (auto dest: uniq)
  ultimately show ?case unfolding acc1(2) by auto
qed simp

lemma expand_descendants_Inr:
  assumes "expand_descendants definitions anchors cs acc = Inr acc'" "distinct (map cd_id definitions)"
    "selection_ok definitions acc" "\<forall>c \<in> set cs. c \<in> set definitions \<and> is_active c"
  shows "selection_ok definitions acc' \<and> set (fst acc') = set (fst acc) \<union>
    {c \<in> set cs. \<exists>d \<in> set anchors. (cd_id c, d) \<in> (def_parents definitions)\<^sup>+}"
  using assms
proof (induction definitions anchors cs acc rule: expand_descendants.induct)
  case (2 definitions anchors c rest acc)
  from "2.prems"(1) obtain found where f: "anchored_walk definitions anchors (cd_parent_id c) {} = Inr found"
    "expand_descendants definitions anchors rest (if found then append_context_once c acc else acc) = Inr acc'"
    by auto
  have c: "c \<in> set definitions" "is_active c" using "2.prems"(4) by simp_all
  have "parent_of definitions (cd_id c) = cd_parent_id c"
    using c(1) "2.prems"(2) definition_by_id_distinct [OF "2.prems"(2), of "cd_id c" c] by (simp add: parent_of_def)
  then have found: "found \<longleftrightarrow> (\<exists>d \<in> set anchors. (cd_id c, d) \<in> (def_parents definitions)\<^sup>+)"
    using anchored_walk_Inr [OF f(1)] reach_from_parent by metis
  let ?acc = "if found then append_context_once c acc else acc"
  have acc: "selection_ok definitions ?acc" "set (fst ?acc) = set (fst acc) \<union> (if found then {c} else {})"
    using append_context_once_ok [OF "2.prems"(3) c "2.prems"(2)] "2.prems"(3) by auto
  have "\<forall>c \<in> set rest. c \<in> set definitions \<and> is_active c" using "2.prems"(4) by simp
  from "2.IH" [OF f(2) "2.prems"(2) acc(1) this] show ?case using acc(2) found by auto
qed simp

lemma selection_ok_empty: "selection_ok definitions ([], {})"
  by (simp add: selection_ok_def)

text \<open>Claim C31. A selection expands to exactly what it means: on success the result has every active
  context that is selected directly, is an ancestor of a selected one or, when descendants are asked
  for, is a descendant of a selected one; nothing else, and each once.\<close>

theorem expand_selects_exactly:
  assumes "expand_context_definitions definitions direct_ids inc = Inr result"
    and "distinct (map cd_id definitions)"
  shows "distinct (map cd_id result) \<and> set result = {c \<in> set definitions. cd_lifecycle c = Active \<and>
    (\<exists>d \<in> set direct_ids. cd_id c = d \<or> (d, cd_id c) \<in> (def_parents definitions)\<^sup>+ \<or>
       (inc \<and> (cd_id c, d) \<in> (def_parents definitions)\<^sup>+))}"
proof -
  from assms(1) obtain acc where acc: "expand_direct definitions direct_ids ([], {}) = Inr acc"
    by (auto simp: expand_context_definitions_def split: if_splits)
  note d = expand_direct_Inr [OF acc assms(2) selection_ok_empty]
  show ?thesis
  proof (cases inc)
    case False
    with assms(1) acc have "result = fst acc" by (auto simp: expand_context_definitions_def split: if_splits)
    with d False show ?thesis by (auto simp: selection_ok_def is_active_def)
  next
    case True
    with assms(1) acc obtain acc' where acc': "expand_descendants definitions direct_ids (filter is_active definitions) acc = Inr acc'"
      "result = fst acc'" by (auto simp: expand_context_definitions_def split: if_splits)
    have "\<forall>c \<in> set (filter is_active definitions). c \<in> set definitions \<and> is_active c" by simp
    from expand_descendants_Inr [OF acc'(1) assms(2) conjunct1 [OF d] this] d acc'(2) True
    show ?thesis by (auto simp: selection_ok_def is_active_def)
  qed
qed

text \<open>No walk reports a cycle when there is none: every visited id lies strictly below the cursor.\<close>

lemma parent_step:
  "parent_of definitions i = Some j \<Longrightarrow> (v, i) \<in> (def_parents definitions)\<^sup>* \<Longrightarrow> (v, j) \<in> (def_parents definitions)\<^sup>+"
  by (auto simp: def_parents_def intro: rtrancl_into_trancl1)

lemma include_ancestors_total:
  assumes "acyclic (def_parents definitions)" "snd ` def_parents definitions \<subseteq> dom (definition_by_id definitions)"
    and "\<And>c. cursor = Some c \<Longrightarrow> c \<in> dom (definition_by_id definitions)"
    and "\<And>v c. v \<in> anc \<Longrightarrow> cursor = Some c \<Longrightarrow> (v, c) \<in> (def_parents definitions)\<^sup>+"
  shows "\<exists>acc'. include_ancestors definitions cursor anc acc = Inr acc'"
  using assms
proof (induction definitions cursor anc acc rule: include_ancestors.induct)
  case (2 definitions i anc acc)
  obtain parent where p: "definition_by_id definitions i = Some parent" using "2.prems"(3) by blast
  have fresh: "i \<notin> anc" using "2.prems"(1,4) by (auto simp: acyclic_def)
  have po: "parent_of definitions i = cd_parent_id parent" using p by (simp add: parent_of_def)
  let ?acc = "if cd_lifecycle parent = Active then append_context_once parent acc else acc"
  have "\<exists>acc'. include_ancestors definitions (cd_parent_id parent) (insert i anc) ?acc = Inr acc'"
  proof (rule "2.IH" [OF fresh p "2.prems"(1,2)])
    fix c assume c: "cd_parent_id parent = Some c"
    then have "(i, c) \<in> def_parents definitions" by (simp add: def_parents_def po)
    then show "c \<in> dom (definition_by_id definitions)" using "2.prems"(2) by force
    fix v assume "v \<in> insert i anc"
    then have "(v, i) \<in> (def_parents definitions)\<^sup>*" using "2.prems"(4) [of v i] by (auto dest: trancl_into_rtrancl)
    then show "(v, c) \<in> (def_parents definitions)\<^sup>+" using parent_step c po by simp
  qed
  then show ?case using fresh p by simp
qed simp

lemma anchored_walk_total:
  assumes "acyclic (def_parents definitions)"
    and "\<And>v c. v \<in> visited \<Longrightarrow> cursor = Some c \<Longrightarrow> (v, c) \<in> (def_parents definitions)\<^sup>+"
  shows "\<exists>b. anchored_walk definitions anchors cursor visited = Inr b"
  using assms
proof (induction definitions anchors cursor visited rule: anchored_walk.induct)
  case (2 definitions anchors i visited)
  have fresh: "i \<notin> visited" using "2.prems" by (auto simp: acyclic_def)
  show ?case
  proof (cases "i \<in> set anchors")
    case False
    have "\<exists>b. anchored_walk definitions anchors (parent_of definitions i) (insert i visited) = Inr b"
    proof (rule "2.IH" [OF fresh False "2.prems"(1)])
      fix v c assume "v \<in> insert i visited" and c: "parent_of definitions i = Some c"
      then have "(v, i) \<in> (def_parents definitions)\<^sup>*" using "2.prems"(2) [of v i] by (auto dest: trancl_into_rtrancl)
      then show "(v, c) \<in> (def_parents definitions)\<^sup>+" using parent_step c by simp
    qed
    with fresh False show ?thesis by simp
  qed (use fresh in auto)
qed (rule exI [of _ False], simp)

lemma expand_direct_total:
  assumes "acyclic (def_parents definitions)" "snd ` def_parents definitions \<subseteq> dom (definition_by_id definitions)"
    and "\<forall>d \<in> set ids. \<exists>c. definition_by_id definitions d = Some c \<and> is_active c"
  shows "\<exists>acc'. expand_direct definitions ids acc = Inr acc'"
  using assms(3)
proof (induction ids arbitrary: acc)
  case (Cons d ids)
  then obtain c where c: "definition_by_id definitions d = Some c" "is_active c" by auto
  have "p \<in> dom (definition_by_id definitions)" if "cd_parent_id c = Some p" for p
  proof -
    have "(d, p) \<in> def_parents definitions" using that c by (simp add: def_parents_def parent_of_def)
    then show ?thesis using assms(2) by force
  qed
  then obtain acc1 where "include_ancestors definitions (cd_parent_id c) {} (append_context_once c acc) = Inr acc1"
    using include_ancestors_total [OF assms(1,2)] by blast
  with Cons c show ?case by (auto simp: is_active_def)
qed simp

lemma expand_descendants_total:
  assumes "acyclic (def_parents definitions)"
  shows "\<exists>acc'. expand_descendants definitions anchors cs acc = Inr acc'"
proof (induction cs arbitrary: acc)
  case (Cons c cs)
  obtain b where "anchored_walk definitions anchors (cd_parent_id c) {} = Inr b"
    using anchored_walk_total [OF assms] by blast
  with Cons show ?case by auto
qed simp

text \<open>Claim C32. A selection of active contexts within an acyclic hierarchy whose parents are all present
  always expands, unless more than 512 active contexts are involved: neither the cycle nor the
  missing-parent error can occur.\<close>

theorem expand_succeeds:
  assumes "acyclic {(i, p). parent_of definitions i = Some p}"
    and "\<And>i p. parent_of definitions i = Some p \<Longrightarrow> definition_by_id definitions p \<noteq> None"
    and "\<forall>d \<in> set direct_ids. \<exists>c. definition_by_id definitions d = Some c \<and> cd_lifecycle c = Active"
    and "length (filter is_active definitions) \<le> MAX_EFFECTIVE_CONTEXTS"
  shows "\<exists>result. expand_context_definitions definitions direct_ids inc = Inr result"
proof -
  have a: "acyclic (def_parents definitions)" using assms(1) by (simp add: def_parents_def)
  have "snd ` def_parents definitions \<subseteq> dom (definition_by_id definitions)"
    using assms(2) by (force simp: def_parents_def)
  moreover have "\<forall>d \<in> set direct_ids. \<exists>c. definition_by_id definitions d = Some c \<and> is_active c"
    using assms(3) by (simp add: is_active_def)
  ultimately obtain acc where acc: "expand_direct definitions direct_ids ([], {}) = Inr acc"
    using expand_direct_total [OF a] by blast
  moreover obtain acc' where "expand_descendants definitions direct_ids (filter is_active definitions) acc = Inr acc'"
    using expand_descendants_total [OF a] by blast
  ultimately show ?thesis using assms(4) by (simp add: expand_context_definitions_def)
qed

definition sample_definitions :: "context_definition list" where
  "sample_definitions = [rec_context (sample_record 2 (Some 1)), rec_context (sample_record 1 None)]"

lemma sample_parents: "{(i, p). parent_of sample_definitions i = Some p} = {(2, 1)}"
  by (auto simp: parent_of_def definition_by_id_def sample_definitions_def sample_record_def split: if_splits)

theorem expand_selects_exactly_witness:
  "map cd_id (case expand_context_definitions sample_definitions [1] True of Inl _ \<Rightarrow> [] | Inr r \<Rightarrow> r) = [1, 2] \<and>
   distinct (map cd_id (case expand_context_definitions sample_definitions [1] True of Inl _ \<Rightarrow> [] | Inr r \<Rightarrow> r))"
proof
  have ok: "\<not> isl (expand_context_definitions sample_definitions [1] True)"
    and ids: "map cd_id (case expand_context_definitions sample_definitions [1] True of Inl _ \<Rightarrow> [] | Inr r \<Rightarrow> r) = [1, 2]"
    by code_simp+
  then show "map cd_id (case expand_context_definitions sample_definitions [1] True of Inl _ \<Rightarrow> [] | Inr r \<Rightarrow> r) = [1, 2]" by simp
  obtain r where r: "expand_context_definitions sample_definitions [1] True = Inr r"
    using ok by (cases "expand_context_definitions sample_definitions [1] True") simp_all
  have "distinct (map cd_id sample_definitions)" by (simp add: sample_definitions_def sample_record_def)
  from expand_selects_exactly [OF r this] r
  show "distinct (map cd_id (case expand_context_definitions sample_definitions [1] True of Inl _ \<Rightarrow> [] | Inr r \<Rightarrow> r))" by simp
qed

theorem expand_succeeds_witness: "\<exists>result. expand_context_definitions sample_definitions [2] True = Inr result"
proof (rule expand_succeeds)
  show "acyclic {(i, p). parent_of sample_definitions i = Some p}"
    unfolding sample_parents by (simp add: acyclic_insert) (simp add: acyclic_def)
  fix i p assume "parent_of sample_definitions i = Some p"
  then have "(i, p) \<in> {(2, 1)}" using sample_parents by blast
  then show "definition_by_id sample_definitions p \<noteq> None"
    by (simp add: definition_by_id_def sample_definitions_def sample_record_def)
next
  show "\<forall>d \<in> set [2]. \<exists>c. definition_by_id sample_definitions d = Some c \<and> cd_lifecycle c = Active"
    by (simp add: definition_by_id_def sample_definitions_def sample_record_def)
  show "length (filter is_active sample_definitions) \<le> MAX_EFFECTIVE_CONTEXTS" by code_simp
qed

section \<open>Contracts between components\<close>

text \<open>The store's read check and the access levels of a memory agree: a principal may read a
  memory's memberships exactly when the memory is not denied to it as a caller.\<close>

lemma memory_read_allowed_iff_visible:
  "memory_read_allowed (m_provenance m) (m_access_policy m) p = (check_access_level m (Some p) \<noteq> LevelDenied)"
  by (auto simp: memory_read_allowed_def check_access_level_def normalize_caller_def Let_def split: access_policy.splits)

lemma hex_lower_hexdigits: "list_all is_ascii_hexdigit (hex_lower bs)"
proof -
  have "list_all is_ascii_hexdigit HEX" by code_simp
  then show ?thesis using hex_lower_ascii by (auto simp: list_all_iff)
qed

lemma no_control_char_append:
  assumes "list_all (\<lambda>c. 32 \<le> byte c \<and> byte c < 127) s" "\<not> has_control_char t"
  shows "\<not> has_control_char (s @ t)"
  using assms
proof (induction s)
  case (Cons a s)
  then show ?case by (cases "s @ t") auto
qed simp

lemma ellipsis_append_no_control:
  "list_all (\<lambda>c. 32 \<le> byte c \<and> byte c < 127) s \<Longrightarrow> \<not> has_control_char (ellipsis @ s)"
  using no_control_char_append [of s "[]"]
  by (cases s) (auto simp: ellipsis_def byte_def)

lemma namespace_char_graphic: "is_ascii_alphanumeric c \<or> c \<in> set ''._-/:'' \<Longrightarrow> graphic c"
  by (auto simp: graphic_def byte_def is_ascii_alphanumeric_def is_ascii_lowercase_def is_ascii_digit_def)

lemma valid_namespace_graphic: "valid_namespace ns \<Longrightarrow> c \<in> set ns \<Longrightarrow> graphic c"
  using namespace_char_graphic by (auto simp: valid_namespace_def list_all_iff)

lemma hex_lower_graphic: "c \<in> set (hex_lower bs) \<Longrightarrow> graphic c"
proof -
  have "list_all graphic HEX" by code_simp
  then show "c \<in> set (hex_lower bs) \<Longrightarrow> graphic c" using hex_lower_ascii by (auto simp: list_all_iff)
qed

lemma graphic_printable: "(\<And>c. c \<in> set s \<Longrightarrow> graphic c) \<Longrightarrow> list_all (\<lambda>c. 32 \<le> byte c \<and> byte c < 127) s"
  by (fastforce simp: list_all_iff graphic_def)

text \<open>The label of a namespaced identity, as the store sees it.\<close>

lemma namespaced_label_accepted:
  assumes "valid_namespace ns" "ns \<noteq> []" "length h = 8" "\<And>c. c \<in> set h \<Longrightarrow> graphic c"
  shows "trim (ns @ '':'' @ ellipsis @ h) = ns @ '':'' @ ellipsis @ h" (is "trim ?l = ?l")
    "length (ns @ '':'' @ ellipsis @ h) \<le> MAX_CONTEXT_DISPLAY_NAME_LEN"
    "\<not> has_control_char (ns @ '':'' @ ellipsis @ h)"
proof -
  have "hd ?l \<in> set ns" using assms(2) by simp
  then have first: "graphic (hd ?l)" using valid_namespace_graphic [OF assms(1)] by blast
  have "h \<noteq> []" using assms(3) by auto
  then have "last ?l \<in> set h" by simp
  then have "graphic (last ?l)" using assms(4) by blast
  then show "trim ?l = ?l" using first assms(2) by (intro trim_graphic) simp_all
  show "length ?l \<le> MAX_CONTEXT_DISPLAY_NAME_LEN"
    using assms(1,3) by (simp add: valid_namespace_def ellipsis_def MAX_CONTEXT_DISPLAY_NAME_LEN_def)
  have "list_all (\<lambda>c. 32 \<le> byte c \<and> byte c < 127) (ns @ '':'')"
  proof (rule graphic_printable)
    have "graphic (CHR '':'')" by code_simp
    then show "c \<in> set (ns @ '':'') \<Longrightarrow> graphic c" for c using valid_namespace_graphic [OF assms(1)] by auto
  qed
  moreover have "\<not> has_control_char (ellipsis @ h)"
    by (rule ellipsis_append_no_control) (rule graphic_printable, rule assms(4))
  ultimately show "\<not> has_control_char ?l"
    using no_control_char_append [of "ns @ '':''" "ellipsis @ h"] by simp
qed

text \<open>What the normaliser produces the store accepts: with a 32-byte digest, every accepted
  \<^verbatim>\<open>namespaced_id\<close> identity passes the store's identity check, so identity creation cannot fail
  between the two components.\<close>

lemma normalized_identity_accepted:
  assumes "normalize_context_identity api sha256 input = Inr i"
    and "ci_scheme i = ''namespaced_id''" and "\<And>x. length (sha256 x) = 32"
  shows "validate_identity i = Inr ()"
proof -
  obtain canonical label ns where c: "canonical_identity api (ci_scheme i) (Option.bind (ii_namespace input) non_blank) (ii_value input)
       = Inr (canonical, label, ns)" "ci_namespace i = ns" "ci_fingerprint i = hex_lower (sha256 (ci_scheme i @ nul # canonical))"
      "ci_redacted_label i = label @ take 8 (ci_fingerprint i)"
    by (rule normalize_context_identity_Inr [OF assms(1)]) (simp add: assms(3))
  from c(1) assms(2) obtain n where n: "Option.bind (ii_namespace input) non_blank = Some n" "valid_namespace n"
      "label = n @ '':'' @ ellipsis" "ns = Some n"
    by (auto simp: canonical_identity_def split: option.splits if_splits)
  from n(1) have "n \<noteq> []" by (auto simp: non_blank_def bind_eq_Some_conv split: if_splits)
  let ?h = "take 8 (ci_fingerprint i)"
  have h8: "length ?h = 8" by (simp add: c(3) assms(3))
  have hg: "c \<in> set ?h \<Longrightarrow> graphic c" for c using hex_lower_graphic by (auto simp: c(3) dest: in_set_takeD)
  note acc = namespaced_label_accepted [OF n(2) \<open>n \<noteq> []\<close> h8 hg]
  have label: "ci_redacted_label i = n @ '':'' @ ellipsis @ ?h" by (simp add: c(4) n(3))
  have l: "trim (ci_redacted_label i) = ci_redacted_label i"
      "length (ci_redacted_label i) \<le> MAX_CONTEXT_DISPLAY_NAME_LEN" "\<not> has_control_char (ci_redacted_label i)"
    unfolding label by (rule acc, assumption)+
  have "ci_redacted_label i \<noteq> []" using \<open>n \<noteq> []\<close> by (simp add: c(4) n(3))
  moreover have "length (ci_fingerprint i) = 64" "list_all is_ascii_hexdigit (ci_fingerprint i)"
    by (simp_all add: c(3) assms(3) hex_lower_hexdigits)
  ultimately show ?thesis using l \<open>n \<noteq> []\<close> assms(2) by (simp add: validate_identity_def c(2) n(4))
qed

text \<open>A principal asserted by a trusted proxy is always one that can be granted a context
  under its own name: it is never reserved, and normalising it as a grantee leaves it as it is.\<close>

lemma proxy_principal_is_grantable:
  assumes "trusted_proxy_principal header name = Some p"
  shows "normalize_explicit_grantee p = Inr p \<and> p \<noteq> OPERATOR_PRINCIPAL \<and> p \<noteq> LEGACY_SYSTEM_PRINCIPAL \<and>
    p \<noteq> LEGACY_ALL_PRINCIPALS_GRANT \<and> p \<noteq> ANONYMOUS_PRINCIPAL"
  using trusted_proxy_principal_Some [OF assms]
  by (auto simp: normalize_explicit_grantee_def is_reserved_principal_def Let_def)

end
