(* ===== verification/Context_Ops.thy ===== *)
theory Context_Ops
  imports Context_Store
begin

text \<open>
  The write operations of the SQLite context store, \<^verbatim>\<open>src/src/store/context_store.rs\<close>, whole
  transactions from validation to the audit row. \<open>now\<close> is the clock value of the call.
\<close>

section \<open>Inserts under the schema's constraints\<close>

definition UNIQUE_FAILED :: store_error where "UNIQUE_FAILED = Database ''UNIQUE constraint failed''"
definition FOREIGN_KEY_FAILED :: store_error where "FOREIGN_KEY_FAILED = Database ''FOREIGN KEY constraint failed''"
definition CHECK_FAILED :: store_error where "CHECK_FAILED = Database ''CHECK constraint failed''"

definition context_ids :: "context_db \<Rightarrow> context_id list" where
  "context_ids db = map (cd_id \<circ> cx_def) (t_contexts db)"

definition context_unique_key :: "context_row \<Rightarrow> string \<times> context_kind \<times> string" where
  "context_unique_key r = (cd_owner_principal (cx_def r), cd_kind (cx_def r), cx_normalized_key r)"

definition insert_context_row :: "context_row \<Rightarrow> context_db \<Rightarrow> store_error + context_db" where
  "insert_context_row r db =
     (let c = cx_def r in
      if cd_parent_id c = Some (cd_id c) then Inl CHECK_FAILED
      else if cd_id c \<in> set (context_ids db) \<or> context_unique_key r \<in> context_unique_key ` set (t_contexts db)
      then Inl UNIQUE_FAILED
      else if cd_kind c \<notin> kd_kind ` set (t_kinds db) \<or>
              (case cd_parent_id c of None \<Rightarrow> False | Some p \<Rightarrow> p \<notin> set (context_ids db))
      then Inl FOREIGN_KEY_FAILED
      else Inr (db\<lparr>t_contexts := t_contexts db @ [r]\<rparr>))"

definition insert_alias_row :: "alias_row \<Rightarrow> context_db \<Rightarrow> store_error + context_db" where
  "insert_alias_row a db =
     (if (al_context_id a, al_normalized a) \<in> (\<lambda>x. (al_context_id x, al_normalized x)) ` set (t_aliases db)
      then Inl UNIQUE_FAILED
      else if al_context_id a \<notin> set (context_ids db) then Inl FOREIGN_KEY_FAILED
      else Inr (db\<lparr>t_aliases := t_aliases db @ [a]\<rparr>))"

definition identity_pk :: "identity_row \<Rightarrow> context_id \<times> string \<times> string \<times> string" where
  "identity_pk r = (ir_context_id r, ir_scheme r, ir_namespace r, ir_fingerprint r)"

definition identity_unique_key :: "identity_row \<Rightarrow> string \<times> context_kind \<times> string \<times> string \<times> string" where
  "identity_unique_key r = (ir_owner_principal r, ir_kind r, ir_scheme r, ir_namespace r, ir_fingerprint r)"

definition insert_identity_row :: "identity_row \<Rightarrow> context_db \<Rightarrow> store_error + context_db" where
  "insert_identity_row r db =
     (if identity_pk r \<in> identity_pk ` set (t_identities db) \<or>
         identity_unique_key r \<in> identity_unique_key ` set (t_identities db)
      then Inl UNIQUE_FAILED
      else if ir_context_id r \<notin> set (context_ids db) then Inl FOREIGN_KEY_FAILED
      else Inr (db\<lparr>t_identities := t_identities db @ [r]\<rparr>))"

definition insert_hint_row :: "hint_row \<Rightarrow> context_db \<Rightarrow> store_error + context_db" where
  "insert_hint_row r db =
     (if (hr_context_id r, hr_normalized r) \<in> (\<lambda>x. (hr_context_id x, hr_normalized x)) ` set (t_hints db)
      then Inl UNIQUE_FAILED
      else if hr_context_id r \<notin> set (context_ids db) then Inl FOREIGN_KEY_FAILED
      else Inr (db\<lparr>t_hints := t_hints db @ [r]\<rparr>))"

definition insert_grant_row :: "context_grant \<Rightarrow> context_db \<Rightarrow> store_error + context_db" where
  "insert_grant_row g db =
     (if (g_context_id g, g_grantee_principal g) \<in> (\<lambda>x. (g_context_id x, g_grantee_principal x)) ` set (t_grants db)
      then Inl UNIQUE_FAILED
      else if g_context_id g \<notin> set (context_ids db) then Inl FOREIGN_KEY_FAILED
      else Inr (db\<lparr>t_grants := t_grants db @ [g]\<rparr>))"

definition insert_membership_row :: "membership_row \<Rightarrow> context_db \<Rightarrow> store_error + context_db" where
  "insert_membership_row r db =
     (if list_ex (\<lambda>x. mc_memory_id x = mc_memory_id r \<and>
           (mc_context_id x = mc_context_id r \<or> mc_ordinal x = mc_ordinal r)) (t_memory_contexts db)
      then Inl UNIQUE_FAILED
      else if mc_context_id r \<notin> set (context_ids db) \<or> mc_memory_id r \<notin> m_id ` set (t_memories db)
      then Inl FOREIGN_KEY_FAILED
      else Inr (db\<lparr>t_memory_contexts := t_memory_contexts db @ [r]\<rparr>))"

text \<open>A loop of inserts: the first failure ends it.\<close>

fun insert_all :: "('r \<Rightarrow> context_db \<Rightarrow> store_error + context_db) \<Rightarrow> 'r list \<Rightarrow> context_db \<Rightarrow> store_error + context_db" where
  "insert_all ins [] db = Inr db"
| "insert_all ins (r # rs) db = result_bind (ins r db) (insert_all ins rs)"

definition update_context :: "context_id \<Rightarrow> (context_definition \<Rightarrow> context_definition) \<Rightarrow> context_db \<Rightarrow> context_db" where
  "update_context i f db =
     db\<lparr>t_contexts := map (\<lambda>r. if cd_id (cx_def r) = i then r\<lparr>cx_def := f (cx_def r)\<rparr> else r) (t_contexts db)\<rparr>"

section \<open>Creation\<close>

definition exact_key_or_alias :: "context_db \<Rightarrow> context_create_draft \<Rightarrow> bool" where
  "exact_key_or_alias db draft =
     list_ex (\<lambda>r. cd_kind (cx_def r) = dr_kind draft \<and> context_visible db (cx_def r) (dr_owner_principal draft) \<and>
        (cx_normalized_key r = dr_normalized_key draft \<or>
         list_ex (\<lambda>a. al_context_id a = cd_id (cx_def r) \<and> al_normalized a = dr_normalized_key draft) (t_aliases db)))
       (t_contexts db)"

definition stored_namespace :: "context_identity \<Rightarrow> string" where
  "stored_namespace identity = (case ci_namespace identity of None \<Rightarrow> [] | Some ns \<Rightarrow> ns)"

definition exact_identity :: "context_db \<Rightarrow> context_create_draft \<Rightarrow> bool" where
  "exact_identity db draft =
     list_ex (\<lambda>identity.
       list_ex (\<lambda>ir. list_ex (\<lambda>r. cd_id (cx_def r) = ir_context_id ir \<and> cd_kind (cx_def r) = dr_kind draft \<and>
            context_visible db (cx_def r) (dr_owner_principal draft) \<and> ir_scheme ir = ci_scheme identity \<and>
            ir_namespace ir = stored_namespace identity \<and> ir_fingerprint ir = ci_fingerprint identity) (t_contexts db))
         (t_identities db)) (dr_identities draft)"

definition ordered_aliases :: "context_db \<Rightarrow> context_id \<Rightarrow> string list" where
  "ordered_aliases db i = map al_alias (sort_key al_normalized (filter (\<lambda>a. al_context_id a = i) (t_aliases db)))"

definition existing_candidates ::
  "context_db \<Rightarrow> context_create_draft \<Rightarrow> (context_id \<times> string \<times> string \<times> string list) list" where
  "existing_candidates db draft =
     map (\<lambda>r. (cd_id (cx_def r), cd_key (cx_def r), cd_display_name (cx_def r), ordered_aliases db (cd_id (cx_def r))))
       (sort_key cx_normalized_key (sort_key (cd_id \<circ> cx_def)
         (filter (\<lambda>r. cd_kind (cx_def r) = dr_kind draft \<and> cd_lifecycle (cx_def r) = Active \<and>
            context_visible db (cx_def r) (dr_owner_principal draft)) (t_contexts db))))"

definition draft_definition :: "context_create_draft \<Rightarrow> datetime \<Rightarrow> context_definition" where
  "draft_definition draft now =
     \<lparr>cd_id = dr_id draft, cd_kind = dr_kind draft, cd_key = dr_key draft,
      cd_display_name = dr_display_name draft, cd_description = dr_description draft,
      cd_owner_principal = dr_owner_principal draft, cd_guidance = dr_guidance draft,
      cd_parent_id = dr_parent_id draft, cd_lifecycle = Active, cd_frozen = dr_frozen draft,
      cd_created_at = now, cd_updated_at = now\<rparr>"

definition draft_identity_row :: "context_id \<Rightarrow> string \<Rightarrow> context_kind \<Rightarrow> datetime \<Rightarrow> context_identity \<Rightarrow> identity_row" where
  "draft_identity_row i owner kind now identity =
     \<lparr>ir_context_id = i, ir_owner_principal = owner, ir_kind = kind, ir_scheme = ci_scheme identity,
      ir_namespace = stored_namespace identity, ir_fingerprint = ci_fingerprint identity,
      ir_redacted_label = ci_redacted_label identity, ir_created_at = now\<rparr>"

text \<open>The hints to insert: blank ones and repetitions after normalisation are skipped.\<close>

fun draft_hints :: "(string \<Rightarrow> string) \<Rightarrow> string set \<Rightarrow> string list \<Rightarrow> (string \<times> string) list" where
  "draft_hints lc seen [] = []"
| "draft_hints lc seen (hint # rest) =
     (let normalized = normalize_context_key lc hint in
      if normalized = [] \<or> normalized \<in> seen then draft_hints lc seen rest
      else (hint, normalized) # draft_hints lc (insert normalized seen) rest)"

definition alias_rows :: "context_id \<Rightarrow> datetime \<Rightarrow> (string \<times> string) list \<Rightarrow> alias_row list" where
  "alias_rows i now = map (\<lambda>(alias, normalized).
     \<lparr>al_context_id = i, al_alias = alias, al_normalized = normalized, al_created_at = now\<rparr>)"

definition hint_rows :: "context_id \<Rightarrow> datetime \<Rightarrow> (string \<times> string) list \<Rightarrow> hint_row list" where
  "hint_rows i now = map (\<lambda>(hint, normalized).
     \<lparr>hr_context_id = i, hr_hint = hint, hr_normalized = normalized, hr_created_at = now\<rparr>)"

definition create_context_checks ::
  "(string \<Rightarrow> string) \<Rightarrow> (nat \<Rightarrow> nat \<Rightarrow> f64) \<Rightarrow> context_create_draft \<Rightarrow> context_audit_draft \<Rightarrow> context_db \<Rightarrow> store_error + unit" where
  "create_context_checks lc fdiv draft audit db =
     result_bind (validate_create_draft lc draft audit) (\<lambda>_.
     case find (\<lambda>k. kd_kind k = dr_kind draft) (t_kinds db) of
       None \<Rightarrow> Inl (Conflict ''unknown context kind {}'')
     | Some k \<Rightarrow>
       if \<not> kd_enabled k then Inl (Conflict ''context kind {} is disabled'')
       else if (case dr_parent_id draft of None \<Rightarrow> False
                | Some p \<Rightarrow> \<not> context_use_allowed db p (dr_owner_principal draft) True)
       then Inl (Conflict ''parent context {} is unavailable, archived, or not granted'')
       else if exact_key_or_alias db draft \<or> exact_identity db draft
       then Inl (Conflict ''exact visible context key, alias, or identity already exists'')
       else result_bind (validate_fuzzy_confirmation lc fdiv draft (existing_candidates db draft)) (\<lambda>_.
         if dr_id draft \<in> set (context_ids db) \<or>
            (dr_owner_principal draft, dr_kind draft, dr_normalized_key draft) \<in> context_unique_key ` set (t_contexts db)
         then Inl (Conflict ''context ID or owner/kind/key already exists'')
         else Inr ()))"

definition create_context ::
  "(string \<Rightarrow> string) \<Rightarrow> (nat \<Rightarrow> nat \<Rightarrow> f64) \<Rightarrow> context_create_draft \<Rightarrow> context_audit_draft \<Rightarrow> datetime \<Rightarrow>
   context_db \<Rightarrow> context_definition tx" where
  "create_context lc fdiv draft audit now db =
     result_bind (create_context_checks lc fdiv draft audit db) (\<lambda>_.
     result_bind (insert_context_row \<lparr>cx_def = draft_definition draft now, cx_normalized_key = dr_normalized_key draft\<rparr> db) (\<lambda>db1.
     result_bind (insert_all insert_alias_row (alias_rows (dr_id draft) now (dr_aliases draft)) db1) (\<lambda>db2.
     result_bind (insert_all insert_identity_row
       (map (draft_identity_row (dr_id draft) (dr_owner_principal draft) (dr_kind draft) now) (dr_identities draft)) db2) (\<lambda>db3.
     result_bind (insert_all insert_hint_row (hint_rows (dr_id draft) now (draft_hints lc {} (dr_resolver_hints draft))) db3) (\<lambda>db4.
     Inr (insert_context_audit audit (Some (dr_id draft)) None now db4, draft_definition draft now))))))"

section \<open>Hierarchy, lifecycle and grants\<close>

text \<open>The recursive query: the rows reached from \<open>frontier\<close> through \<^verbatim>\<open>parent_id\<close>, as \<^verbatim>\<open>UNION\<close> collects
  them, until no new row appears.\<close>

definition parent_ids :: "context_db \<Rightarrow> context_id list \<Rightarrow> context_id list" where
  "parent_ids db frontier = List.map_filter (\<lambda>i. Option.bind (find_context db i) cd_parent_id) frontier"

function ancestors_cte :: "context_db \<Rightarrow> context_id set \<Rightarrow> context_id list \<Rightarrow> context_id set" where
  "ancestors_cte db reached frontier =
     (let fresh = filter (\<lambda>i. i \<in> set (context_ids db) \<and> i \<notin> reached) frontier in
      if fresh = [] then reached else ancestors_cte db (reached \<union> set fresh) (parent_ids db fresh))"
  by pat_completeness auto
termination
proof (relation "measure (\<lambda>(db, reached, frontier). card (set (context_ids db) - reached))", goal_cases)
  case (2 db reached frontier fresh)
  then have "set (context_ids db) - (reached \<union> set fresh) \<subset> set (context_ids db) - reached"
    by (auto simp: filter_empty_conv)
  then show ?case by (simp add: psubset_card_mono)
qed simp

declare ancestors_cte.simps [simp del]

definition set_context_parent ::
  "context_id \<Rightarrow> context_id option \<Rightarrow> string \<Rightarrow> context_audit_draft \<Rightarrow> datetime \<Rightarrow> context_db \<Rightarrow> unit tx" where
  "set_context_parent i parent p audit now db =
     result_bind (validate_audit_actor audit p) (\<lambda>_.
     result_bind (require_mutable_owned_context db i p) (\<lambda>_.
     if parent = Some i then Inl (Conflict ''a context cannot be its own parent'')
     else
       result_bind (case parent of
           None \<Rightarrow> Inr ()
         | Some q \<Rightarrow>
             if \<not> context_use_allowed db q p True
             then Inl (Conflict ''parent context {} is unavailable, archived, or not granted'')
             else if i \<in> ancestors_cte db {} [q]
             then Inl (Conflict ''setting context {} parent to {} would create a hierarchy cycle'')
             else Inr ()) (\<lambda>_.
       let db1 = update_context i (\<lambda>c. c\<lparr>cd_parent_id := parent, cd_updated_at := now\<rparr>) db;
           changed = length (filter (\<lambda>j. j = i) (context_ids db))
       in if changed \<noteq> 1 then Inl (Conflict ''context {} changed during parent update'')
          else Inr (insert_context_audit audit (Some i) None now db1, ()))))"

definition set_context_lifecycle ::
  "context_id \<Rightarrow> context_lifecycle \<Rightarrow> string \<Rightarrow> context_audit_draft \<Rightarrow> datetime \<Rightarrow> context_db \<Rightarrow> unit tx" where
  "set_context_lifecycle i lifecycle p audit now db =
     result_bind (validate_audit_actor audit p) (\<lambda>_.
     result_bind (require_mutable_owned_context db i p) (\<lambda>_.
       let db1 = update_context i (\<lambda>c. c\<lparr>cd_lifecycle := lifecycle, cd_updated_at := now\<rparr>) db;
           changed = length (filter (\<lambda>j. j = i) (context_ids db))
       in if changed \<noteq> 1 then Inl (Conflict ''context {} changed during lifecycle update'')
          else Inr (insert_context_audit audit (Some i) None now db1, ())))"

text \<open>\<^verbatim>\<open>INSERT ... ON CONFLICT DO UPDATE\<close> on the key \<^verbatim>\<open>(context_id, grantee_principal)\<close>.\<close>

definition upsert_grant_row :: "context_grant \<Rightarrow> context_db \<Rightarrow> store_error + context_db" where
  "upsert_grant_row g db =
     (if (g_context_id g, g_grantee_principal g) \<in> (\<lambda>x. (g_context_id x, g_grantee_principal x)) ` set (t_grants db)
      then Inr (db\<lparr>t_grants := map (\<lambda>x.
             if g_context_id x = g_context_id g \<and> g_grantee_principal x = g_grantee_principal g
             then x\<lparr>g_granted_by := g_granted_by g, g_created_at := g_created_at g\<rparr> else x) (t_grants db)\<rparr>)
      else insert_grant_row g db)"

definition grant_context_use ::
  "context_id \<Rightarrow> string \<Rightarrow> string \<Rightarrow> context_audit_draft \<Rightarrow> datetime \<Rightarrow> context_db \<Rightarrow> unit tx" where
  "grant_context_use i grantee0 p audit now db =
     result_bind (validate_audit_actor audit p) (\<lambda>_.
     result_bind (normalize_explicit_grantee grantee0) (\<lambda>grantee.
     result_bind (require_mutable_owned_context db i p) (\<lambda>_.
     result_bind (upsert_grant_row
       \<lparr>g_context_id = i, g_grantee_principal = grantee, g_granted_by = p, g_created_at = now\<rparr> db) (\<lambda>db1.
     Inr (insert_context_audit audit (Some i) None now db1, ())))))"

definition revoke_context_use ::
  "context_id \<Rightarrow> string \<Rightarrow> string \<Rightarrow> context_audit_draft \<Rightarrow> datetime \<Rightarrow> context_db \<Rightarrow> unit tx" where
  "revoke_context_use i grantee0 p audit now db =
     result_bind (validate_audit_actor audit p) (\<lambda>_.
     result_bind (normalize_explicit_grantee grantee0) (\<lambda>grantee.
     result_bind (require_mutable_owned_context db i p) (\<lambda>_.
     Inr (insert_context_audit audit (Some i) None now
       (db\<lparr>t_grants := filter (\<lambda>g. \<not> (g_context_id g = i \<and> g_grantee_principal g = grantee)) (t_grants db)\<rparr>), ()))))"

definition replace_context_grants ::
  "context_id \<Rightarrow> string list \<Rightarrow> string \<Rightarrow> context_audit_draft \<Rightarrow> datetime \<Rightarrow> context_db \<Rightarrow> unit tx" where
  "replace_context_grants i grantees0 p audit now db =
     result_bind (normalize_explicit_grantees grantees0) (\<lambda>grantees.
     result_bind (validate_audit_actor audit p) (\<lambda>_.
     result_bind (require_mutable_owned_context db i p) (\<lambda>_.
     result_bind (insert_all insert_grant_row
       (map (\<lambda>g. \<lparr>g_context_id = i, g_grantee_principal = g, g_granted_by = p, g_created_at = now\<rparr>) grantees)
       (db\<lparr>t_grants := filter (\<lambda>g. g_context_id g \<noteq> i) (t_grants db)\<rparr>)) (\<lambda>db1.
     Inr (insert_context_audit audit (Some i) None now db1, ())))))"

section \<open>Definition updates\<close>

text \<open>The loop over aliases or hints of a patch: trimmed, non-empty, unique after normalisation.\<close>

fun normalize_surfaces :: "(string \<Rightarrow> string) \<Rightarrow> string \<Rightarrow> string set \<Rightarrow> string list \<Rightarrow> store_error + (string \<times> string) list" where
  "normalize_surfaces lc msg seen [] = Inr []"
| "normalize_surfaces lc msg seen (v # rest) =
     (let surface = trim v; normalized = normalize_context_key lc surface in
      if surface = [] \<or> normalized = [] \<or> normalized \<in> seen then Inl (Conflict msg)
      else result_bind (normalize_surfaces lc msg (insert normalized seen) rest)
             (\<lambda>more. Inr ((surface, normalized) # more)))"

fun validate_patch_identities :: "(string \<times> string option \<times> string) set \<Rightarrow> context_identity list \<Rightarrow> store_error + unit" where
  "validate_patch_identities seen [] = Inr ()"
| "validate_patch_identities seen (identity # rest) =
     result_bind (validate_identity identity) (\<lambda>_.
       let key = (ci_scheme identity, ci_namespace identity, ci_fingerprint identity) in
       if key \<in> seen then Inl (Conflict ''context identities must be unique'')
       else validate_patch_identities (insert key seen) rest)"

definition patched_definition :: "context_definition_patch \<Rightarrow> datetime \<Rightarrow> context_definition \<Rightarrow> context_definition" where
  "patched_definition patch now c =
     c\<lparr>cd_display_name := trim (cp_display_name patch),
       cd_description := Option.bind (cp_description patch) non_blank,
       cd_guidance := Option.bind (cp_guidance patch) non_blank, cd_updated_at := now\<rparr>"

definition update_context_definition ::
  "(string \<Rightarrow> string) \<Rightarrow> context_id \<Rightarrow> context_definition_patch \<Rightarrow> string \<Rightarrow> context_audit_draft \<Rightarrow> datetime \<Rightarrow>
   context_db \<Rightarrow> unit tx" where
  "update_context_definition lc i patch p audit now db =
     result_bind (validate_audit_actor audit p) (\<lambda>_.
     result_bind (validate_definition_patch_surfaces patch) (\<lambda>_.
     result_bind (normalize_surfaces lc ''context aliases must be non-empty and unique after normalization'' {} (cp_aliases patch)) (\<lambda>aliases.
     result_bind (validate_patch_identities {} (cp_identities patch)) (\<lambda>_.
     result_bind (normalize_surfaces lc ''context resolver hints must be non-empty and unique after normalization'' {} (cp_resolver_hints patch)) (\<lambda>hints.
     result_bind (require_mutable_owned_context db i p) (\<lambda>_.
     case find_context db i of
       None \<Rightarrow> Inl (Database ''Query returned no rows'')
     | Some c0 \<Rightarrow>
       let db1 = update_context i (patched_definition patch now) db in
       result_bind (insert_all insert_alias_row (alias_rows i now aliases)
         (db1\<lparr>t_aliases := filter (\<lambda>a. al_context_id a \<noteq> i) (t_aliases db1)\<rparr>)) (\<lambda>db2.
       result_bind (insert_all insert_identity_row
         (map (draft_identity_row i (cd_owner_principal c0) (cd_kind c0) now) (cp_identities patch))
         (db2\<lparr>t_identities := filter (\<lambda>r. ir_context_id r \<noteq> i) (t_identities db2)\<rparr>)) (\<lambda>db3.
       result_bind (insert_all insert_hint_row (hint_rows i now hints)
         (db3\<lparr>t_hints := filter (\<lambda>h. hr_context_id h \<noteq> i) (t_hints db3)\<rparr>)) (\<lambda>db4.
       Inr (insert_context_audit audit (Some i) None now db4, ()))))))))))"

section \<open>Kinds and policies\<close>

record context_kind_draft =
  kdr_kind :: context_kind
  kdr_display_name :: string
  kdr_enabled :: bool

definition upsert_context_kind ::
  "context_kind_draft \<Rightarrow> string \<Rightarrow> context_audit_draft \<Rightarrow> datetime \<Rightarrow> context_db \<Rightarrow> unit tx" where
  "upsert_context_kind draft p audit now db =
     result_bind (validate_audit_actor audit p) (\<lambda>_.
     if p \<noteq> OPERATOR_PRINCIPAL then Inl (Conflict ''context kind mutation requires principal {}'')
     else (let display_name = trim (kdr_display_name draft) in
       if display_name = [] then Inl (Conflict ''context kind display name cannot be blank'')
       else (let kinds =
           (if kdr_kind draft \<in> kd_kind ` set (t_kinds db)
            then map (\<lambda>k. if kd_kind k = kdr_kind draft
                   then k\<lparr>kd_display_name := display_name, kd_enabled := kdr_enabled draft, kd_updated_at := now\<rparr> else k)
                 (t_kinds db)
            else t_kinds db @ [\<lparr>kd_kind = kdr_kind draft, kd_display_name = display_name, kd_builtin = False,
                   kd_enabled = kdr_enabled draft, kd_created_at = now, kd_updated_at = now\<rparr>])
         in Inr (insert_context_audit audit None None now (db\<lparr>t_kinds := kinds\<rparr>), ()))))"

definition validate_policy_default :: "context_db \<Rightarrow> context_kind \<Rightarrow> context_kind_policy \<Rightarrow> string \<Rightarrow> store_error + unit" where
  "validate_policy_default db kind policy p =
     (if kind \<notin> kd_kind ` set (t_kinds db) then Inl (Conflict ''unknown context kind {}'')
      else (case kp_default_context_id policy of
         None \<Rightarrow> Inr ()
       | Some d \<Rightarrow>
           if map_option cd_kind (find (\<lambda>c. cd_id c = d \<and> cd_lifecycle c = Active) (map cx_def (t_contexts db))) \<noteq> Some kind
           then Inl (Conflict ''policy default_context_id must reference an active context of the same kind'')
           else if p \<noteq> [] \<and> \<not> context_use_allowed db d p True
           then Inl (Conflict ''principal policy default_context_id is not authorized for that principal'')
           else Inr ()))"

definition upsert_policy_row :: "context_kind_policy_record \<Rightarrow> context_db \<Rightarrow> store_error + context_db" where
  "upsert_policy_row r db =
     (if \<not> ((pr_layer r = LayerOperator \<and> pr_principal r = []) \<or> (pr_layer r = LayerPrincipal \<and> pr_principal r \<noteq> []))
      then Inl CHECK_FAILED
      else if pr_kind r \<notin> kd_kind ` set (t_kinds db) then Inl FOREIGN_KEY_FAILED
      else if (pr_layer r, pr_principal r, pr_kind r) \<in> (\<lambda>x. (pr_layer x, pr_principal x, pr_kind x)) ` set (t_kind_policies db)
      then Inr (db\<lparr>t_kind_policies := map (\<lambda>x.
             if (pr_layer x, pr_principal x, pr_kind x) = (pr_layer r, pr_principal r, pr_kind r)
             then x\<lparr>pr_policy := pr_policy r, pr_updated_at := pr_updated_at r\<rparr> else x) (t_kind_policies db)\<rparr>)
      else Inr (db\<lparr>t_kind_policies := t_kind_policies db @ [r]\<rparr>))"

definition map_conflict :: "string + 'a \<Rightarrow> store_error + 'a" where
  "map_conflict r = (case r of Inl e \<Rightarrow> Inl (Conflict e) | Inr x \<Rightarrow> Inr x)"

definition upsert_context_kind_policy ::
  "context_kind_policy_draft \<Rightarrow> string \<Rightarrow> context_audit_draft \<Rightarrow> datetime \<Rightarrow> context_db \<Rightarrow> unit tx" where
  "upsert_context_kind_policy draft p audit now db =
     result_bind (validate_audit_actor audit p) (\<lambda>_.
     result_bind (map_conflict (context_kind_policy_validate (pd_policy draft))) (\<lambda>_.
     result_bind (case pd_layer draft of
         LayerOperator \<Rightarrow>
           if pd_principal draft \<noteq> [] then Inl (Conflict ''operator policy principal must be empty'')
           else if p \<noteq> OPERATOR_PRINCIPAL then Inl (Conflict ''operator policy mutation requires principal {}'')
           else Inr []
       | LayerPrincipal \<Rightarrow>
           if pd_principal draft \<noteq> p then Inl (Conflict ''a principal policy may only customize its own principal'')
           else Inr p) (\<lambda>stored_principal.
     result_bind (validate_policy_default db (pd_kind draft) (pd_policy draft) stored_principal) (\<lambda>_.
     result_bind (upsert_policy_row
       \<lparr>pr_layer = pd_layer draft, pr_principal = stored_principal, pr_kind = pd_kind draft,
        pr_policy = pd_policy draft, pr_updated_at = now\<rparr> db) (\<lambda>db1.
     Inr (insert_context_audit audit None None now db1, ()))))))"

definition upsert_anchor_row :: "context_anchor_policy_record \<Rightarrow> context_db \<Rightarrow> store_error + context_db" where
  "upsert_anchor_row r db =
     (if ar_anchor_context_id r \<notin> set (context_ids db) then Inl FOREIGN_KEY_FAILED
      else if (ar_anchor_context_id r, ar_principal r) \<in> (\<lambda>x. (ar_anchor_context_id x, ar_principal x)) ` set (t_anchor_overrides db)
      then Inr (db\<lparr>t_anchor_overrides := map (\<lambda>x.
             if ar_anchor_context_id x = ar_anchor_context_id r \<and> ar_principal x = ar_principal r
             then x\<lparr>ar_policy := ar_policy r, ar_updated_at := ar_updated_at r\<rparr> else x) (t_anchor_overrides db)\<rparr>)
      else Inr (db\<lparr>t_anchor_overrides := t_anchor_overrides db @ [r]\<rparr>))"

definition upsert_context_anchor_policy ::
  "context_anchor_policy_draft \<Rightarrow> string \<Rightarrow> context_audit_draft \<Rightarrow> datetime \<Rightarrow> context_db \<Rightarrow> unit tx" where
  "upsert_context_anchor_policy draft p audit now db =
     result_bind (validate_audit_actor audit p) (\<lambda>_.
     if ad_principal draft \<noteq> p then Inl (Conflict ''an anchor policy may only customize its own principal'')
     else
     result_bind (map_conflict (context_anchor_policy_validate (ad_policy draft))) (\<lambda>_.
     if \<not> context_use_allowed db (ad_anchor_context_id draft) p True
     then Inl (Conflict ''anchor context is unavailable, archived, or not granted'')
     else
     result_bind (try_for_each (\<lambda>(kind, policy).
         case context_kind_new kind of
           Inl e \<Rightarrow> Inl (Serialization (pee_message e))
         | Inr k \<Rightarrow> validate_policy_default db k policy p) (ap_kinds (ad_policy draft))) (\<lambda>_.
     result_bind (upsert_anchor_row
       \<lparr>ar_anchor_context_id = ad_anchor_context_id draft, ar_principal = p,
        ar_policy = ad_policy draft, ar_updated_at = now\<rparr> db) (\<lambda>db1.
     Inr (insert_context_audit audit (Some (ad_anchor_context_id draft)) None now db1, ())))))"

section \<open>Legacy rollback\<close>

definition anchor_defaults_to :: "context_id \<Rightarrow> context_anchor_policy_record \<Rightarrow> bool" where
  "anchor_defaults_to i r = list_ex (\<lambda>(k, policy). kp_default_context_id policy = Some i) (ap_kinds (ar_policy r))"

definition is_rollback_event :: "context_id \<Rightarrow> string \<Rightarrow> context_audit_event \<Rightarrow> bool" where
  "is_rollback_event i p e \<longleftrightarrow> cae_context_id e = Some i \<and> cae_actor_principal e = p \<and>
     cae_action e = ''legacy_scope_context_created'' \<and> cae_memory_id e = None"

definition rollback_allowed :: "context_db \<Rightarrow> context_id \<Rightarrow> string \<Rightarrow> context_definition \<Rightarrow> bool" where
  "rollback_allowed db i p c \<longleftrightarrow>
     cd_id c = i \<and> cd_owner_principal c = p \<and> cd_kind c = ContextKind ''custom'' \<and> \<not> cd_frozen c \<and>
     \<not> list_ex (\<lambda>m. mc_context_id m = i) (t_memory_contexts db) \<and>
     \<not> list_ex (\<lambda>d. cd_parent_id d = Some i) (map cx_def (t_contexts db)) \<and>
     \<not> list_ex (\<lambda>g. g_context_id g = i) (t_grants db) \<and>
     \<not> list_ex (\<lambda>r. rl_from r = i \<or> rl_to r = i) (t_relations db) \<and>
     \<not> list_ex (\<lambda>a. al_context_id a = i) (t_aliases db) \<and>
     \<not> list_ex (\<lambda>r. ir_context_id r = i) (t_identities db) \<and>
     \<not> list_ex (\<lambda>h. hr_context_id h = i) (t_hints db) \<and>
     \<not> list_ex (\<lambda>r. ar_anchor_context_id r = i) (t_anchor_overrides db) \<and>
     \<not> list_ex (\<lambda>r. kp_default_context_id (pr_policy r) = Some i) (t_kind_policies db) \<and>
     \<not> list_ex (anchor_defaults_to i) (t_anchor_overrides db) \<and>
     length (filter (\<lambda>e. cae_context_id e = Some i) (t_audit db)) = 1 \<and>
     list_ex (is_rollback_event i p) (t_audit db)"

definition rollback_unreferenced_legacy_context :: "context_id \<Rightarrow> string \<Rightarrow> context_db \<Rightarrow> bool tx" where
  "rollback_unreferenced_legacy_context i p db =
     (let removed = length (filter (\<lambda>r. rollback_allowed db i p (cx_def r)) (t_contexts db));
          db1 = db\<lparr>t_contexts := filter (\<lambda>r. \<not> rollback_allowed db i p (cx_def r)) (t_contexts db)\<rparr>
      in if removed = 1
         then Inr (db1\<lparr>t_audit := filter (\<lambda>e. \<not> is_rollback_event i p e) (t_audit db1)\<rparr>, True)
         else Inr (db1, False))"

section \<open>Memberships\<close>

definition memory_context_ids :: "context_db \<Rightarrow> memory_id \<Rightarrow> context_id set" where
  "memory_context_ids db m = set (map mc_context_id (filter (\<lambda>r. mc_memory_id r = m) (t_memory_contexts db)))"

definition membership_rows :: "memory_id \<Rightarrow> context_id list \<Rightarrow> datetime \<Rightarrow> membership_row list" where
  "membership_rows m ids now = map (\<lambda>(ordinal, i).
     \<lparr>mc_memory_id = m, mc_context_id = i, mc_ordinal = ordinal, mc_created_at = now\<rparr>) (enumerate 0 ids)"

text \<open>The check shared by both replacements: contexts the memory already has may be archived.\<close>

definition check_memberships :: "context_db \<Rightarrow> context_id list \<Rightarrow> string \<Rightarrow> context_id set \<Rightarrow> store_error + unit" where
  "check_memberships db ids p preserved = try_for_each (\<lambda>i.
     if \<not> context_use_allowed db i p (i \<notin> preserved)
     then Inl (Conflict ''context {} is unavailable, archived, or not granted to principal {}'')
     else Inr ()) ids"

definition primary_key :: "context_db \<Rightarrow> context_id list \<Rightarrow> store_error + string" where
  "primary_key db ids =
     (case ids of
        [] \<Rightarrow> Inr UNRESOLVED_CONTEXT_KEY
      | i # _ \<Rightarrow> (case find_context db i of
                    None \<Rightarrow> Inl (Database ''Query returned no rows'') | Some c \<Rightarrow> Inr (cd_key c)))"

definition insert_memory_contexts ::
  "memory_id \<Rightarrow> context_id list \<Rightarrow> string \<Rightarrow> string \<Rightarrow> context_audit_draft \<Rightarrow> datetime \<Rightarrow> context_id set \<Rightarrow>
   context_db \<Rightarrow> store_error + context_db" where
  "insert_memory_contexts m ids p compatibility_scope audit now preserved db =
     result_bind (validate_audit_actor audit p) (\<lambda>_.
     if \<not> distinct ids then Inl (Conflict ''memory context memberships must be unique'')
     else
     result_bind (check_memberships db ids p preserved) (\<lambda>_.
     result_bind (primary_key db ids) (\<lambda>expected_scope.
     if compatibility_scope \<noteq> expected_scope
     then Inl (Conflict ''compatibility scope {} does not match primary governed context {}'')
     else
     result_bind (insert_all insert_membership_row (membership_rows m ids now) db) (\<lambda>db1.
     Inr (insert_context_audit audit None (Some m) now db1)))))"

definition insert_initial_memory_contexts ::
  "memory_id \<Rightarrow> context_id list \<Rightarrow> string \<Rightarrow> string \<Rightarrow> context_audit_draft \<Rightarrow> datetime \<Rightarrow> context_db \<Rightarrow> store_error + context_db" where
  "insert_initial_memory_contexts m ids p compatibility_scope audit now db =
     insert_memory_contexts m ids p compatibility_scope audit now {} db"

definition set_scope :: "memory_id \<Rightarrow> string \<Rightarrow> datetime \<Rightarrow> (memory_row \<Rightarrow> memory_row) \<Rightarrow> context_db \<Rightarrow> context_db" where
  "set_scope m key now bump db =
     db\<lparr>t_metadata := map (\<lambda>r. if md_memory_id r = m then r\<lparr>md_scope_key := Some key, md_updated_at := now\<rparr> else r) (t_metadata db),
        t_memories := map (\<lambda>x. if m_id x = m
           then bump (x\<lparr>m_provenance := (m_provenance x)\<lparr>p_source_conversation := Some key\<rparr>\<rparr>) else x) (t_memories db)\<rparr>"

definition replace_memory_contexts_tx ::
  "memory_id \<Rightarrow> context_id list \<Rightarrow> string \<Rightarrow> string \<Rightarrow> context_audit_draft \<Rightarrow> datetime \<Rightarrow> context_db \<Rightarrow> store_error + context_db" where
  "replace_memory_contexts_tx m ids p compatibility_scope audit now db =
     result_bind (insert_memory_contexts m ids p compatibility_scope audit now (memory_context_ids db m)
       (db\<lparr>t_memory_contexts := filter (\<lambda>r. mc_memory_id r \<noteq> m) (t_memory_contexts db)\<rparr>)) (\<lambda>db1.
     Inr (set_scope m compatibility_scope now (\<lambda>x. x) db1))"

definition replace_memory_contexts ::
  "memory_id \<Rightarrow> context_id list \<Rightarrow> string \<Rightarrow> context_audit_draft \<Rightarrow> datetime \<Rightarrow> context_db \<Rightarrow> write_outcome tx" where
  "replace_memory_contexts m ids p audit now db =
     result_bind (validate_audit_actor audit p) (\<lambda>_.
     if \<not> distinct ids then Inl (Conflict ''memory context memberships must be unique'')
     else (case find (\<lambda>x. m_id x = m) (t_memories db) of
       None \<Rightarrow> Inr (db, OutcomeNotFound)
     | Some memory \<Rightarrow>
       if \<not> write_access_allowed (m_provenance memory) (m_access_policy memory) p then Inr (db, OutcomeDenied)
       else
       result_bind (check_memberships db ids p (memory_context_ids db m)) (\<lambda>_.
       result_bind (insert_all insert_membership_row (membership_rows m ids now)
         (db\<lparr>t_memory_contexts := filter (\<lambda>r. mc_memory_id r \<noteq> m) (t_memory_contexts db)\<rparr>)) (\<lambda>db1.
       result_bind (primary_key db1 ids) (\<lambda>key.
       Inr (insert_context_audit audit None (Some m) now
              (set_scope m key now (\<lambda>x. x\<lparr>m_record_revision := m_record_revision x + 1\<rparr>) db1), Applied))))))"

end
