(* ===== verification/Context_Hierarchy.thy ===== *)
theory Context_Hierarchy
  imports Context_Ops
begin

text \<open>
  What the context store keeps true. The locale \<open>sql_table\<close> is the contract of an
  \<^verbatim>\<open>INSERT\<close> into a table with a primary key and a foreign key to \<^verbatim>\<open>contexts\<close>; it is interpreted on the
  aliases, identities, hints, grants and memberships. On top of it come the hierarchy invariant
  (unique ids, existing parents, no cycle), the exactness of the recursive ancestor query, and the
  step relation of the store with its invariants.
\<close>

section \<open>Inserts\<close>

locale sql_table =
  fixes ins :: "'r \<Rightarrow> context_db \<Rightarrow> store_error + context_db"
    and rows :: "context_db \<Rightarrow> 'r list"
    and upd :: "('r list \<Rightarrow> 'r list) \<Rightarrow> context_db \<Rightarrow> context_db"
    and pk :: "'r \<Rightarrow> 'k"
    and fk :: "'r \<Rightarrow> context_id"
  assumes ins_Inr: "ins r db = Inr db' \<Longrightarrow>
      db' = upd (\<lambda>rs. rs @ [r]) db \<and> pk r \<notin> pk ` set (rows db) \<and> fk r \<in> set (context_ids db)"
    and rows_upd: "rows (upd f db) = f (rows db)"
    and upd_upd: "upd f (upd g db) = upd (\<lambda>rs. f (g rs)) db"
    and upd_id: "upd (\<lambda>rs. rs) db = db"
    and upd_const: "upd f db = upd (\<lambda>_. f (rows db)) db"
    and contexts_upd: "t_contexts (upd f db) = t_contexts db"
begin

lemma insert_all_appends: "insert_all ins rs db = Inr db' \<Longrightarrow> db' = upd (\<lambda>xs. xs @ rs) db"
proof (induction rs arbitrary: db)
  case Nil
  then show ?case by (simp add: upd_id)
next
  case (Cons r rs)
  then obtain db1 where db1: "ins r db = Inr db1" "insert_all ins rs db1 = Inr db'" by auto
  with Cons.IH have "db' = upd (\<lambda>xs. xs @ rs) db1" by blast
  moreover have "db1 = upd (\<lambda>xs. xs @ [r]) db" using ins_Inr [OF db1(1)] by blast
  ultimately show ?case by (simp add: upd_upd)
qed

lemma insert_all_effect: "insert_all ins rs db = Inr db' \<Longrightarrow> db' = upd (\<lambda>_. rows db @ rs) db"
  using insert_all_appends [of rs db db'] upd_const [of "\<lambda>xs. xs @ rs" db] by metis

lemma insert_all_distinct:
  "insert_all ins rs db = Inr db' \<Longrightarrow> distinct (map pk (rows db)) \<Longrightarrow> distinct (map pk (rows db'))"
proof (induction rs arbitrary: db)
  case (Cons r rs)
  then obtain db1 where db1: "ins r db = Inr db1" "insert_all ins rs db1 = Inr db'" by auto
  with ins_Inr [OF db1(1)] Cons.prems(2) have "distinct (map pk (rows db1))" by (simp add: rows_upd)
  with Cons.IH db1(2) show ?case by blast
qed simp

lemma insert_all_fk:
  "insert_all ins rs db = Inr db' \<Longrightarrow> r \<in> set rs \<Longrightarrow> fk r \<in> set (context_ids db)"
proof (induction rs arbitrary: db)
  case (Cons x rs)
  then obtain db1 where db1: "ins x db = Inr db1" "insert_all ins rs db1 = Inr db'" by auto
  have "context_ids db1 = context_ids db"
    using ins_Inr [OF db1(1)] by (simp add: context_ids_def contexts_upd)
  with Cons.IH [OF db1(2)] Cons.prems(2) ins_Inr [OF db1(1)] show ?case by auto
qed simp

end

lemmas insert_row_defs = insert_alias_row_def insert_identity_row_def insert_hint_row_def
  insert_grant_row_def insert_membership_row_def

interpretation aliases_table: sql_table insert_alias_row t_aliases t_aliases_update
  "\<lambda>a. (al_context_id a, al_normalized a)" al_context_id
  by unfold_locales (auto simp: insert_row_defs context_ids_def split: if_splits intro: context_db.equality)

interpretation identities_table: sql_table insert_identity_row t_identities t_identities_update
  identity_pk ir_context_id
  by unfold_locales (auto simp: insert_row_defs context_ids_def split: if_splits intro: context_db.equality)

interpretation hints_table: sql_table insert_hint_row t_hints t_hints_update
  "\<lambda>h. (hr_context_id h, hr_normalized h)" hr_context_id
  by unfold_locales (auto simp: insert_row_defs context_ids_def split: if_splits intro: context_db.equality)

interpretation grants_table: sql_table insert_grant_row t_grants t_grants_update
  "\<lambda>g. (g_context_id g, g_grantee_principal g)" g_context_id
  by unfold_locales (auto simp: insert_row_defs context_ids_def split: if_splits intro: context_db.equality)

interpretation memberships_table: sql_table insert_membership_row t_memory_contexts t_memory_contexts_update
  "\<lambda>r. (mc_memory_id r, mc_context_id r)" mc_context_id
  by unfold_locales (auto simp: insert_row_defs context_ids_def list_ex_iff split: if_splits intro: context_db.equality)

lemmas insert_effects = aliases_table.insert_all_effect identities_table.insert_all_effect
  hints_table.insert_all_effect grants_table.insert_all_effect memberships_table.insert_all_effect

section \<open>The hierarchy invariant\<close>

abbreviation row_id :: "context_row \<Rightarrow> context_id" where "row_id r \<equiv> cd_id (cx_def r)"

definition parent_edges :: "context_row list \<Rightarrow> (context_id \<times> context_id) set" where
  "parent_edges rows = {(row_id r, p) | r p. r \<in> set rows \<and> cd_parent_id (cx_def r) = Some p}"

definition hierarchy_ok :: "context_row list \<Rightarrow> bool" where
  "hierarchy_ok rows \<longleftrightarrow> distinct (map row_id rows) \<and> snd ` parent_edges rows \<subseteq> row_id ` set rows \<and>
     acyclic (parent_edges rows)"

lemma parent_edges_append: "parent_edges (xs @ ys) = parent_edges xs \<union> parent_edges ys"
  by (auto simp: parent_edges_def)

lemma parent_edges_mono: "set xs \<subseteq> set ys \<Longrightarrow> parent_edges xs \<subseteq> parent_edges ys"
  by (auto simp: parent_edges_def)

lemma find_context_Some:
  "find_context db i = Some c \<Longrightarrow> \<exists>r \<in> set (t_contexts db). cx_def r = c \<and> cd_id c = i"
  by (auto simp: find_context_def find_Some_iff)

lemma find_context_distinct:
  assumes "distinct (map row_id (t_contexts db))" "r \<in> set (t_contexts db)"
  shows "find_context db (row_id r) = Some (cx_def r)"
proof -
  have "find (\<lambda>c. cd_id c = row_id r) (map cx_def (t_contexts db)) \<noteq> None"
    using assms(2) by (auto simp: find_None_iff)
  then obtain c where c: "find_context db (row_id r) = Some c" by (auto simp: find_context_def)
  from find_context_Some [OF this] obtain r' where "r' \<in> set (t_contexts db)" "cx_def r' = c" "row_id r' = row_id r" by auto
  with assms have "r' = r" by (metis distinct_map inj_onD)
  with c \<open>cx_def r' = c\<close> show ?thesis by simp
qed

lemma parent_ids_edges:
  "set (parent_ids db F) \<subseteq> {p. \<exists>i \<in> set F. (i, p) \<in> parent_edges (t_contexts db)}"
  by (fastforce simp: parent_ids_def set_map_filter parent_edges_def bind_eq_Some_conv dest!: find_context_Some)

lemma edges_parent_ids:
  assumes "distinct (map row_id (t_contexts db))" "(i, p) \<in> parent_edges (t_contexts db)" "i \<in> set F"
  shows "p \<in> set (parent_ids db F)"
proof -
  from assms(2) obtain r where r: "r \<in> set (t_contexts db)" "row_id r = i" "cd_parent_id (cx_def r) = Some p"
    by (auto simp: parent_edges_def)
  then have "Option.bind (find_context db i) cd_parent_id = Some p"
    using find_context_distinct [OF assms(1) r(1)] by simp
  with assms(3) show ?thesis by (auto simp: parent_ids_def set_map_filter)
qed

lemma ancestors_cte_sound:
  "j \<in> ancestors_cte db V F \<Longrightarrow> j \<in> V \<or> (\<exists>f \<in> set F. (f, j) \<in> (parent_edges (t_contexts db))\<^sup>*)"
proof (induction db V F rule: ancestors_cte.induct)
  case (1 db V F)
  define fresh where "fresh = filter (\<lambda>i. i \<in> set (context_ids db) \<and> i \<notin> V) F"
  show ?case
  proof (cases "fresh = []")
    case True
    with "1.prems" show ?thesis by (subst (asm) ancestors_cte.simps) (simp add: fresh_def)
  next
    case False
    with "1.prems" have "j \<in> ancestors_cte db (V \<union> set fresh) (parent_ids db fresh)"
      by (subst (asm) ancestors_cte.simps) (simp add: fresh_def)
    with "1.IH" [OF fresh_def False] consider "j \<in> V" | "j \<in> set fresh"
      | f where "f \<in> set (parent_ids db fresh)" "(f, j) \<in> (parent_edges (t_contexts db))\<^sup>*" by auto
    then show ?thesis
    proof cases
      case 2
      then show ?thesis by (auto simp: fresh_def)
    next
      case 3
      with parent_ids_edges obtain i where "i \<in> set fresh" "(i, f) \<in> parent_edges (t_contexts db)" by blast
      with 3 have "i \<in> set F" "(i, j) \<in> (parent_edges (t_contexts db))\<^sup>*"
        by (auto simp: fresh_def intro: converse_rtrancl_into_rtrancl)
      then show ?thesis by blast
    qed simp
  qed
qed

lemma ancestors_cte_complete:
  assumes "distinct (map row_id (t_contexts db))"
    and "\<And>v y. v \<in> V \<Longrightarrow> (v, y) \<in> parent_edges (t_contexts db) \<Longrightarrow> y \<in> set (context_ids db) \<Longrightarrow> y \<in> V \<or> y \<in> set F"
  shows "V \<subseteq> ancestors_cte db V F \<and> set F \<inter> set (context_ids db) \<subseteq> ancestors_cte db V F \<and>
    (\<forall>v y. v \<in> ancestors_cte db V F \<longrightarrow> (v, y) \<in> parent_edges (t_contexts db) \<longrightarrow> y \<in> set (context_ids db) \<longrightarrow>
       y \<in> ancestors_cte db V F)"
  using assms
proof (induction db V F rule: ancestors_cte.induct)
  case (1 db V F)
  define fresh where "fresh = filter (\<lambda>i. i \<in> set (context_ids db) \<and> i \<notin> V) F"
  show ?case
  proof (cases "fresh = []")
    case True
    then have res: "ancestors_cte db V F = V" by (subst ancestors_cte.simps) (simp add: fresh_def)
    from True have "set F \<inter> set (context_ids db) \<subseteq> V" by (auto simp: fresh_def filter_empty_conv)
    then show ?thesis unfolding res using "1.prems"(2) by blast
  next
    case False
    then have res: "ancestors_cte db V F = ancestors_cte db (V \<union> set fresh) (parent_ids db fresh)"
      by (subst ancestors_cte.simps) (simp add: fresh_def)
    have inv: "y \<in> V \<union> set fresh \<or> y \<in> set (parent_ids db fresh)"
      if "v \<in> V \<union> set fresh" "(v, y) \<in> parent_edges (t_contexts db)" "y \<in> set (context_ids db)" for v y
      using that "1.prems" edges_parent_ids [OF "1.prems"(1) that(2), of fresh] by (auto simp: fresh_def)
    let ?W = "ancestors_cte db (V \<union> set fresh) (parent_ids db fresh)"
    have ih: "V \<union> set fresh \<subseteq> ?W \<and> set (parent_ids db fresh) \<inter> set (context_ids db) \<subseteq> ?W \<and>
        (\<forall>v y. v \<in> ?W \<longrightarrow> (v, y) \<in> parent_edges (t_contexts db) \<longrightarrow> y \<in> set (context_ids db) \<longrightarrow> y \<in> ?W)"
      by (rule "1.IH" [OF fresh_def False "1.prems"(1)]) (rule inv)
    have "set F \<inter> set (context_ids db) \<subseteq> V \<union> set fresh" by (auto simp: fresh_def)
    with ih show ?thesis unfolding res by auto
  qed
qed

text \<open>The recursive query computes exactly the existing contexts reachable through parents.\<close>

lemma ancestors_cte_iff:
  assumes "hierarchy_ok (t_contexts db)"
  shows "j \<in> ancestors_cte db {} [q] \<longleftrightarrow> q \<in> set (context_ids db) \<and> (q, j) \<in> (parent_edges (t_contexts db))\<^sup>*"
proof
  have complete: "set [q] \<inter> set (context_ids db) \<subseteq> ancestors_cte db {} [q]"
    "\<And>v y. v \<in> ancestors_cte db {} [q] \<Longrightarrow> (v, y) \<in> parent_edges (t_contexts db) \<Longrightarrow> y \<in> set (context_ids db) \<Longrightarrow>
       y \<in> ancestors_cte db {} [q]"
    using ancestors_cte_complete [of db "{}" "[q]"] assms by (auto simp: hierarchy_ok_def)
  assume r: "q \<in> set (context_ids db) \<and> (q, j) \<in> (parent_edges (t_contexts db))\<^sup>*"
  then have "(q, j) \<in> (parent_edges (t_contexts db))\<^sup>*" "q \<in> ancestors_cte db {} [q]" using complete(1) by auto
  then show "j \<in> ancestors_cte db {} [q]"
  proof (induction rule: rtrancl_induct)
    case (step y z)
    then have "z \<in> set (context_ids db)" using assms by (force simp: hierarchy_ok_def context_ids_def)
    with step complete(2) show ?case by blast
  qed
next
  assume j: "j \<in> ancestors_cte db {} [q]"
  then have "q \<in> set (context_ids db)"
    by (subst (asm) ancestors_cte.simps) (auto split: if_splits)
  with ancestors_cte_sound [OF j] show "q \<in> set (context_ids db) \<and> (q, j) \<in> (parent_edges (t_contexts db))\<^sup>*" by simp
qed

section \<open>What the operations do to the contexts table\<close>

lemma parent_edges_UN: "parent_edges rows = (\<Union>r \<in> set rows. {(row_id r, p) | p. cd_parent_id (cx_def r) = Some p})"
  by (auto simp: parent_edges_def)

lemma parent_edges_update_same:
  assumes "\<And>c. cd_id (f c) = cd_id c" "\<And>c. cd_parent_id (f c) = cd_parent_id c"
  shows "parent_edges (t_contexts (update_context i f db)) = parent_edges (t_contexts db)"
  unfolding parent_edges_UN update_context_def by (simp add: assms if_distrib [where f = "\<lambda>r. {(row_id r, p) | p. cd_parent_id (cx_def r) = Some p}"] cong: if_cong) auto

lemma row_ids_update:
  assumes "\<And>c. cd_id (f c) = cd_id c"
  shows "map row_id (t_contexts (update_context i f db)) = map row_id (t_contexts db)"
  by (simp add: update_context_def assms comp_def)

lemma hierarchy_ok_update_same:
  assumes "\<And>c. cd_id (f c) = cd_id c" "\<And>c. cd_parent_id (f c) = cd_parent_id c" "hierarchy_ok (t_contexts db)"
  shows "hierarchy_ok (t_contexts (update_context i f db))"
proof -
  have "row_id ` set (t_contexts (update_context i f db)) = row_id ` set (t_contexts db)"
    using row_ids_update [OF assms(1)] by (metis list.set_map)
  then show ?thesis
    using assms(3) row_ids_update [OF assms(1)] parent_edges_update_same [OF assms(1,2)]
    by (simp add: hierarchy_ok_def)
qed

text \<open>Re-parenting a context: its edge is replaced.\<close>

lemma hierarchy_ok_reparent:
  assumes ok: "hierarchy_ok (t_contexts db)"
    and q: "\<And>q. parent = Some q \<Longrightarrow> q \<in> row_id ` set (t_contexts db) \<and> (q, i) \<notin> (parent_edges (t_contexts db))\<^sup>*"
  shows "hierarchy_ok (t_contexts (update_context i (\<lambda>c. c\<lparr>cd_parent_id := parent, cd_updated_at := now\<rparr>) db))"
proof -
  let ?db' = "update_context i (\<lambda>c. c\<lparr>cd_parent_id := parent, cd_updated_at := now\<rparr>) db"
  have ids: "map row_id (t_contexts ?db') = map row_id (t_contexts db)" by (rule row_ids_update) simp
  then have idset: "row_id ` set (t_contexts ?db') = row_id ` set (t_contexts db)" by (metis list.set_map)
  have edges: "parent_edges (t_contexts ?db') \<subseteq> parent_edges (t_contexts db) \<union> {(i, q) | q. parent = Some q}"
    by (auto simp: parent_edges_def update_context_def split: if_splits)
  have "acyclic (parent_edges (t_contexts db) \<union> {(i, q) | q. parent = Some q})"
  proof (cases parent)
    case None
    with ok show ?thesis by (simp add: hierarchy_ok_def)
  next
    case (Some p)
    with q ok show ?thesis by (simp add: hierarchy_ok_def acyclic_insert)
  qed
  then have "acyclic (parent_edges (t_contexts ?db'))" using edges by (rule acyclic_subset)
  moreover have "snd ` parent_edges (t_contexts ?db') \<subseteq> row_id ` set (t_contexts db)"
  proof
    fix b assume "b \<in> snd ` parent_edges (t_contexts ?db')"
    then have "b \<in> snd ` parent_edges (t_contexts db) \<or> parent = Some b" using edges by force
    then show "b \<in> row_id ` set (t_contexts db)" using ok q by (auto simp: hierarchy_ok_def)
  qed
  ultimately show ?thesis using ok ids idset by (simp add: hierarchy_ok_def)
qed

text \<open>A new context has no children: nothing can point at an id that did not exist.\<close>

lemma hierarchy_ok_insert:
  assumes ok: "hierarchy_ok rows" and fresh: "row_id r \<notin> row_id ` set rows"
    and parent: "\<And>p. cd_parent_id (cx_def r) = Some p \<Longrightarrow> p \<in> row_id ` set rows"
  shows "hierarchy_ok (rows @ [r])"
proof -
  have edges: "parent_edges (rows @ [r]) = parent_edges rows \<union> {(row_id r, p) | p. cd_parent_id (cx_def r) = Some p}"
    by (auto simp: parent_edges_def)
  have "acyclic (parent_edges rows \<union> {(row_id r, p) | p. cd_parent_id (cx_def r) = Some p})"
  proof (cases "cd_parent_id (cx_def r)")
    case None
    with ok show ?thesis by (simp add: hierarchy_ok_def)
  next
    case (Some p)
    have "(p, row_id r) \<notin> (parent_edges rows)\<^sup>*"
    proof
      assume "(p, row_id r) \<in> (parent_edges rows)\<^sup>*"
      then have "p = row_id r \<or> row_id r \<in> snd ` parent_edges rows"
        by (metis image_eqI rtranclE snd_conv)
      moreover have "row_id r \<notin> snd ` parent_edges rows" using ok fresh unfolding hierarchy_ok_def by blast
      ultimately show False using fresh parent [OF Some] by blast
    qed
    with Some ok show ?thesis by (simp add: hierarchy_ok_def acyclic_insert)
  qed
  with ok fresh parent edges show ?thesis by (auto simp: hierarchy_ok_def)
qed

lemma hierarchy_ok_remove:
  assumes ok: "hierarchy_ok rows" and leaf: "\<And>r r'. r \<in> set rows \<Longrightarrow> \<not> keep r \<Longrightarrow> r' \<in> set rows \<Longrightarrow>
      cd_parent_id (cx_def r') \<noteq> Some (row_id r)"
  shows "hierarchy_ok (filter keep rows)"
proof -
  have sub: "parent_edges (filter keep rows) \<subseteq> parent_edges rows" by (rule parent_edges_mono) auto
  then have "acyclic (parent_edges (filter keep rows))" using ok by (auto simp: hierarchy_ok_def intro: acyclic_subset)
  moreover have "snd ` parent_edges (filter keep rows) \<subseteq> row_id ` set (filter keep rows)"
  proof
    fix p assume "p \<in> snd ` parent_edges (filter keep rows)"
    then obtain r where r: "r \<in> set rows" "cd_parent_id (cx_def r) = Some p" by (auto simp: parent_edges_def)
    then have "p \<in> snd ` parent_edges rows" by (force simp: parent_edges_def)
    with ok obtain s where s: "s \<in> set rows" "p = row_id s" by (auto simp: hierarchy_ok_def)
    with leaf [of s r] r have "keep s" by blast
    with s show "p \<in> row_id ` set (filter keep rows)" by auto
  qed
  ultimately show ?thesis using ok by (simp add: hierarchy_ok_def distinct_map_filter)
qed

section \<open>Steps of the store\<close>

text \<open>One committed transaction of the context store by a principal. \<^verbatim>\<open>BEGIN IMMEDIATE\<close> serialises
  writers, so every execution is a sequence of these steps.\<close>

inductive context_step :: "(string \<Rightarrow> string) \<Rightarrow> (nat \<Rightarrow> nat \<Rightarrow> f64) \<Rightarrow> string \<Rightarrow> context_db \<Rightarrow> context_db \<Rightarrow> bool"
  for lc fdiv where
  step_create: "create_context lc fdiv draft audit now db = Inr (db', c) \<Longrightarrow>
     context_step lc fdiv (dr_owner_principal draft) db db'"
| step_parent: "set_context_parent i parent p audit now db = Inr (db', u) \<Longrightarrow> context_step lc fdiv p db db'"
| step_lifecycle: "set_context_lifecycle i l p audit now db = Inr (db', u) \<Longrightarrow> context_step lc fdiv p db db'"
| step_grant: "grant_context_use i g p audit now db = Inr (db', u) \<Longrightarrow> context_step lc fdiv p db db'"
| step_revoke: "revoke_context_use i g p audit now db = Inr (db', u) \<Longrightarrow> context_step lc fdiv p db db'"
| step_replace_grants: "replace_context_grants i gs p audit now db = Inr (db', u) \<Longrightarrow> context_step lc fdiv p db db'"
| step_update: "update_context_definition lc i patch p audit now db = Inr (db', u) \<Longrightarrow> context_step lc fdiv p db db'"
| step_kind: "upsert_context_kind kdraft p audit now db = Inr (db', u) \<Longrightarrow> context_step lc fdiv p db db'"
| step_policy: "upsert_context_kind_policy pdraft p audit now db = Inr (db', u) \<Longrightarrow> context_step lc fdiv p db db'"
| step_anchor: "upsert_context_anchor_policy adraft p audit now db = Inr (db', u) \<Longrightarrow> context_step lc fdiv p db db'"
| step_rollback: "rollback_unreferenced_legacy_context i p db = Inr (db', b) \<Longrightarrow> context_step lc fdiv p db db'"
| step_memberships: "replace_memory_contexts m ids p audit now db = Inr (db', out) \<Longrightarrow> context_step lc fdiv p db db'"

inductive reachable :: "(string \<Rightarrow> string) \<Rightarrow> (nat \<Rightarrow> nat \<Rightarrow> f64) \<Rightarrow> context_db \<Rightarrow> context_db \<Rightarrow> bool"
  for lc fdiv db0 where
  reach_refl: "reachable lc fdiv db0 db0"
| reach_step: "reachable lc fdiv db0 db \<Longrightarrow> context_step lc fdiv p db db' \<Longrightarrow> reachable lc fdiv db0 db'"

subsection \<open>Effects of the operations\<close>

lemma insert_context_audit_tables [simp]:
  "t_contexts (insert_context_audit a i m now db) = t_contexts db"
  "t_aliases (insert_context_audit a i m now db) = t_aliases db"
  "t_identities (insert_context_audit a i m now db) = t_identities db"
  "t_hints (insert_context_audit a i m now db) = t_hints db"
  "t_grants (insert_context_audit a i m now db) = t_grants db"
  "t_memory_contexts (insert_context_audit a i m now db) = t_memory_contexts db"
  "t_kinds (insert_context_audit a i m now db) = t_kinds db"
  "t_memories (insert_context_audit a i m now db) = t_memories db"
  by (simp_all add: insert_context_audit_def)

lemma update_context_tables [simp]:
  "t_aliases (update_context i f db) = t_aliases db"
  "t_identities (update_context i f db) = t_identities db"
  "t_hints (update_context i f db) = t_hints db"
  "t_grants (update_context i f db) = t_grants db"
  "t_memory_contexts (update_context i f db) = t_memory_contexts db"
  "t_kinds (update_context i f db) = t_kinds db"
  "t_memories (update_context i f db) = t_memories db"
  "t_audit (update_context i f db) = t_audit db"
  "t_audit_next (update_context i f db) = t_audit_next db"
  by (simp_all add: update_context_def)

lemma set_scope_tables [simp]:
  "t_contexts (set_scope m key now b db) = t_contexts db"
  "t_aliases (set_scope m key now b db) = t_aliases db"
  "t_identities (set_scope m key now b db) = t_identities db"
  "t_hints (set_scope m key now b db) = t_hints db"
  "t_grants (set_scope m key now b db) = t_grants db"
  "t_memory_contexts (set_scope m key now b db) = t_memory_contexts db"
  "t_kinds (set_scope m key now b db) = t_kinds db"
  "t_audit (set_scope m key now b db) = t_audit db"
  "t_audit_next (set_scope m key now b db) = t_audit_next db"
  by (simp_all add: set_scope_def)

lemma insert_context_row_Inr:
  assumes "insert_context_row r db = Inr db'"
  shows "db' = db\<lparr>t_contexts := t_contexts db @ [r]\<rparr>" "row_id r \<notin> row_id ` set (t_contexts db)"
    "cd_parent_id (cx_def r) = Some p \<Longrightarrow> p \<in> row_id ` set (t_contexts db)"
    "context_unique_key r \<notin> context_unique_key ` set (t_contexts db)"
    "cd_kind (cx_def r) \<in> kd_kind ` set (t_kinds db)"
  using assms by (auto simp: insert_context_row_def Let_def context_ids_def split: if_splits)

lemma create_context_effect:
  assumes "create_context lc fdiv draft audit now db = Inr (db', c)"
  obtains r where "r = \<lparr>cx_def = draft_definition draft now, cx_normalized_key = dr_normalized_key draft\<rparr>"
    "insert_context_row r db = Inr (db\<lparr>t_contexts := t_contexts db @ [r]\<rparr>)"
    "create_context_checks lc fdiv draft audit db = Inr ()"
    "db' = insert_context_audit audit (Some (dr_id draft)) None now
       (db\<lparr>t_contexts := t_contexts db @ [r],
           t_aliases := t_aliases db @ alias_rows (dr_id draft) now (dr_aliases draft),
           t_identities := t_identities db @ map (draft_identity_row (dr_id draft) (dr_owner_principal draft) (dr_kind draft) now) (dr_identities draft),
           t_hints := t_hints db @ hint_rows (dr_id draft) now (draft_hints lc {} (dr_resolver_hints draft))\<rparr>)"
proof -
  let ?r = "\<lparr>cx_def = draft_definition draft now, cx_normalized_key = dr_normalized_key draft\<rparr>"
  from assms obtain db1 db2 db3 db4 where
    s: "create_context_checks lc fdiv draft audit db = Inr ()" "insert_context_row ?r db = Inr db1"
    "insert_all insert_alias_row (alias_rows (dr_id draft) now (dr_aliases draft)) db1 = Inr db2"
    "insert_all insert_identity_row (map (draft_identity_row (dr_id draft) (dr_owner_principal draft) (dr_kind draft) now) (dr_identities draft)) db2 = Inr db3"
    "insert_all insert_hint_row (hint_rows (dr_id draft) now (draft_hints lc {} (dr_resolver_hints draft))) db3 = Inr db4"
    "db' = insert_context_audit audit (Some (dr_id draft)) None now db4"
    by (auto simp: create_context_def)
  note e = insert_context_row_Inr(1) [OF s(2)] insert_effects(1) [OF s(3)] insert_effects(2) [OF s(4)] insert_effects(3) [OF s(5)]
  show ?thesis by (rule that [of ?r]) (use s(1,2,6) e in simp_all)
qed

lemma require_mutable_owned_context_Inr:
  "require_mutable_owned_context db i p = Inr u \<longleftrightarrow>
     (\<exists>c. find_context db i = Some c \<and> cd_owner_principal c = p \<and> \<not> cd_frozen c)"
  by (auto simp: require_mutable_owned_context_def context_owner_state_def split: option.splits if_splits)

lemma context_use_allowed_exists:
  "context_use_allowed db q p b \<Longrightarrow> q \<in> row_id ` set (t_contexts db)"
  by (auto simp: context_use_allowed_def list_ex_iff)

lemma set_context_parent_effect:
  assumes "set_context_parent i parent p audit now db = Inr (db', u)"
  shows "db' = insert_context_audit audit (Some i) None now
           (update_context i (\<lambda>c. c\<lparr>cd_parent_id := parent, cd_updated_at := now\<rparr>) db)"
    "require_mutable_owned_context db i p = Inr ()"
    "parent = Some q \<Longrightarrow> context_use_allowed db q p True \<and> i \<notin> ancestors_cte db {} [q]"
  using assms by (auto simp: set_context_parent_def Let_def split: if_splits option.splits)

lemma set_context_lifecycle_effect:
  assumes "set_context_lifecycle i l p audit now db = Inr (db', u)"
  shows "db' = insert_context_audit audit (Some i) None now
           (update_context i (\<lambda>c. c\<lparr>cd_lifecycle := l, cd_updated_at := now\<rparr>) db)"
    "require_mutable_owned_context db i p = Inr ()"
  using assms by (auto simp: set_context_lifecycle_def Let_def split: if_splits)

lemma patched_definition_fixed [simp]:
  "cd_id (patched_definition patch now c) = cd_id c"
  "cd_parent_id (patched_definition patch now c) = cd_parent_id c"
  "cd_owner_principal (patched_definition patch now c) = cd_owner_principal c"
  "cd_kind (patched_definition patch now c) = cd_kind c"
  "cd_key (patched_definition patch now c) = cd_key c"
  "cd_frozen (patched_definition patch now c) = cd_frozen c"
  by (simp_all add: patched_definition_def)

lemma update_context_definition_effect:
  assumes "update_context_definition lc i patch p audit now db = Inr (db', u)"
  obtains aliases hints c0 where "require_mutable_owned_context db i p = Inr ()" "find_context db i = Some c0"
    "normalize_surfaces lc ''context aliases must be non-empty and unique after normalization'' {} (cp_aliases patch) = Inr aliases"
    "normalize_surfaces lc ''context resolver hints must be non-empty and unique after normalization'' {} (cp_resolver_hints patch) = Inr hints"
    "db' = insert_context_audit audit (Some i) None now
       ((update_context i (patched_definition patch now) db)
        \<lparr>t_aliases := filter (\<lambda>a. al_context_id a \<noteq> i) (t_aliases db) @ alias_rows i now aliases,
         t_identities := filter (\<lambda>r. ir_context_id r \<noteq> i) (t_identities db) @
           map (draft_identity_row i (cd_owner_principal c0) (cd_kind c0) now) (cp_identities patch),
         t_hints := filter (\<lambda>h. hr_context_id h \<noteq> i) (t_hints db) @ hint_rows i now hints\<rparr>)"
proof -
  let ?db1 = "update_context i (patched_definition patch now) db"
  from assms obtain aliases hints c0 db2 db3 db4 where
    s: "require_mutable_owned_context db i p = Inr ()" "find_context db i = Some c0"
    "normalize_surfaces lc ''context aliases must be non-empty and unique after normalization'' {} (cp_aliases patch) = Inr aliases"
    "normalize_surfaces lc ''context resolver hints must be non-empty and unique after normalization'' {} (cp_resolver_hints patch) = Inr hints"
    "insert_all insert_alias_row (alias_rows i now aliases)
         (?db1\<lparr>t_aliases := filter (\<lambda>a. al_context_id a \<noteq> i) (t_aliases ?db1)\<rparr>) = Inr db2"
    "insert_all insert_identity_row
         (map (draft_identity_row i (cd_owner_principal c0) (cd_kind c0) now) (cp_identities patch))
         (db2\<lparr>t_identities := filter (\<lambda>r. ir_context_id r \<noteq> i) (t_identities db2)\<rparr>) = Inr db3"
    "insert_all insert_hint_row (hint_rows i now hints)
         (db3\<lparr>t_hints := filter (\<lambda>h. hr_context_id h \<noteq> i) (t_hints db3)\<rparr>) = Inr db4"
    "db' = insert_context_audit audit (Some i) None now db4"
    by (auto simp: update_context_definition_def Let_def split: option.splits)
  note e = insert_effects(1) [OF s(5)] insert_effects(2) [OF s(6)] insert_effects(3) [OF s(7)]
  show ?thesis by (rule that [OF s(1-4)]) (use s(8) e in simp)
qed

lemma upsert_effects:
  "upsert_grant_row g db = Inr db' \<Longrightarrow> \<exists>gs. db' = db\<lparr>t_grants := gs\<rparr> \<and>
     (\<forall>x \<in> set gs. x \<in> set (t_grants db) \<or> (g_context_id x = g_context_id g \<and> g_grantee_principal x = g_grantee_principal g \<and> g_granted_by x = g_granted_by g)) \<and>
     (\<forall>x \<in> set (t_grants db). g_context_id x \<noteq> g_context_id g \<longrightarrow> x \<in> set gs)"
  "upsert_policy_row r db = Inr db' \<Longrightarrow> \<exists>rs. db' = db\<lparr>t_kind_policies := rs\<rparr>"
  "upsert_anchor_row a db = Inr db' \<Longrightarrow> \<exists>rs. db' = db\<lparr>t_anchor_overrides := rs\<rparr>"
proof -
  assume u: "upsert_grant_row g db = Inr db'"
  show "\<exists>gs. db' = db\<lparr>t_grants := gs\<rparr> \<and>
     (\<forall>x \<in> set gs. x \<in> set (t_grants db) \<or> (g_context_id x = g_context_id g \<and> g_grantee_principal x = g_grantee_principal g \<and> g_granted_by x = g_granted_by g)) \<and>
     (\<forall>x \<in> set (t_grants db). g_context_id x \<noteq> g_context_id g \<longrightarrow> x \<in> set gs)"
    by (rule exI [of _ "t_grants db'"])
      (use u in \<open>auto simp: upsert_grant_row_def insert_grant_row_def split: if_splits\<close>)
qed (auto simp: upsert_policy_row_def upsert_anchor_row_def split: if_splits)

end
