(* ===== verification/Context_Invariants.thy ===== *)
theory Context_Invariants
  imports Context_Hierarchy
begin

text \<open>
  Invariants of the context store over its step relation: the hierarchy stays a forest of existing
  contexts, a principal touches only what it owns and nothing that is frozen, every change is
  audited under the acting principal, and grants never name a reserved principal.
\<close>

section \<open>The hierarchy\<close>

lemma hierarchy_ok_step:
  assumes "context_step lc fdiv p db db'" "hierarchy_ok (t_contexts db)"
  shows "hierarchy_ok (t_contexts db')"
  using assms
proof (induction rule: context_step.induct)
  case (step_create draft audit now db db' c)
  from step_create.hyps obtain r where r: "insert_context_row r db = Inr (db\<lparr>t_contexts := t_contexts db @ [r]\<rparr>)"
      "t_contexts db' = t_contexts db @ [r]" by (rule create_context_effect) simp
  show ?case unfolding r(2)
    by (rule hierarchy_ok_insert [OF step_create.prems]) (use insert_context_row_Inr [OF r(1)] in auto)
next
  case (step_parent i parent p audit now db db' u)
  note e = set_context_parent_effect [OF step_parent.hyps]
  have "q \<in> row_id ` set (t_contexts db) \<and> (q, i) \<notin> (parent_edges (t_contexts db))\<^sup>*" if "parent = Some q" for q
    using e(3) [OF that] ancestors_cte_iff [OF step_parent.prems] context_use_allowed_exists
    by (fastforce simp: context_ids_def)
  then show ?case unfolding e(1) using hierarchy_ok_reparent [OF step_parent.prems] by simp
next
  case (step_lifecycle i l p audit now db db' u)
  show ?case unfolding set_context_lifecycle_effect(1) [OF step_lifecycle.hyps]
    using step_lifecycle.prems by (simp add: hierarchy_ok_update_same)
next
  case (step_update i patch p audit now db db' u)
  then show ?case by (auto elim!: update_context_definition_effect simp: hierarchy_ok_update_same)
next
  case (step_rollback i p db db' b)
  have "hierarchy_ok (filter (\<lambda>r. \<not> rollback_allowed db i p (cx_def r)) (t_contexts db))"
    by (rule hierarchy_ok_remove [OF step_rollback.prems])
      (auto simp: rollback_allowed_def list_ex_iff)
  with step_rollback.hyps show ?case
    by (auto simp: rollback_unreferenced_legacy_context_def Let_def split: if_splits)
qed (auto simp: grant_context_use_def revoke_context_use_def replace_context_grants_def upsert_context_kind_def
    upsert_context_kind_policy_def upsert_context_anchor_policy_def replace_memory_contexts_def Let_def
    dest!: upsert_effects insert_effects split: if_splits option.splits)

text \<open>Claim C3. The context hierarchy never gets a cycle: from a database whose contexts have unique
  ids, existing parents and no cycle, every sequence of committed operations leads to such a
  database again.\<close>

theorem hierarchy_stays_acyclic:
  assumes "reachable lc fdiv db0 db" and "hierarchy_ok (t_contexts db0)"
  shows "hierarchy_ok (t_contexts db)"
  using assms by (induction rule: reachable.induct) (auto intro: hierarchy_ok_step)

text \<open>The recursive query behind the cycle check finds exactly the ancestors: re-parenting
  \<open>i\<close> under an existing, usable context \<open>q\<close> is refused with the cycle error exactly when \<open>i\<close> is \<open>q\<close>'s
  ancestor or \<open>q\<close> itself.\<close>

lemma cycle_check_exact:
  assumes "hierarchy_ok (t_contexts db)" and "q \<in> set (context_ids db)"
  shows "i \<in> ancestors_cte db {} [q] \<longleftrightarrow>
    (q, i) \<in> {(row_id r, p) | r p. r \<in> set (t_contexts db) \<and> cd_parent_id (cx_def r) = Some p}\<^sup>*"
  using ancestors_cte_iff [OF assms(1)] assms(2) by (simp add: parent_edges_def)

section \<open>Ownership\<close>

text \<open>Everything stored under one context.\<close>

definition context_view :: "context_db \<Rightarrow> context_id \<Rightarrow>
    context_row list \<times> alias_row list \<times> identity_row list \<times> hint_row list \<times> context_grant list" where
  "context_view db i =
     (filter (\<lambda>r. row_id r = i) (t_contexts db), filter (\<lambda>a. al_context_id a = i) (t_aliases db),
      filter (\<lambda>r. ir_context_id r = i) (t_identities db), filter (\<lambda>h. hr_context_id h = i) (t_hints db),
      filter (\<lambda>g. g_context_id g = i) (t_grants db))"

lemma context_view_audit [simp]: "context_view (insert_context_audit a j m now db) i = context_view db i"
  by (simp add: context_view_def)

lemma context_view_scope [simp]: "context_view (set_scope m key now b db) i = context_view db i"
  by (simp add: context_view_def)

lemma filter_update_other:
  assumes "j \<noteq> i" "\<And>c. cd_id (f c) = cd_id c"
  shows "filter (\<lambda>r. row_id r = i) (t_contexts (update_context j f db)) = filter (\<lambda>r. row_id r = i) (t_contexts db)"
proof -
  have "filter (\<lambda>r. row_id r = i) (map (\<lambda>r. if row_id r = j then r\<lparr>cx_def := f (cx_def r)\<rparr> else r) rs) =
      filter (\<lambda>r. row_id r = i) rs" for rs
    using assms by (induction rs) auto
  then show ?thesis by (simp add: update_context_def)
qed

lemma context_view_update_other:
  assumes "j \<noteq> i" "\<And>c. cd_id (f c) = cd_id c"
  shows "context_view (update_context j f db) i = context_view db i"
  by (simp add: context_view_def filter_update_other [OF assms])

text \<open>The contexts a principal may not change: those it does not own and the frozen ones.\<close>

definition protected :: "context_db \<Rightarrow> string \<Rightarrow> context_id \<Rightarrow> bool" where
  "protected db p i \<longleftrightarrow> (\<exists>c. find_context db i = Some c \<and> (cd_owner_principal c \<noteq> p \<or> cd_frozen c))"

lemma protected_not_mutable:
  "require_mutable_owned_context db j p = Inr u \<Longrightarrow> protected db p i \<Longrightarrow> j \<noteq> i"
  by (auto simp: protected_def require_mutable_owned_context_Inr)

lemma protected_exists: "protected db p i \<Longrightarrow> i \<in> row_id ` set (t_contexts db)"
  by (auto simp: protected_def dest!: find_context_Some)

lemma filter_upsert_grants:
  assumes "g_context_id g \<noteq> i" "upsert_grant_row g db = Inr db'"
  shows "filter (\<lambda>x. g_context_id x = i) (t_grants db') = filter (\<lambda>x. g_context_id x = i) (t_grants db)"
proof -
  have "filter (\<lambda>x. g_context_id x = i) (map (\<lambda>x. if g_context_id x = g_context_id g \<and> g_grantee_principal x = g_grantee_principal g
      then x\<lparr>g_granted_by := g_granted_by g, g_created_at := g_created_at g\<rparr> else x) xs) =
    filter (\<lambda>x. g_context_id x = i) xs" for xs
    using assms(1) by (induction xs) auto
  with assms show ?thesis by (auto simp: upsert_grant_row_def insert_grant_row_def split: if_splits)
qed

lemma filter_filter_other: "j \<noteq> i \<Longrightarrow> filter (\<lambda>x. f x \<noteq> j \<and> f x = i) xs = filter (\<lambda>x. f x = i) xs"
  by (induction xs) auto

lemma filter_none: "(\<And>x. x \<in> set xs \<Longrightarrow> f x = j) \<Longrightarrow> j \<noteq> i \<Longrightarrow> filter (\<lambda>x. f x = i) xs = []"
  by (auto simp: filter_empty_conv)

lemma rows_of_context:
  "x \<in> set (alias_rows j now as) \<Longrightarrow> al_context_id x = j"
  "y \<in> set (hint_rows j now hs) \<Longrightarrow> hr_context_id y = j"
  "z \<in> set (map (draft_identity_row j owner kind now) ids) \<Longrightarrow> ir_context_id z = j"
  by (auto simp: alias_rows_def hint_rows_def draft_identity_row_def)

lemma context_view_new_rows:
  assumes "j \<noteq> i" "row_id r = j"
  shows "context_view (db\<lparr>t_contexts := t_contexts db @ [r], t_aliases := t_aliases db @ alias_rows j now as,
       t_identities := t_identities db @ map (draft_identity_row j owner kind now) ids,
       t_hints := t_hints db @ hint_rows j now hs\<rparr>) i = context_view db i"
  using assms by (simp add: context_view_def filter_none [OF rows_of_context(1)] filter_none [OF rows_of_context(2)]
      filter_none [OF rows_of_context(3)] del: set_map)

lemma context_view_replaced_rows:
  assumes "j \<noteq> i"
  shows "context_view (db\<lparr>t_aliases := filter (\<lambda>a. al_context_id a \<noteq> j) (t_aliases db0) @ alias_rows j now as,
       t_identities := filter (\<lambda>r. ir_context_id r \<noteq> j) (t_identities db0) @ map (draft_identity_row j owner kind now) ids,
       t_hints := filter (\<lambda>h. hr_context_id h \<noteq> j) (t_hints db0) @ hint_rows j now hs\<rparr>) i =
    (filter (\<lambda>r. row_id r = i) (t_contexts db), filter (\<lambda>a. al_context_id a = i) (t_aliases db0),
      filter (\<lambda>r. ir_context_id r = i) (t_identities db0), filter (\<lambda>h. hr_context_id h = i) (t_hints db0),
      filter (\<lambda>g. g_context_id g = i) (t_grants db))"
  using assms by (simp add: context_view_def filter_filter_other filter_none [OF rows_of_context(1)]
      filter_none [OF rows_of_context(2)] filter_none [OF rows_of_context(3)] del: set_map)

lemma rollback_keeps_protected:
  assumes "rollback_unreferenced_legacy_context j p db = Inr (db', b)" "protected db p i"
    "distinct (map row_id (t_contexts db))"
  shows "context_view db' i = context_view db i"
proof -
  from assms(2) obtain c where c: "find_context db i = Some c" "cd_owner_principal c \<noteq> p \<or> cd_frozen c"
    by (auto simp: protected_def)
  have "\<not> rollback_allowed db j p (cx_def r)" if "r \<in> set (t_contexts db)" "row_id r = i" for r
    using find_context_distinct [OF assms(3) that(1)] that(2) c by (auto simp: rollback_allowed_def)
  then have "filter (\<lambda>r. row_id r = i) (filter (\<lambda>r. \<not> rollback_allowed db j p (cx_def r)) (t_contexts db)) =
      filter (\<lambda>r. row_id r = i) (t_contexts db)"
    by (auto simp: filter_filter intro: filter_cong)
  with assms(1) show ?thesis
    by (auto simp: rollback_unreferenced_legacy_context_def Let_def context_view_def split: if_splits)
qed

lemma protected_step:
  assumes "context_step lc fdiv p db db'" "hierarchy_ok (t_contexts db)" "protected db p i"
  shows "context_view db' i = context_view db i"
  using assms
proof (induction rule: context_step.induct)
  case (step_create draft audit now db db' c)
  from step_create.hyps show ?case
  proof (rule create_context_effect)
    fix r
    assume r: "r = \<lparr>cx_def = draft_definition draft now, cx_normalized_key = dr_normalized_key draft\<rparr>"
      "insert_context_row r db = Inr (db\<lparr>t_contexts := t_contexts db @ [r]\<rparr>)"
      "db' = insert_context_audit audit (Some (dr_id draft)) None now
       (db\<lparr>t_contexts := t_contexts db @ [r],
           t_aliases := t_aliases db @ alias_rows (dr_id draft) now (dr_aliases draft),
           t_identities := t_identities db @ map (draft_identity_row (dr_id draft) (dr_owner_principal draft) (dr_kind draft) now) (dr_identities draft),
           t_hints := t_hints db @ hint_rows (dr_id draft) now (draft_hints lc {} (dr_resolver_hints draft))\<rparr>)"
    have "row_id r = dr_id draft" by (simp add: r(1) draft_definition_def)
    moreover have "row_id r \<noteq> i"
      using insert_context_row_Inr(2) [OF r(2)] protected_exists [OF step_create.prems(2)] by blast
    ultimately show ?thesis unfolding r(3) by (simp add: context_view_new_rows)
  qed
next
  case (step_parent j parent p audit now db db' u)
  note e = set_context_parent_effect [OF step_parent.hyps]
  from protected_not_mutable [OF e(2) step_parent.prems(2)] show ?case
    unfolding e(1) by (simp add: context_view_update_other)
next
  case (step_lifecycle j l p audit now db db' u)
  note e = set_context_lifecycle_effect [OF step_lifecycle.hyps]
  from protected_not_mutable [OF e(2) step_lifecycle.prems(2)] show ?case
    unfolding e(1) by (simp add: context_view_update_other)
next
  case (step_grant j g p audit now db db' u)
  then obtain grantee db1 where g: "require_mutable_owned_context db j p = Inr ()"
      "upsert_grant_row \<lparr>g_context_id = j, g_grantee_principal = grantee, g_granted_by = p, g_created_at = now\<rparr> db = Inr db1"
      "db' = insert_context_audit audit (Some j) None now db1"
    by (auto simp: grant_context_use_def)
  from protected_not_mutable [OF g(1) step_grant.prems(2)] have "j \<noteq> i" .
  with filter_upsert_grants [OF _ g(2), of i] upsert_effects(1) [OF g(2)] show ?case
    unfolding g(3) by (auto simp: context_view_def)
next
  case (step_revoke j g p audit now db db' u)
  then obtain grantee where g: "require_mutable_owned_context db j p = Inr ()"
      "db' = insert_context_audit audit (Some j) None now
        (db\<lparr>t_grants := filter (\<lambda>g. \<not> (g_context_id g = j \<and> g_grantee_principal g = grantee)) (t_grants db)\<rparr>)"
    by (auto simp: revoke_context_use_def)
  have "filter (\<lambda>g. g_context_id g = i) (filter (\<lambda>g. \<not> (g_context_id g = j \<and> g_grantee_principal g = grantee)) gs) =
      filter (\<lambda>g. g_context_id g = i) gs" for gs
    using protected_not_mutable [OF g(1) step_revoke.prems(2)] by (induction gs) auto
  then show ?case unfolding g(2) by (simp add: context_view_def)
next
  case (step_replace_grants j gs p audit now db db' u)
  then obtain grantees db1 where g: "require_mutable_owned_context db j p = Inr ()"
      "insert_all insert_grant_row
       (map (\<lambda>g. \<lparr>g_context_id = j, g_grantee_principal = g, g_granted_by = p, g_created_at = now\<rparr>) grantees)
       (db\<lparr>t_grants := filter (\<lambda>g. g_context_id g \<noteq> j) (t_grants db)\<rparr>) = Inr db1"
      "db' = insert_context_audit audit (Some j) None now db1"
    by (auto simp: replace_context_grants_def)
  from protected_not_mutable [OF g(1) step_replace_grants.prems(2)] have "j \<noteq> i" .
  then show ?case unfolding g(3) insert_effects(4) [OF g(2)]
    by (auto simp: context_view_def filter_filter_other filter_empty_conv)
next
  case (step_update j patch p audit now db db' u)
  from step_update.hyps show ?case
  proof (rule update_context_definition_effect)
    fix aliases hints c0
    assume e: "require_mutable_owned_context db j p = Inr ()"
      "db' = insert_context_audit audit (Some j) None now
       ((update_context j (patched_definition patch now) db)
        \<lparr>t_aliases := filter (\<lambda>a. al_context_id a \<noteq> j) (t_aliases db) @ alias_rows j now aliases,
         t_identities := filter (\<lambda>r. ir_context_id r \<noteq> j) (t_identities db) @
           map (draft_identity_row j (cd_owner_principal c0) (cd_kind c0) now) (cp_identities patch),
         t_hints := filter (\<lambda>h. hr_context_id h \<noteq> j) (t_hints db) @ hint_rows j now hints\<rparr>)"
    from protected_not_mutable [OF e(1) step_update.prems(2)] have "j \<noteq> i" .
    then show ?thesis unfolding e(2)
      by (simp add: context_view_replaced_rows filter_update_other) (simp add: context_view_def)
  qed
next
  case (step_rollback j p db db' b)
  then show ?case by (auto intro: rollback_keeps_protected simp: hierarchy_ok_def)
qed (auto simp: upsert_context_kind_def upsert_context_kind_policy_def upsert_context_anchor_policy_def
    replace_memory_contexts_def Let_def context_view_def
    dest!: upsert_effects(2,3) insert_effects(5) split: if_splits option.splits)

text \<open>Claim C2. Ownership is enforced by every operation: a committed step by principal \<open>p\<close> leaves the
  row, aliases, identities, hints and grants of every context that \<open>p\<close> does not own, and of every
  frozen compatibility context, exactly as they were.\<close>

theorem only_owner_changes_context:
  assumes "context_step lc fdiv p db db'" and "hierarchy_ok (t_contexts db)"
    and "find_context db i = Some c" and "cd_owner_principal c \<noteq> p \<or> cd_frozen c"
  shows "context_view db' i = context_view db i"
  using assms by (auto intro!: protected_step simp: protected_def)

section \<open>Audit\<close>

lemma rollback_audit:
  "rollback_unreferenced_legacy_context i p db = Inr (db', b) \<Longrightarrow>
     t_audit_next db' = t_audit_next db \<and>
     (t_audit db' = t_audit db \<or> t_audit db' = filter (\<lambda>e. \<not> is_rollback_event i p e) (t_audit db))"
  by (auto simp: rollback_unreferenced_legacy_context_def Let_def split: if_splits)

definition audited :: "string \<Rightarrow> context_db \<Rightarrow> context_db \<Rightarrow> bool" where
  "audited p db db' \<longleftrightarrow> (\<exists>e. t_audit db' = t_audit db @ [e] \<and> cae_actor_principal e = p \<and> cae_id e = t_audit_next db \<and>
     t_audit_next db' = Suc (t_audit_next db))"

lemma audited_insert:
  "validate_audit_actor audit p = Inr u \<Longrightarrow> t_audit db1 = t_audit db \<Longrightarrow> t_audit_next db1 = t_audit_next db \<Longrightarrow>
   audited p db (insert_context_audit audit i m now db1)"
  by (auto simp: audited_def insert_context_audit_def validate_audit_actor_def split: if_splits)

lemma create_context_audited:
  assumes "create_context lc fdiv draft audit now db = Inr (db', c)"
  shows "audited (dr_owner_principal draft) db db'"
  using assms
proof (rule create_context_effect)
  fix r
  assume "create_context_checks lc fdiv draft audit db = Inr ()"
  then have a: "validate_audit_actor audit (dr_owner_principal draft) = Inr ()"
    by (auto simp: create_context_checks_def validate_create_draft_def)
  assume e: "db' = insert_context_audit audit (Some (dr_id draft)) None now
       (db\<lparr>t_contexts := t_contexts db @ [r],
           t_aliases := t_aliases db @ alias_rows (dr_id draft) now (dr_aliases draft),
           t_identities := t_identities db @ map (draft_identity_row (dr_id draft) (dr_owner_principal draft) (dr_kind draft) now) (dr_identities draft),
           t_hints := t_hints db @ hint_rows (dr_id draft) now (draft_hints lc {} (dr_resolver_hints draft))\<rparr>)"
  show ?thesis unfolding e by (rule audited_insert [OF a]) simp_all
qed

lemma update_context_definition_audited:
  assumes "update_context_definition lc i patch p audit now db = Inr (db', u)"
  shows "audited p db db'"
proof -
  have a: "validate_audit_actor audit p = Inr ()" using assms by (auto simp: update_context_definition_def)
  from assms show ?thesis by (rule update_context_definition_effect) (auto intro: audited_insert [OF a])
qed

lemma memberships_audited:
  "replace_memory_contexts m ids p audit now db = Inr (db', out) \<Longrightarrow> audited p db db' \<or> (db' = db \<and> out \<noteq> Applied)"
  by (auto simp: replace_memory_contexts_def intro!: audited_insert dest!: insert_effects(5) split: if_splits option.splits)

text \<open>Ids are unique, so a rollback removes the one row of its context or nothing.\<close>

lemma filter_unique_row:
  assumes "distinct (map row_id rows)" "r \<in> set rows" "P r" "\<And>x. x \<in> set rows \<Longrightarrow> P x \<Longrightarrow> row_id x = row_id r"
  shows "filter (\<lambda>x. \<not> P x) rows = filter (\<lambda>x. row_id x \<noteq> row_id r) rows" "length (filter P rows) = 1"
proof -
  have uniq: "x = r" if "x \<in> set rows" "row_id x = row_id r" for x
    using assms(1,2) that by (auto simp: distinct_map dest: inj_onD)
  have eq: "P x \<longleftrightarrow> row_id x = row_id r" if "x \<in> set rows" for x
    using uniq [OF that] assms(3) assms(4) [OF that] by blast
  then show "filter (\<lambda>x. \<not> P x) rows = filter (\<lambda>x. row_id x \<noteq> row_id r) rows" by (auto intro: filter_cong)
  have "set (filter P rows) = {r}" using eq uniq assms(2,3) by auto
  moreover have "distinct (filter P rows)" using assms(1) by (simp add: distinct_map)
  ultimately show "length (filter P rows) = 1" using distinct_card [of "filter P rows"] by simp
qed

text \<open>The removal of a provisional context: nothing refers to it, its only event is its creation by \<open>p\<close>, and apart
  from its row and that event nothing changes.\<close>

definition provisional_removed :: "string \<Rightarrow> context_id \<Rightarrow> context_db \<Rightarrow> context_db \<Rightarrow> bool" where
  "provisional_removed p i db db' \<longleftrightarrow>
     (\<exists>r \<in> set (t_contexts db). row_id r = i \<and> cd_owner_principal (cx_def r) = p \<and> \<not> cd_frozen (cx_def r)) \<and>
     i \<notin> mc_context_id ` set (t_memory_contexts db) \<and> i \<notin> g_context_id ` set (t_grants db) \<and>
     (\<exists>e. filter (\<lambda>e. cae_context_id e = Some i) (t_audit db) = [e] \<and> cae_actor_principal e = p \<and>
        cae_action e = ''legacy_scope_context_created'') \<and>
     db' = db\<lparr>t_contexts := filter (\<lambda>r. row_id r \<noteq> i) (t_contexts db), t_audit := filter (\<lambda>e. cae_context_id e \<noteq> Some i) (t_audit db)\<rparr>"

lemma provisional_removed_next: "provisional_removed p i db db' \<Longrightarrow> t_audit_next db' = t_audit_next db"
  by (auto simp: provisional_removed_def)

lemma rollback_removes_one:
  assumes "distinct (map row_id (t_contexts db))" "rollback_unreferenced_legacy_context i p db = Inr (db', b)"
  shows "db' = db \<or> provisional_removed p i db db'"
proof (cases "\<exists>r \<in> set (t_contexts db). rollback_allowed db i p (cx_def r)")
  case True
  then obtain r where r: "r \<in> set (t_contexts db)" "rollback_allowed db i p (cx_def r)" by blast
  then have "row_id r = i" by (simp add: rollback_allowed_def)
  with filter_unique_row [OF assms(1) r(1), of "\<lambda>r. rollback_allowed db i p (cx_def r)"] r(2)
  have "filter (\<lambda>r. \<not> rollback_allowed db i p (cx_def r)) (t_contexts db) = filter (\<lambda>r. row_id r \<noteq> i) (t_contexts db)"
    "length (filter (\<lambda>r. rollback_allowed db i p (cx_def r)) (t_contexts db)) = 1"
    by (auto simp: rollback_allowed_def)
  then have db': "db' = db\<lparr>t_contexts := filter (\<lambda>r. row_id r \<noteq> i) (t_contexts db), t_audit := filter (\<lambda>e. \<not> is_rollback_event i p e) (t_audit db)\<rparr>"
    using assms(2) by (auto simp: rollback_unreferenced_legacy_context_def Let_def)
  obtain e where one: "filter (\<lambda>e. cae_context_id e = Some i) (t_audit db) = [e]"
    using r(2) by (auto simp: rollback_allowed_def length_Suc_conv)
  obtain e' where e': "e' \<in> set (t_audit db)" "is_rollback_event i p e'" using r(2) by (auto simp: rollback_allowed_def list_ex_iff)
  have only: "x = e" if "x \<in> set (t_audit db)" "cae_context_id x = Some i" for x
    using arg_cong [OF one, of set] that by auto
  have "e' = e" using e' by (intro only) (simp_all add: is_rollback_event_def)
  then have "is_rollback_event i p x \<longleftrightarrow> cae_context_id x = Some i" if "x \<in> set (t_audit db)" for x
    using that e'(2) only [OF that] by (auto simp: is_rollback_event_def)
  then have "filter (\<lambda>e. \<not> is_rollback_event i p e) (t_audit db) = filter (\<lambda>e. cae_context_id e \<noteq> Some i) (t_audit db)"
    by (intro filter_cong refl) simp
  then show ?thesis
    using r one e'(2) \<open>e' = e\<close> \<open>row_id r = i\<close>
    by (intro disjI2) (auto simp: db' provisional_removed_def rollback_allowed_def is_rollback_event_def list_ex_iff)
next
  case False
  then have "filter (\<lambda>r. rollback_allowed db i p (cx_def r)) (t_contexts db) = []"
    "filter (\<lambda>r. \<not> rollback_allowed db i p (cx_def r)) (t_contexts db) = t_contexts db"
    by (auto simp: filter_empty_conv filter_id_conv)
  with assms(2) show ?thesis by (simp add: rollback_unreferenced_legacy_context_def Let_def)
qed

text \<open>Claim C28. Every change is audited under the acting principal: a committed step by \<open>p\<close> appends
  exactly one event with \<open>p\<close> as its actor and leaves the earlier events alone, or changes nothing
  at all, or takes back a provisional legacy context of \<open>p\<close> to which no membership or grant refers: then the row of
  that context and its one event, its creation by \<open>p\<close>, are removed and no other table or row changes.\<close>

theorem every_change_is_audited:
  assumes "context_step lc fdiv p db db'" and "hierarchy_ok (t_contexts db)"
  shows "audited p db db' \<or> db' = db \<or> (\<exists>i. provisional_removed p i db db')"
  using assms
proof (induction rule: context_step.induct)
  case (step_create draft audit now db db' c)
  then show ?case by (simp add: create_context_audited)
next
  case (step_parent i parent p audit now db db' u)
  then have "validate_audit_actor audit p = Inr ()" by (auto simp: set_context_parent_def)
  then have "audited p db db'" unfolding set_context_parent_effect(1) [OF step_parent.hyps] by (rule audited_insert) simp_all
  then show ?case ..
next
  case (step_update i patch p audit now db db' u)
  then show ?case by (simp add: update_context_definition_audited)
next
  case (step_memberships m ids p audit now db db' out)
  then show ?case using memberships_audited by blast
next
  case (step_rollback i p db db' b)
  have "distinct (map row_id (t_contexts db))" using step_rollback.prems by (simp add: hierarchy_ok_def)
  from rollback_removes_one [OF this step_rollback.hyps] show ?case by blast
qed (auto simp: set_context_lifecycle_def grant_context_use_def revoke_context_use_def replace_context_grants_def
    upsert_context_kind_def upsert_context_kind_policy_def upsert_context_anchor_policy_def Let_def
    intro!: audited_insert dest!: upsert_effects insert_effects(4) split: if_splits)

section \<open>Grants\<close>

definition explicit_grantee :: "string \<Rightarrow> bool" where
  "explicit_grantee g \<longleftrightarrow> trim g = g \<and> g \<noteq> [] \<and> \<not> is_reserved_principal g"

lemma normalize_explicit_grantee_Inr: "normalize_explicit_grantee g0 = Inr g \<Longrightarrow> explicit_grantee g"
  by (auto simp: normalize_explicit_grantee_def explicit_grantee_def Let_def split: if_splits)

lemma normalize_explicit_grantees_from_Inr:
  "normalize_explicit_grantees_from seen gs0 = Inr gs \<Longrightarrow>
     distinct gs \<and> set gs \<inter> seen = {} \<and> (\<forall>g \<in> set gs. explicit_grantee g)"
  by (induction seen gs0 arbitrary: gs rule: normalize_explicit_grantees_from.induct)
    (fastforce simp: normalize_explicit_grantee_Inr split: if_splits)+

lemma grant_step_new:
  assumes "context_step lc fdiv p db db'" "g \<in> set (t_grants db')" "g \<notin> set (t_grants db)"
  shows "g_granted_by g = p \<and> explicit_grantee (g_grantee_principal g) \<and>
    require_mutable_owned_context db (g_context_id g) p = Inr ()"
  using assms
proof (induction rule: context_step.induct)
  case (step_create draft audit now db db' c)
  then show ?case by (auto elim!: create_context_effect)
next
  case (step_update i patch p audit now db db' u)
  then show ?case by (auto elim!: update_context_definition_effect)
next
  case (step_parent i parent p audit now db db' u)
  then show ?case by (simp add: set_context_parent_effect(1) [OF step_parent.hyps])
next
  case (step_lifecycle i l p audit now db db' u)
  then show ?case by (simp add: set_context_lifecycle_effect(1) [OF step_lifecycle.hyps])
next
  case (step_grant j g0 p audit now db db' u)
  then obtain grantee db1 where s: "require_mutable_owned_context db j p = Inr ()" "normalize_explicit_grantee g0 = Inr grantee"
      "upsert_grant_row \<lparr>g_context_id = j, g_grantee_principal = grantee, g_granted_by = p, g_created_at = now\<rparr> db = Inr db1"
      "t_grants db' = t_grants db1"
    by (auto simp: grant_context_use_def)
  from upsert_effects(1) [OF s(3)] s(4) step_grant.prems have
    "g_context_id g = j \<and> g_grantee_principal g = grantee \<and> g_granted_by g = p" by fastforce
  with s(1) normalize_explicit_grantee_Inr [OF s(2)] show ?case by simp
next
  case (step_replace_grants j gs p audit now db db' u)
  then obtain grantees db1 where s: "require_mutable_owned_context db j p = Inr ()"
      "normalize_explicit_grantees gs = Inr grantees"
      "insert_all insert_grant_row
       (map (\<lambda>g. \<lparr>g_context_id = j, g_grantee_principal = g, g_granted_by = p, g_created_at = now\<rparr>) grantees)
       (db\<lparr>t_grants := filter (\<lambda>g. g_context_id g \<noteq> j) (t_grants db)\<rparr>) = Inr db1"
      "t_grants db' = t_grants db1"
    by (auto simp: replace_context_grants_def)
  have "\<forall>g \<in> set grantees. explicit_grantee g"
    using s(2) normalize_explicit_grantees_from_Inr unfolding normalize_explicit_grantees_def by blast
  moreover from insert_effects(4) [OF s(3)] s(4) step_replace_grants.prems
  have "\<exists>h \<in> set grantees. g_context_id g = j \<and> g_grantee_principal g = h \<and> g_granted_by g = p" by auto
  ultimately show ?case using s(1) by auto
qed (auto simp: revoke_context_use_def upsert_context_kind_def upsert_context_kind_policy_def
    upsert_context_anchor_policy_def replace_memory_contexts_def rollback_unreferenced_legacy_context_def Let_def
    dest!: upsert_effects(2,3) insert_effects(5) split: if_splits option.splits)

text \<open>Grants are explicit: a grant that appears in a committed step by \<open>p\<close> is recorded as
  given by \<open>p\<close>, is for a context \<open>p\<close> owns and that is not frozen, and names one trimmed, non-blank
  principal that is none of the reserved ones, in particular not the all-principals marker.\<close>

lemma new_grants_are_explicit:
  assumes "context_step lc fdiv p db db'" and "g \<in> set (t_grants db')" and "g \<notin> set (t_grants db)"
  shows "g_granted_by g = p \<and> trim (g_grantee_principal g) = g_grantee_principal g \<and> g_grantee_principal g \<noteq> [] \<and>
    \<not> is_reserved_principal (g_grantee_principal g) \<and> g_grantee_principal g \<noteq> LEGACY_ALL_PRINCIPALS_GRANT \<and>
    (\<exists>c. find_context db (g_context_id g) = Some c \<and> cd_owner_principal c = p \<and> \<not> cd_frozen c)"
  using grant_step_new [OF assms]
  by (auto simp: explicit_grantee_def require_mutable_owned_context_Inr is_reserved_principal_def)

section \<open>Unique keys\<close>

lemma unique_keys_update:
  assumes "\<And>c. cd_owner_principal (f c) = cd_owner_principal c" "\<And>c. cd_kind (f c) = cd_kind c"
  shows "map context_unique_key (t_contexts (update_context i f db)) = map context_unique_key (t_contexts db)"
  using assms by (simp add: update_context_def context_unique_key_def comp_def)

lemma unique_keys_step:
  assumes "context_step lc fdiv p db db'" "distinct (map context_unique_key (t_contexts db))"
  shows "distinct (map context_unique_key (t_contexts db'))"
  using assms
proof (induction rule: context_step.induct)
  case (step_create draft audit now db db' c)
  from step_create.hyps obtain r where r: "insert_context_row r db = Inr (db\<lparr>t_contexts := t_contexts db @ [r]\<rparr>)"
      "t_contexts db' = t_contexts db @ [r]" by (rule create_context_effect) simp
  show ?case unfolding r(2) using step_create.prems insert_context_row_Inr(4) [OF r(1)] by simp
next
  case (step_update i patch p audit now db db' u)
  then show ?case by (auto elim!: update_context_definition_effect simp: unique_keys_update simp del: map_map)
next
  case (step_parent i parent p audit now db db' u)
  then show ?case by (simp add: set_context_parent_effect(1) [OF step_parent.hyps] unique_keys_update)
next
  case (step_lifecycle i l p audit now db db' u)
  then show ?case by (simp add: set_context_lifecycle_effect(1) [OF step_lifecycle.hyps] unique_keys_update)
next
  case (step_rollback i p db db' b)
  then show ?case
    by (auto simp: rollback_unreferenced_legacy_context_def Let_def distinct_map_filter split: if_splits)
qed (auto simp: grant_context_use_def revoke_context_use_def replace_context_grants_def upsert_context_kind_def
    upsert_context_kind_policy_def upsert_context_anchor_policy_def replace_memory_contexts_def Let_def
    dest!: upsert_effects insert_effects split: if_splits option.splits)

text \<open>No two contexts of one owner and kind ever share a normalised key.\<close>

lemma owner_kind_key_unique:
  assumes "reachable lc fdiv db0 db" and "distinct (map context_unique_key (t_contexts db0))"
  shows "distinct (map (\<lambda>r. (cd_owner_principal (cx_def r), cd_kind (cx_def r), cx_normalized_key r)) (t_contexts db))"
proof -
  have "distinct (map context_unique_key (t_contexts db))"
    using assms by (induction rule: reachable.induct) (auto intro: unique_keys_step)
  then show ?thesis by (simp add: context_unique_key_def [abs_def])
qed

section \<open>Memberships\<close>

lemma membership_rows_content:
  "map (\<lambda>r. (mc_memory_id r, mc_ordinal r, mc_context_id r)) (membership_rows m ids now) = map (\<lambda>(n, i). (m, n, i)) (enumerate 0 ids)"
  by (auto simp: membership_rows_def)

text \<open>Claim C29. Replacing the contexts of a memory is all or nothing: when it reports \<open>Applied\<close> the caller
  had write access, every new context is one the caller may use (active unless the memory already
  had it), the memory's memberships are exactly the given contexts with ordinals 0, 1, 2 and so on
  in the given order, and no membership of another memory moved.\<close>

theorem replace_memory_contexts_applied:
  assumes "replace_memory_contexts m ids p audit now db = Inr (db', Applied)"
  shows "distinct ids \<and>
    (\<exists>x. find (\<lambda>x. m_id x = m) (t_memories db) = Some x \<and> write_access_allowed (m_provenance x) (m_access_policy x) p) \<and>
    (\<forall>i \<in> set ids. context_use_allowed db i p (i \<notin> memory_context_ids db m)) \<and>
    map (\<lambda>r. (mc_ordinal r, mc_context_id r)) (filter (\<lambda>r. mc_memory_id r = m) (t_memory_contexts db')) = enumerate 0 ids \<and>
    filter (\<lambda>r. mc_memory_id r \<noteq> m) (t_memory_contexts db') = filter (\<lambda>r. mc_memory_id r \<noteq> m) (t_memory_contexts db)"
proof -
  from assms obtain x db1 where s: "distinct ids" "find (\<lambda>x. m_id x = m) (t_memories db) = Some x"
    "write_access_allowed (m_provenance x) (m_access_policy x) p"
    "check_memberships db ids p (memory_context_ids db m) = Inr ()"
    "insert_all insert_membership_row (membership_rows m ids now)
         (db\<lparr>t_memory_contexts := filter (\<lambda>r. mc_memory_id r \<noteq> m) (t_memory_contexts db)\<rparr>) = Inr db1"
    "t_memory_contexts db' = t_memory_contexts db1"
    by (auto simp: replace_memory_contexts_def split: if_splits option.splits)
  have rows: "t_memory_contexts db' = filter (\<lambda>r. mc_memory_id r \<noteq> m) (t_memory_contexts db) @ membership_rows m ids now"
    using insert_effects(5) [OF s(5)] s(6) by simp
  have m: "r \<in> set (membership_rows m ids now) \<Longrightarrow> mc_memory_id r = m" for r by (auto simp: membership_rows_def)
  then have new: "filter (\<lambda>r. mc_memory_id r = m) (membership_rows m ids now) = membership_rows m ids now"
      "filter (\<lambda>r. mc_memory_id r \<noteq> m) (membership_rows m ids now) = []"
    by (auto simp: filter_id_conv filter_empty_conv)
  have "map (\<lambda>r. (mc_ordinal r, mc_context_id r)) (membership_rows m ids now) = enumerate 0 ids"
    by (simp add: membership_rows_def comp_def case_prod_unfold)
  then show ?thesis using s(1-4) new
    by (auto simp: rows has_write_access_def check_memberships_def split: if_splits)
qed

section \<open>A small store to run the operations on\<close>

definition sample_kind :: context_kind_definition where
  "sample_kind = \<lparr>kd_kind = ContextKind ''project'', kd_display_name = ''Project'', kd_builtin = True,
     kd_enabled = True, kd_created_at = 0, kd_updated_at = 0\<rparr>"

definition sample_row :: "context_id \<Rightarrow> string \<Rightarrow> string \<Rightarrow> context_id option \<Rightarrow> context_row" where
  "sample_row i key owner parent = \<lparr>cx_def = \<lparr>cd_id = i, cd_kind = ContextKind ''project'', cd_key = key,
      cd_display_name = key, cd_description = None, cd_owner_principal = owner, cd_guidance = None,
      cd_parent_id = parent, cd_lifecycle = Active, cd_frozen = False, cd_created_at = 0, cd_updated_at = 0\<rparr>,
     cx_normalized_key = key\<rparr>"

definition sample_db :: context_db where
  "sample_db = \<lparr>t_kinds = [sample_kind],
     t_contexts = [sample_row 1 ''root'' ''alice'' None, sample_row 2 ''child'' ''alice'' (Some 1),
       sample_row 3 ''other'' ''bob'' None],
     t_aliases = [], t_identities = [], t_hints = [], t_grants = [], t_relations = [],
     t_memory_contexts = [\<lparr>mc_memory_id = m_id sample_memory, mc_context_id = 2, mc_ordinal = 0, mc_created_at = 0\<rparr>],
     t_kind_policies = [], t_anchor_overrides = [], t_audit = [], t_audit_next = 1,
     t_memories = [memory.extend (sample_memory\<lparr>m_access_policy := Restricted [''alice'']\<rparr>)
       \<lparr>mr_embedding_revision = 0, mr_embedding_claimed_at = None, mr_embedding_claim_token = None\<rparr>],
     t_metadata = []\<rparr>"

definition sample_audit :: context_audit_draft where
  "sample_audit = context_audit_draft_new ''alice'' ''test''"

definition db_after :: "'a tx \<Rightarrow> context_db" where
  "db_after r = (case r of Inl _ \<Rightarrow> sample_db | Inr (db, _) \<Rightarrow> db)"

lemma db_after_Inr: "\<not> isl r \<Longrightarrow> r = Inr (db_after r, snd (projr r))"
  by (cases r) (auto simp: db_after_def)

lemma sample_edges: "parent_edges (t_contexts sample_db) = {(2, 1)}"
  by (simp add: parent_edges_UN sample_db_def sample_row_def)

lemma sample_hierarchy: "hierarchy_ok (t_contexts sample_db)"
proof -
  have "acyclic {(2 :: context_id, 1 :: context_id)}" by (simp add: acyclic_insert) (simp add: acyclic_def)
  then show ?thesis unfolding hierarchy_ok_def sample_edges by (simp add: sample_db_def sample_row_def)
qed

definition sample_parent_db :: context_db where
  "sample_parent_db = db_after (set_context_parent 2 None ''alice'' sample_audit 5 sample_db)"

definition sample_grant_db :: context_db where
  "sample_grant_db = db_after (grant_context_use 2 '' bob '' ''alice'' sample_audit 5 sample_db)"

lemma sample_steps:
  "context_step lc fdiv ''alice'' sample_db sample_parent_db"
  "context_step lc fdiv ''alice'' sample_db sample_grant_db"
proof -
  have "\<not> isl (set_context_parent 2 None ''alice'' sample_audit 5 sample_db)"
    "\<not> isl (grant_context_use 2 '' bob '' ''alice'' sample_audit 5 sample_db)" by code_simp+
  note ok = db_after_Inr [OF this(1)] db_after_Inr [OF this(2)]
  show "context_step lc fdiv ''alice'' sample_db sample_parent_db"
    unfolding sample_parent_db_def by (rule step_parent [OF ok(1)])
  show "context_step lc fdiv ''alice'' sample_db sample_grant_db"
    unfolding sample_grant_db_def by (rule step_grant [OF ok(2)])
qed

theorem hierarchy_stays_acyclic_witness: "hierarchy_ok (t_contexts sample_parent_db)"
  using hierarchy_stays_acyclic [OF reach_step [OF reach_refl sample_steps(1)] sample_hierarchy] .

theorem only_owner_changes_context_witness: "context_view sample_grant_db 3 = context_view sample_db 3"
proof -
  have "find_context sample_db 3 = Some (cx_def (sample_row 3 ''other'' ''bob'' None))"
    by (simp add: find_context_def sample_db_def sample_row_def)
  then show ?thesis
    using only_owner_changes_context [OF sample_steps(2) sample_hierarchy] by (simp add: sample_row_def)
qed

theorem every_change_is_audited_witness: "audited ''alice'' sample_db sample_grant_db"
proof -
  have "t_audit_next sample_grant_db \<noteq> t_audit_next sample_db" by code_simp
  then show ?thesis using every_change_is_audited [OF sample_steps(2) sample_hierarchy] by (auto dest: provisional_removed_next)
qed

theorem replace_memory_contexts_applied_witness:
  "map (\<lambda>r. (mc_ordinal r, mc_context_id r)) (filter (\<lambda>r. mc_memory_id r = m_id sample_memory)
     (t_memory_contexts (db_after (replace_memory_contexts (m_id sample_memory) [1, 2] ''alice'' sample_audit 5 sample_db))))
   = [(0, 1), (1, 2)]"
proof -
  let ?r = "replace_memory_contexts (m_id sample_memory) [1, 2] ''alice'' sample_audit 5 sample_db"
  have "\<not> isl ?r" "snd (projr ?r) = Applied" by code_simp+
  then have "?r = Inr (db_after ?r, Applied)" using db_after_Inr [of ?r] by simp
  from replace_memory_contexts_applied [OF this] show ?thesis by simp
qed

end
