(* ===== verification/Embedding_Resilience.thy ===== *)
theory Embedding_Resilience
  imports Hold_Error
begin

text \<open>
  Retry policy (\<^verbatim>\<open>src/src/embedding/retry.rs\<close>), availability tracking
  (\<^verbatim>\<open>src/src/embedding/resilient.rs\<close>) and batch execution (\<^verbatim>\<open>src/src/embedding/batch.rs\<close>).

  The provider is the environment: \<open>ops k\<close> is what its \<open>k\<close>-th call of a request returns, so it may
  answer differently each time. \<open>jitter k\<close> is the \<open>k\<close>-th random draw of \<^verbatim>\<open>fastrand\<close>. A retried
  request returns its outcome, the availability flag afterwards and the delays it slept.
\<close>

section \<open>Delays\<close>

definition JITTER_MIN_PER_MILLE :: nat where "JITTER_MIN_PER_MILLE = 800"
definition JITTER_MAX_PER_MILLE :: nat where "JITTER_MAX_PER_MILLE = 1200"

record retry_policy =
  rp_max_retries :: u32
  rp_initial_backoff :: duration
  rp_max_backoff :: duration

text \<open>\<^verbatim>\<open>u32::saturating_pow\<close> of two, \<^verbatim>\<open>Duration::saturating_mul\<close>, \<^verbatim>\<open>as_millis\<close> and \<^verbatim>\<open>from_millis\<close>.\<close>

definition saturating_pow2 :: "nat \<Rightarrow> nat" where
  "saturating_pow2 n = min (2 ^ n) (2 ^ 32 - 1)"

definition duration_saturating_mul :: "duration \<Rightarrow> nat \<Rightarrow> duration" where
  "duration_saturating_mul d n = min (d * n) duration_max"

definition as_millis :: "duration \<Rightarrow> nat" where "as_millis d = d div 1000000"
definition from_millis :: "nat \<Rightarrow> duration" where "from_millis n = n * 1000000"

definition scale_duration :: "duration \<Rightarrow> nat \<Rightarrow> duration" where
  "scale_duration d per_mille =
     (let millis = min (as_millis d * per_mille) (2 ^ 128 - 1) div 1000
      in from_millis (if millis < 2 ^ 64 then millis else 2 ^ 64 - 1))"

definition delay_with_jitter :: "retry_policy \<Rightarrow> u32 \<Rightarrow> duration option \<Rightarrow> nat \<Rightarrow> duration option" where
  "delay_with_jitter policy retry_index after jitter_per_mille =
     (if (case after of None \<Rightarrow> False | Some d \<Rightarrow> d > rp_max_backoff policy) then None
      else
       (let multiplier = saturating_pow2 (unat retry_index);
            exponential = min (duration_saturating_mul (rp_initial_backoff policy) multiplier) (rp_max_backoff policy);
            jittered = min (scale_duration exponential jitter_per_mille) (rp_max_backoff policy)
        in Some (case after of None \<Rightarrow> jittered | Some provider_delay \<Rightarrow> max provider_delay jittered)))"

lemma delay_with_jitter_bounds:
  assumes "delay_with_jitter policy i after j = Some d"
  shows "d \<le> rp_max_backoff policy \<and> (\<forall>r. after = Some r \<longrightarrow> r \<le> d)"
  using assms by (auto simp: delay_with_jitter_def Let_def split: option.splits if_splits)

lemma delay_with_jitter_None:
  "delay_with_jitter policy i after j = None \<longleftrightarrow> (\<exists>r. after = Some r \<and> r > rp_max_backoff policy)"
  by (auto simp: delay_with_jitter_def Let_def split: option.splits)

lemma scale_duration_mono:
  assumes "d \<le> d'"
  shows "scale_duration d j \<le> scale_duration d' j"
proof -
  let ?m = "\<lambda>d. min (as_millis d * j) (2 ^ 128 - 1) div 1000"
  have "as_millis d * j \<le> as_millis d' * j"
    using assms unfolding as_millis_def by (intro mult_right_mono div_le_mono) simp_all
  then have "?m d \<le> ?m d'" by (intro div_le_mono min.mono) simp_all
  then show ?thesis by (auto simp: scale_duration_def from_millis_def Let_def)
qed

lemma saturating_pow2_mono: "m \<le> n \<Longrightarrow> saturating_pow2 m \<le> saturating_pow2 n"
  unfolding saturating_pow2_def by (intro min.mono power_increasing) simp_all

lemma duration_saturating_mul_mono: "m \<le> n \<Longrightarrow> duration_saturating_mul d m \<le> duration_saturating_mul d n"
  unfolding duration_saturating_mul_def by (intro min.mono mult_le_mono2 order.refl) simp_all

definition jittered_delay :: "retry_policy \<Rightarrow> u32 \<Rightarrow> nat \<Rightarrow> duration" where
  "jittered_delay policy i j =
     min (scale_duration (min (duration_saturating_mul (rp_initial_backoff policy) (saturating_pow2 (unat i)))
       (rp_max_backoff policy)) j) (rp_max_backoff policy)"

lemma jittered_delay_mono: "i \<le> i' \<Longrightarrow> jittered_delay policy i j \<le> jittered_delay policy i' j"
  unfolding jittered_delay_def word_le_nat_alt
  by (intro min.mono scale_duration_mono duration_saturating_mul_mono saturating_pow2_mono order.refl)

lemma delay_with_jitter_alt:
  "delay_with_jitter policy i after j =
     (case after of None \<Rightarrow> Some (jittered_delay policy i j)
      | Some r \<Rightarrow> if r > rp_max_backoff policy then None else Some (max r (jittered_delay policy i j)))"
  by (simp add: delay_with_jitter_def jittered_delay_def split: option.split)

lemma delay_with_jitter_mono:
  assumes "i \<le> i'" "delay_with_jitter policy i after j = Some d" "delay_with_jitter policy i' after j = Some d'"
  shows "d \<le> d'"
  using assms(2,3) jittered_delay_mono [OF assms(1), of policy j]
  by (auto simp: delay_with_jitter_alt split: option.splits if_splits)

section \<open>Retried requests\<close>

definition handle_embed_error :: "embedding_error \<Rightarrow> bool \<Rightarrow> bool" where
  "handle_embed_error e available = (case e of Transient _ \<Rightarrow> False | _ \<Rightarrow> available)"

text \<open>The loop of \<^verbatim>\<open>retry_transient\<close>; the call with attempt number \<open>a\<close> is call number \<open>unat a\<close>.\<close>

function retry_loop ::
  "retry_policy \<Rightarrow> (nat \<Rightarrow> embedding_error + 'a) \<Rightarrow> (nat \<Rightarrow> nat) \<Rightarrow> u32 \<Rightarrow> bool \<Rightarrow> duration list \<Rightarrow>
   (embedding_error + 'a) \<times> bool \<times> duration list" where
  "retry_loop policy ops jitter attempt available slept =
     (case ops (unat attempt) of
        Inr v \<Rightarrow> (Inr v, available, slept)
      | Inl e \<Rightarrow>
          if \<not> is_retryable e \<or> attempt \<ge> rp_max_retries policy
          then (Inl e, handle_embed_error e available, slept)
          else (case delay_with_jitter policy attempt (retry_after e) (jitter (unat attempt)) of
                  None \<Rightarrow> (Inl e, handle_embed_error e available, slept)
                | Some delay \<Rightarrow>
                    retry_loop policy ops jitter (saturating_add attempt 1) available (slept @ [delay])))"
  by pat_completeness auto
termination
proof (relation "measure (\<lambda>(policy, ops, jitter, attempt, available, slept). unat (rp_max_retries policy) - unat attempt)", goal_cases)
  case (2 policy ops jitter attempt available slept e delay)
  then have "unat attempt < unat (rp_max_retries policy)" by (simp add: word_less_nat_alt not_le)
  moreover have "unat (saturating_add attempt 1) = Suc (unat attempt)"
    using calculation unsigned_less [of "rp_max_retries policy", where 'a = nat] by (simp add: unat_saturating_add)
  ultimately show ?case by simp
qed simp

declare retry_loop.simps [simp del]

definition retry_transient ::
  "retry_policy \<Rightarrow> (nat \<Rightarrow> embedding_error + 'a) \<Rightarrow> (nat \<Rightarrow> nat) \<Rightarrow> bool \<Rightarrow> (embedding_error + 'a) \<times> bool \<times> duration list" where
  "retry_transient policy ops jitter available = retry_loop policy ops jitter 0 available []"

text \<open>\<^verbatim>\<open>embed\<close> and \<^verbatim>\<open>embed_batch\<close> of the wrapper; \<^verbatim>\<open>health_check\<close> passes one call through.\<close>

definition resilient_call ::
  "retry_policy \<Rightarrow> (nat \<Rightarrow> embedding_error + 'a) \<Rightarrow> (nat \<Rightarrow> nat) \<Rightarrow> bool \<Rightarrow> (embedding_error + 'a) \<times> bool \<times> duration list" where
  "resilient_call policy ops jitter available =
     (if \<not> available then (Inl Disabled, available, []) else retry_transient policy ops jitter available)"

definition resilient_health_check :: "(embedding_error + unit) \<Rightarrow> bool \<Rightarrow> embedding_error + unit" where
  "resilient_health_check health available = (if \<not> available then Inl Disabled else health)"

definition initially_available :: "embedding_error + unit \<Rightarrow> bool" where
  "initially_available health = (case health of Inr _ \<Rightarrow> True | Inl (RateLimited _ _) \<Rightarrow> True | Inl _ \<Rightarrow> False)"

text \<open>One turn of the probe task after its sleep: the new flag, and whether it notifies.\<close>

definition health_probe :: "embedding_error + unit \<Rightarrow> bool \<Rightarrow> bool \<times> bool" where
  "health_probe health available =
     (if available then (True, False)
      else (case health of
              Inr _ \<Rightarrow> (True, True)
            | Inl (RateLimited _ _) \<Rightarrow> (True, True)
            | Inl _ \<Rightarrow> (False, False)))"

lemma unat_attempt_Suc:
  fixes a m :: u32
  assumes "\<not> a \<ge> m"
  shows "unat (saturating_add a 1) = Suc (unat a)" "Suc (unat a) \<le> unat m"
proof -
  have "unat a < unat m" using assms by (simp add: word_less_nat_alt not_le)
  then show "Suc (unat a) \<le> unat m" by simp
  show "unat (saturating_add a 1) = Suc (unat a)"
    using \<open>unat a < unat m\<close> unsigned_less [of m, where 'a = nat] by (simp add: unat_saturating_add)
qed

text \<open>\<open>n\<close> is the number of the last call of a loop that started with call \<open>a\<close>.\<close>

definition retry_run ::
  "retry_policy \<Rightarrow> (nat \<Rightarrow> embedding_error + 'a) \<Rightarrow> nat \<Rightarrow> bool \<Rightarrow> duration list \<Rightarrow> nat \<Rightarrow>
   (embedding_error + 'a) \<times> bool \<times> duration list \<Rightarrow> bool" where
  "retry_run policy ops a available slept n r = (case r of (outcome, available', slept') \<Rightarrow>
     a \<le> n \<and> n \<le> unat (rp_max_retries policy) \<and> outcome = ops n \<and>
     length slept' = length slept + (n - a) \<and>
     (\<forall>k. a \<le> k \<longrightarrow> k < n \<longrightarrow> (\<exists>e. ops k = Inl e \<and> is_retryable e)) \<and>
     (\<forall>e. outcome = Inl e \<longrightarrow> \<not> is_retryable e \<or> n = unat (rp_max_retries policy) \<or>
        (\<exists>r. retry_after e = Some r \<and> r > rp_max_backoff policy)) \<and>
     set slept' \<subseteq> set slept \<union> {d. d \<le> rp_max_backoff policy} \<and>
     available' = (available \<and> (\<forall>s. outcome \<noteq> Inl (Transient s))))"

lemma retry_run_extend:
  assumes "retry_run policy ops (Suc a) available (slept @ [d]) n r"
    "ops a = Inl e" "is_retryable e" "d \<le> rp_max_backoff policy"
  shows "retry_run policy ops a available slept n r"
proof -
  obtain outcome available' slept' where r: "r = (outcome, available', slept')" by (cases r) auto
  have "\<exists>e. ops k = Inl e \<and> is_retryable e" if "a \<le> k" "k < n" for k
    using assms(1-3) that by (cases "k = a") (auto simp: retry_run_def r)
  with assms(1,4) show ?thesis by (auto simp: retry_run_def r)
qed

lemma retry_loop_run:
  assumes "unat a \<le> unat (rp_max_retries policy)"
  shows "\<exists>n. retry_run policy ops (unat a) available slept n (retry_loop policy ops jitter a available slept)"
  using assms
proof (induction policy ops jitter a available slept rule: retry_loop.induct)
  case (1 policy ops jitter a available slept)
  show ?case
  proof (cases "ops (unat a)")
    case (Inr v)
    then have "retry_loop policy ops jitter a available slept = (Inr v, available, slept)"
      by (simp add: retry_loop.simps [of policy ops jitter a])
    then show ?thesis using "1.prems" Inr by (intro exI [of _ "unat a"]) (simp add: retry_run_def)
  next
    case (Inl e)
    show ?thesis
    proof (cases "\<not> is_retryable e \<or> a \<ge> rp_max_retries policy \<or>
        delay_with_jitter policy a (retry_after e) (jitter (unat a)) = None")
      case True
      then have r: "retry_loop policy ops jitter a available slept = (Inl e, handle_embed_error e available, slept)"
        using Inl by (auto simp: retry_loop.simps [of policy ops jitter a])
      have "\<not> is_retryable e \<or> unat a = unat (rp_max_retries policy) \<or> (\<exists>r. retry_after e = Some r \<and> r > rp_max_backoff policy)"
        using True "1.prems" by (auto simp: delay_with_jitter_None word_le_nat_alt)
      moreover have "handle_embed_error e available = (available \<and> (\<forall>s. e \<noteq> Transient s))"
        by (simp add: handle_embed_error_def split: embedding_error.split)
      ultimately show ?thesis using r Inl "1.prems" by (intro exI [of _ "unat a"]) (simp add: retry_run_def)
    next
      case False
      then obtain d where d: "is_retryable e" "\<not> a \<ge> rp_max_retries policy"
        "delay_with_jitter policy a (retry_after e) (jitter (unat a)) = Some d" by auto
      have rec: "retry_loop policy ops jitter a available slept
          = retry_loop policy ops jitter (saturating_add a 1) available (slept @ [d])"
        using Inl d by (simp add: retry_loop.simps [of policy ops jitter a])
      note suc = unat_attempt_Suc [OF d(2)]
      have "unat (saturating_add a 1) \<le> unat (rp_max_retries policy)" using suc by simp
      from "1.IH" [OF Inl _ d(3) this] d(1,2) suc(1) obtain n where
        "retry_run policy ops (Suc (unat a)) available (slept @ [d]) n (retry_loop policy ops jitter a available slept)"
        unfolding rec by auto
      from retry_run_extend [OF this Inl d(1)] delay_with_jitter_bounds [OF d(3)] show ?thesis by blast
    qed
  qed
qed

lemma retry_transient_run:
  "\<exists>n. retry_run policy ops 0 available [] n (retry_transient policy ops jitter available)"
  using retry_loop_run [of 0 policy ops available "[]" jitter] by (simp add: retry_transient_def)

text \<open>Claim C33. A retried request is bounded and honest: it makes at most \<open>max_retries + 1\<close> provider calls,
  sleeps once between two calls and never longer than the maximal backoff, returns exactly what the
  last call returned, retries only errors that may be retried, and gives up early only on an error
  that may not be retried or whose provider delay exceeds the cap. The provider is marked unavailable
  exactly when the request ends in a transient error, never for rate limits or permanent errors.\<close>

theorem retry_is_bounded_and_honest:
  fixes ops :: "nat \<Rightarrow> embedding_error + 'a"
  assumes "retry_transient policy ops jitter available = (outcome, available', slept)"
  shows "length slept \<le> unat (rp_max_retries policy) \<and> outcome = ops (length slept) \<and>
    (\<forall>k < length slept. \<exists>e. ops k = Inl e \<and> is_retryable e) \<and> (\<forall>d \<in> set slept. d \<le> rp_max_backoff policy) \<and>
    (\<forall>e. outcome = Inl e \<longrightarrow> \<not> is_retryable e \<or> length slept = unat (rp_max_retries policy) \<or>
       (\<exists>r. retry_after e = Some r \<and> r > rp_max_backoff policy)) \<and>
    available' = (available \<and> (\<forall>s. outcome \<noteq> Inl (Transient s)))"
proof -
  from retry_transient_run [of policy ops available jitter] obtain n
    where "retry_run policy ops 0 available [] n (outcome, available', slept)" unfolding assms by blast
  then show ?thesis by (simp add: retry_run_def subset_iff)
qed

definition sample_policy :: retry_policy where
  "sample_policy = \<lparr>rp_max_retries = 2, rp_initial_backoff = from_millis 500, rp_max_backoff = from_millis 30000\<rparr>"

definition sample_ops :: "nat \<Rightarrow> embedding_error + nat" where
  "sample_ops k = (if k = 0 then Inl (RateLimited ''quota'' (Some (from_millis 4000))) else if k = 1 then Inl (Transient ''io'') else Inr 7)"

theorem retry_is_bounded_and_honest_witness:
  "length (snd (snd (retry_transient sample_policy sample_ops (\<lambda>_. 1000) True))) \<le> 2"
proof -
  obtain outcome available' slept where r: "retry_transient sample_policy sample_ops (\<lambda>_. 1000) True = (outcome, available', slept)"
    by (metis surj_pair)
  from retry_is_bounded_and_honest [OF this] r show ?thesis by (simp add: sample_policy_def)
qed

text \<open>The delay before a retry stays within the configured cap, is at least what the
  provider asked for, does not shrink from one attempt to the next for the same draw, and is refused
  exactly when the provider asks for more than the cap.\<close>

lemma retry_delay_within_bounds:
  "(case delay_with_jitter policy i after j of
      None \<Rightarrow> (\<exists>r. after = Some r \<and> rp_max_backoff policy < r)
    | Some d \<Rightarrow> d \<le> rp_max_backoff policy \<and> (case after of None \<Rightarrow> True | Some r \<Rightarrow> r \<le> d) \<and>
        (case delay_with_jitter policy (max i i') after j of None \<Rightarrow> False | Some d' \<Rightarrow> d \<le> d'))"
proof (cases "delay_with_jitter policy i after j")
  case None
  then show ?thesis using delay_with_jitter_None [of policy i after j] by simp
next
  case (Some d)
  then have "\<not> (\<exists>r. after = Some r \<and> r > rp_max_backoff policy)"
    using delay_with_jitter_None [of policy i after j] by simp
  then obtain d' where d': "delay_with_jitter policy (max i i') after j = Some d'"
    using delay_with_jitter_None [of policy "max i i'" after j] by auto
  have "i \<le> max i i'" by simp
  from delay_with_jitter_mono [OF this Some d'] delay_with_jitter_bounds [OF Some] Some d'
  show ?thesis by (auto split: option.splits)
qed

section \<open>Availability\<close>

text \<open>The flag only moves for cause: an unavailable provider is not called by requests and
  answers \<open>Disabled\<close>; a request can only take the flag from available to unavailable, and does so
  exactly on a final transient error; only a probe that reached the provider sets it again, and that
  probe is the one that notifies.\<close>

lemma availability_moves_for_cause:
  "resilient_call policy ops jitter False = (Inl Disabled, False, []) \<and>
   fst (snd (resilient_call policy ops jitter True)) =
     (\<forall>s. fst (resilient_call policy ops jitter True) \<noteq> Inl (Transient s)) \<and>
   fst (health_probe health available) = (available \<or> initially_available health) \<and>
   snd (health_probe health available) = (\<not> available \<and> fst (health_probe health available))"
proof -
  obtain outcome available' slept where r: "retry_transient policy ops jitter True = (outcome, available', slept)"
    by (metis surj_pair)
  from retry_transient_run [of policy ops True jitter]
  have "available' = (\<forall>s. outcome \<noteq> Inl (Transient s))" unfolding r by (auto simp: retry_run_def)
  then show ?thesis using r
    by (simp add: resilient_call_def health_probe_def initially_available_def split: sum.splits embedding_error.splits)
qed

section \<open>Batches\<close>

datatype 'v batch_embedding_result =
    PerItem "(embedding_error + 'v) list"
  | BatchFailed embedding_error

text \<open>\<open>embed_one k t\<close> is what the provider answers to the \<open>k\<close>-th single request, made for the text \<open>t\<close>.\<close>

definition batch_chunk_size :: "nat \<Rightarrow> nat" where
  "batch_chunk_size chunk_size = max chunk_size 1"

definition execute_individually :: "(nat \<Rightarrow> string \<Rightarrow> embedding_error + 'v) \<Rightarrow> string list \<Rightarrow> 'v batch_embedding_result" where
  "execute_individually embed_one contents = PerItem (map (\<lambda>(k, t). embed_one k t) (enumerate 0 contents))"

definition execute_chunk ::
  "(string list \<Rightarrow> embedding_error + 'v list) \<Rightarrow> (nat \<Rightarrow> string \<Rightarrow> embedding_error + 'v) \<Rightarrow> string list \<Rightarrow> 'v batch_embedding_result" where
  "execute_chunk embed_batch embed_one contents =
     (case embed_batch contents of
        Inr embeddings \<Rightarrow>
          if length embeddings = length contents then PerItem (map Inr embeddings)
          else execute_individually embed_one contents
      | Inl (Permanent e) \<Rightarrow> execute_individually embed_one contents
      | Inl e \<Rightarrow> BatchFailed e)"

text \<open>A batch keeps inputs and results aligned: a chunk fails as a whole only with an error
  that is not permanent, and otherwise there is exactly one result per input, in input order, namely
  the batch's own or, when the batch was rejected or malformed, that of a request for this input
  alone.\<close>

lemma batch_results_aligned:
  "case execute_chunk embed_batch embed_one contents of
     BatchFailed e \<Rightarrow> embed_batch contents = Inl e \<and> (\<forall>s. e \<noteq> Permanent s)
   | PerItem results \<Rightarrow> length results = length contents \<and>
       ((\<exists>vs. embed_batch contents = Inr vs \<and> results = map Inr vs) \<or>
        results = map (\<lambda>k. embed_one k (contents ! k)) [0..<length contents])"
proof -
  have "map (\<lambda>(k, t). embed_one k t) (enumerate 0 contents) = map (\<lambda>k. embed_one k (contents ! k)) [0..<length contents]"
    by (rule nth_equalityI) (simp_all add: nth_enumerate_eq)
  then show ?thesis
    by (auto simp: execute_chunk_def execute_individually_def split: sum.splits embedding_error.splits)
qed

end
