(* ===== verification/Ranking.thy ===== *)
theory Ranking
  imports Hold_Types
begin

text \<open>
  Ranking of search results: \<^verbatim>\<open>src/src/ordering.rs\<close>, \<^verbatim>\<open>src/src/fusion.rs\<close>, \<^verbatim>\<open>src/src/scoring.rs\<close> and
  the cosine similarity of \<^verbatim>\<open>src/src/consolidation.rs\<close>.

  Floating point values are bit patterns; comparisons, clamps and \<^verbatim>\<open>total_cmp\<close> are computed on the
  bits, while the rounding operations are the fields of \<open>f64_arith\<close> and \<open>f32_arith\<close>, arguments of the
  definitions that use them. Every theorem below holds for every such arithmetic: none needs that
  rounding is exact, nor that a score is not a NaN.
\<close>

section \<open>Arithmetic\<close>

type_synonym f32 = "32 word"

record f64_arith =
  fa_add :: "f64 \<Rightarrow> f64 \<Rightarrow> f64"
  fa_sub :: "f64 \<Rightarrow> f64 \<Rightarrow> f64"
  fa_mul :: "f64 \<Rightarrow> f64 \<Rightarrow> f64"
  fa_div :: "f64 \<Rightarrow> f64 \<Rightarrow> f64"
  fa_mul_add :: "f64 \<Rightarrow> f64 \<Rightarrow> f64 \<Rightarrow> f64"
  fa_exp2 :: "f64 \<Rightarrow> f64"
  fa_ln_1p :: "f64 \<Rightarrow> f64"
  fa_of_int :: "int \<Rightarrow> f64"

record f32_arith =
  ga_add :: "f32 \<Rightarrow> f32 \<Rightarrow> f32"
  ga_mul :: "f32 \<Rightarrow> f32 \<Rightarrow> f32"
  ga_div :: "f32 \<Rightarrow> f32 \<Rightarrow> f32"
  ga_sqrt :: "f32 \<Rightarrow> f32"
  ga_widen :: "f32 \<Rightarrow> f64"

definition f64_neg :: "f64 \<Rightarrow> f64" where
  "f64_neg x = x XOR 0x8000000000000000"

text \<open>\<^verbatim>\<open>f64::min\<close>: the other operand when one is NaN.\<close>

definition f64_min :: "f64 \<Rightarrow> f64 \<Rightarrow> f64" where
  "f64_min x y = (if f64_is_nan x then y else if f64_is_nan y then x else if f64_lt y x then y else x)"

abbreviation f64_tiny :: f64 where "f64_tiny \<equiv> 0x3E112E0BE826D695"
abbreviation f64_epsilon :: f64 where "f64_epsilon \<equiv> 0x3CB0000000000000"
abbreviation f64_3600 :: f64 where "f64_3600 \<equiv> 0x40AC200000000000"
abbreviation f64_86400 :: f64 where "f64_86400 \<equiv> 0x40F5180000000000"
abbreviation f64_hundred :: f64 where "f64_hundred \<equiv> 0x4059000000000000"
abbreviation f32_1e_12 :: f32 where "f32_1e_12 \<equiv> 0x2B8CBCCC"

definition f32_magnitude :: "f32 \<Rightarrow> f32" where "f32_magnitude x = x AND 0x7FFFFFFF"
definition f32_is_nan :: "f32 \<Rightarrow> bool" where "f32_is_nan x \<longleftrightarrow> 0x7F800000 < f32_magnitude x"
definition f32_key :: "f32 \<Rightarrow> int" where
  "f32_key x = (if bit x 31 then - uint (f32_magnitude x) else uint (f32_magnitude x))"
definition f32_lt :: "f32 \<Rightarrow> f32 \<Rightarrow> bool" where
  "f32_lt x y \<longleftrightarrow> \<not> f32_is_nan x \<and> \<not> f32_is_nan y \<and> f32_key x < f32_key y"

text \<open>\<^verbatim>\<open>TimeDelta::num_seconds\<close> rounds towards zero.\<close>

definition num_seconds :: "int \<Rightarrow> int" where
  "num_seconds d = (if d \<ge> 0 then d div 1000000000 else - (- d div 1000000000))"

section \<open>Search results\<close>

record score_breakdown =
  sb_query_relevance :: f64
  sb_importance :: f64
  sb_freshness :: f64
  sb_activity :: f64
  sb_confidence :: f64

record search_result =
  sr_memory :: memory
  sr_distance :: "f64 option"
  sr_retrieval_score :: "f64 option"
  sr_reranker_score :: "f64 option"
  sr_composite_score :: "f64 option"
  sr_score_breakdown :: "score_breakdown option"

section \<open>Orderings\<close>

definition valid_updated_at :: "memory \<Rightarrow> datetime \<Rightarrow> datetime option" where
  "valid_updated_at m now =
     (if m_updated_at m \<le> now then Some (m_updated_at m)
      else if m_created_at m \<le> now then Some (m_created_at m) else None)"

definition valid_last_used_at :: "memory \<Rightarrow> datetime \<Rightarrow> datetime option" where
  "valid_last_used_at m now =
     (case m_last_used_at m of None \<Rightarrow> None | Some t \<Rightarrow> if t \<le> now then Some t else None)"

definition cmp_f64_desc :: "f64 \<Rightarrow> f64 \<Rightarrow> ordering" where
  "cmp_f64_desc a b = f64_total_cmp b a"

definition cmp_optional_datetime_desc :: "datetime option \<Rightarrow> datetime option \<Rightarrow> ordering" where
  "cmp_optional_datetime_desc a b =
     (case (a, b) of
        (Some a, Some b) \<Rightarrow> cmp_ord b a
      | (Some _, None) \<Rightarrow> LessThan
      | (None, Some _) \<Rightarrow> GreaterThan
      | (None, None) \<Rightarrow> EqualTo)"

definition cmp_search_result_score_desc :: "datetime \<Rightarrow> search_result \<Rightarrow> search_result \<Rightarrow> ordering" where
  "cmp_search_result_score_desc now a b =
     (let a_score = (case sr_composite_score a of None \<Rightarrow> f64_neg_infinity | Some s \<Rightarrow> s);
          b_score = (case sr_composite_score b of None \<Rightarrow> f64_neg_infinity | Some s \<Rightarrow> s)
      in then_with (then_with (cmp_f64_desc a_score b_score)
           (cmp_optional_datetime_desc (valid_updated_at (sr_memory a) now) (valid_updated_at (sr_memory b) now)))
         (cmp_ord (m_id (sr_memory b)) (m_id (sr_memory a))))"

definition cmp_search_result_distance_asc :: "search_result \<Rightarrow> search_result \<Rightarrow> ordering" where
  "cmp_search_result_distance_asc a b =
     then_with (case (sr_distance a, sr_distance b) of
         (Some a, Some b) \<Rightarrow> f64_total_cmp a b
       | (Some _, None) \<Rightarrow> LessThan
       | (None, Some _) \<Rightarrow> GreaterThan
       | (None, None) \<Rightarrow> EqualTo)
     (cmp_ord (m_id (sr_memory a)) (m_id (sr_memory b)))"

lemma comparator_optional_desc: "comparator cmp_optional_datetime_desc"
  by unfold_locales (auto simp: cmp_optional_datetime_desc_def cmp_ord_def split: option.splits if_splits)

lemma comparator_f64_desc: "comparator cmp_f64_desc"
  using comparator_flip [OF f64_cmp.comparator_axioms] unfolding cmp_f64_desc_def .

lemma comparator_id_desc: "comparator (\<lambda>a b. cmp_ord (f b) (f a :: 'b::linorder))"
  using comparator_on [OF comparator_flip [OF ord_cmp.comparator_axioms], of f] .

interpretation score_desc: comparator "cmp_search_result_score_desc now" for now
proof -
  have "cmp_search_result_score_desc now =
      cmp_then (cmp_then (\<lambda>a b. cmp_f64_desc (case sr_composite_score a of None \<Rightarrow> f64_neg_infinity | Some s \<Rightarrow> s)
          (case sr_composite_score b of None \<Rightarrow> f64_neg_infinity | Some s \<Rightarrow> s))
        (\<lambda>a b. cmp_optional_datetime_desc (valid_updated_at (sr_memory a) now) (valid_updated_at (sr_memory b) now)))
      (\<lambda>a b. cmp_ord (m_id (sr_memory b)) (m_id (sr_memory a)))"
    by (intro ext) (simp add: cmp_search_result_score_desc_def cmp_then_def)
  then show "comparator (cmp_search_result_score_desc now)"
    by (simp only:) (intro comparator_cmp_then comparator_id_desc comparator_on [OF comparator_f64_desc]
        comparator_on [OF comparator_optional_desc])
qed

text \<open>Missing values sort after present ones.\<close>

definition cmp_none_last :: "('a \<Rightarrow> 'a \<Rightarrow> ordering) \<Rightarrow> 'a option \<Rightarrow> 'a option \<Rightarrow> ordering" where
  "cmp_none_last c a b = (case (a, b) of
       (Some a, Some b) \<Rightarrow> c a b
     | (Some _, None) \<Rightarrow> LessThan
     | (None, Some _) \<Rightarrow> GreaterThan
     | (None, None) \<Rightarrow> EqualTo)"

lemma comparator_none_last:
  assumes "comparator c"
  shows "comparator (cmp_none_last c)"
proof
  fix a b
  show "cmp_none_last c b a = reverse_ordering (cmp_none_last c a b)"
    by (cases a; cases b) (simp_all add: cmp_none_last_def comparator.cmp_swap [OF assms, symmetric])
next
  fix a b d
  assume "cmp_none_last c a b \<noteq> GreaterThan" "cmp_none_last c b d \<noteq> GreaterThan"
  then show "cmp_none_last c a d \<noteq> GreaterThan"
    by (cases a; cases b; cases d) (auto simp: cmp_none_last_def dest: comparator.cmp_trans [OF assms])
qed

interpretation distance_asc: comparator cmp_search_result_distance_asc
proof -
  have "cmp_search_result_distance_asc =
      cmp_then (\<lambda>a b. cmp_none_last f64_total_cmp (sr_distance a) (sr_distance b))
        (\<lambda>a b. cmp_ord (m_id (sr_memory a)) (m_id (sr_memory b)))"
    by (intro ext) (simp add: cmp_search_result_distance_asc_def cmp_then_def cmp_none_last_def)
  then show "comparator cmp_search_result_distance_asc"
    using comparator_cmp_then [OF comparator_on [OF comparator_none_last [OF f64_cmp.comparator_axioms], of "sr_distance :: search_result \<Rightarrow> _"]
        comparator_on [OF ord_cmp.comparator_axioms, of "\<lambda>a. m_id (sr_memory a)"]] by simp
qed

section \<open>Reciprocal rank fusion\<close>

record fused_result =
  fr_result :: search_result
  fr_rrf_score :: f64
  fr_match_sources :: "search_mode list"

text \<open>The \<^verbatim>\<open>HashMap<MemoryId, FusionEntry>\<close> is a list of entries with distinct ids, in the order of
  their insertion; the order in which \<^verbatim>\<open>into_values\<close> enumerates it is the argument \<open>hash_order\<close>.\<close>

definition fuse_hit :: "f64_arith \<Rightarrow> f64 \<Rightarrow> search_mode \<Rightarrow> fused_result \<Rightarrow> fused_result" where
  "fuse_hit fa score source e =
     e\<lparr>fr_rrf_score := fa_add fa (fr_rrf_score e) score,
       fr_match_sources := (if source \<in> set (fr_match_sources e) then fr_match_sources e else fr_match_sources e @ [source])\<rparr>"

definition entry_id :: "fused_result \<Rightarrow> memory_id" where
  "entry_id e = m_id (sr_memory (fr_result e))"

definition add_rank :: "f64_arith \<Rightarrow> f64 \<Rightarrow> f64 \<Rightarrow> search_mode \<Rightarrow> nat \<times> search_result \<Rightarrow> fused_result list \<Rightarrow> fused_result list" where
  "add_rank fa k weight source r entries =
     (case r of (rank, sr) \<Rightarrow>
        let score = fa_div fa weight (fa_add fa (fa_add fa k (fa_of_int fa (int rank))) f64_one);
            i = m_id (sr_memory sr);
            present = (if i \<in> entry_id ` set entries then entries
                       else entries @ [\<lparr>fr_result = sr, fr_rrf_score = f64_zero, fr_match_sources = []\<rparr>])
        in map (\<lambda>e. if entry_id e = i then fuse_hit fa score source e else e) present)"

definition accumulate_rrf ::
  "f64_arith \<Rightarrow> fused_result list \<Rightarrow> search_result list \<Rightarrow> f64 \<Rightarrow> f64 \<Rightarrow> search_mode \<Rightarrow> fused_result list" where
  "accumulate_rrf fa entries results k weight source =
     fold (add_rank fa k weight source) (enumerate 0 results) entries"

definition cmp_fused :: "fused_result \<Rightarrow> fused_result \<Rightarrow> ordering" where
  "cmp_fused a b = then_with (cmp_f64_desc (fr_rrf_score a) (fr_rrf_score b)) (cmp_ord (entry_id b) (entry_id a))"

definition reciprocal_rank_fusion ::
  "f64_arith \<Rightarrow> (fused_result list \<Rightarrow> fused_result list) \<Rightarrow> search_result list \<Rightarrow> search_result list \<Rightarrow> u32 \<Rightarrow> f64 \<Rightarrow> f64 \<Rightarrow>
   nat \<Rightarrow> fused_result list" where
  "reciprocal_rank_fusion fa hash_order semantic_results fts_results k semantic_weight fts_weight limit =
     (let k_f64 = fa_of_int fa (uint k);
          entries = accumulate_rrf fa [] semantic_results k_f64 semantic_weight ModeSemantic;
          entries = accumulate_rrf fa entries fts_results k_f64 fts_weight ModeKeyword
      in take limit (sort_by cmp_fused (hash_order entries)))"

lemma comparator_fused: "comparator cmp_fused"
proof -
  have "cmp_fused = cmp_then (\<lambda>a b. cmp_f64_desc (fr_rrf_score a) (fr_rrf_score b)) (\<lambda>a b. cmp_ord (entry_id b) (entry_id a))"
    by (intro ext) (simp add: cmp_fused_def cmp_then_def)
  then show ?thesis
    using comparator_cmp_then [OF comparator_on [OF comparator_f64_desc, of "fr_rrf_score :: fused_result \<Rightarrow> _"]
        comparator_id_desc [of entry_id]] by simp
qed

interpretation fused: comparator cmp_fused
  by (rule comparator_fused)

lemma cmp_fused_eq: "cmp_fused a b = EqualTo \<Longrightarrow> entry_id a = entry_id b"
  using ord_cmp.cmp_eq [of "entry_id b" "entry_id a"] by (simp add: cmp_fused_def)

text \<open>What the accumulator means: the entry of an id carries the first result seen for it, the fold of
  the scores of its hits in order, and the modes that hit it.\<close>

definition rank_score :: "f64_arith \<Rightarrow> f64 \<Rightarrow> f64 \<Rightarrow> nat \<Rightarrow> f64" where
  "rank_score fa k weight rank = fa_div fa weight (fa_add fa (fa_add fa k (fa_of_int fa (int rank))) f64_one)"

definition hit_ranks :: "search_result list \<Rightarrow> memory_id \<Rightarrow> nat list" where
  "hit_ranks results i = filter (\<lambda>rank. m_id (sr_memory (results ! rank)) = i) [0..<length results]"

definition hit_scores :: "f64_arith \<Rightarrow> f64 \<Rightarrow> f64 \<Rightarrow> search_result list \<Rightarrow> memory_id \<Rightarrow> f64 list" where
  "hit_scores fa k weight results i = map (rank_score fa k weight) (hit_ranks results i)"

lemma entry_id_fuse_hit [simp]: "entry_id (fuse_hit fa score source e) = entry_id e"
  by (simp add: entry_id_def fuse_hit_def)

lemma add_rank_ids:
  "map entry_id (add_rank fa k weight source (rank, sr) entries) =
     (if m_id (sr_memory sr) \<in> entry_id ` set entries then map entry_id entries
      else map entry_id entries @ [m_id (sr_memory sr)])"
  by (auto simp: add_rank_def Let_def entry_id_def fuse_hit_def)

lemma accumulate_snoc:
  "accumulate_rrf fa entries (results @ [sr]) k weight source =
     add_rank fa k weight source (length results, sr) (accumulate_rrf fa entries results k weight source)"
  by (simp add: accumulate_rrf_def enumerate_append_eq)

lemma accumulate_ids:
  "distinct (map entry_id entries) \<Longrightarrow>
   distinct (map entry_id (accumulate_rrf fa entries results k weight source)) \<and>
   entry_id ` set (accumulate_rrf fa entries results k weight source) =
     entry_id ` set entries \<union> (\<lambda>r. m_id (sr_memory r)) ` set results"
proof (induction results rule: rev_induct)
  case Nil
  then show ?case by (simp add: accumulate_rrf_def)
next
  case (snoc sr results)
  let ?acc = "accumulate_rrf fa entries results k weight source"
  have ids: "map entry_id (accumulate_rrf fa entries (results @ [sr]) k weight source) =
     (if m_id (sr_memory sr) \<in> entry_id ` set ?acc then map entry_id ?acc else map entry_id ?acc @ [m_id (sr_memory sr)])"
    by (simp add: accumulate_snoc add_rank_ids)
  have "entry_id ` set (accumulate_rrf fa entries (results @ [sr]) k weight source) =
      set (map entry_id (accumulate_rrf fa entries (results @ [sr]) k weight source))" by simp
  also have "\<dots> = insert (m_id (sr_memory sr)) (entry_id ` set ?acc)" unfolding ids by auto
  finally show ?case using snoc unfolding ids by auto
qed

lemma hit_ranks_snoc:
  "hit_ranks (results @ [sr]) i = hit_ranks results i @ (if m_id (sr_memory sr) = i then [length results] else [])"
  by (auto simp: hit_ranks_def nth_append intro: filter_cong)

definition entry_of :: "fused_result list \<Rightarrow> memory_id \<Rightarrow> fused_result option" where
  "entry_of entries i = find (\<lambda>e. entry_id e = i) entries"

lemma entry_of_Some:
  "distinct (map entry_id entries) \<Longrightarrow> entry_of entries i = Some e \<longleftrightarrow> e \<in> set entries \<and> entry_id e = i"
  unfolding entry_of_def by (induction entries) (auto simp: image_iff)

lemma entry_of_Nil: "entry_of [] i = None"
  by (simp add: entry_of_def)

lemma entry_of_None: "entry_of entries i = None \<longleftrightarrow> i \<notin> entry_id ` set entries"
  by (auto simp: entry_of_def find_None_iff)

lemma entry_of_add_rank:
  "entry_of (add_rank fa k weight source (rank, sr) entries) i =
     (if m_id (sr_memory sr) = i
      then Some (fuse_hit fa (rank_score fa k weight rank) source
             (case entry_of entries i of Some e \<Rightarrow> e
              | None \<Rightarrow> \<lparr>fr_result = sr, fr_rrf_score = f64_zero, fr_match_sources = []\<rparr>))
      else entry_of entries i)"
proof -
  have upd: "entry_of (map (\<lambda>e. if entry_id e = j then fuse_hit fa s source e else e) es) i =
      map_option (\<lambda>e. if j = i then fuse_hit fa s source e else e) (entry_of es i)" for j s es
    unfolding entry_of_def by (induction es) auto
  have app: "find P (xs @ ys) = (case find P xs of None \<Rightarrow> find P ys | Some x \<Rightarrow> Some x)" for P xs and ys :: "fused_result list"
    by (induction xs) auto
  define new where "new = \<lparr>fr_result = sr, fr_rrf_score = f64_zero, fr_match_sources = []\<rparr>"
  define j where "j = m_id (sr_memory sr)"
  define present where "present = (if j \<in> entry_id ` set entries then entries else entries @ [new])"
  have j: "entry_id new = j" by (simp add: new_def j_def entry_id_def)
  have "entry_of present i = (case entry_of entries i of Some e \<Rightarrow> Some e | None \<Rightarrow> if j = i then Some new else None)"
    using entry_of_None [of entries i] j
    by (cases "j \<in> entry_id ` set entries"; cases "entry_of entries i") (auto simp: present_def entry_of_def app)
  moreover have "add_rank fa k weight source (rank, sr) entries =
      map (\<lambda>e. if entry_id e = j then fuse_hit fa (rank_score fa k weight rank) source e else e) present"
    by (simp add: add_rank_def Let_def rank_score_def present_def new_def j_def)
  ultimately show ?thesis
    unfolding new_def [symmetric] j_def [symmetric]
    by (cases "entry_of entries i") (simp_all add: upd)
qed

lemma entry_of_accumulate:
  "entry_of (accumulate_rrf fa entries results k weight source) i =
     (case entry_of entries i of
        Some e \<Rightarrow> Some (fold (\<lambda>s. fuse_hit fa s source) (hit_scores fa k weight results i) e)
      | None \<Rightarrow>
          (case hit_ranks results i of
             [] \<Rightarrow> None
           | rank # _ \<Rightarrow> Some (fold (\<lambda>s. fuse_hit fa s source) (hit_scores fa k weight results i)
               \<lparr>fr_result = results ! rank, fr_rrf_score = f64_zero, fr_match_sources = []\<rparr>)))"
proof (induction results rule: rev_induct)
  case Nil
  show ?case by (simp add: accumulate_rrf_def hit_scores_def hit_ranks_def split: option.split)
next
  case (snoc sr results)
  have lt: "hit_ranks results j = rank # rest \<Longrightarrow> rank < length results" for j rank rest
  proof -
    assume "hit_ranks results j = rank # rest"
    then have "rank \<in> set (hit_ranks results j)" by simp
    then show "rank < length results" by (simp add: hit_ranks_def)
  qed
  show ?case
    unfolding accumulate_snoc entry_of_add_rank snoc.IH
    by (auto simp: hit_scores_def hit_ranks_snoc nth_append dest: lt split: option.split list.split)
qed

lemma fold_fuse_hit [simp]:
  "fr_rrf_score (fold (\<lambda>s. fuse_hit fa s source) scores e) = foldl (fa_add fa) (fr_rrf_score e) scores"
  "fr_match_sources (fold (\<lambda>s. fuse_hit fa s source) scores e) =
     (if scores = [] \<or> source \<in> set (fr_match_sources e) then fr_match_sources e else fr_match_sources e @ [source])"
  by (induction scores arbitrary: e) (auto simp: fuse_hit_def)

text \<open>The entries after both lists.\<close>

definition fusion_entries :: "f64_arith \<Rightarrow> search_result list \<Rightarrow> search_result list \<Rightarrow> f64 \<Rightarrow> f64 \<Rightarrow> f64 \<Rightarrow> fused_result list" where
  "fusion_entries fa sem fts k ws wk =
     accumulate_rrf fa (accumulate_rrf fa [] sem k ws ModeSemantic) fts k wk ModeKeyword"

abbreviation result_ids :: "search_result list \<Rightarrow> memory_id set" where
  "result_ids results \<equiv> (\<lambda>r. m_id (sr_memory r)) ` set results"

lemma hit_ranks_empty: "hit_ranks results i = [] \<longleftrightarrow> i \<notin> result_ids results"
  unfolding hit_ranks_def filter_empty_conv by (fastforce simp: set_conv_nth)

lemma hit_scores_Nil: "hit_ranks results i = [] \<Longrightarrow> hit_scores fa k weight results i = []"
  by (simp add: hit_scores_def)

lemma hit_scores_empty: "hit_scores fa k weight results i = [] \<longleftrightarrow> i \<notin> result_ids results"
  by (simp add: hit_scores_def hit_ranks_empty)

lemma fusion_entries_ids:
  "distinct (map entry_id (fusion_entries fa sem fts k ws wk)) \<and>
   entry_id ` set (fusion_entries fa sem fts k ws wk) = result_ids sem \<union> result_ids fts"
  using accumulate_ids [of "[]" fa sem k ws ModeSemantic]
    accumulate_ids [of "accumulate_rrf fa [] sem k ws ModeSemantic" fa fts k wk ModeKeyword]
  by (simp add: fusion_entries_def)

lemma fusion_entry:
  assumes "e \<in> set (fusion_entries fa sem fts k ws wk)"
  shows "fr_rrf_score e = foldl (fa_add fa) (foldl (fa_add fa) f64_zero (hit_scores fa k ws sem (entry_id e))) (hit_scores fa k wk fts (entry_id e)) \<and>
    fr_match_sources e = (if entry_id e \<in> result_ids sem then [ModeSemantic] else []) @ (if entry_id e \<in> result_ids fts then [ModeKeyword] else [])"
proof -
  let ?S = "hit_scores fa k ws sem (entry_id e)" and ?F = "hit_scores fa k wk fts (entry_id e)"
  have "entry_of (fusion_entries fa sem fts k ws wk) (entry_id e) = Some e"
    using assms fusion_entries_ids [of fa sem fts k ws wk] by (simp add: entry_of_Some)
  then obtain r where e: "fold (\<lambda>s. fuse_hit fa s ModeKeyword) ?F (fold (\<lambda>s. fuse_hit fa s ModeSemantic) ?S
      \<lparr>fr_result = r, fr_rrf_score = f64_zero, fr_match_sources = []\<rparr>) = e"
    unfolding fusion_entries_def entry_of_accumulate entry_of_Nil option.case
    using hit_scores_Nil [of sem "entry_id e" fa k ws]
    by (cases "hit_ranks sem (entry_id e)"; cases "hit_ranks fts (entry_id e)") auto
  have "fr_rrf_score e = foldl (fa_add fa) (foldl (fa_add fa) f64_zero ?S) ?F"
    by (subst e [symmetric]) simp
  moreover have "fr_match_sources e = (if ?S = [] then [] else [ModeSemantic]) @ (if ?F = [] then [] else [ModeKeyword])"
    by (subst e [symmetric]) simp
  ultimately show ?thesis by (simp add: hit_scores_empty)
qed

lemma sort_by_entries_unique:
  assumes "distinct (map entry_id xs)" "mset ys = mset xs"
  shows "sort_by cmp_fused ys = sort_by cmp_fused xs"
proof (rule fused.sort_by_unique_on [OF assms(2)])
  have "inj_on entry_id (set ys)" using assms by (metis distinct_map set_mset_mset)
  then show "\<forall>a \<in> set ys. \<forall>b \<in> set ys. cmp_fused a b = EqualTo \<longrightarrow> a = b"
    using cmp_fused_eq by (auto dest: inj_onD)
qed

text \<open>Claim C34. Rank fusion merges the two result lists by id: whatever order the hash map enumerates
  its entries in, the result is the same; it has each id once, as many ids of the two lists as the
  limit admits, best score first with ties broken by descending id; and each entry carries the sum,
  in list order, of \<open>weight / (k + rank + 1)\<close> over its hits and the lists that hit it.\<close>

theorem fusion_is_deterministic_merge:
  assumes "\<forall>xs. mset (hash_order xs) = mset xs"
    and "fused = reciprocal_rank_fusion fa hash_order sem fts k ws wk limit"
  shows "fused = reciprocal_rank_fusion fa id sem fts k ws wk limit \<and> distinct (map entry_id fused) \<and>
    length fused = min limit (card (result_ids sem \<union> result_ids fts)) \<and>
    sorted_wrt (\<lambda>a b. cmp_fused a b \<noteq> GreaterThan) fused \<and>
    (\<forall>e \<in> set fused. entry_id e \<in> result_ids sem \<union> result_ids fts \<and>
       fr_rrf_score e = foldl (fa_add fa) (foldl (fa_add fa) f64_zero (hit_scores fa (fa_of_int fa (uint k)) ws sem (entry_id e)))
         (hit_scores fa (fa_of_int fa (uint k)) wk fts (entry_id e)) \<and>
       fr_match_sources e = (if entry_id e \<in> result_ids sem then [ModeSemantic] else []) @
         (if entry_id e \<in> result_ids fts then [ModeKeyword] else []))"
proof -
  define es where "es = fusion_entries fa sem fts (fa_of_int fa (uint k)) ws wk"
  have ids: "distinct (map entry_id es)" "entry_id ` set es = result_ids sem \<union> result_ids fts"
    using fusion_entries_ids [of fa sem fts "fa_of_int fa (uint k)" ws wk] by (simp_all add: es_def)
  have ord: "sort_by cmp_fused (hash_order es) = sort_by cmp_fused es"
    by (rule sort_by_entries_unique [OF ids(1) spec [OF assms(1)]])
  have fused: "fused = take limit (sort_by cmp_fused es)"
    using assms(2) ord by (simp add: reciprocal_rank_fusion_def Let_def es_def fusion_entries_def)
  moreover have "reciprocal_rank_fusion fa id sem fts k ws wk limit = take limit (sort_by cmp_fused es)"
    by (simp add: reciprocal_rank_fusion_def Let_def es_def fusion_entries_def)
  moreover have "distinct (map entry_id (sort_by cmp_fused es))"
    using ids(1) by (simp add: distinct_map)
  then have "distinct (map entry_id fused)" unfolding fused take_map [symmetric] by (rule distinct_take)
  moreover have "length es = card (result_ids sem \<union> result_ids fts)"
    using distinct_card [OF ids(1)] ids(2) by simp
  moreover have "sorted_wrt (\<lambda>a b. cmp_fused a b \<noteq> GreaterThan) fused"
    unfolding fused by (intro sorted_wrt_take fused.sorted_sort_by)
  moreover have "e \<in> set es" if "e \<in> set fused" for e using that unfolding fused by (metis in_set_takeD set_sort_by)
  moreover have "entry_id e \<in> result_ids sem \<union> result_ids fts" if "e \<in> set es" for e
    using that ids(2) by blast
  moreover note fusion_entry [of _ fa sem fts "fa_of_int fa (uint k)" ws wk, folded es_def]
  moreover have "length fused = min limit (length es)" unfolding fused by (simp add: min.commute)
  ultimately show ?thesis by (intro conjI ballI) (simp_all only:)
qed

definition sample_arith :: f64_arith where
  "sample_arith = \<lparr>fa_add = (+), fa_sub = (-), fa_mul = (*), fa_div = (\<lambda>a b. a), fa_mul_add = (\<lambda>a b c. a * b + c),
     fa_exp2 = id, fa_ln_1p = id, fa_of_int = of_int\<rparr>"

definition sample_result :: "memory_id \<Rightarrow> search_result" where
  "sample_result i = \<lparr>sr_memory = sample_memory\<lparr>m_id := i\<rparr>, sr_distance = None, sr_retrieval_score = None,
     sr_reranker_score = None, sr_composite_score = None, sr_score_breakdown = None\<rparr>"

theorem fusion_is_deterministic_merge_witness:
  "length (reciprocal_rank_fusion sample_arith rev [sample_result 1, sample_result 2] [sample_result 2, sample_result 3] 60 f64_one f64_one 10) = 3"
proof -
  have "\<forall>xs. mset (rev xs) = mset xs" by simp
  note merge = fusion_is_deterministic_merge [OF this refl, of sample_arith "[sample_result 1, sample_result 2]"
      "[sample_result 2, sample_result 3]" 60 f64_one f64_one 10]
  have "result_ids [sample_result 1, sample_result 2] \<union> result_ids [sample_result 2, sample_result 3] = {1, 2, 3}"
    by (auto simp: sample_result_def)
  moreover have "card {1, 2, 3 :: memory_id} = 3" by simp
  ultimately show ?thesis using merge [THEN conjunct2, THEN conjunct2, THEN conjunct1] by simp
qed

end
