(* ===== verification/Scoring.thy ===== *)
theory Scoring
  imports Ranking
begin

text \<open>
  Composite scoring and duplicate suppression (\<^verbatim>\<open>src/src/scoring.rs\<close>), with the cosine similarity of
  \<^verbatim>\<open>src/src/consolidation.rs\<close> and the fields of \<^verbatim>\<open>SearchConfig\<close> they read. The in-place compaction by
  swaps is modelled as it is written, on lists, and shown to select exactly the kept results.
\<close>

section \<open>Configuration\<close>

record search_config =
  sc_rrf_k :: u32
  sc_rrf_semantic_weight :: f64
  sc_rrf_keyword_weight :: f64
  sc_relevance_weight :: f64
  sc_activity_weight :: f64
  sc_importance_weight :: f64
  sc_activity_half_life_hours :: f64
  sc_activity_saturation :: f64
  sc_freshness_weight :: f64
  sc_freshness_half_life_semantic_days :: f64
  sc_freshness_half_life_episodic_days :: f64
  sc_freshness_half_life_procedural_days :: f64
  sc_confidence_weight :: f64
  sc_relevance_floor :: f64
  sc_relevance_floor_penalty :: f64
  sc_superseded_penalty :: f64
  sc_reranker_blend_weight :: f64

section \<open>Cosine similarity\<close>

fun cosine_sums :: "f32_arith \<Rightarrow> f32 list \<Rightarrow> f32 list \<Rightarrow> f32 \<times> f32 \<times> f32 \<Rightarrow> f32 \<times> f32 \<times> f32" where
  "cosine_sums ga (x # xs) (y # ys) (dot, norm_a, norm_b) =
     cosine_sums ga xs ys
       (ga_add ga dot (ga_mul ga x y), ga_add ga norm_a (ga_mul ga x x), ga_add ga norm_b (ga_mul ga y y))"
| "cosine_sums ga _ _ acc = acc"

definition cosine_similarity :: "f32_arith \<Rightarrow> f32 list \<Rightarrow> f32 list \<Rightarrow> f64" where
  "cosine_similarity ga a b =
     (if length a \<noteq> length b \<or> a = [] then f64_zero
      else (case cosine_sums ga a b (0, 0, 0) of (dot, norm_a, norm_b) \<Rightarrow>
        let denom = ga_mul ga (ga_sqrt ga norm_a) (ga_sqrt ga norm_b) in
        if f32_lt denom f32_1e_12 then f64_zero
        else let result = ga_div ga dot denom in
          if f32_is_nan result then f64_zero else ga_widen ga result))"

section \<open>Components of the score\<close>

definition decay_mass :: "f64_arith \<Rightarrow> f64 \<Rightarrow> datetime option \<Rightarrow> datetime \<Rightarrow> f64 \<Rightarrow> f64" where
  "decay_mass fa mass last_used_at now half_life_hours =
     (case last_used_at of
        None \<Rightarrow> f64_zero
      | Some lu \<Rightarrow>
          let delta_hours = fa_div fa (fa_of_int fa (num_seconds (now - lu))) f64_3600
          in fa_mul fa mass (fa_exp2 fa (fa_div fa (f64_neg (f64_max delta_hours f64_zero)) (f64_max half_life_hours f64_tiny))))"

definition freshness_score :: "f64_arith \<Rightarrow> datetime \<Rightarrow> datetime \<Rightarrow> f64 \<Rightarrow> f64" where
  "freshness_score fa updated_at now half_life_days =
     (let delta_days = fa_div fa (fa_of_int fa (num_seconds (now - updated_at))) f64_86400
      in fa_exp2 fa (fa_div fa (f64_neg (f64_max delta_days f64_zero)) (f64_max half_life_days f64_tiny)))"

definition memory_freshness_score :: "f64_arith \<Rightarrow> memory \<Rightarrow> datetime \<Rightarrow> f64 \<Rightarrow> f64" where
  "memory_freshness_score fa m now half_life_days =
     (case valid_updated_at m now of None \<Rightarrow> f64_zero | Some t \<Rightarrow> freshness_score fa t now half_life_days)"

definition freshness_half_life :: "memory_type \<Rightarrow> search_config \<Rightarrow> f64" where
  "freshness_half_life t config = (case t of
       MemSemantic \<Rightarrow> sc_freshness_half_life_semantic_days config
     | MemEpisodic \<Rightarrow> sc_freshness_half_life_episodic_days config
     | MemProcedural \<Rightarrow> sc_freshness_half_life_procedural_days config)"

definition distance_bounds :: "search_result list \<Rightarrow> (f64 \<times> f64) option" where
  "distance_bounds results =
     fold (\<lambda>d acc. Some (case acc of None \<Rightarrow> (d, d) | Some (mn, mx) \<Rightarrow> (f64_min mn d, f64_max mx d)))
       (List.map_filter sr_distance results) None"

definition normalized_stage_one_score :: "f64_arith \<Rightarrow> f64 option \<Rightarrow> (f64 \<times> f64) option \<Rightarrow> f64" where
  "normalized_stage_one_score fa distance bounds =
     (case (distance, bounds) of
        (Some d, Some (min_dist, max_dist)) \<Rightarrow>
          let span = fa_sub fa max_dist min_dist
          in if f64_le span f64_epsilon then f64_one
             else fa_sub fa f64_one (f64_clamp01 (fa_div fa (fa_sub fa d min_dist) span))
      | _ \<Rightarrow> f64_half)"

definition seed_retrieval_scores :: "f64_arith \<Rightarrow> search_result list \<Rightarrow> search_result list" where
  "seed_retrieval_scores fa results =
     (let bounds = distance_bounds results
      in map (\<lambda>r. if sr_retrieval_score r \<noteq> None then r
                  else r\<lparr>sr_retrieval_score := Some (normalized_stage_one_score fa (sr_distance r) bounds)\<rparr>) results)"

definition query_relevance :: "f64_arith \<Rightarrow> search_result \<Rightarrow> f64 \<Rightarrow> f64" where
  "query_relevance fa r blend_weight =
     (let stage_one = (case sr_retrieval_score r of None \<Rightarrow> f64_zero | Some s \<Rightarrow> s)
      in case sr_reranker_score r of
           None \<Rightarrow> stage_one
         | Some reranker_score \<Rightarrow>
             fa_mul_add fa blend_weight reranker_score (fa_mul fa (fa_sub fa f64_one blend_weight) stage_one))"

section \<open>Composite scoring\<close>

text \<open>The loop body of \<^verbatim>\<open>apply_composite_scoring\<close>: the breakdown, the weighted sum with its two
  penalties, and the update of the result.\<close>

definition breakdown_of :: "f64_arith \<Rightarrow> datetime \<Rightarrow> search_config \<Rightarrow> search_result \<Rightarrow> score_breakdown" where
  "breakdown_of fa now config r =
     (let half_life_hours = f64_max (sc_activity_half_life_hours config) f64_tiny;
          m_sat = f64_max (sc_activity_saturation config) f64_tiny;
          m = sr_memory r;
          decayed_mass = decay_mass fa (m_activity_mass m) (valid_last_used_at m now) now half_life_hours
      in \<lparr>sb_query_relevance = query_relevance fa r (sc_reranker_blend_weight config),
          sb_importance = importance_value (m_importance m),
          sb_freshness = memory_freshness_score fa m now (freshness_half_life (m_memory_type m) config),
          sb_activity = f64_min (fa_div fa (fa_ln_1p fa decayed_mass) (fa_ln_1p fa m_sat)) f64_one,
          sb_confidence = confidence_value (m_confidence m)\<rparr>)"

definition composite_of :: "f64_arith \<Rightarrow> search_config \<Rightarrow> bool \<Rightarrow> score_breakdown \<Rightarrow> f64" where
  "composite_of fa config superseded b =
     (let composite = fa_mul_add fa (sc_relevance_weight config) (sb_query_relevance b)
            (fa_mul_add fa (sc_importance_weight config) (sb_importance b)
              (fa_mul_add fa (sc_freshness_weight config) (sb_freshness b)
                (fa_mul_add fa (sc_activity_weight config) (sb_activity b)
                  (fa_mul fa (sc_confidence_weight config) (sb_confidence b)))));
          composite = (if f64_lt (sb_query_relevance b) (sc_relevance_floor config)
            then fa_mul fa composite (sc_relevance_floor_penalty config) else composite)
      in if superseded then fa_mul fa composite (sc_superseded_penalty config) else composite)"

definition score_result :: "f64_arith \<Rightarrow> datetime \<Rightarrow> search_config \<Rightarrow> search_result \<Rightarrow> search_result" where
  "score_result fa now config r =
     r\<lparr>sr_score_breakdown := Some (breakdown_of fa now config r),
       sr_composite_score := Some (composite_of fa config (m_superseded_by (sr_memory r) \<noteq> None) (breakdown_of fa now config r))\<rparr>"

definition apply_composite_scoring :: "f64_arith \<Rightarrow> search_result list \<Rightarrow> datetime \<Rightarrow> search_config \<Rightarrow> search_result list" where
  "apply_composite_scoring fa results now config =
     (if results = [] then []
      else sort_by (cmp_search_result_score_desc now) (map (score_result fa now config) (seed_retrieval_scores fa results)))"

section \<open>Duplicate suppression\<close>

definition max_similarity ::
  "f32_arith \<Rightarrow> (memory_id \<Rightarrow> f32 list option) \<Rightarrow> search_result list \<Rightarrow> f32 list \<Rightarrow> nat list \<Rightarrow> f64" where
  "max_similarity ga embeddings results emb_i selected =
     fold (\<lambda>j acc. case embeddings (m_id (sr_memory (results ! j))) of
             None \<Rightarrow> acc | Some emb_j \<Rightarrow> f64_max acc (cosine_similarity ga emb_i emb_j)) selected f64_zero"

definition suppress_step ::
  "f64_arith \<Rightarrow> f32_arith \<Rightarrow> (memory_id \<Rightarrow> f32 list option) \<Rightarrow> f64 \<Rightarrow> nat \<Rightarrow> search_result list \<times> nat list \<Rightarrow>
   search_result list \<times> nat list" where
  "suppress_step fa ga embeddings lambda i st = (case st of (results, selected) \<Rightarrow>
     (case embeddings (m_id (sr_memory (results ! i))) of
        None \<Rightarrow> (results, selected @ [i])
      | Some emb_i \<Rightarrow>
          let max_sim = max_similarity ga embeddings results emb_i selected;
              penalty = fa_mul fa (fa_mul fa lambda max_sim) f64_hundred
          in case sr_composite_score (results ! i) of
               Some score \<Rightarrow>
                 let score' = fa_sub fa score penalty;
                     results' = results[i := (results ! i)\<lparr>sr_composite_score := Some score'\<rparr>]
                 in (results', if f64_lt f64_zero score' then selected @ [i] else selected)
             | None \<Rightarrow> (results, selected @ [i])))"

definition suppression_scan ::
  "f64_arith \<Rightarrow> f32_arith \<Rightarrow> (memory_id \<Rightarrow> f32 list option) \<Rightarrow> f64 \<Rightarrow> search_result list \<Rightarrow> search_result list \<times> nat list" where
  "suppression_scan fa ga embeddings lambda results =
     fold (suppress_step fa ga embeddings lambda) [0..<length results] (results, [])"

definition swap_at :: "nat \<Rightarrow> nat \<Rightarrow> 'a list \<Rightarrow> 'a list" where
  "swap_at i j xs = xs[i := xs ! j, j := xs ! i]"

fun compact :: "nat list \<Rightarrow> 'a list \<times> nat \<Rightarrow> 'a list \<times> nat" where
  "compact [] (results, write_pos) = (results, write_pos)"
| "compact (read_pos # rest) (results, write_pos) =
     compact rest (if write_pos \<noteq> read_pos then swap_at write_pos read_pos results else results, Suc write_pos)"

definition apply_duplicate_suppression ::
  "f64_arith \<Rightarrow> f32_arith \<Rightarrow> search_result list \<Rightarrow> (memory_id \<Rightarrow> f32 list option) \<Rightarrow> f64 \<Rightarrow> datetime \<Rightarrow> search_result list" where
  "apply_duplicate_suppression fa ga results embeddings lambda now =
     (if f64_le lambda f64_zero \<or> length results < 2 then results
      else (case suppression_scan fa ga embeddings lambda results of (adjusted, selected_indices) \<Rightarrow>
        (case compact selected_indices (adjusted, 0) of (compacted, write_pos) \<Rightarrow>
           sort_by (cmp_search_result_score_desc now) (take write_pos compacted))))"

section \<open>Scoring as one pass\<close>

text \<open>A result as it is after seeding and scoring.\<close>

definition scored :: "f64_arith \<Rightarrow> datetime \<Rightarrow> search_config \<Rightarrow> (f64 \<times> f64) option \<Rightarrow> search_result \<Rightarrow> search_result" where
  "scored fa now config bounds r =
     score_result fa now config
       (r\<lparr>sr_retrieval_score := Some (case sr_retrieval_score r of Some s \<Rightarrow> s
            | None \<Rightarrow> normalized_stage_one_score fa (sr_distance r) bounds)\<rparr>)"

lemma apply_composite_scoring_alt:
  "apply_composite_scoring fa results now config =
     sort_by (cmp_search_result_score_desc now) (map (scored fa now config (distance_bounds results)) results)"
proof -
  have "(if sr_retrieval_score r \<noteq> None then r
      else r\<lparr>sr_retrieval_score := Some (normalized_stage_one_score fa (sr_distance r) bounds)\<rparr>) =
     r\<lparr>sr_retrieval_score := Some (case sr_retrieval_score r of Some s \<Rightarrow> s
            | None \<Rightarrow> normalized_stage_one_score fa (sr_distance r) bounds)\<rparr>" for r :: search_result and bounds
    by (cases "sr_retrieval_score r"; cases r) simp_all
  then have "map (score_result fa now config) (seed_retrieval_scores fa results) =
      map (scored fa now config (distance_bounds results)) results"
    unfolding seed_retrieval_scores_def Let_def map_map by (intro map_cong refl) (simp only: comp_def scored_def)
  then show ?thesis by (simp add: apply_composite_scoring_def sort_by_def)
qed

section \<open>Suppression selects\<close>

lemma swap_at_simps:
  "length (swap_at i j xs) = length xs"
  "i < length xs \<Longrightarrow> k \<noteq> i \<Longrightarrow> k \<noteq> j \<Longrightarrow> swap_at i j xs ! k = xs ! k"
  "i < length xs \<Longrightarrow> i \<noteq> j \<Longrightarrow> swap_at i j xs ! i = xs ! j"
  by (simp_all add: swap_at_def)

lemma compact_selects:
  assumes "sorted_wrt (<) sel" "\<forall>r \<in> set sel. w \<le> r \<and> r < length xs" "compact sel (xs, w) = (ys, w')"
  shows "w' = w + length sel \<and> take w' ys = take w xs @ map ((!) xs) sel"
  using assms
proof (induction sel arbitrary: xs w)
  case Nil
  then show ?case by simp
next
  case (Cons r rs)
  define xs' where "xs' = (if w \<noteq> r then swap_at w r xs else xs)"
  have w: "w \<le> r" "r < length xs" using Cons.prems(2) by auto
  have len: "length xs' = length xs" by (simp add: xs'_def swap_at_simps)
  have later: "xs' ! k = xs ! k" if "k > r" for k
    using that w by (simp add: xs'_def swap_at_simps)
  have "take w xs' = take w xs"
    using w by (intro nth_equalityI) (simp_all add: xs'_def swap_at_def)
  moreover have "xs' ! w = xs ! r" using w by (simp add: xs'_def swap_at_simps)
  ultimately have first: "take (Suc w) xs' = take w xs @ [xs ! r]"
    using w len by (simp add: take_Suc_conv_app_nth)
  have "\<forall>k \<in> set rs. Suc w \<le> k \<and> k < length xs'" using Cons.prems(1,2) w len by auto
  moreover have "compact rs (xs', Suc w) = (ys, w')" using Cons.prems(3) by (simp add: xs'_def)
  moreover have "sorted_wrt (<) rs" using Cons.prems(1) by simp
  ultimately have "w' = Suc w + length rs \<and> take w' ys = take (Suc w) xs' @ map ((!) xs') rs"
    by (intro Cons.IH)
  moreover have "map ((!) xs') rs = map ((!) xs) rs" using Cons.prems(1) later by auto
  ultimately show ?case using first by auto
qed

text \<open>What the scan has established after the first \<open>n\<close> results.\<close>

definition scan_inv :: "(memory_id \<Rightarrow> f32 list option) \<Rightarrow> search_result list \<Rightarrow> nat \<Rightarrow> search_result list \<times> nat list \<Rightarrow> bool" where
  "scan_inv embeddings results n st = (case st of (rs, sel) \<Rightarrow>
     map sr_memory rs = map sr_memory results \<and> sorted_wrt (<) sel \<and> set sel \<subseteq> {..<n} \<and>
     (\<forall>i < length results. n \<le> i \<longrightarrow> rs ! i = results ! i) \<and>
     (\<forall>i < n. if embeddings (m_id (sr_memory (results ! i))) = None \<or> sr_composite_score (results ! i) = None
        then i \<in> set sel \<and> rs ! i = results ! i
        else \<exists>s. sr_composite_score (rs ! i) = Some s \<and> (i \<in> set sel) = f64_lt f64_zero s))"

lemma suppress_step_inv:
  assumes "scan_inv embeddings results n st" "n < length results"
  shows "scan_inv embeddings results (Suc n) (suppress_step fa ga embeddings lambda n st)"
proof -
  obtain rs sel where st: "st = (rs, sel)" by (cases st)
  have len: "length rs = length results"
    using assms(1) by (auto simp: scan_inv_def st dest: map_eq_imp_length_eq)
  have n: "rs ! n = results ! n" and sel: "sorted_wrt (<) (sel @ [n])" "set sel \<subseteq> {..<Suc n}" "n \<notin> set sel"
    using assms by (auto simp: scan_inv_def st sorted_wrt_append subset_iff less_Suc_eq)
  have upd: "map sr_memory (rs[n := (rs ! n)\<lparr>sr_composite_score := c\<rparr>]) = map sr_memory rs" for c
    using assms(2) len by (intro nth_equalityI) (auto simp: nth_list_update)
  show ?thesis
    using assms sel n len upd
    by (auto simp: scan_inv_def st suppress_step_def Let_def less_Suc_eq nth_list_update sorted_wrt_append
        split: option.split)
qed

lemma suppression_scan_inv:
  "scan_inv embeddings results (length results) (suppression_scan fa ga embeddings lambda results)"
proof -
  have "n \<le> length results \<Longrightarrow>
      scan_inv embeddings results n (fold (suppress_step fa ga embeddings lambda) [0..<n] (results, []))" for n
    by (induction n) (simp_all add: scan_inv_def [of _ _ 0] suppress_step_inv)
  then show ?thesis by (simp add: suppression_scan_def)
qed

lemma apply_duplicate_suppression_alt:
  assumes "suppression_scan fa ga embeddings lambda results = (adjusted, sel)" "\<not> f64_le lambda f64_zero" "2 \<le> length results"
  shows "apply_duplicate_suppression fa ga results embeddings lambda now =
    sort_by (cmp_search_result_score_desc now) (map ((!) adjusted) sel)"
proof -
  have inv: "scan_inv embeddings results (length results) (adjusted, sel)"
    using suppression_scan_inv [of embeddings results fa ga lambda] assms(1) by simp
  then have len: "length adjusted = length results" by (auto simp: scan_inv_def dest: map_eq_imp_length_eq)
  obtain ys w where c: "compact sel (adjusted, 0) = (ys, w)" by (cases "compact sel (adjusted, 0)")
  from compact_selects [OF _ _ c] inv len have "take w ys = map ((!) adjusted) sel"
    by (auto simp: scan_inv_def subset_iff)
  then show ?thesis using assms c by (simp add: apply_duplicate_suppression_def)
qed

section \<open>Suppression is greedy\<close>

text \<open>The specification: the results in order, with the embeddings kept so far. A result with an embedding and a score loses
  \<open>lambda\<close> times its largest similarity to a kept embedding times one hundred, and stays only above zero.\<close>

definition closest :: "f32_arith \<Rightarrow> f32 list \<Rightarrow> f32 list list \<Rightarrow> f64" where
  "closest ga e kept = fold (\<lambda>e' acc. f64_max acc (cosine_similarity ga e e')) kept f64_zero"

fun suppressed ::
  "f64_arith \<Rightarrow> f32_arith \<Rightarrow> (memory_id \<Rightarrow> f32 list option) \<Rightarrow> f64 \<Rightarrow> f32 list list \<Rightarrow> search_result list \<Rightarrow> search_result list" where
  "suppressed fa ga embeddings lambda kept [] = []"
| "suppressed fa ga embeddings lambda kept (r # rs) =
     (case embeddings (m_id (sr_memory r)) of
        None \<Rightarrow> r # suppressed fa ga embeddings lambda kept rs
      | Some e \<Rightarrow>
          (case sr_composite_score r of
             None \<Rightarrow> r # suppressed fa ga embeddings lambda (kept @ [e]) rs
           | Some score \<Rightarrow>
               let score' = fa_sub fa score (fa_mul fa (fa_mul fa lambda (closest ga e kept)) f64_hundred) in
               if f64_lt f64_zero score'
               then r\<lparr>sr_composite_score := Some score'\<rparr> # suppressed fa ga embeddings lambda (kept @ [e]) rs
               else suppressed fa ga embeddings lambda kept rs))"

definition kept_embeddings :: "(memory_id \<Rightarrow> f32 list option) \<Rightarrow> search_result list \<Rightarrow> nat list \<Rightarrow> f32 list list" where
  "kept_embeddings embeddings rs sel = List.map_filter (\<lambda>j. embeddings (m_id (sr_memory (rs ! j)))) sel"

lemma max_similarity_closest: "max_similarity ga embeddings rs e sel = closest ga e (kept_embeddings embeddings rs sel)"
proof -
  have "fold (\<lambda>j acc. case f j of None \<Rightarrow> acc | Some x \<Rightarrow> g x acc) sel a = fold g (List.map_filter f sel) a" for f :: "nat \<Rightarrow> 'a option" and g a
    by (induction sel arbitrary: a) (simp_all split: option.split)
  then show ?thesis by (simp add: max_similarity_def closest_def kept_embeddings_def)
qed

lemma kept_embeddings_simps:
  "kept_embeddings embeddings rs (sel @ [n]) = kept_embeddings embeddings rs sel @ (case embeddings (m_id (sr_memory (rs ! n))) of None \<Rightarrow> [] | Some e \<Rightarrow> [e])"
  "kept_embeddings embeddings (rs[n := (rs ! n)\<lparr>sr_composite_score := c\<rparr>]) sel = kept_embeddings embeddings rs sel"
proof -
  show "kept_embeddings embeddings rs (sel @ [n]) = kept_embeddings embeddings rs sel @ (case embeddings (m_id (sr_memory (rs ! n))) of None \<Rightarrow> [] | Some e \<Rightarrow> [e])"
    unfolding kept_embeddings_def by (induction sel) (simp_all split: option.split)
  have "sr_memory (rs[n := (rs ! n)\<lparr>sr_composite_score := c\<rparr>] ! j) = sr_memory (rs ! j)" for j
    by (cases "n < length rs") (auto simp: nth_list_update list_update_beyond)
  then show "kept_embeddings embeddings (rs[n := (rs ! n)\<lparr>sr_composite_score := c\<rparr>]) sel = kept_embeddings embeddings rs sel"
    by (simp add: kept_embeddings_def)
qed

lemma scan_is_greedy:
  assumes "n + length todo = length rs" "drop n rs = todo" "\<forall>j \<in> set sel. j < n"
    "fold (suppress_step fa ga embeddings lambda) [n..<length rs] (rs, sel) = (rs', sel')"
  shows "map ((!) rs') sel' = map ((!) rs) sel @ suppressed fa ga embeddings lambda (kept_embeddings embeddings rs sel) todo"
  using assms
proof (induction todo arbitrary: n rs sel)
  case Nil
  then show ?case by simp
next
  case (Cons r todo)
  have n: "n < length rs" "[n..<length rs] = n # [Suc n..<length rs]" using Cons.prems(1) by (simp_all add: upt_conv_Cons)
  have r: "rs ! n = r" "drop (Suc n) rs = todo"
    using Cons.prems(2) n(1) by (metis Cons_nth_drop_Suc list.inject)+
  obtain rs1 sel1 where step: "suppress_step fa ga embeddings lambda n (rs, sel) = (rs1, sel1)" by (cases "suppress_step fa ga embeddings lambda n (rs, sel)")
  have rs1: "length rs1 = length rs" "drop (Suc n) rs1 = todo" "\<forall>j \<in> set sel1. j < Suc n" "\<And>j. j < n \<Longrightarrow> rs1 ! j = rs ! j"
    using step Cons.prems(3) r(2)
    by (auto simp: suppress_step_def Let_def less_Suc_eq split: option.splits if_splits)
  then have old: "map ((!) rs1) sel = map ((!) rs) sel" using Cons.prems(3) by auto
  have "map ((!) rs') sel' = map ((!) rs1) sel1 @ suppressed fa ga embeddings lambda (kept_embeddings embeddings rs1 sel1) todo"
    using Cons.prems(1,4) n(2) step rs1 by (intro Cons.IH [of "Suc n"]) simp_all
  moreover have "map ((!) rs1) sel1 @ suppressed fa ga embeddings lambda (kept_embeddings embeddings rs1 sel1) todo =
      map ((!) rs) sel @ suppressed fa ga embeddings lambda (kept_embeddings embeddings rs sel) (r # todo)"
    using step r(1) n(1) old
    by (auto simp: suppress_step_def Let_def max_similarity_closest kept_embeddings_simps split: option.splits if_splits)
  ultimately show ?case by simp
qed

text \<open>Claim C35. Duplicate suppression is the greedy pass it is meant to be: the in-place scan by positions, the compaction
  by swaps and the truncation return exactly the results of the specification, in the order of their new scores. Each
  result in turn loses \<open>lambda\<close> times the largest cosine similarity between its embedding and those of the results kept
  before it times one hundred, and is kept, with that score, only if the score stays above zero; a result without an
  embedding or without a score is kept as it is. With \<open>lambda\<close> not above zero, or fewer than two results, nothing happens.\<close>

theorem suppression_is_greedy:
  "apply_duplicate_suppression fa ga results embeddings lambda now =
    (if f64_le lambda f64_zero \<or> length results < 2 then results
     else sort_by (cmp_search_result_score_desc now) (suppressed fa ga embeddings lambda [] results))"
proof (cases "f64_le lambda f64_zero \<or> length results < 2")
  case False
  obtain adjusted sel where scan: "suppression_scan fa ga embeddings lambda results = (adjusted, sel)"
    by (cases "suppression_scan fa ga embeddings lambda results")
  then have "map ((!) adjusted) sel = suppressed fa ga embeddings lambda [] results"
    using scan_is_greedy [of 0 results results "[]" fa ga embeddings lambda adjusted sel]
    by (simp add: suppression_scan_def kept_embeddings_def)
  then show ?thesis using False apply_duplicate_suppression_alt [OF scan] by simp
qed (simp add: apply_duplicate_suppression_def)

definition sample_arith32 :: f32_arith where
  "sample_arith32 = \<lparr>ga_add = (+), ga_mul = (*), ga_div = (\<lambda>a b. a), ga_sqrt = id, ga_widen = ucast\<rparr>"

end
