(* ===== verification/Union_Find.thy ===== *)
theory Union_Find
  imports Hold_Prelude
begin

text \<open>
  The union-find forest of \<^verbatim>\<open>src/src/consolidation.rs\<close>: \<^verbatim>\<open>uf_find\<close> with path halving and \<^verbatim>\<open>uf_union\<close> by
  rank, on the \<^verbatim>\<open>parent\<close> and \<^verbatim>\<open>rank\<close> slices as lists. \<open>None\<close> is a run that does not return: an index out
  of range (a panic in the program) or a walk that never reaches a root. The lemmas show that on a
  forest neither happens, that find does not change which elements share a root, and that union
  merges exactly two classes. The locale \<open>disjoint_sets\<close> is the interface the clustering uses.
\<close>

section \<open>Find and union\<close>

partial_function (option) uf_find :: "nat list \<Rightarrow> nat \<Rightarrow> (nat list \<times> nat) option" where
  "uf_find parent root =
     (if \<not> root < length parent then None
      else if parent ! root = root then Some (parent, root)
      else if \<not> parent ! root < length parent then None
      else uf_find (parent[root := parent ! (parent ! root)]) (parent ! (parent ! root)))"

declare uf_find.simps [code]

definition uf_union :: "nat list \<Rightarrow> nat list \<Rightarrow> nat \<Rightarrow> nat \<Rightarrow> (nat list \<times> nat list) option" where
  "uf_union parent rank a b =
     (case uf_find parent a of None \<Rightarrow> None | Some (parent, ra) \<Rightarrow>
      (case uf_find parent b of None \<Rightarrow> None | Some (parent, rb) \<Rightarrow>
        if ra = rb then Some (parent, rank)
        else if \<not> (ra < length rank \<and> rb < length rank) then None
        else (case cmp_ord (rank ! ra) (rank ! rb) of
            LessThan \<Rightarrow> Some (parent[ra := rb], rank)
          | GreaterThan \<Rightarrow> Some (parent[rb := ra], rank)
          | EqualTo \<Rightarrow> Some (parent[rb := ra], rank[ra := rank ! ra + 1]))))"

section \<open>Forests\<close>

definition up_edges :: "nat list \<Rightarrow> (nat \<times> nat) set" where
  "up_edges parent = {(i, parent ! i) | i. i < length parent \<and> parent ! i \<noteq> i}"

definition forest :: "nat list \<Rightarrow> bool" where
  "forest parent \<longleftrightarrow> (\<forall>i < length parent. parent ! i < length parent) \<and> acyclic (up_edges parent)"

definition root_of :: "nat list \<Rightarrow> nat \<Rightarrow> nat \<Rightarrow> bool" where
  "root_of parent i r \<longleftrightarrow> (i, r) \<in> (up_edges parent)\<^sup>* \<and> r < length parent \<and> parent ! r = r"

definition same_class :: "nat list \<Rightarrow> nat \<Rightarrow> nat \<Rightarrow> bool" where
  "same_class parent i j \<longleftrightarrow> (\<exists>r. root_of parent i r \<and> root_of parent j r)"

lemma finite_up_edges: "finite (up_edges parent)"
proof -
  have "up_edges parent = (\<lambda>i. (i, parent ! i)) ` {i. i < length parent \<and> parent ! i \<noteq> i}" by (auto simp: up_edges_def)
  then show ?thesis by simp
qed

lemma wf_up_edges: "forest parent \<Longrightarrow> wf ((up_edges parent)\<inverse>)"
  by (simp add: forest_def finite_acyclic_wf_converse finite_up_edges)

lemma up_edges_unique: "(i, j) \<in> up_edges parent \<Longrightarrow> (i, k) \<in> up_edges parent \<Longrightarrow> j = k"
  by (auto simp: up_edges_def)

lemma up_edges_iff: "(i, j) \<in> up_edges parent \<longleftrightarrow> i < length parent \<and> j = parent ! i \<and> j \<noteq> i"
  by (auto simp: up_edges_def)

lemma root_no_edge: "parent ! r = r \<Longrightarrow> (r, k) \<notin> up_edges parent"
  by (auto simp: up_edges_def)

lemma root_of_self: "r < length parent \<Longrightarrow> parent ! r = r \<Longrightarrow> root_of parent r r"
  by (simp add: root_of_def)

lemma root_of_root: "parent ! r = r \<Longrightarrow> root_of parent r s \<Longrightarrow> s = r"
  unfolding root_of_def by (metis converse_rtranclE root_no_edge)

lemma root_of_step: "(i, j) \<in> up_edges parent \<Longrightarrow> root_of parent i r \<longleftrightarrow> root_of parent j r"
proof
  assume e: "(i, j) \<in> up_edges parent" and "root_of parent i r"
  then have "(i, r) \<in> (up_edges parent)\<^sup>*" "r < length parent" "parent ! r = r" by (auto simp: root_of_def)
  moreover have "i \<noteq> r" using e \<open>parent ! r = r\<close> by (auto simp: up_edges_def)
  ultimately show "root_of parent j r"
    using e unfolding root_of_def by (metis converse_rtranclE up_edges_unique)
qed (auto simp: root_of_def intro: converse_rtrancl_into_rtrancl)

lemma root_of_unique: "root_of parent i r \<Longrightarrow> root_of parent i s \<Longrightarrow> r = s"
proof -
  assume r: "root_of parent i r" and s: "root_of parent i s"
  then have "(i, r) \<in> (up_edges parent)\<^sup>*" by (simp add: root_of_def)
  then have "root_of parent r s" using s
    by (induction rule: rtrancl_induct) (simp_all add: root_of_step)
  then show "r = s" using r root_of_root [of parent r s] by (simp add: root_of_def)
qed

lemma root_of_exists:
  assumes "forest parent" "i < length parent"
  shows "\<exists>r. root_of parent i r"
  using wf_up_edges [OF assms(1)] assms(2)
proof (induction i)
  case (less i)
  show ?case
  proof (cases "parent ! i = i")
    case True
    then show ?thesis using less.prems root_of_self by blast
  next
    case False
    then have e: "(i, parent ! i) \<in> up_edges parent" using less.prems by (simp add: up_edges_iff)
    moreover have "parent ! i < length parent" using assms(1) less.prems by (simp add: forest_def)
    ultimately show ?thesis using less.IH [of "parent ! i"] root_of_step [OF e] by blast
  qed
qed

text \<open>Path halving replaces an edge by a path of two, so it keeps the forest and all roots.\<close>

lemma grandparent_path:
  assumes "i < length parent" "parent ! i \<noteq> i" "parent ! i < length parent"
  shows "(i, parent ! (parent ! i)) \<in> (up_edges parent)\<^sup>+"
proof -
  have 1: "(i, parent ! i) \<in> up_edges parent" using assms by (simp add: up_edges_iff)
  show ?thesis
  proof (cases "parent ! (parent ! i) = parent ! i")
    case True
    then show ?thesis using 1 by auto
  next
    case False
    then have "(parent ! i, parent ! (parent ! i)) \<in> up_edges parent" using assms by (simp add: up_edges_iff)
    with 1 show ?thesis by auto
  qed
qed

lemma halve_edges:
  assumes "i < length parent" "parent ! i \<noteq> i" "parent ! i < length parent"
  shows "up_edges (parent[i := parent ! (parent ! i)]) \<subseteq> (up_edges parent)\<^sup>+"
  using assms grandparent_path [OF assms] by (auto simp: up_edges_def nth_list_update)

lemma halve_forest:
  assumes f: "forest parent" and i: "i < length parent" "parent ! i \<noteq> i"
  defines "parent' \<equiv> parent[i := parent ! (parent ! i)]"
  shows "forest parent'" "root_of parent' j r \<longleftrightarrow> root_of parent j r"
proof -
  have p: "parent ! i < length parent" "parent ! (parent ! i) < length parent" using f i by (auto simp: forest_def)
  have sub: "up_edges parent' \<subseteq> (up_edges parent)\<^sup>+" unfolding parent'_def by (rule halve_edges [OF i p(1)])
  then have "acyclic (up_edges parent')"
    using f acyclic_subset [OF _ sub] by (simp add: forest_def acyclic_def)
  then show f': "forest parent'"
    using f p unfolding forest_def parent'_def length_list_update by (metis nth_list_update_eq nth_list_update_neq)
  have gp: "parent ! (parent ! i) \<noteq> i"
  proof
    assume "parent ! (parent ! i) = i"
    then have "(i, parent ! i) \<in> up_edges parent" "(parent ! i, i) \<in> up_edges parent" using i p by (auto simp: up_edges_iff)
    then have "(i, i) \<in> (up_edges parent)\<^sup>+" by auto
    then show False using f by (simp add: forest_def acyclic_def)
  qed
  have imp: "root_of parent j r" if "root_of parent' j r" for j r
  proof -
    have "(j, r) \<in> (up_edges parent)\<^sup>*"
      using that rtrancl_mono [OF sub] by (auto simp: root_of_def)
    moreover have "parent ! r = r" using that gp i by (cases "r = i") (auto simp: root_of_def parent'_def)
    ultimately show ?thesis using that by (simp add: root_of_def parent'_def)
  qed
  show "root_of parent' j r \<longleftrightarrow> root_of parent j r"
  proof
    assume r: "root_of parent j r"
    show "root_of parent' j r"
    proof (cases "j < length parent'")
      case True
      then obtain s where "root_of parent' j s" using root_of_exists [OF f'] by blast
      with imp r show ?thesis using root_of_unique by blast
    next
      case False
      then have "j = r" using r by (auto simp: root_of_def parent'_def up_edges_iff elim: converse_rtranclE)
      with False r show ?thesis by (simp add: root_of_def parent'_def)
    qed
  qed (rule imp)
qed

section \<open>Correctness of the operations\<close>

text \<open>\<open>refines parent parent'\<close>: the same forest up to path lengths.\<close>

definition refines :: "nat list \<Rightarrow> nat list \<Rightarrow> bool" where
  "refines parent parent' \<longleftrightarrow> forest parent' \<and> length parent' = length parent \<and>
     (\<forall>j r. root_of parent' j r \<longleftrightarrow> root_of parent j r)"

lemma uf_find_correct:
  assumes "forest parent" "i < length parent"
  shows "\<exists>parent' r. uf_find parent i = Some (parent', r) \<and> refines parent parent' \<and> root_of parent i r"
  using assms
proof (induction "card {k. (i, k) \<in> (up_edges parent)\<^sup>+}" arbitrary: parent i rule: less_induct)
  case less
  show ?case
  proof (cases "parent ! i = i")
    case True
    then show ?thesis using less.prems root_of_self [of i parent] by (subst uf_find.simps) (simp add: refines_def)
  next
    case False
    let ?p = "parent[i := parent ! (parent ! i)]" and ?g = "parent ! (parent ! i)"
    have b: "parent ! i < length parent" "?g < length parent" using less.prems by (auto simp: forest_def)
    note h = halve_forest [OF less.prems False]
    have ig: "(i, ?g) \<in> (up_edges parent)\<^sup>+" by (rule grandparent_path [OF less.prems(2) False b(1)])
    have fin: "finite {k. (i, k) \<in> (up_edges parent)\<^sup>+}"
      by (rule finite_subset [of _ "snd ` ((up_edges parent)\<^sup>+)"]) (force simp: finite_up_edges)+
    have sub: "(up_edges ?p)\<^sup>+ \<subseteq> (up_edges parent)\<^sup>+"
      using trancl_mono [OF _ halve_edges [OF less.prems(2) False b(1)]] by (auto simp: trancl_id)
    have "{k. (?g, k) \<in> (up_edges ?p)\<^sup>+} \<subseteq> {k. (i, k) \<in> (up_edges parent)\<^sup>+}"
      using sub ig by (auto intro: trancl_trans)
    moreover have "?g \<notin> {k. (?g, k) \<in> (up_edges ?p)\<^sup>+}" using h(1) by (auto simp: forest_def acyclic_def)
    moreover have "?g \<in> {k. (i, k) \<in> (up_edges parent)\<^sup>+}" using ig by simp
    ultimately have "card {k. (?g, k) \<in> (up_edges ?p)\<^sup>+} < card {k. (i, k) \<in> (up_edges parent)\<^sup>+}"
      by (intro psubset_card_mono [OF fin]) blast
    from less.hyps [OF this h(1)] b obtain parent' r
      where r: "uf_find ?p ?g = Some (parent', r)" "refines ?p parent'" "root_of ?p ?g r" by auto
    have "root_of parent i r"
      using r(3) h(2) ig by (simp add: root_of_def) (meson rtrancl_trans trancl_into_rtrancl)
    then show ?thesis using r less.prems False b h(2)
      by (subst uf_find.simps) (simp add: refines_def)
  qed
qed

lemma same_class_refl: "forest parent \<Longrightarrow> i < length parent \<Longrightarrow> same_class parent i i"
  using root_of_exists by (auto simp: same_class_def)

lemma same_class_sym: "same_class parent i j \<Longrightarrow> same_class parent j i"
  by (auto simp: same_class_def)

lemma same_class_sym_iff: "same_class parent i j \<longleftrightarrow> same_class parent j i"
  by (auto simp: same_class_def)

lemma same_class_trans: "same_class parent i j \<Longrightarrow> same_class parent j k \<Longrightarrow> same_class parent i k"
  unfolding same_class_def by (metis root_of_unique)

lemma refines_same_class: "refines parent parent' \<Longrightarrow> same_class parent' i j \<longleftrightarrow> same_class parent i j"
  by (simp add: refines_def same_class_def)

lemma refines_trans: "refines a b \<Longrightarrow> refines b c \<Longrightarrow> refines a c"
  by (simp add: refines_def)

text \<open>Linking a root under another merges their two classes.\<close>

lemma link_forest:
  assumes f: "forest parent" and roots: "root_of parent a ra" "root_of parent b rb" and "ra \<noteq> rb"
  shows "forest (parent[ra := rb]) \<and>
    (\<forall>i s. root_of (parent[ra := rb]) i s \<longleftrightarrow> (\<exists>r. root_of parent i r \<and> s = (if r = ra then rb else r)))"
proof -
  let ?p = "parent[ra := rb]"
  have ra: "ra < length parent" "parent ! ra = ra" and rb: "rb < length parent" "parent ! rb = rb"
    using roots by (auto simp: root_of_def)
  have edges: "up_edges ?p = insert (ra, rb) (up_edges parent)"
    using ra rb assms(4) by (auto simp: up_edges_def nth_list_update split: if_splits)
  have "(rb, ra) \<notin> (up_edges parent)\<^sup>*"
    using assms(4) root_no_edge [OF rb(2)] by (metis converse_rtranclE)
  then have f': "forest ?p"
    using f ra rb by (auto simp: forest_def edges acyclic_insert nth_list_update)
  have fwd: "root_of ?p i (if r = ra then rb else r)" if r: "root_of parent i r" for i r
  proof -
    have "(i, r) \<in> (up_edges ?p)\<^sup>*"
      using r rtrancl_mono [of "up_edges parent" "up_edges ?p"] edges by (auto simp: root_of_def)
    then have "(i, if r = ra then rb else r) \<in> (up_edges ?p)\<^sup>*"
      using edges by (auto intro: rtrancl_into_rtrancl)
    then show ?thesis using r ra rb assms(4) by (auto simp: root_of_def)
  qed
  have "\<exists>r. root_of parent i r \<and> s = (if r = ra then rb else r)" if s: "root_of ?p i s" for i s
  proof (cases "i < length parent")
    case True
    then obtain r where r: "root_of parent i r" using root_of_exists [OF f] by blast
    with fwd [OF r] s show ?thesis using root_of_unique by blast
  next
    case False
    then have "i = s" using s unfolding root_of_def by (metis converse_rtranclE length_list_update up_edges_iff)
    with False s show ?thesis by (simp add: root_of_def)
  qed
  with fwd f' show ?thesis by blast
qed

lemma link_same_class:
  assumes "forest parent" "root_of parent a ra" "root_of parent b rb" "ra \<noteq> rb"
  shows "same_class (parent[ra := rb]) i j \<longleftrightarrow> same_class parent i j \<or>
    same_class parent i a \<and> same_class parent b j \<or> same_class parent i b \<and> same_class parent a j"
proof -
  have lhs: "same_class (parent[ra := rb]) i j \<longleftrightarrow>
      (\<exists>r r'. root_of parent i r \<and> root_of parent j r' \<and> (if r = ra then rb else r) = (if r' = ra then rb else r'))"
    using link_forest [OF assms] unfolding same_class_def by metis
  have in_a: "same_class parent k a \<longleftrightarrow> root_of parent k ra" and in_b: "same_class parent k b \<longleftrightarrow> root_of parent k rb" for k
    using assms(2,3) root_of_unique unfolding same_class_def by blast+
  show ?thesis
    unfolding lhs in_a in_b same_class_sym_iff [of parent b] same_class_sym_iff [of parent a]
    unfolding same_class_def using assms(4) root_of_unique by (smt (verit, best))
qed

definition uf_ok :: "nat \<Rightarrow> nat list \<times> nat list \<Rightarrow> bool" where
  "uf_ok n uf \<longleftrightarrow> forest (fst uf) \<and> length (fst uf) = n \<and> length (snd uf) = n"

lemma uf_union_correct:
  assumes ok: "uf_ok n (parent, rank)" and "a < n" "b < n"
  shows "\<exists>uf. uf_union parent rank a b = Some uf \<and> uf_ok n uf \<and>
    (\<forall>i j. same_class (fst uf) i j \<longleftrightarrow> same_class parent i j \<or>
       same_class parent i a \<and> same_class parent b j \<or> same_class parent i b \<and> same_class parent a j)"
proof -
  let ?merged = "\<lambda>i j. same_class parent i j \<or>
       same_class parent i a \<and> same_class parent b j \<or> same_class parent i b \<and> same_class parent a j"
  have f: "forest parent" "length parent = n" "length rank = n" using ok by (simp_all add: uf_ok_def)
  obtain p1 ra where 1: "uf_find parent a = Some (p1, ra)" "refines parent p1" "root_of parent a ra"
    using uf_find_correct [of parent a] f assms(2) by blast
  then have f1: "forest p1" "length p1 = n" using f by (simp_all add: refines_def)
  obtain p2 rb where 2: "uf_find p1 b = Some (p2, rb)" "refines p1 p2" "root_of p1 b rb"
    using uf_find_correct [of p1 b] f1 assms(3) by blast
  have r: "refines parent p2" using 1(2) 2(2) by (rule refines_trans)
  then have f2: "forest p2" "length p2 = n" using f by (simp_all add: refines_def)
  have roots: "root_of p2 a ra" "root_of p2 b rb" using 1 2 by (auto simp: refines_def)
  have lt: "ra < n" "rb < n" using roots f2 by (auto simp: root_of_def)
  have same: "same_class p2 i j \<longleftrightarrow> same_class parent i j" for i j by (rule refines_same_class [OF r])
  show ?thesis
  proof (cases "ra = rb")
    case True
    then have "same_class parent a b" using roots same by (auto simp: same_class_def)
    then have "same_class parent i a \<and> same_class parent b j \<or> same_class parent i b \<and> same_class parent a j \<Longrightarrow> same_class parent i j" for i j
      by (meson same_class_sym same_class_trans)
    then have "same_class p2 i j \<longleftrightarrow> ?merged i j" for i j unfolding same by blast
    moreover have "uf_union parent rank a b = Some (p2, rank)" using True 1(1) 2(1) by (simp add: uf_union_def)
    moreover have "uf_ok n (p2, rank)" using f f2 by (simp add: uf_ok_def)
    ultimately show ?thesis by (intro exI [of _ "(p2, rank)"] conjI allI) (simp_all only: fst_conv)
  next
    case False
    have ab: "uf_ok n (p2[ra := rb], rank') \<and> (\<forall>i j. same_class (p2[ra := rb]) i j \<longleftrightarrow> ?merged i j)"
      if "length rank' = n" for rank'
      using link_forest [OF f2(1) roots False] link_same_class [OF f2(1) roots False] f2 that
      by (simp add: uf_ok_def same)
    have ba: "uf_ok n (p2[rb := ra], rank') \<and> (\<forall>i j. same_class (p2[rb := ra]) i j \<longleftrightarrow> ?merged i j)"
      if "length rank' = n" for rank'
      using link_forest [OF f2(1) roots(2,1) False [symmetric]] link_same_class [OF f2(1) roots(2,1) False [symmetric]] f2 that
      by (simp add: uf_ok_def same) blast
    show ?thesis
      using False 1(1) 2(1) lt f(3) ab [of rank] ba [of rank] ba [of "rank[ra := rank ! ra + 1]"]
      by (cases "cmp_ord (rank ! ra) (rank ! rb)") (fastforce simp: uf_union_def)+
  qed
qed

section \<open>The interface of the clustering\<close>

lemma connect_insert:
  "(i, j) \<in> (insert (a, b) E \<union> (insert (a, b) E)\<inverse>)\<^sup>* \<longleftrightarrow>
     (let S = (E \<union> E\<inverse>)\<^sup>* in (i, j) \<in> S \<or> (i, a) \<in> S \<and> (b, j) \<in> S \<or> (i, b) \<in> S \<and> (a, j) \<in> S)"
proof -
  let ?R = "E \<union> E\<inverse>"
  have eq: "insert (a, b) E \<union> (insert (a, b) E)\<inverse> = insert (a, b) (insert (b, a) ?R)" by auto
  have sym: "(x, y) \<in> ?R\<^sup>* \<longleftrightarrow> (y, x) \<in> ?R\<^sup>*" for x y
    by (metis converse_Un converse_converse rtrancl_converseI sup_commute)
  show ?thesis
    unfolding eq Let_def rtrancl_insert
    by (auto intro: rtrancl_trans sym [THEN iffD1])
qed

text \<open>A structure over \<open>n\<close> elements that merges classes. Merging along the edges of a graph, one edge at
  a time, keeps the classes equal to the connected components of the edges merged so far.\<close>

locale disjoint_sets =
  fixes ok :: "nat \<Rightarrow> 's \<Rightarrow> bool"
    and same :: "'s \<Rightarrow> nat \<Rightarrow> nat \<Rightarrow> bool"
    and merge :: "'s \<Rightarrow> nat \<Rightarrow> nat \<Rightarrow> 's option"
  assumes merge_classes: "ok n s \<Longrightarrow> a < n \<Longrightarrow> b < n \<Longrightarrow>
    \<exists>s'. merge s a b = Some s' \<and> ok n s' \<and>
      (\<forall>i j. same s' i j \<longleftrightarrow> same s i j \<or> same s i a \<and> same s b j \<or> same s i b \<and> same s a j)"
begin

lemma merge_connects:
  assumes "ok n s" "a < n" "b < n" "\<forall>i < n. \<forall>j < n. same s i j \<longleftrightarrow> (i, j) \<in> (E \<union> E\<inverse>)\<^sup>*"
  shows "\<exists>s'. merge s a b = Some s' \<and> ok n s' \<and>
    (\<forall>i < n. \<forall>j < n. same s' i j \<longleftrightarrow> (i, j) \<in> (insert (a, b) E \<union> (insert (a, b) E)\<inverse>)\<^sup>*)"
  using merge_classes [OF assms(1-3)] assms(2-4) unfolding connect_insert Let_def by auto

end

interpretation uf: disjoint_sets uf_ok "\<lambda>uf. same_class (fst uf)" "\<lambda>uf. uf_union (fst uf) (snd uf)"
proof
  fix n uf a b
  assume "uf_ok n uf" "a < n" "b < n"
  then show "\<exists>uf'. uf_union (fst uf) (snd uf) a b = Some uf' \<and> uf_ok n uf' \<and>
      (\<forall>i j. same_class (fst uf') i j \<longleftrightarrow> same_class (fst uf) i j \<or>
         same_class (fst uf) i a \<and> same_class (fst uf) b j \<or> same_class (fst uf) i b \<and> same_class (fst uf) a j)"
    using uf_union_correct [of n "fst uf" "snd uf" a b] by simp
qed

end
