(* ===== verification/Consolidation.thy ===== *)
theory Consolidation
  imports Scoring Union_Find Context_Types
begin

text \<open>
  Duplicate groups (\<^verbatim>\<open>src/src/consolidation.rs\<close>): the pairs found by the index are the edges of a graph on
  the candidates, and the groups are its connected components with at least two members.
  \<open>None\<close> is a run that does not return a value (a panic or an endless walk in the union-find forest);
  the main theorem excludes it. The enumeration order of the two \<^verbatim>\<open>HashMap\<close>s is the argument
  \<open>hash_order\<close>.
\<close>

record memory_with_embedding =
  me_memory :: memory
  me_embedding :: "f32 list option"
  me_context_ids :: "context_id list"

record duplicate_group =
  dg_representative_id :: memory_id
  dg_member_ids :: "memory_id list"
  dg_similarity :: f64
  dg_member_count :: nat

record neighbor_pair =
  np_id_a :: memory_id
  np_id_b :: memory_id
  np_similarity :: f64

abbreviation candidate_id :: "memory_with_embedding list \<Rightarrow> nat \<Rightarrow> memory_id" where
  "candidate_id memories i \<equiv> m_id (me_memory (memories ! i))"

section \<open>The code\<close>

definition effective_time :: "memory \<Rightarrow> datetime" where
  "effective_time m = (case m_last_used_at m of None \<Rightarrow> m_updated_at m | Some t \<Rightarrow> t)"

definition cmp_duplicate_representative :: "memory \<Rightarrow> memory \<Rightarrow> ordering" where
  "cmp_duplicate_representative a b =
     then_with (then_with (cmp_ord (effective_time a) (effective_time b)) (cmp_ord (m_updated_at a) (m_updated_at b)))
       (cmp_ord (m_id a) (m_id b))"

definition build_duplicate_group :: "memory_with_embedding list \<Rightarrow> nat list \<Rightarrow> f64 \<Rightarrow> duplicate_group option" where
  "build_duplicate_group memories members average_similarity =
     (case max_by (\<lambda>a b. cmp_duplicate_representative (me_memory (memories ! a)) (me_memory (memories ! b))) members of
        None \<Rightarrow> None
      | Some representative_idx \<Rightarrow>
          Some \<lparr>dg_representative_id = candidate_id memories representative_idx,
                dg_member_ids = sort (map (candidate_id memories) members),
                dg_similarity = average_similarity,
                dg_member_count = length members\<rparr>)"

text \<open>\<^verbatim>\<open>id_to_idx\<close>: a later candidate overwrites an earlier one with the same id.\<close>

definition id_to_idx :: "memory_with_embedding list \<Rightarrow> memory_id \<Rightarrow> nat option" where
  "id_to_idx memories = map_of (rev (map (\<lambda>i. (candidate_id memories i, i)) [0..<length memories]))"

type_synonym pair_similarities = "(nat \<times> nat \<times> f64) list"

fun link_pairs ::
  "(memory_id \<Rightarrow> nat option) \<Rightarrow> neighbor_pair list \<Rightarrow> (nat list \<times> nat list) \<times> pair_similarities \<Rightarrow>
   ((nat list \<times> nat list) \<times> pair_similarities) option" where
  "link_pairs idx [] st = Some st"
| "link_pairs idx (p # ps) ((parent, rank), sims) =
     (case idx (np_id_a p) of
        None \<Rightarrow> link_pairs idx ps ((parent, rank), sims)
      | Some i \<Rightarrow>
     (case idx (np_id_b p) of
        None \<Rightarrow> link_pairs idx ps ((parent, rank), sims)
      | Some j \<Rightarrow>
          if i = j then link_pairs idx ps ((parent, rank), sims)
          else (case uf_union parent rank i j of
              None \<Rightarrow> None
            | Some uf \<Rightarrow>
                link_pairs idx ps (uf, sims @ [if i < j then (i, j, np_similarity p) else (j, i, np_similarity p)]))))"

definition push_member :: "nat \<Rightarrow> nat \<Rightarrow> (nat \<times> nat list) list \<Rightarrow> (nat \<times> nat list) list" where
  "push_member root i groups =
     (if root \<in> fst ` set groups then map (\<lambda>(r, ms). if r = root then (r, ms @ [i]) else (r, ms)) groups
      else groups @ [(root, [i])])"

fun collect_members :: "nat list \<Rightarrow> nat list \<Rightarrow> (nat \<times> nat list) list \<Rightarrow> (nat list \<times> (nat \<times> nat list) list) option" where
  "collect_members [] parent groups = Some (parent, groups)"
| "collect_members (i # is) parent groups =
     (case uf_find parent i of None \<Rightarrow> None
      | Some (parent, root) \<Rightarrow> collect_members is parent (push_member root i groups))"

fun sum_similarities ::
  "f64_arith \<Rightarrow> pair_similarities \<Rightarrow> nat list \<Rightarrow> (nat \<Rightarrow> (f64 \<times> u64) option) \<Rightarrow> (nat \<Rightarrow> (f64 \<times> u64) option) option" where
  "sum_similarities fa [] parent totals = Some totals"
| "sum_similarities fa ((i, _, similarity) # rest) parent totals =
     (case uf_find parent i of None \<Rightarrow> None
      | Some (parent, root) \<Rightarrow>
          (case (case totals root of None \<Rightarrow> (f64_zero, 0) | Some t \<Rightarrow> t) of (s, cnt) \<Rightarrow>
             sum_similarities fa rest parent (totals(root \<mapsto> (fa_add fa s similarity, saturating_add cnt 1)))))"

definition average_similarity :: "f64_arith \<Rightarrow> (nat \<Rightarrow> (f64 \<times> u64) option) \<Rightarrow> nat \<Rightarrow> f64" where
  "average_similarity fa totals root =
     (case (case totals root of None \<Rightarrow> (f64_zero, 0) | Some t \<Rightarrow> t) of (s, cnt) \<Rightarrow>
        if cnt > 0 then fa_div fa s (fa_of_int fa (uint cnt)) else f64_zero)"

fun build_groups ::
  "f64_arith \<Rightarrow> memory_with_embedding list \<Rightarrow> (nat \<Rightarrow> (f64 \<times> u64) option) \<Rightarrow> (nat \<times> nat list) list \<Rightarrow> duplicate_group list option" where
  "build_groups fa memories totals [] = Some []"
| "build_groups fa memories totals ((root, members) # rest) =
     (if length members \<ge> 2
      then (case build_duplicate_group memories members (average_similarity fa totals root) of
          None \<Rightarrow> None
        | Some g \<Rightarrow> map_option ((#) g) (build_groups fa memories totals rest))
      else build_groups fa memories totals rest)"

definition cmp_group :: "duplicate_group \<Rightarrow> duplicate_group \<Rightarrow> ordering" where
  "cmp_group a b =
     then_with (then_with (cmp_ord (dg_member_count b) (dg_member_count a)) (f64_total_cmp (dg_similarity b) (dg_similarity a)))
       (cmp_ord (dg_representative_id b) (dg_representative_id a))"

definition find_duplicate_groups_from_pairs ::
  "f64_arith \<Rightarrow> ((nat \<times> nat list) list \<Rightarrow> (nat \<times> nat list) list) \<Rightarrow> memory_with_embedding list \<Rightarrow> neighbor_pair list \<Rightarrow> nat \<Rightarrow>
   duplicate_group list option" where
  "find_duplicate_groups_from_pairs fa hash_order memories pairs max_groups =
     (let n = length memories in
      if n < 2 \<or> pairs = [] then Some []
      else (case link_pairs (id_to_idx memories) pairs (([0..<n], replicate n 0), []) of None \<Rightarrow> None
        | Some ((parent, rank), sims) \<Rightarrow>
       (case collect_members [0..<n] parent [] of None \<Rightarrow> None
        | Some (parent, group_members) \<Rightarrow>
       (case sum_similarities fa sims parent (\<lambda>_. None) of None \<Rightarrow> None
        | Some group_similarities \<Rightarrow>
            map_option (\<lambda>groups. take max_groups (sort_by cmp_group groups))
              (build_groups fa memories group_similarities (hash_order group_members))))))"

section \<open>Clustering\<close>

definition pair_edges :: "(memory_id \<Rightarrow> nat option) \<Rightarrow> neighbor_pair list \<Rightarrow> (nat \<times> nat) set" where
  "pair_edges idx ps = {(i, j). \<exists>p \<in> set ps. idx (np_id_a p) = Some i \<and> idx (np_id_b p) = Some j}"

lemma pair_edges_Cons:
  "pair_edges idx (p # ps) =
     (case (idx (np_id_a p), idx (np_id_b p)) of (Some i, Some j) \<Rightarrow> insert (i, j) (pair_edges idx ps) | _ \<Rightarrow> pair_edges idx ps)"
  by (auto simp: pair_edges_def split: option.splits)

lemma connect_loop: "(i, j) \<in> (insert (a, a) E \<union> (insert (a, a) E)\<inverse>)\<^sup>* \<longleftrightarrow> (i, j) \<in> (E \<union> E\<inverse>)\<^sup>*"
  unfolding connect_insert Let_def by (auto intro: rtrancl_trans)

lemma link_pairs_correct:
  assumes "uf_ok n uf" "\<forall>x i. idx x = Some i \<longrightarrow> i < n" "\<forall>t \<in> set sims. fst t < n"
    "\<forall>i < n. \<forall>j < n. same_class (fst uf) i j \<longleftrightarrow> (i, j) \<in> (E \<union> E\<inverse>)\<^sup>*"
  shows "\<exists>uf' sims'. link_pairs idx ps (uf, sims) = Some (uf', sims') \<and> uf_ok n uf' \<and> (\<forall>t \<in> set sims'. fst t < n) \<and>
    (\<forall>i < n. \<forall>j < n. same_class (fst uf') i j \<longleftrightarrow>
       (i, j) \<in> (E \<union> pair_edges idx ps \<union> (E \<union> pair_edges idx ps)\<inverse>)\<^sup>*)"
  using assms
proof (induction ps arbitrary: uf sims E)
  case Nil
  then show ?case by (simp add: pair_edges_def)
next
  case (Cons p ps)
  obtain parent rank where uf: "uf = (parent, rank)" by (cases uf)
  show ?case
  proof (cases "idx (np_id_a p) = None \<or> idx (np_id_b p) = None")
    case True
    then have "link_pairs idx (p # ps) (uf, sims) = link_pairs idx ps (uf, sims)"
      by (auto simp: uf split: option.split)
    moreover have "pair_edges idx (p # ps) = pair_edges idx ps" using True by (auto simp: pair_edges_Cons split: option.split)
    ultimately show ?thesis using Cons.IH [OF Cons.prems] by presburger
  next
    case False
    then obtain a b where ab: "idx (np_id_a p) = Some a" "idx (np_id_b p) = Some b" by auto
    have lt: "a < n" "b < n" using ab Cons.prems(2) by auto
    have E: "E \<union> pair_edges idx (p # ps) = insert (a, b) E \<union> pair_edges idx ps" using ab by (simp add: pair_edges_Cons)
    show ?thesis
    proof (cases "a = b")
      case True
      have "link_pairs idx (p # ps) (uf, sims) = link_pairs idx ps (uf, sims)" using ab True by (simp add: uf)
      moreover have "\<forall>i < n. \<forall>j < n. same_class (fst uf) i j \<longleftrightarrow> (i, j) \<in> (insert (a, b) E \<union> (insert (a, b) E)\<inverse>)\<^sup>*"
        using Cons.prems(4) unfolding True connect_loop .
      ultimately show ?thesis unfolding E using Cons.IH [OF Cons.prems(1-3)] by presburger
    next
      case False
      obtain uf' where uf': "uf_union parent rank a b = Some uf'" "uf_ok n uf'"
        "\<forall>i < n. \<forall>j < n. same_class (fst uf') i j \<longleftrightarrow> (i, j) \<in> (insert (a, b) E \<union> (insert (a, b) E)\<inverse>)\<^sup>*"
        using uf.merge_connects [OF Cons.prems(1) lt Cons.prems(4)] by (auto simp: uf)
      let ?sims = "sims @ [if a < b then (a, b, np_similarity p) else (b, a, np_similarity p)]"
      have "link_pairs idx (p # ps) (uf, sims) = link_pairs idx ps (uf', ?sims)"
        using ab False uf'(1) by (simp add: uf)
      moreover have "\<forall>t \<in> set ?sims. fst t < n" using Cons.prems(3) lt by auto
      ultimately show ?thesis unfolding E using Cons.IH [OF uf'(2) Cons.prems(2) _ uf'(3), of ?sims] by presburger
    qed
  qed
qed

lemma root_of_initial: "i < n \<Longrightarrow> root_of [0..<n] i r \<longleftrightarrow> r = i"
  using root_of_self [of i "[0..<n]"] root_of_root [of "[0..<n]" i r] by auto

lemma initial_forest: "uf_ok n ([0..<n], replicate n 0)"
proof -
  have "up_edges [0..<n] = {}" by (auto simp: up_edges_def)
  then show ?thesis by (simp add: uf_ok_def forest_def acyclic_def)
qed

text \<open>The groups collected from the first \<open>k\<close> candidates.\<close>

definition groups_inv :: "nat list \<Rightarrow> nat \<Rightarrow> (nat \<times> nat list) list \<Rightarrow> bool" where
  "groups_inv parent k groups \<longleftrightarrow> distinct (map fst groups) \<and>
     (\<forall>(r, ms) \<in> set groups. ms \<noteq> [] \<and> ms = filter (\<lambda>i. root_of parent i r) [0..<k]) \<and>
     (\<forall>i < k. \<forall>r. root_of parent i r \<longrightarrow> r \<in> fst ` set groups)"

lemma push_member_inv:
  assumes "groups_inv parent k groups" "root_of parent k r"
  shows "groups_inv parent (Suc k) (push_member r k groups)"
proof -
  have uniq: "root_of parent k s \<longleftrightarrow> s = r" for s using assms(2) root_of_unique by blast
  show ?thesis
  proof (cases "r \<in> fst ` set groups")
    case True
    have "map fst (push_member r k groups) = map fst groups"
      using True by (auto simp: push_member_def)
    moreover from this have "fst ` set (push_member r k groups) = fst ` set groups" by (metis set_map)
    ultimately show ?thesis
      using assms(1) True uniq
      by (auto simp: groups_inv_def less_Suc_eq) (auto simp: push_member_def split: if_splits)
  next
    case False
    have none: "filter (\<lambda>i. root_of parent i r) [0..<k] = []"
      using assms(1) False by (auto simp: groups_inv_def filter_empty_conv)
    show ?thesis
      using assms(1) False uniq none
      by (auto simp: groups_inv_def push_member_def less_Suc_eq split: if_splits)
  qed
qed

lemma collect_members_correct:
  assumes "forest parent0" "length parent0 = n" "refines parent0 parent" "groups_inv parent0 k groups" "k \<le> n"
  shows "\<exists>parent' groups'. collect_members [k..<n] parent groups = Some (parent', groups') \<and>
    refines parent0 parent' \<and> groups_inv parent0 n groups'"
  using assms(3-5)
proof (induction "n - k" arbitrary: k parent groups)
  case 0
  then show ?case by simp
next
  case (Suc d)
  then have k: "k < n" "[k..<n] = k # [Suc k..<n]" by (simp_all add: upt_conv_Cons)
  have "forest parent" "k < length parent" using Suc.prems(1) k assms(2) by (auto simp: refines_def)
  then obtain p r where f: "uf_find parent k = Some (p, r)" "refines parent p" "root_of parent k r"
    using uf_find_correct by blast
  have "refines parent0 p" "root_of parent0 k r" using Suc.prems(1) f by (auto simp: refines_def)
  then show ?case
    using Suc.hyps(1) [of "Suc k" p "push_member r k groups"] push_member_inv [OF Suc.prems(2)] Suc.hyps(2) k f(1) by simp
qed

lemma sum_similarities_total:
  assumes "forest parent" "\<forall>t \<in> set sims. fst t < length parent"
  shows "\<exists>totals'. sum_similarities fa sims parent totals = Some totals'"
  using assms
proof (induction sims arbitrary: parent totals)
  case Nil
  then show ?case by simp
next
  case (Cons t sims)
  obtain i j s where t: "t = (i, j, s)" by (cases t) auto
  obtain p r where "uf_find parent i = Some (p, r)" "refines parent p"
    using uf_find_correct [of parent i] Cons.prems t by auto
  then show ?case using Cons t by (auto simp: refines_def split: prod.split)
qed

interpretation rep_cmp: comparator cmp_duplicate_representative
proof -
  have "cmp_duplicate_representative = cmp_then (cmp_then (\<lambda>a b. cmp_ord (effective_time a) (effective_time b))
      (\<lambda>a b. cmp_ord (m_updated_at a) (m_updated_at b))) (\<lambda>a b. cmp_ord (m_id a) (m_id b))"
    by (intro ext) (simp add: cmp_duplicate_representative_def cmp_then_def)
  then show "comparator cmp_duplicate_representative"
    using comparator_cmp_then [OF comparator_cmp_then
        [OF comparator_on [OF ord_cmp.comparator_axioms, of effective_time]
          comparator_on [OF ord_cmp.comparator_axioms, of "m_updated_at :: memory \<Rightarrow> _"]]
        comparator_on [OF ord_cmp.comparator_axioms, of "m_id :: memory \<Rightarrow> _"]] by simp
qed

lemma representative_unique:
  assumes "cmp_duplicate_representative a b \<noteq> GreaterThan" "cmp_duplicate_representative b a \<noteq> GreaterThan"
  shows "m_id a = m_id b"
proof -
  have "cmp_duplicate_representative a b = EqualTo"
    using assms rep_cmp.cmp_swap [of b a] by (cases "cmp_duplicate_representative a b") simp_all
  then show ?thesis using ord_cmp.cmp_eq [of "m_id a" "m_id b"] by (simp add: cmp_duplicate_representative_def)
qed

lemma build_duplicate_group_Some:
  assumes "members \<noteq> []"
  shows "\<exists>r \<in> set members. build_duplicate_group memories members avg =
      Some \<lparr>dg_representative_id = candidate_id memories r, dg_member_ids = sort (map (candidate_id memories) members),
        dg_similarity = avg, dg_member_count = length members\<rparr> \<and>
    (\<forall>j \<in> set members. cmp_duplicate_representative (me_memory (memories ! j)) (me_memory (memories ! r)) \<noteq> GreaterThan)"
proof -
  let ?cmp = "\<lambda>a b. cmp_duplicate_representative (me_memory (memories ! a)) (me_memory (memories ! b))"
  have c: "comparator ?cmp" by (rule comparator_on [OF rep_cmp.comparator_axioms])
  obtain r where r: "max_by ?cmp members = Some r" using assms max_by_Nil_iff [of ?cmp members] by fastforce
  from comparator.max_by_max [OF c r] r show ?thesis by (auto simp: build_duplicate_group_def)
qed

definition group_of :: "f64_arith \<Rightarrow> memory_with_embedding list \<Rightarrow> (nat \<Rightarrow> (f64 \<times> u64) option) \<Rightarrow> nat \<times> nat list \<Rightarrow> duplicate_group" where
  "group_of fa memories totals e = the (build_duplicate_group memories (snd e) (average_similarity fa totals (fst e)))"

lemma build_groups_map:
  "build_groups fa memories totals gs = Some (map (group_of fa memories totals) (filter (\<lambda>e. length (snd e) \<ge> 2) gs))"
proof (induction gs)
  case Nil
  then show ?case by simp
next
  case (Cons e gs)
  obtain root members where e: "e = (root, members)" by (cases e)
  show ?case
  proof (cases "length members \<ge> 2")
    case True
    then have "members \<noteq> []" by auto
    then obtain g where "build_duplicate_group memories members (average_similarity fa totals root) = Some g"
      using build_duplicate_group_Some by blast
    then show ?thesis using Cons True by (simp add: e group_of_def)
  next
    case False
    then show ?thesis using Cons by (simp add: e)
  qed
qed

interpretation group_cmp: comparator cmp_group
proof -
  have "cmp_group = cmp_then (cmp_then (\<lambda>a b. cmp_ord (dg_member_count b) (dg_member_count a))
      (\<lambda>a b. f64_total_cmp (dg_similarity b) (dg_similarity a))) (\<lambda>a b. cmp_ord (dg_representative_id b) (dg_representative_id a))"
    by (intro ext) (simp add: cmp_group_def cmp_then_def)
  then show "comparator cmp_group"
    using comparator_cmp_then [OF comparator_cmp_then
        [OF comparator_id_desc [of "dg_member_count :: duplicate_group \<Rightarrow> _"]
          comparator_on [OF comparator_flip [OF f64_cmp.comparator_axioms], of "dg_similarity :: duplicate_group \<Rightarrow> _"]]
        comparator_id_desc [of "dg_representative_id :: duplicate_group \<Rightarrow> _"]] by simp
qed

lemma cmp_group_eq: "cmp_group a b = EqualTo \<Longrightarrow> dg_representative_id a = dg_representative_id b"
  using ord_cmp.cmp_eq [of "dg_representative_id b" "dg_representative_id a"] by (simp add: cmp_group_def)

section \<open>Groups are components\<close>

definition linked :: "memory_with_embedding list \<Rightarrow> neighbor_pair list \<Rightarrow> (nat \<times> nat) set" where
  "linked memories pairs =
     (let E = {(i, j). i < length memories \<and> j < length memories \<and>
                (\<exists>p \<in> set pairs. np_id_a p = candidate_id memories i \<and> np_id_b p = candidate_id memories j)}
      in (E \<union> E\<inverse>)\<^sup>*)"

definition component :: "memory_with_embedding list \<Rightarrow> neighbor_pair list \<Rightarrow> nat \<Rightarrow> nat set" where
  "component memories pairs i = {j. j < length memories \<and> (i, j) \<in> linked memories pairs}"

definition distinct_ids :: "memory_with_embedding list \<Rightarrow> bool" where
  "distinct_ids memories \<longleftrightarrow> distinct (map (m_id \<circ> me_memory) memories)"

lemma distinct_ids_inj: "distinct_ids memories \<Longrightarrow> inj_on (candidate_id memories) {..<length memories}"
  by (auto simp: distinct_ids_def inj_on_def distinct_conv_nth)

lemma id_to_idx_Some:
  assumes "distinct_ids memories"
  shows "id_to_idx memories x = Some i \<longleftrightarrow> i < length memories \<and> candidate_id memories i = x"
proof -
  have "distinct (map fst (rev (map (\<lambda>i. (candidate_id memories i, i)) [0..<length memories])))"
    using distinct_ids_inj [OF assms] by (simp add: rev_map distinct_map comp_def lessThan_atLeast0)
  then show ?thesis by (auto simp: id_to_idx_def)
qed

lemma linked_pair_edges:
  assumes "distinct_ids memories"
  shows "linked memories pairs =
    (pair_edges (id_to_idx memories) pairs \<union> (pair_edges (id_to_idx memories) pairs)\<inverse>)\<^sup>*"
proof -
  have "pair_edges (id_to_idx memories) pairs = {(i, j). i < length memories \<and> j < length memories \<and>
      (\<exists>p \<in> set pairs. np_id_a p = candidate_id memories i \<and> np_id_b p = candidate_id memories j)}"
    unfolding pair_edges_def by (auto simp: id_to_idx_Some [OF assms]) metis+
  then show ?thesis by (simp add: linked_def Let_def)
qed

text \<open>The run up to the collected members: it returns, and the members of each root are a component.\<close>

lemma clustering_correct:
  assumes "distinct_ids memories" "n = length memories"
  shows "\<exists>parent rank sims parent' gs totals.
    link_pairs (id_to_idx memories) pairs (([0..<n], replicate n 0), []) = Some ((parent, rank), sims) \<and>
    collect_members [0..<n] parent [] = Some (parent', gs) \<and>
    sum_similarities fa sims parent' (\<lambda>_. None) = Some totals \<and> groups_inv parent n gs \<and>
    forest parent \<and> length parent = n \<and>
    (\<forall>i < n. \<forall>j < n. same_class parent i j \<longleftrightarrow> (i, j) \<in> linked memories pairs)"
proof -
  let ?E = "pair_edges (id_to_idx memories) pairs"
  have init: "\<forall>i < n. \<forall>j < n. same_class (fst ([0..<n], replicate n 0)) i j \<longleftrightarrow> (i, j) \<in> ({} \<union> {}\<inverse>)\<^sup>*"
    by (auto simp: same_class_def root_of_initial)
  obtain parent rank sims where l: "link_pairs (id_to_idx memories) pairs (([0..<n], replicate n 0), []) = Some ((parent, rank), sims)"
    "uf_ok n (parent, rank)" "\<forall>t \<in> set sims. fst t < n"
    "\<forall>i < n. \<forall>j < n. same_class parent i j \<longleftrightarrow> (i, j) \<in> ({} \<union> ?E \<union> ({} \<union> ?E)\<inverse>)\<^sup>*"
    using link_pairs_correct [OF initial_forest _ _ init, of "id_to_idx memories" "[]" pairs] id_to_idx_Some [OF assms(1)] assms(2)
    by fastforce
  have f: "forest parent" "length parent = n" using l(2) by (simp_all add: uf_ok_def)
  have "refines parent parent" using f by (simp add: refines_def)
  moreover have "groups_inv parent 0 []" by (simp add: groups_inv_def)
  ultimately obtain parent' gs where c: "collect_members [0..<n] parent [] = Some (parent', gs)"
    "refines parent parent'" "groups_inv parent n gs"
    using collect_members_correct [OF f, of parent 0 "[]"] by blast
  have "\<exists>totals. sum_similarities fa sims parent' (\<lambda>_. None) = Some totals"
    using c(2) f l(3) by (intro sum_similarities_total) (simp_all add: refines_def)
  with l c f show ?thesis unfolding linked_pair_edges [OF assms(1)] by auto
qed

text \<open>The entries with at least two members are the components with at least two members, each once.\<close>

lemma group_members_component:
  assumes "groups_inv parent n gs" "(r, ms) \<in> set gs" "i \<in> set ms" "n = length memories"
    "\<forall>i < n. \<forall>j < n. same_class parent i j \<longleftrightarrow> (i, j) \<in> linked memories pairs"
  shows "set ms = component memories pairs i \<and> i < n"
proof -
  have ms: "ms = filter (\<lambda>i. root_of parent i r) [0..<n]" using assms(1,2) by (auto simp: groups_inv_def)
  have i: "i < n" "root_of parent i r" using assms(3) by (auto simp: ms)
  have "same_class parent i j \<longleftrightarrow> root_of parent j r" for j
    using i(2) root_of_unique unfolding same_class_def by blast
  then show ?thesis using i(1) assms(4,5) by (auto simp: ms component_def)
qed

definition big_components :: "memory_with_embedding list \<Rightarrow> neighbor_pair list \<Rightarrow> nat set set" where
  "big_components memories pairs = {component memories pairs i | i. i < length memories \<and> 2 \<le> card (component memories pairs i)}"

lemma entries_are_components:
  assumes inv: "groups_inv parent n gs" and n: "n = length memories" and f: "forest parent" "length parent = n"
    and same: "\<forall>i < n. \<forall>j < n. same_class parent i j \<longleftrightarrow> (i, j) \<in> linked memories pairs"
  defines "big \<equiv> filter (\<lambda>e. length (snd e) \<ge> 2) gs"
  shows "inj_on (set \<circ> snd) (set gs)" "distinct big" "(set \<circ> snd) ` set big = big_components memories pairs"
    "\<forall>e \<in> set gs. distinct (snd e) \<and> snd e \<noteq> []"
proof -
  have ms: "ms = filter (\<lambda>i. root_of parent i r) [0..<n]" "ms \<noteq> []" if "(r, ms) \<in> set gs" for r ms
    using inv that by (auto simp: groups_inv_def)
  show d: "\<forall>e \<in> set gs. distinct (snd e) \<and> snd e \<noteq> []" using ms by (metis distinct_filter distinct_upt prod.collapse)
  have dg: "distinct (map fst gs)" using inv by (simp add: groups_inv_def)
  then show "distinct big" unfolding big_def by (simp add: distinct_map)
  show "inj_on (set \<circ> snd) (set gs)"
  proof (rule inj_onI)
    fix e e' assume e: "e \<in> set gs" "e' \<in> set gs" "(set \<circ> snd) e = (set \<circ> snd) e'"
    then obtain i where "i \<in> set (snd e)" "i \<in> set (snd e')" using d by fastforce
    then have "root_of parent i (fst e)" "root_of parent i (fst e')"
      using ms(1) [of "fst e" "snd e"] ms(1) [of "fst e'" "snd e'"] e(1,2) by auto
    then have "fst e = fst e'" by (rule root_of_unique)
    with dg e(1,2) show "e = e'" by (auto simp: distinct_map dest: inj_onD)
  qed
  show "(set \<circ> snd) ` set big = big_components memories pairs"
  proof (intro equalityI subsetI)
    fix c assume "c \<in> (set \<circ> snd) ` set big"
    then obtain e where e: "e \<in> set gs" "2 \<le> length (snd e)" "c = set (snd e)" by (auto simp: big_def)
    then obtain i where "i \<in> set (snd e)" using d by fastforce
    with group_members_component [OF inv _ _ n same, of "fst e" "snd e" i] e d
    show "c \<in> big_components memories pairs" using n unfolding big_components_def
      by (auto simp: distinct_card intro!: exI [of _ i]) (metis distinct_card)
  next
    fix c assume "c \<in> big_components memories pairs"
    then obtain i where i: "i < n" "c = component memories pairs i" "2 \<le> card c" by (auto simp: big_components_def n)
    obtain r where r: "root_of parent i r" using root_of_exists [OF f(1)] i(1) f(2) by blast
    then have "r \<in> fst ` set gs" using inv i(1) by (simp add: groups_inv_def)
    then obtain ms' where e: "(r, ms') \<in> set gs" by auto
    then have "i \<in> set ms'" using r i(1) by (subst ms(1) [OF e]) simp
    from group_members_component [OF inv e this n same] have "set ms' = c" using i(2) by simp
    moreover have "2 \<le> length ms'" using calculation i(3) card_length [of ms'] by simp
    ultimately show "c \<in> (set \<circ> snd) ` set big" using e by (force simp: big_def)
  qed
qed

text \<open>\<open>g\<close> reports the component \<open>c\<close>: its ids in order, its size, and a member that is not older than any
  other as representative.\<close>

definition reports :: "memory_with_embedding list \<Rightarrow> nat set \<Rightarrow> duplicate_group \<Rightarrow> bool" where
  "reports memories c g \<longleftrightarrow> sorted (dg_member_ids g) \<and> distinct (dg_member_ids g) \<and>
     set (dg_member_ids g) = candidate_id memories ` c \<and> dg_member_count g = card c \<and>
     (\<exists>r \<in> c. dg_representative_id g = candidate_id memories r \<and>
        (\<forall>j \<in> c. cmp_duplicate_representative (me_memory (memories ! j)) (me_memory (memories ! r)) \<noteq> GreaterThan))"

lemma group_of_reports:
  assumes "distinct_ids memories" "distinct (snd e)" "snd e \<noteq> []" "set (snd e) \<subseteq> {..<length memories}"
  shows "reports memories (set (snd e)) (group_of fa memories totals e)"
proof -
  have "inj_on (candidate_id memories) (set (snd e))"
    using distinct_ids_inj [OF assms(1)] assms(4) by (rule inj_on_subset)
  moreover obtain r where "r \<in> set (snd e)"
    "build_duplicate_group memories (snd e) (average_similarity fa totals (fst e)) =
      Some \<lparr>dg_representative_id = candidate_id memories r, dg_member_ids = sort (map (candidate_id memories) (snd e)),
        dg_similarity = average_similarity fa totals (fst e), dg_member_count = length (snd e)\<rparr>"
    "\<forall>j \<in> set (snd e). cmp_duplicate_representative (me_memory (memories ! j)) (me_memory (memories ! r)) \<noteq> GreaterThan"
    using build_duplicate_group_Some [OF assms(3)] by blast
  ultimately show ?thesis
    using assms(2) by (auto simp: reports_def group_of_def distinct_map distinct_card)
qed

lemma representatives_distinct:
  assumes ids: "distinct_ids memories" and gs: "inj_on (set \<circ> snd) (set gs)" "distinct gs"
    and disj: "\<And>e e' i. e \<in> set gs \<Longrightarrow> e' \<in> set gs \<Longrightarrow> i \<in> set (snd e) \<Longrightarrow> i \<in> set (snd e') \<Longrightarrow> set (snd e) = set (snd e')"
    and rep: "\<And>e. e \<in> set gs \<Longrightarrow> set (snd e) \<subseteq> {..<length memories} \<and> reports memories (set (snd e)) (group_of fa memories totals e)"
  shows "distinct (map dg_representative_id (map (group_of fa memories totals) gs))"
  unfolding map_map distinct_map
proof (intro conjI gs(2) inj_onI)
  fix e e' assume e: "e \<in> set gs" "e' \<in> set gs"
    and eq: "(dg_representative_id \<circ> group_of fa memories totals) e = (dg_representative_id \<circ> group_of fa memories totals) e'"
  obtain r r' where r: "r \<in> set (snd e)" "r' \<in> set (snd e')" "candidate_id memories r = candidate_id memories r'"
    using rep [OF e(1)] rep [OF e(2)] eq by (auto simp: reports_def)
  then have "r = r'" using distinct_ids_inj [OF ids] rep [OF e(1)] rep [OF e(2)] by (auto dest: inj_onD)
  then have "(set \<circ> snd) e = (set \<circ> snd) e'" using r disj [OF e] by simp
  then show "e = e'" using inj_onD [OF gs(1)] e by blast
qed

lemma no_big_component:
  assumes "length memories < 2 \<or> pairs = []"
  shows "big_components memories pairs = {}"
proof -
  have "card (component memories pairs i) < 2" for i
  proof (cases "pairs = []")
    case True
    then have "component memories pairs i \<subseteq> {i}" by (auto simp: component_def linked_def)
    then show ?thesis using card_mono [of "{i}" "component memories pairs i"] by simp
  next
    case False
    have "component memories pairs i \<subseteq> {..<length memories}" by (auto simp: component_def)
    then have "card (component memories pairs i) \<le> length memories"
      using card_mono [of "{..<length memories}" "component memories pairs i"] by simp
    then show ?thesis using False assms by simp
  qed
  then show ?thesis by (auto simp: big_components_def not_le [symmetric])
qed

lemma sort_groups_unique:
  assumes "distinct (map dg_representative_id xs)" "mset ys = mset xs"
  shows "sort_by cmp_group ys = sort_by cmp_group xs"
proof (rule group_cmp.sort_by_unique_on [OF assms(2)])
  have "inj_on dg_representative_id (set ys)" using assms by (metis distinct_map set_mset_mset)
  then show "\<forall>a \<in> set ys. \<forall>b \<in> set ys. cmp_group a b = EqualTo \<longrightarrow> a = b"
    using cmp_group_eq by (auto dest: inj_onD)
qed

lemma duplicate_groups_run:
  assumes ids: "distinct_ids memories" and run: "\<not> (length memories < 2 \<or> pairs = [])"
  shows "\<exists>all. (\<forall>h. (\<forall>xs. mset (h xs) = mset xs) \<longrightarrow>
      find_duplicate_groups_from_pairs fa h memories pairs max_groups = Some (take max_groups (sort_by cmp_group all))) \<and>
    distinct (map dg_representative_id all) \<and> length all = card (big_components memories pairs) \<and>
    (\<forall>g \<in> set all. \<exists>c \<in> big_components memories pairs. reports memories c g)"
proof -
  define n where "n = length memories"
  obtain parent rank sims parent' gs totals where steps:
    "link_pairs (id_to_idx memories) pairs (([0..<n], replicate n 0), []) = Some ((parent, rank), sims)"
    "collect_members [0..<n] parent [] = Some (parent', gs)" "sum_similarities fa sims parent' (\<lambda>_. None) = Some totals"
    and inv: "groups_inv parent n gs" and f: "forest parent" "length parent = n"
    and same: "\<forall>i < n. \<forall>j < n. same_class parent i j \<longleftrightarrow> (i, j) \<in> linked memories pairs"
    using clustering_correct [OF ids n_def, of pairs fa] by blast
  define big where "big = filter (\<lambda>e. length (snd e) \<ge> 2) gs"
  note comp = entries_are_components [OF inv n_def f same, folded big_def]
  have big: "set big \<subseteq> set gs" by (auto simp: big_def)
  define all where "all = map (group_of fa memories totals) big"
  have members: "set (snd e) = component memories pairs i \<and> i < n" if "e \<in> set big" "i \<in> set (snd e)" for e i
    using group_members_component [OF inv _ that(2) n_def same, of "fst e"] that(1) big by auto
  have rep: "set (snd e) \<subseteq> {..<length memories} \<and> reports memories (set (snd e)) (group_of fa memories totals e)" if "e \<in> set big" for e
    using members [OF that] comp(4) big that group_of_reports [OF ids, of e] n_def by blast
  have disj: "set (snd e) = set (snd e')" if "e \<in> set big" "e' \<in> set big" "i \<in> set (snd e)" "i \<in> set (snd e')" for e e' i
    using that members by blast
  note inj = inj_on_subset [OF comp(1) big]
  have dist: "distinct (map dg_representative_id all)"
    unfolding all_def by (rule representatives_distinct [OF ids inj comp(2) disj rep])
  moreover have "find_duplicate_groups_from_pairs fa h memories pairs max_groups = Some (take max_groups (sort_by cmp_group all))"
    if h: "\<forall>xs. mset (h xs) = mset xs" for h
  proof -
    have "mset (map (group_of fa memories totals) (filter (\<lambda>e. length (snd e) \<ge> 2) (h gs))) = mset all"
      using h by (simp add: all_def big_def)
    from sort_groups_unique [OF dist this] show ?thesis using run steps
      by (simp add: find_duplicate_groups_from_pairs_def Let_def build_groups_map n_def)
  qed
  moreover have "length all = card (big_components memories pairs)"
    using distinct_card [OF comp(2)] card_image [OF inj] comp(3) by (simp add: all_def)
  moreover have "\<forall>g \<in> set all. \<exists>c \<in> big_components memories pairs. reports memories c g"
    unfolding all_def set_map comp(3) [symmetric] using rep by auto
  ultimately show ?thesis by blast
qed

lemma duplicate_groups_found:
  assumes "distinct_ids memories" "\<forall>xs. mset (hash_order xs) = mset xs"
  shows "\<exists>groups. find_duplicate_groups_from_pairs fa hash_order memories pairs max_groups = Some groups \<and>
    find_duplicate_groups_from_pairs fa id memories pairs max_groups = Some groups \<and>
    (\<forall>g \<in> set groups. \<exists>c \<in> big_components memories pairs. reports memories c g) \<and>
    distinct (map dg_representative_id groups) \<and>
    length groups = min max_groups (card (big_components memories pairs)) \<and>
    sorted_wrt (\<lambda>a b. cmp_group a b \<noteq> GreaterThan) groups"
proof (cases "length memories < 2 \<or> pairs = []")
  case True
  then show ?thesis by (simp add: find_duplicate_groups_from_pairs_def Let_def no_big_component)
next
  case False
  obtain all where all: "\<And>h. (\<forall>xs. mset (h xs) = mset xs) \<Longrightarrow>
      find_duplicate_groups_from_pairs fa h memories pairs max_groups = Some (take max_groups (sort_by cmp_group all))"
    "distinct (map dg_representative_id all)" "length all = card (big_components memories pairs)"
    "\<forall>g \<in> set all. \<exists>c \<in> big_components memories pairs. reports memories c g"
    using duplicate_groups_run [OF assms(1) False, of fa max_groups] by blast
  have "distinct (map dg_representative_id (sort_by cmp_group all))" using all(2) by (simp add: distinct_map)
  then have "distinct (map dg_representative_id (take max_groups (sort_by cmp_group all)))"
    unfolding take_map [symmetric] by (rule distinct_take)
  moreover have "sorted_wrt (\<lambda>a b. cmp_group a b \<noteq> GreaterThan) (take max_groups (sort_by cmp_group all))"
    by (intro sorted_wrt_take group_cmp.sorted_sort_by)
  moreover have "\<forall>g \<in> set (take max_groups (sort_by cmp_group all)). \<exists>c \<in> big_components memories pairs. reports memories c g"
    using all(4) by (auto dest: in_set_takeD)
  ultimately show ?thesis using all(1) [OF assms(2)] all(1) [of id] all(3)
    by (intro exI [of _ "take max_groups (sort_by cmp_group all)"]) (simp add: min.commute)
qed

text \<open>Claim C36. Consolidation reports connected components. For candidates with distinct ids the run
  always returns, and returns the same for every hash order. Its groups are the connected components
  with at least two members of the graph the pairs span, as many as the limit admits, largest first,
  each component at most once; a group lists exactly the component's ids, in order and without
  repetition, and its representative is a member that no other member outranks by last use, update
  time and id.\<close>

theorem duplicate_groups_are_components:
  assumes "distinct_ids memories" "\<forall>xs. mset (hash_order xs) = mset xs"
  shows "\<exists>groups. find_duplicate_groups_from_pairs fa hash_order memories pairs max_groups = Some groups \<and>
    find_duplicate_groups_from_pairs fa id memories pairs max_groups = Some groups \<and>
    (\<forall>g \<in> set groups. \<exists>c \<in> big_components memories pairs. reports memories c g) \<and>
    distinct (map dg_representative_id groups) \<and>
    length groups = min max_groups (card (big_components memories pairs)) \<and>
    sorted_wrt (\<lambda>a b. cmp_group a b \<noteq> GreaterThan) groups"
  by (rule duplicate_groups_found [OF assms])

definition sample_candidate :: "memory_id \<Rightarrow> memory_with_embedding" where
  "sample_candidate i = \<lparr>me_memory = sample_memory\<lparr>m_id := i\<rparr>, me_embedding = None, me_context_ids = []\<rparr>"

theorem duplicate_groups_are_components_witness:
  "\<exists>groups. find_duplicate_groups_from_pairs sample_arith rev [sample_candidate 1, sample_candidate 2, sample_candidate 3]
      [\<lparr>np_id_a = 1, np_id_b = 2, np_similarity = f64_one\<rparr>, \<lparr>np_id_a = 9, np_id_b = 3, np_similarity = f64_one\<rparr>] 5 = Some groups \<and>
    distinct (map dg_representative_id groups)"
proof -
  have "distinct_ids [sample_candidate 1, sample_candidate 2, sample_candidate 3]"
    by (simp add: distinct_ids_def sample_candidate_def)
  from duplicate_groups_are_components [OF this, of rev] show ?thesis by (simp, blast)
qed

end
