(* ===== verification/Background_Tasks.thy ===== *)
theory Background_Tasks
  imports Hold_Prelude
begin

text \<open>
  Admission and shutdown of background work (\<^verbatim>\<open>src/src/background_tasks.rs\<close>) as interleaved atomic steps.

  \<^item> \<open>background_tasks\<close> is the shared structure: three flags, the admission counter (a wrapping 64-bit
    \<^verbatim>\<open>usize\<close>) and the task set behind its lock. \<open>spawn_best_effort\<close> and \<open>spawn_admitted\<close> run under that
    lock and are atomic.
  \<^item> \<open>guard_pc\<close> is where a caller stands inside \<^verbatim>\<open>begin_embed_admission\<close> or inside the \<^verbatim>\<open>Drop\<close> of its
    \<^verbatim>\<open>EmbedAdmission\<close>; \<open>guard_step\<close> is its next access to an atomic. \<open>shutdown_pc\<close> and \<open>shutdown_step\<close> are
    the same for \<^verbatim>\<open>shutdown_with_cleanup\<close>. Shutdown calls do not overlap; any number of admissions may.
  \<^item> \<open>act\<close> performs one action of one participant, \<open>run\<close> a schedule. Accesses are sequentially
    consistent, an assumption beyond the acquire and release orderings of the code. A \<^verbatim>\<open>Notified\<close> future is registered when it is created, as tokio documents;
    \<open>waiter_notified\<close> says whether it has been woken since.
\<close>

section \<open>The shared structure\<close>

datatype background_task_kind = TaskEmbed | TaskAccessTracking

record bg_task =
  task_kind :: background_task_kind
  task_completed :: bool

record background_tasks =
  shutting_down :: bool
  admitted_spawns_closed :: bool
  reset_after_admission_timeout :: bool
  embed_admissions :: u64
  tasks :: "bg_task list"

definition new_with_clock :: background_tasks where
  "new_with_clock = \<lparr>shutting_down = False, admitted_spawns_closed = False, reset_after_admission_timeout = False,
     embed_admissions = 0, tasks = []\<rparr>"

definition is_shutting_down :: "background_tasks \<Rightarrow> bool" where
  "is_shutting_down b = shutting_down b"

definition reap_completed_tasks_locked :: "bg_task list \<Rightarrow> bg_task list \<times> nat" where
  "reap_completed_tasks_locked ts = (filter (\<lambda>t. \<not> task_completed t) ts, length (filter task_completed ts))"

definition spawn_best_effort :: "background_task_kind \<Rightarrow> background_tasks \<Rightarrow> background_tasks \<times> bool" where
  "spawn_best_effort kind b =
     (let ts = fst (reap_completed_tasks_locked (tasks b)) in
      if is_shutting_down b then (b\<lparr>tasks := ts\<rparr>, False)
      else (b\<lparr>tasks := ts @ [\<lparr>task_kind = kind, task_completed = False\<rparr>]\<rparr>, True))"

definition spawn_admitted :: "background_task_kind \<Rightarrow> background_tasks \<Rightarrow> background_tasks \<times> bool" where
  "spawn_admitted kind b =
     (if admitted_spawns_closed b then (b, False)
      else (b\<lparr>tasks := fst (reap_completed_tasks_locked (tasks b)) @ [\<lparr>task_kind = kind, task_completed = False\<rparr>]\<rparr>, True))"

section \<open>Admissions, step by step\<close>

text \<open>\<open>Entering\<close> to \<open>Rejecting\<close> are inside \<^verbatim>\<open>begin_embed_admission\<close>, \<open>Held\<close> owns a guard, \<open>LastDrop\<close> to
  \<open>Notifying\<close> are inside its \<^verbatim>\<open>Drop\<close> after the count fell to zero; a rejected caller notifies too.\<close>

datatype guard_pc = Entering | Checked | Counted | Rejecting | Held | LastDrop | ClearClosed | ClearShutting | Notifying | Finished

record bg_sys =
  bg :: background_tasks
  guards :: "guard_pc list"
  waiter_notified :: bool

definition begin_embed_admission :: "guard_pc \<Rightarrow> background_tasks \<Rightarrow> guard_pc \<times> background_tasks" where
  "begin_embed_admission g b = (case g of
       Entering \<Rightarrow> (if is_shutting_down b then Finished else Checked, b)
     | Checked \<Rightarrow> (Counted, b\<lparr>embed_admissions := embed_admissions b + 1\<rparr>)
     | Counted \<Rightarrow> (if is_shutting_down b then Rejecting else Held, b)
     | Rejecting \<Rightarrow>
         (if embed_admissions b = 1 then Notifying else Finished, b\<lparr>embed_admissions := embed_admissions b - 1\<rparr>)
     | _ \<Rightarrow> (g, b))"

definition embed_admission_drop :: "guard_pc \<Rightarrow> background_tasks \<Rightarrow> guard_pc \<times> background_tasks" where
  "embed_admission_drop g b = (case g of
       Held \<Rightarrow>
         (if embed_admissions b = 1 then LastDrop else Finished, b\<lparr>embed_admissions := embed_admissions b - 1\<rparr>)
     | LastDrop \<Rightarrow>
         (if reset_after_admission_timeout b then ClearClosed else Notifying, b\<lparr>reset_after_admission_timeout := False\<rparr>)
     | ClearClosed \<Rightarrow> (ClearShutting, b\<lparr>admitted_spawns_closed := False\<rparr>)
     | ClearShutting \<Rightarrow> (Notifying, b\<lparr>shutting_down := False\<rparr>)
     | _ \<Rightarrow> (g, b))"

definition guard_step :: "guard_pc \<Rightarrow> background_tasks \<Rightarrow> guard_pc \<times> background_tasks" where
  "guard_step g b =
     (if g \<in> {Entering, Checked, Counted, Rejecting} then begin_embed_admission g b
      else if g = Notifying then (Finished, b)
      else embed_admission_drop g b)"

lemma guard_step_simps [simp]:
  "guard_step Entering b = (if is_shutting_down b then Finished else Checked, b)"
  "guard_step Checked b = (Counted, b\<lparr>embed_admissions := embed_admissions b + 1\<rparr>)"
  "guard_step Counted b = (if is_shutting_down b then Rejecting else Held, b)"
  "guard_step Rejecting b =
     (if embed_admissions b = 1 then Notifying else Finished, b\<lparr>embed_admissions := embed_admissions b - 1\<rparr>)"
  "guard_step Held b =
     (if embed_admissions b = 1 then LastDrop else Finished, b\<lparr>embed_admissions := embed_admissions b - 1\<rparr>)"
  "guard_step LastDrop b =
     (if reset_after_admission_timeout b then ClearClosed else Notifying, b\<lparr>reset_after_admission_timeout := False\<rparr>)"
  "guard_step ClearClosed b = (ClearShutting, b\<lparr>admitted_spawns_closed := False\<rparr>)"
  "guard_step ClearShutting b = (Notifying, b\<lparr>shutting_down := False\<rparr>)"
  "guard_step Notifying b = (Finished, b)"
  "guard_step Finished b = (Finished, b)"
  by (simp_all add: guard_step_def begin_embed_admission_def embed_admission_drop_def)

section \<open>Shutdown, step by step\<close>

datatype shutdown_pc = NoShutdown | Register | LoadCount | Sleeping | CloseSpawns | ArmReset | TakeTasks bool | Joining | Reopen | EndShutdown

record shutdown_sys = bg_sys +
  shut :: shutdown_pc
  taken :: "bg_task list"

fun remove_completed :: "bg_task list \<Rightarrow> bg_task list option" where
  "remove_completed [] = None"
| "remove_completed (t # ts) = (if task_completed t then Some ts else map_option ((#) t) (remove_completed ts))"

text \<open>\<open>None\<close> where the call waits: on the notification, or on a task that has not completed.\<close>

definition wait_for_embed_admissions_until :: "shutdown_sys \<Rightarrow> shutdown_sys option" where
  "wait_for_embed_admissions_until s = (case shut s of
       Register \<Rightarrow> Some (s\<lparr>waiter_notified := False, shut := LoadCount\<rparr>)
     | LoadCount \<Rightarrow> Some (s\<lparr>shut := (if embed_admissions (bg s) = 0 then TakeTasks True else Sleeping)\<rparr>)
     | Sleeping \<Rightarrow> if waiter_notified s then Some (s\<lparr>shut := Register\<rparr>) else None
     | _ \<Rightarrow> None)"

definition shutdown_step :: "shutdown_sys \<Rightarrow> shutdown_sys option" where
  "shutdown_step s = (case shut s of
       NoShutdown \<Rightarrow> Some (s\<lparr>bg := (bg s)\<lparr>shutting_down := True\<rparr>, shut := Register\<rparr>)
     | Register \<Rightarrow> wait_for_embed_admissions_until s
     | LoadCount \<Rightarrow> wait_for_embed_admissions_until s
     | Sleeping \<Rightarrow> wait_for_embed_admissions_until s
     | CloseSpawns \<Rightarrow> Some (s\<lparr>bg := (bg s)\<lparr>admitted_spawns_closed := True\<rparr>, shut := ArmReset\<rparr>)
     | ArmReset \<Rightarrow> Some (s\<lparr>bg := (bg s)\<lparr>reset_after_admission_timeout := True\<rparr>, shut := TakeTasks False\<rparr>)
     | TakeTasks drained \<Rightarrow>
         Some (s\<lparr>bg := (bg s)\<lparr>tasks := []\<rparr>, taken := (if drained then tasks (bg s) else []),
                 shut := (if drained then Joining else NoShutdown)\<rparr>)
     | Joining \<Rightarrow>
         (if taken s = [] then Some (s\<lparr>shut := Reopen\<rparr>)
          else map_option (\<lambda>ts. s\<lparr>taken := ts\<rparr>) (remove_completed (taken s)))
     | Reopen \<Rightarrow> Some (s\<lparr>bg := (bg s)\<lparr>admitted_spawns_closed := False\<rparr>, shut := EndShutdown\<rparr>)
     | EndShutdown \<Rightarrow> Some (s\<lparr>bg := (bg s)\<lparr>shutting_down := False\<rparr>, shut := NoShutdown\<rparr>))"

text \<open>The deadline interrupts the two waits; remaining tasks are dropped.\<close>

definition deadline_step :: "shutdown_sys \<Rightarrow> shutdown_sys option" where
  "deadline_step s = (case shut s of
       Sleeping \<Rightarrow> Some (s\<lparr>shut := CloseSpawns\<rparr>)
     | Joining \<Rightarrow> Some (s\<lparr>taken := [], shut := Reopen\<rparr>)
     | _ \<Rightarrow> None)"

section \<open>Schedules\<close>

datatype bg_action =
    Begin
  | Advance nat
  | SpawnAdmitted nat background_task_kind
  | BestEffort background_task_kind
  | Shutdown
  | AdmissionDeadline
  | JoinDeadline
  | Complete nat
  | CompleteTaken nat

definition complete_task :: "nat \<Rightarrow> bg_task list \<Rightarrow> bg_task list" where
  "complete_task k ts = (if k < length ts then ts[k := (ts ! k)\<lparr>task_completed := True\<rparr>] else ts)"

fun act :: "bg_action \<Rightarrow> shutdown_sys \<Rightarrow> shutdown_sys option" where
  "act Begin s = Some (s\<lparr>guards := guards s @ [Entering]\<rparr>)"
| "act (Advance i) s =
     (if i < length (guards s)
      then (case guard_step (guards s ! i) (bg s) of (g, b) \<Rightarrow>
        Some (s\<lparr>bg := b, guards := (guards s)[i := g], waiter_notified := (waiter_notified s \<or> guards s ! i = Notifying)\<rparr>))
      else None)"
| "act (SpawnAdmitted i kind) s =
     (if i < length (guards s) \<and> guards s ! i = Held then Some (s\<lparr>bg := fst (spawn_admitted kind (bg s))\<rparr>) else None)"
| "act (BestEffort kind) s = Some (s\<lparr>bg := fst (spawn_best_effort kind (bg s))\<rparr>)"
| "act Shutdown s = shutdown_step s"
| "act AdmissionDeadline s = (if shut s = Sleeping then deadline_step s else None)"
| "act JoinDeadline s = (if shut s = Joining then deadline_step s else None)"
| "act (Complete k) s = Some (s\<lparr>bg := (bg s)\<lparr>tasks := complete_task k (tasks (bg s))\<rparr>\<rparr>)"
| "act (CompleteTaken k) s = Some (s\<lparr>taken := complete_task k (taken s)\<rparr>)"

fun run :: "bg_action list \<Rightarrow> shutdown_sys \<Rightarrow> shutdown_sys option" where
  "run [] s = Some s"
| "run (a # as) s = (case act a s of None \<Rightarrow> None | Some s' \<Rightarrow> run as s')"

definition start :: shutdown_sys where
  "start = \<lparr>bg = new_with_clock, guards = [], waiter_notified = False, shut = NoShutdown, taken = []\<rparr>"

lemma run_invariant:
  assumes "P s" "run as s = Some s'" "\<And>a s s'. a \<in> set as \<Longrightarrow> P s \<Longrightarrow> act a s = Some s' \<Longrightarrow> P s'"
  shows "P s'"
  using assms
proof (induction as arbitrary: s)
  case Nil
  then show ?case by simp
next
  case (Cons a as)
  from Cons.prems(2) obtain s1 where s1: "act a s = Some s1" "run as s1 = Some s'" by (auto split: option.splits)
  with Cons.prems(1,3) have "P s1" by (meson list.set_intros(1))
  with Cons.IH s1(2) Cons.prems(3) show ?case by (meson list.set_intros(2))
qed

section \<open>Counting and waking\<close>

definition holding :: "guard_pc \<Rightarrow> nat" where
  "holding g = (if g \<in> {Counted, Rejecting, Held} then 1 else 0)"

definition holders :: "guard_pc list \<Rightarrow> nat" where
  "holders gs = sum_list (map holding gs)"

lemma holders_le: "holders gs \<le> length gs"
  unfolding holders_def by (induction gs) (auto simp: holding_def)

lemma holders_append [simp]: "holders (gs @ [Entering]) = holders gs"
  by (simp add: holders_def holding_def)

lemma holders_update:
  "i < length gs \<Longrightarrow> holders (gs[i := g]) + holding (gs ! i) = holders gs + holding g"
  unfolding holders_def by (induction gs arbitrary: i) (auto simp: nth_Cons split: nat.split)

lemma holders_member: "i < length gs \<Longrightarrow> holding (gs ! i) \<le> holders gs"
  unfolding holders_def by (induction gs arbitrary: i) (auto simp: nth_Cons split: nat.split intro: trans_le_add2)

lemma holders_zero: "holders gs = 0 \<Longrightarrow> Held \<notin> set gs"
  unfolding holders_def by (induction gs) (auto simp: holding_def)

definition about_to_notify :: "guard_pc \<Rightarrow> bool" where
  "about_to_notify g \<longleftrightarrow> g \<in> {LastDrop, ClearClosed, ClearShutting, Notifying}"

text \<open>The counter is the number of holders, and a sleeping shutdown has a wake-up coming.\<close>

definition counted :: "shutdown_sys \<Rightarrow> bool" where
  "counted s \<longleftrightarrow> embed_admissions (bg s) = of_nat (holders (guards s))"

definition wake_coming :: "shutdown_sys \<Rightarrow> bool" where
  "wake_coming s \<longleftrightarrow> (shut s = Sleeping \<longrightarrow> waiter_notified s \<or> embed_admissions (bg s) \<noteq> 0 \<or> (\<exists>g \<in> set (guards s). about_to_notify g))"

lemma embed_admissions_guard_step:
  "embed_admissions (snd (guard_step g b)) + of_nat (holding g) = embed_admissions b + of_nat (holding (fst (guard_step g b)))"
  by (cases g) (simp_all add: holding_def)

lemma shutdown_step_frame:
  "shutdown_step s = Some s' \<Longrightarrow> guards s' = guards s \<and> embed_admissions (bg s') = embed_admissions (bg s)"
  by (auto simp: shutdown_step_def wait_for_embed_admissions_until_def split: shutdown_pc.splits if_splits)

lemma deadline_step_frame:
  "deadline_step s = Some s' \<Longrightarrow> guards s' = guards s \<and> bg s' = bg s"
  by (auto simp: deadline_step_def split: shutdown_pc.splits)

lemma spawn_frame:
  "embed_admissions (fst (spawn_admitted kind b)) = embed_admissions b"
  "embed_admissions (fst (spawn_best_effort kind b)) = embed_admissions b"
  by (simp_all add: spawn_admitted_def spawn_best_effort_def Let_def)

lemma counted_step:
  assumes "counted s" "act a s = Some s'"
  shows "counted s'"
proof (cases a)
  case (Advance i)
  obtain g b where gb: "guard_step (guards s ! i) (bg s) = (g, b)" by fastforce
  have i: "i < length (guards s)" and s': "bg s' = b" "guards s' = (guards s)[i := g]"
    using assms(2) Advance gb by (auto split: if_splits)
  have "of_nat (holders (guards s')) + of_nat (holding (guards s ! i)) = (of_nat (holders (guards s)) + of_nat (holding g) :: u64)"
    using holders_update [OF i, of g] s'(2) by (metis of_nat_add)
  then show ?thesis
    using embed_admissions_guard_step [of "guards s ! i" "bg s"] assms(1) by (simp add: counted_def gb s'(1)) (metis add_right_cancel)
qed (use assms shutdown_step_frame deadline_step_frame in \<open>auto simp: counted_def spawn_frame split: if_splits\<close>)

lemma unat_admissions:
  assumes "counted s" "length (guards s) < 2 ^ 64"
  shows "unat (embed_admissions (bg s)) = holders (guards s)"
  using assms holders_le [of "guards s"] by (simp add: counted_def unsigned_of_nat take_bit_nat_eq_self)

lemma guards_grow: "act a s = Some s' \<Longrightarrow> length (guards s) \<le> length (guards s')"
  by (cases a) (auto dest: shutdown_step_frame deadline_step_frame split: if_splits prod.splits)

lemma wake_step:
  assumes "wake_coming s" "counted s" "act a s = Some s'" "length (guards s') < 2 ^ 64"
  shows "wake_coming s'"
proof (cases a)
  case (Advance i)
  obtain g b where gb: "guard_step (guards s ! i) (bg s) = (g, b)" by fastforce
  have i: "i < length (guards s)" and s': "bg s' = b" "guards s' = (guards s)[i := g]" "shut s' = shut s"
      "waiter_notified s' = (waiter_notified s \<or> guards s ! i = Notifying)"
    using assms(3) Advance gb by (auto split: if_splits)
  have g: "g \<in> set (guards s')" using i s'(2) by (simp add: set_update_memI)
  have others: "h \<in> set (guards s')" if "h \<in> set (guards s)" "h \<noteq> guards s ! i" for h
    using that i unfolding s'(2) by (metis in_set_conv_nth length_list_update nth_list_update_neq)
  have "holding g \<le> holders (guards s')" using holders_member [of i "guards s'"] i s'(2) by simp
  then have "embed_admissions b \<noteq> 0" if "guards s ! i = Checked"
    using unat_admissions [OF counted_step [OF assms(2,3)] assms(4)] gb that s'(1) by (auto simp: holding_def)
  then have key: "waiter_notified s' \<or> embed_admissions b \<noteq> 0 \<or> about_to_notify g"
    if "waiter_notified s \<or> embed_admissions (bg s) \<noteq> 0 \<or> about_to_notify (guards s ! i)"
    using that gb s'(4) by (cases "guards s ! i") (auto simp: about_to_notify_def split: if_splits)
  show ?thesis
  proof (cases "\<exists>h \<in> set (guards s). about_to_notify h \<and> h \<noteq> guards s ! i")
    case True
    then show ?thesis using others by (auto simp: wake_coming_def)
  next
    case False
    then have "shut s = Sleeping \<Longrightarrow> waiter_notified s \<or> embed_admissions (bg s) \<noteq> 0 \<or> about_to_notify (guards s ! i)"
      using assms(1) by (auto simp: wake_coming_def)
    with key g show ?thesis unfolding wake_coming_def s'(1,3) by blast
  qed
qed (use assms in \<open>auto simp: wake_coming_def spawn_frame shutdown_step_def wait_for_embed_admissions_until_def deadline_step_def split: if_splits shutdown_pc.splits\<close>)

lemma run_counted: "run as start = Some s \<Longrightarrow> counted s"
  by (rule run_invariant [of counted, OF _ _ counted_step]) (auto simp: counted_def start_def new_with_clock_def holders_def)

lemma run_wake: "run as start = Some s \<Longrightarrow> length (guards s) < 2 ^ 64 \<Longrightarrow> wake_coming s"
proof -
  assume r: "run as start = Some s" and l: "length (guards s) < 2 ^ 64"
  have "counted s \<and> (length (guards s) < 2 ^ 64 \<longrightarrow> wake_coming s)"
  proof (rule run_invariant [OF _ r])
    show "counted start \<and> (length (guards start) < 2 ^ 64 \<longrightarrow> wake_coming start)"
      by (simp add: counted_def wake_coming_def start_def new_with_clock_def holders_def)
  next
    fix a s s'
    assume "counted s \<and> (length (guards s) < 2 ^ 64 \<longrightarrow> wake_coming s)" "act a s = Some s'"
    then show "counted s' \<and> (length (guards s') < 2 ^ 64 \<longrightarrow> wake_coming s')"
      using counted_step wake_step guards_grow by (meson le_less_trans)
  qed
  with l show ?thesis by simp
qed

text \<open>Claim C38. Admissions are counted and the last one wakes the shutdown, under every interleaving
  of fewer than \<open>2\<^sup>6\<^sup>4\<close> admissions: the counter equals the number of callers between their increment and
  their decrement, so no decrement takes it below zero; and a shutdown asleep while the count is zero
  either has been notified or some participant is on its way to notify it: no wake-up is lost.\<close>

theorem admissions_counted_and_woken:
  assumes "run as start = Some s" "length (guards s) < 2 ^ 64"
  shows "unat (embed_admissions (bg s)) = holders (guards s) \<and>
    (\<forall>i < length (guards s). guards s ! i \<in> {Rejecting, Held} \<longrightarrow> 0 < embed_admissions (bg s)) \<and>
    (shut s = Sleeping \<longrightarrow> embed_admissions (bg s) = 0 \<longrightarrow>
       waiter_notified s \<or> (\<exists>g \<in> set (guards s). about_to_notify g))"
proof -
  note u = unat_admissions [OF run_counted [OF assms(1)] assms(2)]
  have "0 < embed_admissions (bg s)" if "i < length (guards s)" "guards s ! i \<in> {Rejecting, Held}" for i
    using holders_member [OF that(1)] that(2) u by (auto simp: holding_def word_less_nat_alt)
  moreover have "wake_coming s" using assms by (rule run_wake)
  ultimately show ?thesis using u by (auto simp: wake_coming_def)
qed

theorem admissions_counted_and_woken_witness:
  "\<exists>s. run [Begin, Advance 0, Advance 0, Advance 0, Shutdown, Shutdown, Shutdown, Advance 0] start = Some s \<and>
     shut s = Sleeping \<and> embed_admissions (bg s) = 0 \<and> (waiter_notified s \<or> (\<exists>g \<in> set (guards s). about_to_notify g))"
proof -
  obtain s where s: "run [Begin, Advance 0, Advance 0, Advance 0, Shutdown, Shutdown, Shutdown, Advance 0] start = Some s"
    "length (guards s) < 2 ^ 64" "shut s = Sleeping" "embed_admissions (bg s) = 0"
    by (simp add: start_def new_with_clock_def shutdown_step_def wait_for_embed_admissions_until_def is_shutting_down_def)
  with admissions_counted_and_woken [OF s(1,2)] show ?thesis by blast
qed

section \<open>Drained shutdowns\<close>

text \<open>While no shutdown has given up on admissions.\<close>

definition draining :: "shutdown_sys \<Rightarrow> bool" where
  "draining s \<longleftrightarrow> \<not> reset_after_admission_timeout (bg s) \<and> set (guards s) \<inter> {ClearClosed, ClearShutting} = {} \<and>
     shut s \<notin> {CloseSpawns, ArmReset, TakeTasks False} \<and>
     (shut s \<noteq> NoShutdown \<longrightarrow> shutting_down (bg s)) \<and>
     (shut s \<in> {TakeTasks True, Joining, Reopen, EndShutdown} \<longrightarrow> Held \<notin> set (guards s)) \<and>
     (shut s \<in> {Joining, Reopen, EndShutdown} \<longrightarrow> tasks (bg s) = [])"

lemma guard_step_draining:
  assumes "guard_step g b = (g', b')" "\<not> reset_after_admission_timeout b" "g \<notin> {ClearClosed, ClearShutting}"
  shows "g' \<notin> {ClearClosed, ClearShutting} \<and> \<not> reset_after_admission_timeout b' \<and> shutting_down b' = shutting_down b \<and>
    tasks b' = tasks b \<and> (g' = Held \<longrightarrow> \<not> shutting_down b)"
  using assms by (cases g) (auto simp: is_shutting_down_def split: if_splits)

lemma draining_step:
  assumes d: "draining s" and "counted s" "act a s = Some s'" "length (guards s) < 2 ^ 64" "a \<noteq> AdmissionDeadline"
  shows "draining s'"
proof (cases a)
  case (Advance i)
  obtain g b where gb: "guard_step (guards s ! i) (bg s) = (g, b)" by fastforce
  have i: "i < length (guards s)" and s': "bg s' = b" "guards s' = (guards s)[i := g]" "shut s' = shut s"
    using assms(3) Advance gb by (auto split: if_splits)
  have "guards s ! i \<notin> {ClearClosed, ClearShutting}" using d i nth_mem [OF i] unfolding draining_def by blast
  with guard_step_draining [OF gb] d
  have g: "g \<notin> {ClearClosed, ClearShutting}" "\<not> reset_after_admission_timeout b" "shutting_down b = shutting_down (bg s)"
    "tasks b = tasks (bg s)" "g = Held \<longrightarrow> \<not> shutting_down (bg s)"
    by (auto simp: draining_def)
  have sub: "set (guards s') \<subseteq> insert g (set (guards s))" unfolding s'(2) by (rule set_update_subset_insert)
  then have "set (guards s') \<inter> {ClearClosed, ClearShutting} = {}" using d g(1) unfolding draining_def by blast
  moreover have "Held \<notin> set (guards s')" if "Held \<notin> set (guards s)" "shutting_down (bg s)" using sub g(5) that by blast
  ultimately show ?thesis using d g(2-4) by (auto simp: draining_def s'(1,3))
next
  case (SpawnAdmitted i kind)
  then have "Held \<in> set (guards s)" using assms(3) by (auto split: if_splits) (metis nth_mem)
  then show ?thesis using d assms(3) SpawnAdmitted by (auto simp: draining_def spawn_admitted_def split: if_splits)
next
  case Shutdown
  have "shut s = LoadCount \<Longrightarrow> embed_admissions (bg s) = 0 \<Longrightarrow> Held \<notin> set (guards s)"
    using unat_admissions [OF assms(2,4)] holders_zero [of "guards s"] by simp
  then show ?thesis using d assms(3) Shutdown
    by (auto simp: draining_def shutdown_step_def wait_for_embed_admissions_until_def split: shutdown_pc.splits if_splits)
next
  case Begin
  then have "s' = s\<lparr>guards := guards s @ [Entering]\<rparr>" using assms(3) by simp
  then show ?thesis using d by (simp add: draining_def)
next
  case (BestEffort kind)
  then have "s' = s\<lparr>bg := fst (spawn_best_effort kind (bg s))\<rparr>" using assms(3) by simp
  moreover have "tasks (bg s) = [] \<Longrightarrow> shutting_down (bg s) \<Longrightarrow> tasks (fst (spawn_best_effort kind (bg s))) = []"
    by (simp add: spawn_best_effort_def is_shutting_down_def reap_completed_tasks_locked_def)
  moreover have "reset_after_admission_timeout (fst (spawn_best_effort kind (bg s))) = reset_after_admission_timeout (bg s)"
    "shutting_down (fst (spawn_best_effort kind (bg s))) = shutting_down (bg s)"
    by (simp_all add: spawn_best_effort_def Let_def)
  ultimately show ?thesis using d unfolding draining_def by fastforce
next
  case JoinDeadline
  then have "shut s = Joining" "s' = s\<lparr>taken := [], shut := Reopen\<rparr>" using assms(3) by (auto simp: deadline_step_def split: if_splits)
  then show ?thesis using d by (simp add: draining_def)
next
  case (Complete k)
  then have "s' = s\<lparr>bg := (bg s)\<lparr>tasks := complete_task k (tasks (bg s))\<rparr>\<rparr>" using assms(3) by simp
  then show ?thesis using d by (simp add: draining_def complete_task_def)
next
  case (CompleteTaken k)
  then have "s' = s\<lparr>taken := complete_task k (taken s)\<rparr>" using assms(3) by simp
  then show ?thesis using d by (simp add: draining_def)
qed (use assms(5) in simp)

text \<open>No shutdown is under way and the recovery from a timed-out one is over.\<close>

definition recovered :: "shutdown_sys \<Rightarrow> bool" where
  "recovered s \<longleftrightarrow> shut s = NoShutdown \<and> \<not> reset_after_admission_timeout (bg s) \<and> set (guards s) \<inter> {ClearClosed, ClearShutting} = {}"

lemma run_draining:
  assumes "counted s0" "recovered s0" "run as s0 = Some s" "AdmissionDeadline \<notin> set as" "length (guards s) < 2 ^ 64"
  shows "draining s"
proof -
  have "counted s \<and> (length (guards s) < 2 ^ 64 \<longrightarrow> draining s)"
  proof (rule run_invariant [OF _ assms(3)])
    show "counted s0 \<and> (length (guards s0) < 2 ^ 64 \<longrightarrow> draining s0)"
      using assms(1,2) by (simp add: draining_def recovered_def)
  next
    fix a s s'
    assume "a \<in> set as" "counted s \<and> (length (guards s) < 2 ^ 64 \<longrightarrow> draining s)" "act a s = Some s'"
    then show "counted s' \<and> (length (guards s') < 2 ^ 64 \<longrightarrow> draining s')"
      using counted_step draining_step [of s a s'] guards_grow [of a s s'] assms(4) by (metis le_less_trans)
  qed
  with assms(5) show ?thesis by simp
qed

text \<open>Claim C39. A shutdown that drains loses no work. From any reachable state in which no shutdown is under way and no
  recovery from an earlier timed-out shutdown is pending (in particular from the start), over every interleaving of
  admissions, spawns, completions and shutdowns in which no shutdown times out on its admissions: from the moment a
  shutdown has taken the tracked tasks until it reopens the gate, the shutdown flag is up, nobody holds an admission and
  the task set stays empty, so that no task is queued behind its back.\<close>

theorem drained_shutdown_is_complete:
  assumes "run before start = Some s0" "recovered s0" "run as s0 = Some s" "AdmissionDeadline \<notin> set as" "length (guards s) < 2 ^ 64"
    "shut s \<in> {Joining, Reopen, EndShutdown}"
  shows "shutting_down (bg s) \<and> Held \<notin> set (guards s) \<and> tasks (bg s) = []"
  using run_draining [OF run_counted [OF assms(1)] assms(2-5)] assms(6) by (auto simp: draining_def)

text \<open>A first shutdown times out and its recovery completes; then a second one drains.\<close>

theorem drained_shutdown_is_complete_witness:
  "\<exists>s0 s. run [Begin, Advance 0, Advance 0, Advance 0, Shutdown, Shutdown, Shutdown, AdmissionDeadline, Shutdown, Shutdown, Shutdown,
      Advance 0, Advance 0, Advance 0, Advance 0, Advance 0] start = Some s0 \<and>
    run [Begin, Advance 1, Advance 1, Advance 1, SpawnAdmitted 1 TaskEmbed, Shutdown, Advance 1, Shutdown,
      Shutdown, Shutdown, BestEffort TaskAccessTracking] s0 = Some s \<and>
     shutting_down (bg s) \<and> Held \<notin> set (guards s) \<and> tasks (bg s) = []"
proof -
  obtain s0 s where s: "run [Begin, Advance 0, Advance 0, Advance 0, Shutdown, Shutdown, Shutdown, AdmissionDeadline, Shutdown, Shutdown,
      Shutdown, Advance 0, Advance 0, Advance 0, Advance 0, Advance 0] start = Some s0" "recovered s0"
    "run [Begin, Advance 1, Advance 1, Advance 1, SpawnAdmitted 1 TaskEmbed, Shutdown, Advance 1, Shutdown,
      Shutdown, Shutdown, BestEffort TaskAccessTracking] s0 = Some s"
    "length (guards s) < 2 ^ 64" "shut s \<in> {Joining, Reopen, EndShutdown}"
    by (simp add: start_def new_with_clock_def shutdown_step_def wait_for_embed_admissions_until_def deadline_step_def is_shutting_down_def
        recovered_def spawn_best_effort_def spawn_admitted_def reap_completed_tasks_locked_def)
  with drained_shutdown_is_complete [OF s(1-3) _ s(4,5)] show ?thesis by auto
qed

text \<open>Without the recovery this fails: a second shutdown that drains while the last admission of a timed-out one is inside its
  \<^verbatim>\<open>Drop\<close> has its gate reopened under it, and work is queued that it does not wait for.\<close>

lemma pending_recovery_reopens_next_shutdown:
  "\<exists>as s. run as start = Some s \<and> shut s = Joining \<and> \<not> shutting_down (bg s) \<and> tasks (bg s) \<noteq> []"
proof -
  let ?as = "[Begin, Advance 0, Advance 0, Advance 0, Shutdown, Shutdown, Shutdown, AdmissionDeadline, Shutdown, Shutdown, Shutdown,
    Shutdown, Advance 0, Shutdown, Shutdown, Shutdown, Advance 0, Advance 0, Advance 0, BestEffort TaskAccessTracking]"
  have "\<exists>s. run ?as start = Some s \<and> shut s = Joining \<and> \<not> shutting_down (bg s) \<and> tasks (bg s) \<noteq> []"
    by (simp add: start_def new_with_clock_def shutdown_step_def wait_for_embed_admissions_until_def deadline_step_def is_shutting_down_def
        spawn_best_effort_def spawn_admitted_def reap_completed_tasks_locked_def)
  then show ?thesis by blast
qed

section \<open>Timed-out shutdowns\<close>

text \<open>The gate is stuck: closed, with nobody left who would reopen it.\<close>

definition stuck :: "shutdown_sys \<Rightarrow> bool" where
  "stuck s \<longleftrightarrow> shutting_down (bg s) \<and> shut s = NoShutdown \<and> set (guards s) \<subseteq> {Entering, Notifying, Finished}"

lemma stuck_step:
  assumes "stuck s" "act a s = Some s'" "a \<noteq> Shutdown"
  shows "stuck s'"
proof (cases a)
  case (Advance i)
  obtain g b where gb: "guard_step (guards s ! i) (bg s) = (g, b)" by fastforce
  have i: "i < length (guards s)" and s': "bg s' = b" "guards s' = (guards s)[i := g]" "shut s' = shut s"
    using assms(2) Advance gb by (auto split: if_splits)
  have "guards s ! i \<in> {Entering, Notifying, Finished}" using assms(1) nth_mem [OF i] by (auto simp: stuck_def)
  then have "g = Finished \<and> b = bg s" using gb assms(1) by (auto simp: stuck_def is_shutting_down_def)
  moreover have "set (guards s') \<subseteq> insert g (set (guards s))" unfolding s'(2) by (rule set_update_subset_insert)
  ultimately show ?thesis using assms(1) s' by (auto simp: stuck_def)
qed (use assms in \<open>auto simp: stuck_def spawn_admitted_def spawn_best_effort_def deadline_step_def Let_def split: if_splits\<close>)

text \<open>Claim C40. The recovery after a timed-out shutdown has a race. There is a schedule in which the last
  admission is dropped between the deadline and the store that arms the reset: shutdown then returns
  with the gate closed and no admission left, and without a further shutdown call every continuation
  keeps it closed, so every later admission is rejected; whereas the same admission dropped after the
  reset is armed reopens the gate.\<close>

theorem timeout_race_leaves_gate_closed:
  "\<exists>as s. run as start = Some s \<and> shut s = NoShutdown \<and> holders (guards s) = 0 \<and>
     {s'. \<exists>as'. Shutdown \<notin> set as' \<and> run as' s = Some s'} \<subseteq> {s'. shutting_down (bg s') \<and> Held \<notin> set (guards s')} \<and>
     (\<exists>as' s'. run as' start = Some s' \<and> mset as' = mset (as @ [Advance 0, Advance 0]) \<and> \<not> shutting_down (bg s'))"
proof -
  let ?enter = "[Begin, Advance 0, Advance 0, Advance 0, Shutdown, Shutdown, Shutdown, AdmissionDeadline, Shutdown]"
  let ?race = "?enter @ [Advance 0, Advance 0, Advance 0, Shutdown, Shutdown]"
  let ?fine = "?enter @ [Shutdown, Shutdown, Advance 0, Advance 0, Advance 0, Advance 0, Advance 0]"
  obtain s where s: "run ?race start = Some s" "stuck s" "holders (guards s) = 0"
    by (simp add: start_def new_with_clock_def shutdown_step_def wait_for_embed_admissions_until_def deadline_step_def is_shutting_down_def stuck_def holders_def holding_def)
  have closed: "shutting_down (bg s') \<and> Held \<notin> set (guards s')" if "Shutdown \<notin> set as'" "run as' s = Some s'" for as' s'
  proof -
    have "stuck s'" using that(1) by (intro run_invariant [of stuck, OF s(2) that(2)]) (auto intro: stuck_step)
    then show ?thesis by (auto simp: stuck_def)
  qed
  have "\<exists>s'. run ?fine start = Some s' \<and> \<not> shutting_down (bg s')"
    by (simp add: start_def new_with_clock_def shutdown_step_def wait_for_embed_admissions_until_def deadline_step_def is_shutting_down_def)
  moreover have "mset ?fine = mset (?race @ [Advance 0, Advance 0])" by simp
  moreover have "shut s = NoShutdown" using s(2) by (simp add: stuck_def)
  ultimately show ?thesis using s(1,3) closed by blast
qed

end
