(* ===== verification/Vector_Index.thy ===== *)
theory Vector_Index
  imports Context_Ops Ranking
begin

text \<open>
  The vector index of the SQLite store, \<^verbatim>\<open>src/src/store/vector/mod.rs\<close> and
  \<^verbatim>\<open>src/src/store/vector/sqlite_vec.rs\<close>, and the embedding profile guard of
  \<^verbatim>\<open>src/src/store/sqlite.rs\<close>.

  The index is two tables: \<^verbatim>\<open>memory_embedding_map\<close> from memory ids to row ids and the \<^verbatim>\<open>vec0\<close> table
  from row ids to blobs. Which row id an insert gets is decided by sqlite-vec: \<open>rowid\<close> is a parameter,
  and what the code relies on is that it is not in use (\<open>fresh_rowids\<close>). The host byte order is the
  parameter \<open>le\<close>. The locale \<open>embedding_index\<close> states the contract of the trait \<^verbatim>\<open>VectorIndex\<close> through
  the finite map a client sees; \<open>vec\<close> interprets it on the two tables.
\<close>

section \<open>Blobs\<close>

definition f32_is_finite :: "f32 \<Rightarrow> bool" where
  "f32_is_finite x \<longleftrightarrow> f32_magnitude x < 0x7F800000"

definition f32_to_ne_bytes :: "bool \<Rightarrow> f32 \<Rightarrow> u8 list" where
  "f32_to_ne_bytes le x =
     (let bytes = [ucast x, ucast (drop_bit 8 x), ucast (drop_bit 16 x), ucast (drop_bit 24 x)]
      in if le then bytes else rev bytes)"

fun f32_of_le_bytes :: "u8 list \<Rightarrow> f32" where
  "f32_of_le_bytes [a, b, c, d] = ucast a OR push_bit 8 (ucast b) OR push_bit 16 (ucast c) OR push_bit 24 (ucast d)"
| "f32_of_le_bytes _ = 0"

definition f32_from_ne_bytes :: "bool \<Rightarrow> u8 list \<Rightarrow> f32" where
  "f32_from_ne_bytes le bytes = f32_of_le_bytes (if le then bytes else rev bytes)"

definition as_bytes :: "bool \<Rightarrow> f32 list \<Rightarrow> u8 list" where
  "as_bytes le embedding = concat (map (f32_to_ne_bytes le) embedding)"

text \<open>\<^verbatim>\<open>chunks_exact(4)\<close>: the complete groups of four, the remainder left out.\<close>

fun chunks_exact4 :: "u8 list \<Rightarrow> u8 list list" where
  "chunks_exact4 (a # b # c # d # rest) = [a, b, c, d] # chunks_exact4 rest"
| "chunks_exact4 _ = []"

definition decode_embedding :: "bool \<Rightarrow> u8 list \<Rightarrow> nat \<Rightarrow> f32 list option" where
  "decode_embedding le blob dimensions =
     (if length blob \<noteq> min (dimensions * 4) (2 ^ 64 - 1) then None
      else if length blob mod 4 \<noteq> 0 then None
      else Some (map (f32_from_ne_bytes le) (chunks_exact4 blob)))"

definition validate_embedding_vector :: "f32 list \<Rightarrow> nat \<Rightarrow> store_error + unit" where
  "validate_embedding_vector embedding dimensions =
     (if length embedding \<noteq> dimensions then Inl (Conflict ''embedding dimension mismatch: expected {}, got {}'')
      else if \<not> list_all f32_is_finite embedding
      then Inl (Conflict ''embedding contains non-finite value at index {}: {}'')
      else Inr ())"

section \<open>The index\<close>

record vector_tables =
  v_map :: "(memory_id \<times> int) list"
  v_rows :: "(int \<times> u8 list) list"

definition vec_empty :: vector_tables where
  "vec_empty = \<lparr>v_map = [], v_rows = []\<rparr>"

text \<open>\<^verbatim>\<open>DELETE FROM memory_embedding_map WHERE memory_id = ?1\<close>, with the trigger that deletes the vector of
  each removed row.\<close>

definition vec_delete :: "memory_id \<Rightarrow> vector_tables \<Rightarrow> vector_tables" where
  "vec_delete i t =
     (let old = set (map snd (filter (\<lambda>(m, _). m = i) (v_map t))) in
      t\<lparr>v_map := filter (\<lambda>(m, _). m \<noteq> i) (v_map t), v_rows := filter (\<lambda>(r, _). r \<notin> old) (v_rows t)\<rparr>)"

definition insert_map_row :: "memory_id list \<Rightarrow> memory_id \<Rightarrow> int \<Rightarrow> vector_tables \<Rightarrow> store_error + vector_tables" where
  "insert_map_row memory_ids i r t =
     (if i \<in> fst ` set (v_map t) \<or> r \<in> snd ` set (v_map t) then Inl UNIQUE_FAILED
      else if i \<notin> set memory_ids then Inl FOREIGN_KEY_FAILED
      else Inr (t\<lparr>v_map := v_map t @ [(i, r)]\<rparr>))"

definition vec_upsert ::
  "(int list \<Rightarrow> int) \<Rightarrow> bool \<Rightarrow> nat \<Rightarrow> memory_id list \<Rightarrow> memory_id \<Rightarrow> f32 list \<Rightarrow> vector_tables \<Rightarrow> store_error + vector_tables" where
  "vec_upsert rowid le dimensions memory_ids i embedding t =
     result_bind (validate_embedding_vector embedding dimensions) (\<lambda>_.
       let new_vec_rowid = rowid (map fst (v_rows t));
           t1 = t\<lparr>v_rows := v_rows t @ [(new_vec_rowid, as_bytes le embedding)]\<rparr>
       in insert_map_row memory_ids i new_vec_rowid (vec_delete i t1))"

definition FETCH_MANY_CHUNK_SIZE :: nat where "FETCH_MANY_CHUNK_SIZE = 900"

function chunks_of :: "nat \<Rightarrow> 'a list \<Rightarrow> 'a list list" where
  "chunks_of n xs = (if n = 0 \<or> xs = [] then [] else take n xs # chunks_of n (drop n xs))"
  by pat_completeness auto
termination by (relation "measure (\<lambda>(n, xs). length xs)") auto

declare chunks_of.simps [simp del]

definition insert_fetched_embedding ::
  "bool \<Rightarrow> nat \<Rightarrow> (memory_id \<rightharpoonup> f32 list) \<Rightarrow> memory_id \<times> u8 list \<Rightarrow> (memory_id \<rightharpoonup> f32 list)" where
  "insert_fetched_embedding le dimensions result = (\<lambda>(i, blob).
     case decode_embedding le blob dimensions of
       None \<Rightarrow> result
     | Some floats \<Rightarrow> if floats \<noteq> [] then result(i \<mapsto> floats) else result)"

text \<open>The join of the two tables over the ids of a chunk.\<close>

definition joined_rows :: "vector_tables \<Rightarrow> memory_id list \<Rightarrow> (memory_id \<times> u8 list) list" where
  "joined_rows t chunk =
     concat (map (\<lambda>(m, r). map (\<lambda>(_, blob). (m, blob)) (filter (\<lambda>(r', _). r' = r) (v_rows t)))
       (filter (\<lambda>(m, _). m \<in> set chunk) (v_map t)))"

definition fetch_many :: "bool \<Rightarrow> nat \<Rightarrow> memory_id list \<Rightarrow> vector_tables \<Rightarrow> (memory_id \<rightharpoonup> f32 list)" where
  "fetch_many le dimensions ids t =
     foldl (\<lambda>result chunk. foldl (insert_fetched_embedding le dimensions) result (joined_rows t chunk))
       Map.empty (chunks_of FETCH_MANY_CHUNK_SIZE ids)"

section \<open>The embedding profile\<close>

record embedding_profile =
  ep_provider :: string
  ep_endpoint :: string
  ep_model :: string
  ep_dimensions :: nat

text \<open>The table has at most one row, \<^verbatim>\<open>singleton = 1\<close>.\<close>

definition quoted :: string where "quoted = CHR 0x27 # ''{}'' @ [CHR 0x27]"

definition profile_mismatch :: store_error where
  "profile_mismatch = Conflict
     (''embedding profile mismatch: database uses {} model '' @ quoted @ '' at '' @ quoted @
      '' with {} dimensions, but config selects {} model '' @ quoted @ '' at '' @ quoted @
      '' with {} dimensions; run `hold embeddings reindex --yes` to rebuild all vectors'')"

definition insert_embedding_profile :: "embedding_profile \<Rightarrow> store_error + embedding_profile option" where
  "insert_embedding_profile profile =
     (if ep_dimensions profile > 2 ^ 63 - 1 then Inl (Conflict ''embedding dimensions exceed SQLite INTEGER'')
      else if ep_dimensions profile = 0 then Inl CHECK_FAILED
      else Inr (Some profile))"

definition verify_embedding_profile_conn ::
  "embedding_profile \<Rightarrow> vector_tables \<Rightarrow> embedding_profile option \<Rightarrow> store_error + embedding_profile option" where
  "verify_embedding_profile_conn profile t stored =
     (case stored of
        Some existing \<Rightarrow> if existing \<noteq> profile then Inl profile_mismatch else Inr stored
      | None \<Rightarrow>
          if length (v_map t) > 0
          then Inl (Conflict ''existing embeddings have no recorded provider/model identity; run `hold embeddings reindex --yes` before starting with an active embedding provider'')
          else insert_embedding_profile profile)"

definition check_embedding_profile_conn ::
  "embedding_profile \<Rightarrow> vector_tables \<Rightarrow> embedding_profile option \<Rightarrow> store_error + unit" where
  "check_embedding_profile_conn profile t stored =
     (case stored of
        Some existing \<Rightarrow> if existing \<noteq> profile then Inl profile_mismatch else Inr ()
      | None \<Rightarrow>
          if length (v_map t) > 0
          then Inl (Conflict ''existing embeddings have no recorded provider/model identity; run `hold embeddings reindex --yes` before searching with an active embedding provider'')
          else Inr ())"

definition ensure_embedding_profile_matches :: "embedding_profile \<Rightarrow> embedding_profile option \<Rightarrow> store_error + unit" where
  "ensure_embedding_profile_matches expected stored =
     (case stored of
        None \<Rightarrow> Inl (Conflict ''embedding profile was removed while this server was running; restart before writing vectors'')
      | Some current \<Rightarrow> if current \<noteq> expected then Inl profile_mismatch else Inr ())"

section \<open>Blobs round-trip\<close>

lemma length_f32_bytes [simp]: "length (f32_to_ne_bytes le x) = 4"
  by (simp add: f32_to_ne_bytes_def Let_def)

lemma f32_bytes_roundtrip [simp]: "f32_from_ne_bytes le (f32_to_ne_bytes le x) = x"
proof -
  have "ucast (ucast x :: u8) OR push_bit 8 (ucast (ucast (drop_bit 8 x) :: u8)) OR
      push_bit 16 (ucast (ucast (drop_bit 16 x) :: u8)) OR push_bit 24 (ucast (ucast (drop_bit 24 x) :: u8)) = x"
  proof (rule bit_word_eqI, goal_cases)
    case (1 n)
    then consider "24 \<le> n" | "16 \<le> n" "n < 24" | "8 \<le> n" "n < 16" | "n < 8" by linarith
    then show ?case using 1 by cases (auto simp: bit_simps)
  qed
  then show ?thesis by (simp add: f32_from_ne_bytes_def f32_to_ne_bytes_def Let_def)
qed

lemma chunks_exact4_append:
  assumes "length xs = 4"
  shows "chunks_exact4 (xs @ ys) = xs # chunks_exact4 ys"
proof -
  from assms obtain a b c d where "xs = [a, b, c, d]" by (auto simp: numeral_eq_Suc length_Suc_conv)
  then show ?thesis by simp
qed

lemma length_as_bytes [simp]: "length (as_bytes le e) = 4 * length e"
  by (induction e) (simp_all add: as_bytes_def)

lemma chunks_as_bytes: "map (f32_from_ne_bytes le) (chunks_exact4 (as_bytes le e)) = e"
  by (induction e) (simp_all add: as_bytes_def chunks_exact4_append)

lemma decode_as_bytes:
  assumes "length e = dimensions" "dimensions < 2 ^ 61"
  shows "decode_embedding le (as_bytes le e) dimensions = Some e"
  using assms by (simp add: decode_embedding_def chunks_as_bytes)

section \<open>The contract of the index and its client's view\<close>

locale embedding_index =
  fixes upsert :: "memory_id list \<Rightarrow> memory_id \<Rightarrow> 'e \<Rightarrow> 't \<Rightarrow> store_error + 't"
    and remove :: "memory_id \<Rightarrow> 't \<Rightarrow> 't"
    and empty :: 't
    and view :: "'t \<Rightarrow> memory_id \<rightharpoonup> 'e"
    and ok :: "'t \<Rightarrow> bool"
    and acceptable :: "'e \<Rightarrow> bool"
  assumes view_empty: "view empty = Map.empty"
    and ok_empty: "ok t \<Longrightarrow> ok empty"
    and ok_upsert: "ok t \<Longrightarrow> upsert ids i e t = Inr t' \<Longrightarrow> ok t'"
    and view_upsert: "ok t \<Longrightarrow> upsert ids i e t = Inr t' \<Longrightarrow> view t' = (view t)(i \<mapsto> e)"
    and upsert_iff: "ok t \<Longrightarrow> (\<exists>t'. upsert ids i e t = Inr t') \<longleftrightarrow> acceptable e \<and> i \<in> set ids"
    and ok_remove: "ok t \<Longrightarrow> ok (remove i t)"
    and view_remove: "ok t \<Longrightarrow> view (remove i t) = (view t)(i := None)"
begin

text \<open>\<open>coherent R t\<close>: the index is sound and holds a vector for exactly the memories of \<open>R\<close>.\<close>

definition coherent :: "memory_id set \<Rightarrow> 't \<Rightarrow> bool" where
  "coherent R t \<longleftrightarrow> ok t \<and> dom (view t) = R"

lemma coherent_upsert: "coherent R t \<Longrightarrow> upsert ids i e t = Inr t' \<Longrightarrow> coherent (insert i R) t'"
  using view_upsert [of t ids i e t'] ok_upsert [of t ids i e t'] by (auto simp: coherent_def)

lemma coherent_remove: "coherent R t \<Longrightarrow> coherent (R - {i}) (remove i t)"
  by (auto simp: coherent_def view_remove ok_remove)

lemma coherent_empty: "coherent R t \<Longrightarrow> coherent {} empty"
  by (auto simp: coherent_def view_empty dest: ok_empty)

lemma upsert_mem: "ok t \<Longrightarrow> upsert ids i e t = Inr t' \<Longrightarrow> acceptable e \<and> i \<in> set ids"
  using upsert_iff by blast

lemma last_upsert_wins:
  "ok t \<Longrightarrow> upsert ids i e t = Inr t1 \<Longrightarrow> upsert ids i e' t1 = Inr t2 \<Longrightarrow> view t2 = (view t)(i \<mapsto> e')"
  using view_upsert [of t1 ids i e' t2] view_upsert [of t ids i e t1] ok_upsert [of t ids i e t1] by simp

lemma upsert_remove:
  "ok t \<Longrightarrow> upsert ids i e t = Inr t1 \<Longrightarrow> view (remove i t1) = (view t)(i := None)"
  using view_upsert [of t ids i e t1] ok_upsert [of t ids i e t1] by (simp add: view_remove)

end

section \<open>The tables implement the contract\<close>

definition fresh_rowids :: "(int list \<Rightarrow> int) \<Rightarrow> bool" where
  "fresh_rowids rowid \<longleftrightarrow> (\<forall>used. rowid used \<notin> set used)"

text \<open>No dangling mapping, no orphaned vector, one vector per memory, every blob of the right size.\<close>

definition vec_wf :: "nat \<Rightarrow> vector_tables \<Rightarrow> bool" where
  "vec_wf dimensions t \<longleftrightarrow> distinct (map fst (v_map t)) \<and> distinct (map snd (v_map t)) \<and> distinct (map fst (v_rows t)) \<and>
     snd ` set (v_map t) = fst ` set (v_rows t) \<and> list_all (\<lambda>(r, blob). length blob = 4 * dimensions) (v_rows t)"

definition vec_ok :: "(int list \<Rightarrow> int) \<Rightarrow> nat \<Rightarrow> vector_tables \<Rightarrow> bool" where
  "vec_ok rowid dimensions t \<longleftrightarrow> fresh_rowids rowid \<and> 0 < dimensions \<and> dimensions < 2 ^ 61 \<and> vec_wf dimensions t"

definition vec_view :: "bool \<Rightarrow> nat \<Rightarrow> vector_tables \<Rightarrow> memory_id \<rightharpoonup> f32 list" where
  "vec_view le dimensions t i =
     Option.bind (map_of (v_map t) i) (\<lambda>r. Option.bind (map_of (v_rows t) r) (\<lambda>blob. decode_embedding le blob dimensions))"

definition vec_acceptable :: "nat \<Rightarrow> f32 list \<Rightarrow> bool" where
  "vec_acceptable dimensions e \<longleftrightarrow> length e = dimensions \<and> list_all f32_is_finite e"

lemma validate_iff [simp]: "validate_embedding_vector e dimensions = Inr () \<longleftrightarrow> vec_acceptable dimensions e"
  by (simp add: validate_embedding_vector_def vec_acceptable_def)

lemma map_of_filter_key: "P k \<Longrightarrow> map_of (filter (\<lambda>(a, _). P a) xs) k = map_of xs k"
  by (induction xs) auto

lemma map_of_filter_notin: "\<not> P k \<Longrightarrow> map_of (filter (\<lambda>(a, _). P a) xs) k = None"
  by (induction xs) auto

lemma vec_delete_rows:
  "v_map (vec_delete i t) = filter (\<lambda>(m, _). m \<noteq> i) (v_map t)"
  "v_rows (vec_delete i t) = filter (\<lambda>(r, _). (i, r) \<notin> set (v_map t)) (v_rows t)"
  by (force simp: vec_delete_def Let_def intro!: filter_cong)+

lemma distinct_map_filter: "distinct (map f xs) \<Longrightarrow> distinct (map f (filter P xs))"
  by (induction xs) auto

lemma same_snd: "distinct (map snd xs) \<Longrightarrow> (a, r) \<in> set xs \<Longrightarrow> (b, r) \<in> set xs \<Longrightarrow> a = b"
  by (metis distinct_map inj_on_eq_iff prod.inject snd_conv)

lemma vec_wf_delete:
  assumes "vec_wf dimensions t"
  shows "vec_wf dimensions (vec_delete i t)"
proof -
  have "snd ` set (v_map (vec_delete i t)) = fst ` set (v_rows (vec_delete i t))"
  proof -
    have snd: "snd ` set (v_map t) = fst ` set (v_rows t)" and d: "distinct (map snd (v_map t))"
      using assms by (simp_all add: vec_wf_def)
    have "snd ` {x \<in> set (v_map t). fst x \<noteq> i} = snd ` set (v_map t) - {r. (i, r) \<in> set (v_map t)}"
    proof (intro set_eqI iffI)
      fix r
      assume "r \<in> snd ` {x \<in> set (v_map t). fst x \<noteq> i}"
      then obtain m where "(m, r) \<in> set (v_map t)" "m \<noteq> i" by auto
      then show "r \<in> snd ` set (v_map t) - {r. (i, r) \<in> set (v_map t)}"
        by (auto intro: rev_image_eqI dest: same_snd [OF d])
    qed force
    also have "\<dots> = fst ` {x \<in> set (v_rows t). (i, fst x) \<notin> set (v_map t)}" unfolding snd by (auto simp: image_iff)
    finally show ?thesis by (simp add: vec_delete_rows case_prod_unfold)
  qed
  then show ?thesis using assms by (auto simp: vec_wf_def vec_delete_rows distinct_map_filter list_all_iff)
qed

lemma vec_view_delete:
  assumes "vec_wf dimensions t"
  shows "vec_view le dimensions (vec_delete i t) = (vec_view le dimensions t)(i := None)"
proof (rule ext)
  fix j
  show "vec_view le dimensions (vec_delete i t) j = ((vec_view le dimensions t)(i := None)) j"
  proof (cases "j = i")
    case True
    then show ?thesis by (simp add: vec_view_def vec_delete_rows map_of_filter_notin)
  next
    case False
    have "map_of (v_rows (vec_delete i t)) r = map_of (v_rows t) r" if "map_of (v_map t) j = Some r" for r
    proof -
      have "(i, r) \<notin> set (v_map t)"
        using same_snd [of "v_map t" j r i] map_of_SomeD [OF that] False assms by (auto simp: vec_wf_def)
      then show ?thesis by (simp add: vec_delete_rows map_of_filter_key [where P = "\<lambda>r. (i, r) \<notin> set (v_map t)"])
    qed
    then show ?thesis using False
      by (cases "map_of (v_map t) j") (simp_all add: vec_view_def vec_delete_rows map_of_filter_key)
  qed
qed

lemma fresh_row: "fresh_rowids rowid \<Longrightarrow> rowid (map fst xs) \<notin> fst ` set xs"
  by (metis fresh_rowids_def list.set_map)

text \<open>An accepted upsert replaces the row of the memory by a fresh one.\<close>

definition vec_add :: "memory_id \<Rightarrow> int \<Rightarrow> u8 list \<Rightarrow> vector_tables \<Rightarrow> vector_tables" where
  "vec_add i r blob t = t\<lparr>v_map := v_map t @ [(i, r)], v_rows := v_rows t @ [(r, blob)]\<rparr>"

lemma vec_upsert_eq:
  assumes "vec_ok rowid dimensions t"
  shows "vec_upsert rowid le dimensions ids i e t = Inr t' \<longleftrightarrow> vec_acceptable dimensions e \<and> i \<in> set ids \<and>
    t' = vec_add i (rowid (map fst (v_rows t))) (as_bytes le e) (vec_delete i t)"
proof -
  let ?r = "rowid (map fst (v_rows t))" and ?b = "as_bytes le e"
  have fresh: "?r \<notin> snd ` set (v_map t)"
    using assms fresh_row [of rowid "v_rows t"] by (auto simp: vec_ok_def vec_wf_def)
  then have "vec_delete i (t\<lparr>v_rows := v_rows t @ [(?r, ?b)]\<rparr>) = (vec_delete i t)\<lparr>v_rows := v_rows (vec_delete i t) @ [(?r, ?b)]\<rparr>"
    by (cases t) (force simp: vec_delete_def Let_def)
  moreover have "i \<notin> fst ` set (v_map (vec_delete i t))" "?r \<notin> snd ` set (v_map (vec_delete i t))"
    using fresh by (auto simp: vec_delete_rows)
  ultimately show ?thesis
    by (cases "vec_delete i t") (auto simp: vec_upsert_def insert_map_row_def vec_add_def Let_def)
qed

lemma vec_add_wf:
  assumes "vec_wf dimensions t" "i \<notin> fst ` set (v_map t)" "r \<notin> fst ` set (v_rows t)" "length blob = 4 * dimensions"
  shows "vec_wf dimensions (vec_add i r blob t)"
  using assms by (auto simp: vec_wf_def vec_add_def)

lemma vec_add_view:
  assumes "vec_wf dimensions t" "i \<notin> fst ` set (v_map t)" "r \<notin> fst ` set (v_rows t)"
    "decode_embedding le blob dimensions = Some e"
  shows "vec_view le dimensions (vec_add i r blob t) = (vec_view le dimensions t)(i \<mapsto> e)"
proof (rule ext)
  fix j
  have none: "map_of (v_map t) i = None" "map_of (v_rows t) r = None" using assms(2,3) by (auto simp: map_of_eq_None_iff)
  have "map_of (v_map t) j = Some r' \<Longrightarrow> \<exists>b. map_of (v_rows t) r' = Some b" for r'
    using assms(1) map_of_SomeD [of "v_map t" j r']
    by (cases "map_of (v_rows t) r'") (force simp: vec_wf_def map_of_eq_None_iff)+
  then show "vec_view le dimensions (vec_add i r blob t) j = ((vec_view le dimensions t)(i \<mapsto> e)) j"
    using none assms(4)
    by (cases "map_of (v_map t) j") (fastforce simp: vec_view_def vec_add_def map_add_def)+
qed

lemma vec_delete_absent:
  "i \<notin> fst ` set (v_map (vec_delete i t))"
  "r \<notin> fst ` set (v_rows t) \<Longrightarrow> r \<notin> fst ` set (v_rows (vec_delete i t))"
  by (auto simp: vec_delete_rows)

interpretation vec: embedding_index "vec_upsert rowid le dimensions" vec_delete vec_empty "vec_view le dimensions"
  "vec_ok rowid dimensions" "vec_acceptable dimensions" for rowid le dimensions
proof (unfold_locales, goal_cases)
  case 1
  then show ?case by (simp add: vec_view_def vec_empty_def fun_eq_iff)
next
  case (2 t)
  then show ?case by (simp add: vec_ok_def vec_wf_def vec_empty_def)
next
  case (3 t ids i e t')
  then show ?case
    using vec_add_wf [OF vec_wf_delete vec_delete_absent(1) vec_delete_absent(2) [OF fresh_row], of dimensions t rowid "as_bytes le e" i]
    by (auto simp: vec_upsert_eq vec_ok_def vec_acceptable_def)
next
  case (4 t ids i e t')
  then have ok: "vec_wf dimensions t" "fresh_rowids rowid" "dimensions < 2 ^ 61" by (simp_all add: vec_ok_def)
  from 4 have e: "length e = dimensions"
    and t': "t' = vec_add i (rowid (map fst (v_rows t))) (as_bytes le e) (vec_delete i t)"
    by (auto simp: vec_upsert_eq vec_acceptable_def)
  show ?case unfolding t'
    by (subst vec_add_view [OF vec_wf_delete [OF ok(1)] vec_delete_absent(1) vec_delete_absent(2) [OF fresh_row [OF ok(2)]]
          decode_as_bytes [OF e ok(3)]]) (simp add: vec_view_delete [OF ok(1)])
next
  case (5 t ids i e)
  then show ?case by (simp add: vec_upsert_eq)
next
  case (6 t i)
  then show ?case by (simp add: vec_ok_def vec_wf_delete)
next
  case (7 t i)
  then show ?case by (simp add: vec_ok_def vec_view_delete)
qed

section \<open>Fetching\<close>

lemma set_chunks_of: "0 < n \<Longrightarrow> \<Union> (set ` set (chunks_of n xs)) = set xs"
proof (induction n xs rule: chunks_of.induct)
  case (1 n xs)
  show ?case
  proof (cases "xs = []")
    case False
    then have "\<Union> (set ` set (chunks_of n xs)) = set (take n xs) \<union> set (drop n xs)"
      using 1 by (subst chunks_of.simps) simp
    then show ?thesis by (metis append_take_drop_id set_append)
  qed (simp add: chunks_of.simps)
qed

lemma joined_row:
  assumes "vec_ok rowid dimensions t" "(j, blob) \<in> set (joined_rows t chunk)"
  shows "\<exists>e. decode_embedding le blob dimensions = Some e \<and> e \<noteq> [] \<and> vec_view le dimensions t j = Some e"
proof -
  from assms(2) obtain r where r: "(j, r) \<in> set (v_map t)" "(r, blob) \<in> set (v_rows t)"
    by (auto simp: joined_rows_def)
  then have "map_of (v_map t) j = Some r" "map_of (v_rows t) r = Some blob" "length blob = 4 * dimensions"
    using assms(1) by (auto simp: vec_ok_def vec_wf_def list_all_iff)
  moreover from this assms(1) have "chunks_exact4 blob \<noteq> []"
    by (cases blob rule: chunks_exact4.cases) (auto simp: vec_ok_def, presburger+)
  ultimately show ?thesis using assms(1) by (auto simp: vec_view_def decode_embedding_def vec_ok_def)
qed

lemma joined_keys:
  assumes "vec_ok rowid dimensions t"
  shows "fst ` set (joined_rows t chunk) = set chunk \<inter> dom (vec_view le dimensions t)"
proof (intro set_eqI iffI)
  fix j
  assume "j \<in> fst ` set (joined_rows t chunk)"
  then obtain blob where "(j, blob) \<in> set (joined_rows t chunk)" by auto
  then show "j \<in> set chunk \<inter> dom (vec_view le dimensions t)"
    using joined_row [OF assms, of j blob chunk le] by (auto simp: joined_rows_def)
next
  fix j
  assume "j \<in> set chunk \<inter> dom (vec_view le dimensions t)"
  then obtain r blob where "j \<in> set chunk" "(j, r) \<in> set (v_map t)" "(r, blob) \<in> set (v_rows t)"
    by (auto simp: vec_view_def bind_eq_Some_conv dest!: map_of_SomeD)
  then show "j \<in> fst ` set (joined_rows t chunk)" by (force simp: joined_rows_def)
qed

lemma restrict_add: "m ++ (V |` A) ++ (V |` B) = m ++ (V |` (A \<union> B))"
  by (auto simp: map_add_def restrict_map_def fun_eq_iff split: option.splits)

lemma fold_inserted:
  assumes "\<And>j blob. (j, blob) \<in> set rows \<Longrightarrow> \<exists>e. decode_embedding le blob dimensions = Some e \<and> e \<noteq> [] \<and> V j = Some e"
  shows "foldl (insert_fetched_embedding le dimensions) m rows = m ++ (V |` (fst ` set rows))"
  using assms
proof (induction rows arbitrary: m)
  case (Cons row rows)
  obtain j blob where row: "row = (j, blob)" by (cases row)
  with Cons.prems obtain e where "decode_embedding le blob dimensions = Some e" "e \<noteq> []" "V j = Some e" by auto
  then have "insert_fetched_embedding le dimensions m row = m ++ (V |` {j})"
    by (auto simp: row insert_fetched_embedding_def map_add_def restrict_map_def)
  then show ?case using Cons by (simp add: row restrict_add)
qed simp

lemma fetch_many_view:
  assumes "vec_ok rowid dimensions t"
  shows "fetch_many le dimensions ids t = vec_view le dimensions t |` set ids"
proof -
  let ?V = "vec_view le dimensions t"
  have step: "foldl (insert_fetched_embedding le dimensions) m (joined_rows t chunk) = m ++ (?V |` set chunk)" for m chunk
  proof -
    have "?V |` (set chunk \<inter> dom ?V) = ?V |` set chunk"
      by (auto simp: restrict_map_def fun_eq_iff)
    then show ?thesis using fold_inserted [of "joined_rows t chunk" le dimensions ?V m] joined_row [OF assms, of _ _ chunk le]
      by (simp add: joined_keys [OF assms, of chunk le])
  qed
  have "foldl (\<lambda>result chunk. result ++ (?V |` set chunk)) m cs = m ++ (?V |` (\<Union> (set ` set cs)))" for m cs
    by (induction cs arbitrary: m) (simp_all add: restrict_add)
  then show ?thesis by (simp add: fetch_many_def step set_chunks_of FETCH_MANY_CHUNK_SIZE_def)
qed

section \<open>The contract\<close>

text \<open>Claim C8. The two tables of the vector index implement a finite map from memory ids to vectors. With fresh row ids and
  a positive number of dimensions, an upsert succeeds exactly for a finite vector of that length and an existing memory
  and is the update of the map at that id; a removal is the restriction; both keep the tables consistent, so that no
  mapping dangles and no vector is orphaned; a batched lookup returns the map on the ids asked for, bit for bit.\<close>

theorem vector_index_refines_map:
  assumes "vec_ok rowid dimensions t"
  shows "(\<exists>t'. vec_upsert rowid le dimensions ids i e t = Inr t') = (vec_acceptable dimensions e \<and> i \<in> set ids) \<and>
    (\<forall>t'. vec_upsert rowid le dimensions ids i e t = Inr t' \<longrightarrow>
       vec_ok rowid dimensions t' \<and> vec_view le dimensions t' = (vec_view le dimensions t)(i \<mapsto> e)) \<and>
    vec_ok rowid dimensions (vec_delete i t) \<and> vec_view le dimensions (vec_delete i t) = (vec_view le dimensions t)(i := None) \<and>
    fetch_many le dimensions ids t = vec_view le dimensions t |` set ids"
  using vec.ok_upsert [OF assms] vec.view_upsert [OF assms]
  by (simp add: vec.upsert_iff [OF assms] vec.ok_remove [OF assms] vec.view_remove [OF assms] fetch_many_view [OF assms])

text \<open>The largest row id plus one, as SQLite gives out row ids.\<close>

definition next_rowid :: "int list \<Rightarrow> int" where
  "next_rowid used = foldr max used 0 + 1"

lemma fresh_next_rowid: "fresh_rowids next_rowid"
proof -
  have "x \<in> set xs \<Longrightarrow> x \<le> foldr max xs 0" for x :: int and xs by (induction xs) auto
  then show ?thesis by (fastforce simp: fresh_rowids_def next_rowid_def)
qed

lemma vec_ok_empty: "vec_ok next_rowid 2 vec_empty"
  by (simp add: vec_ok_def fresh_next_rowid vec_wf_def vec_empty_def)

theorem vector_index_refines_map_witness:
  "\<exists>t'. vec_upsert next_rowid True 2 [7] 7 [0, 1] vec_empty = Inr t' \<and> vec_view True 2 t' = [7 \<mapsto> [0, 1]]"
proof -
  have "vec_acceptable 2 [0, 1]" by code_simp
  then show ?thesis
    using vector_index_refines_map [OF vec_ok_empty, of True "[7]" 7 "[0, 1]"] vec.view_empty [of True 2] by auto
qed

end
