(* ===== verification/Memory_Store.thy ===== *)
theory Memory_Store
  imports Vector_Index Scoring
begin

text \<open>
  The SQLite memory store: \<^verbatim>\<open>src/src/store/crud.rs\<close>, the embedding, metadata and eviction operations of
  \<^verbatim>\<open>src/src/store/admin.rs\<close>, the metadata merge of \<^verbatim>\<open>src/src/store/mod.rs\<close> and the tables of
  \<^verbatim>\<open>src/src/store/schema.rs\<close> they write.

  The database is the context tables together with the entity, vector, tombstone and audit tables.
  An operation maps a database to an error or the new database and the result; an error drops the
  transaction. Deleting a memory fires the cascades and triggers of the schema. The fields of
  \<open>sqlite_store\<close> are what the open store fixes: vector dimensions, host byte order, the active
  embedding profile, and the choices left to SQLite (row ids, the order of an unordered query).
  Timestamps are compared as values; the code compares their RFC 3339 texts, which agree for the
  four-digit years chrono prints without a sign. Revisions are integers; the columns are 64 bits wide.
\<close>

section \<open>Data\<close>

text \<open>\<^verbatim>\<open>serde_json::Value\<close> with \<^verbatim>\<open>preserve_order\<close>: an object keeps the order of its keys; a number is its
  text.\<close>

datatype json = JNull | JBool bool | JNumber string | JString string | JArray "json list" | JObject "(string \<times> json) list"

record audit_draft =
  aud_action :: audit_action
  aud_caller_agent :: "string option"
  aud_timestamp :: datetime
  aud_details :: "json option"

record audit_row =
  au_memory_id :: memory_id
  au_action :: string
  au_caller_agent :: "string option"
  au_timestamp :: datetime
  au_details :: "json option"

record audit_entry =
  ae_action :: audit_action
  ae_caller_agent :: "string option"
  ae_timestamp :: datetime
  ae_details :: "json option"

record memory_metadata =
  mm_memory_id :: memory_id
  mm_scope_key :: "string option"
  mm_summary :: "string option"
  mm_agent_label :: "string option"
  mm_created_by_principal :: "string option"
  mm_quality_flags :: "string list"
  mm_schema_version :: int

record metadata_patch =
  mp_scope_key :: "string option"
  mp_summary :: "string option"
  mp_clear_summary :: bool
  mp_agent_label :: "string option"
  mp_clear_agent_label :: bool

definition metadata_patch_is_empty :: "metadata_patch \<Rightarrow> bool" where
  "metadata_patch_is_empty p \<longleftrightarrow> mp_scope_key p = None \<and> mp_summary p = None \<and> \<not> mp_clear_summary p \<and>
     mp_agent_label p = None \<and> \<not> mp_clear_agent_label p"

record memory_update =
  u_content :: "string option"
  u_tags :: "string list option"
  u_access_policy :: "access_policy option"
  u_importance :: "importance option"
  u_expires_at :: "datetime option option"
  u_confidence :: "confidence option"
  u_source_conversation :: "string option"
  u_entities :: "entity list option"

record authorized_update_outcome =
  auo_outcome :: write_outcome
  auo_reembed_revision :: "int option"

record reembed_claim =
  rc_id :: memory_id
  rc_content :: string
  rc_embedding_revision :: int
  rc_claim_token :: string

record bulk_auth_outcome =
  bo_applied_ids :: "memory_id list"
  bo_denied :: u64

record record_use_outcome =
  ro_recorded_ids :: "memory_id list"
  ro_recorded :: u64
  ro_denied :: u64
  ro_not_found :: u64

record consolidation_snapshot =
  cs_memory_id :: memory_id
  cs_record_revision :: int
  cs_context_ids :: "context_id list"

record sqlite_store =
  ss_rowid :: "int list \<Rightarrow> int"
  ss_le :: bool
  ss_dimensions :: nat
  ss_active_profile :: "embedding_profile option"
  ss_checked_add :: "datetime \<Rightarrow> int \<Rightarrow> datetime option"
  ss_entity_scan :: "entity list \<Rightarrow> entity list"
  ss_returning :: "reembed_claim list \<Rightarrow> reembed_claim list"

record memory_db =
  d_ctx :: context_db
  d_entities :: "(memory_id \<times> entity) list"
  d_vectors :: vector_tables
  d_profile :: "embedding_profile option"
  d_tombstones :: "memory_tombstone list"
  d_audit :: "audit_row list"

type_synonym 'a mtx = "store_error + (memory_db \<times> 'a)"

section \<open>Rows\<close>

definition rows :: "memory_db \<Rightarrow> memory_row list" where
  "rows db = t_memories (d_ctx db)"

definition row_ids :: "memory_db \<Rightarrow> memory_id list" where
  "row_ids db = map m_id (rows db)"

definition find_row :: "memory_db \<Rightarrow> memory_id \<Rightarrow> memory_row option" where
  "find_row db i = find (\<lambda>r. m_id r = i) (rows db)"

definition set_rows :: "memory_row list \<Rightarrow> memory_db \<Rightarrow> memory_db" where
  "set_rows rs db = db\<lparr>d_ctx := (d_ctx db)\<lparr>t_memories := rs\<rparr>\<rparr>"

text \<open>\<^verbatim>\<open>UPDATE memories SET ... WHERE id = ?\<close> and the number of rows it affects.\<close>

definition update_row :: "memory_id \<Rightarrow> (memory_row \<Rightarrow> memory_row) \<Rightarrow> memory_db \<Rightarrow> memory_db" where
  "update_row i f db = set_rows (map (\<lambda>r. if m_id r = i then f r else r) (rows db)) db"

definition affected :: "memory_id \<Rightarrow> memory_db \<Rightarrow> nat" where
  "affected i db = length (filter (\<lambda>r. m_id r = i) (rows db))"

definition bump :: "memory_row \<Rightarrow> memory_row" where
  "bump r = r\<lparr>m_record_revision := m_record_revision r + 1\<rparr>"

definition row_to_memory :: "memory_row \<Rightarrow> memory" where
  "row_to_memory r = (memory.truncate r)
     \<lparr>m_importance := importance_new (importance_value (m_importance r)),
      m_confidence := confidence_new (confidence_value (m_confidence r)),
      m_entities := [], m_was_redacted := False\<rparr>"

definition fetch_memory_by_id :: "memory_db \<Rightarrow> memory_id \<Rightarrow> memory option" where
  "fetch_memory_by_id db i = map_option row_to_memory (find_row db i)"

text \<open>\<^verbatim>\<open>PreparedMemoryRow::from_memory\<close>: the columns of a new row. The impression count is stored as the
  \<^verbatim>\<open>i64\<close> of the same bits and read back from it.\<close>

definition prepared_row :: "memory \<Rightarrow> f32 list option \<Rightarrow> memory_row" where
  "prepared_row m embedding =
     memory.extend (m\<lparr>m_has_embedding := embedding \<noteq> None, m_entities := [], m_was_redacted := False\<rparr>)
       \<lparr>mr_embedding_revision = 0, mr_embedding_claimed_at = None, mr_embedding_claim_token = None\<rparr>"

section \<open>Entities\<close>

fun add_entities :: "memory_id \<Rightarrow> entity list \<Rightarrow> (memory_id \<times> entity) list \<Rightarrow> (memory_id \<times> entity) list" where
  "add_entities i [] t = t"
| "add_entities i (e # es) t = add_entities i es (if (i, e) \<in> set t then t else t @ [(i, e)])"

definition insert_entities :: "memory_id \<Rightarrow> entity list \<Rightarrow> memory_db \<Rightarrow> store_error + memory_db" where
  "insert_entities i entities db =
     (if entities = [] then Inr db
      else if i \<notin> set (row_ids db) then Inl FOREIGN_KEY_FAILED
      else Inr (db\<lparr>d_entities := add_entities i entities (d_entities db)\<rparr>))"

definition replace_entities :: "memory_id \<Rightarrow> entity list \<Rightarrow> memory_db \<Rightarrow> store_error + memory_db" where
  "replace_entities i entities db =
     insert_entities i entities (db\<lparr>d_entities := filter (\<lambda>(m, _). m \<noteq> i) (d_entities db)\<rparr>)"

definition hydrate_entities_single :: "sqlite_store \<Rightarrow> memory_db \<Rightarrow> memory_id \<Rightarrow> entity list" where
  "hydrate_entities_single st db i = ss_entity_scan st (map snd (filter (\<lambda>(m, _). m = i) (d_entities db)))"

section \<open>Audit log and tombstones\<close>

definition insert_audit_draft :: "memory_id \<Rightarrow> audit_draft \<Rightarrow> memory_db \<Rightarrow> memory_db" where
  "insert_audit_draft i audit db =
     db\<lparr>d_audit := d_audit db @
       [\<lparr>au_memory_id = i, au_action = audit_action_to_string (aud_action audit),
         au_caller_agent = aud_caller_agent audit, au_timestamp = aud_timestamp audit,
         au_details = aud_details audit\<rparr>]\<rparr>"

definition insert_optional_audit_draft :: "memory_id \<Rightarrow> audit_draft option \<Rightarrow> memory_db \<Rightarrow> memory_db" where
  "insert_optional_audit_draft i audit db =
     (case audit of None \<Rightarrow> db | Some a \<Rightarrow> insert_audit_draft i a db)"

definition usize_to_i64 :: "nat \<Rightarrow> store_error + int" where
  "usize_to_i64 n = (if n < 2 ^ 63 then Inr (int n) else Inl (Database ''{} {} exceeds i64 range: {}''))"

definition audit_row_entry :: "audit_row \<Rightarrow> store_error + audit_entry" where
  "audit_row_entry r =
     (case audit_action_from_str (au_action r) of
        Inl e \<Rightarrow> Inl (Database (pee_message e))
      | Inr action \<Rightarrow> Inr \<lparr>ae_action = action, ae_caller_agent = au_caller_agent r,
          ae_timestamp = au_timestamp r, ae_details = au_details r\<rparr>)"

fun try_map :: "('a \<Rightarrow> 'e + 'b) \<Rightarrow> 'a list \<Rightarrow> 'e + 'b list" where
  "try_map f [] = Inr []"
| "try_map f (x # xs) = result_bind (f x) (\<lambda>y. result_bind (try_map f xs) (\<lambda>ys. Inr (y # ys)))"

definition query_audit_log :: "memory_db \<Rightarrow> memory_id \<Rightarrow> nat \<Rightarrow> store_error + audit_entry list" where
  "query_audit_log db i limit =
     result_bind (usize_to_i64 limit) (\<lambda>n.
       try_map audit_row_entry (take (nat n) (filter (\<lambda>r. au_memory_id r = i) (d_audit db))))"

text \<open>\<^verbatim>\<open>INSERT ... ON CONFLICT(memory_id) DO UPDATE\<close> of every column.\<close>

definition upsert_tombstone :: "memory_tombstone \<Rightarrow> memory_db \<Rightarrow> memory_db" where
  "upsert_tombstone t db =
     db\<lparr>d_tombstones :=
       (if t_memory_id t \<in> t_memory_id ` set (d_tombstones db)
        then map (\<lambda>x. if t_memory_id x = t_memory_id t then t else x) (d_tombstones db)
        else d_tombstones db @ [t])\<rparr>"

definition insert_tombstone :: "memory \<Rightarrow> datetime \<Rightarrow> string option \<Rightarrow> memory_db \<Rightarrow> memory_db" where
  "insert_tombstone m deleted_at deleted_by db = upsert_tombstone (tombstone_from_memory m deleted_at deleted_by) db"

definition fetch_tombstone_by_id :: "memory_db \<Rightarrow> memory_id \<Rightarrow> memory_tombstone option" where
  "fetch_tombstone_by_id db i = find (\<lambda>t. t_memory_id t = i) (d_tombstones db)"

text \<open>\<^verbatim>\<open>DELETE FROM memories WHERE id = ?1\<close>: the foreign keys cascade to the embedding map (whose trigger
  drops the vector), the entities, the metadata and the memberships, and the trigger
  \<^verbatim>\<open>trg_memory_clear_superseded_by\<close> frees the memories the deleted one had superseded.\<close>

definition clear_superseded_by :: "memory_id \<Rightarrow> memory_row \<Rightarrow> memory_row" where
  "clear_superseded_by i r = (if m_superseded_by r = Some i then bump (r\<lparr>m_superseded_by := None\<rparr>) else r)"

definition delete_row :: "memory_id \<Rightarrow> memory_db \<Rightarrow> memory_db" where
  "delete_row i db =
     (if affected i db = 0 then db
      else db\<lparr>d_ctx := (d_ctx db)
          \<lparr>t_memories := map (clear_superseded_by i) (filter (\<lambda>r. m_id r \<noteq> i) (rows db)),
           t_metadata := filter (\<lambda>r. md_memory_id r \<noteq> i) (t_metadata (d_ctx db)),
           t_memory_contexts := filter (\<lambda>r. mc_memory_id r \<noteq> i) (t_memory_contexts (d_ctx db))\<rparr>,
        d_entities := filter (\<lambda>(m, _). m \<noteq> i) (d_entities db),
        d_vectors := vec_delete i (d_vectors db)\<rparr>)"

section \<open>Content hashes\<close>

definition FNV_OFFSET :: u64 where "FNV_OFFSET = 0xcbf29ce484222325"
definition FNV_PRIME :: u64 where "FNV_PRIME = 0x00000100000001b3"

definition fnv1a_hash :: "u8 list \<Rightarrow> u64" where
  "fnv1a_hash data = foldl (\<lambda>hash b. (hash XOR ucast b) * FNV_PRIME) FNV_OFFSET data"

definition hex_digit :: "nat \<Rightarrow> char" where
  "hex_digit n = ''0123456789abcdef'' ! n"

text \<open>\<^verbatim>\<open>format!("{:016x}", n)\<close>\<close>

definition hex16 :: "u64 \<Rightarrow> string" where
  "hex16 n = map (\<lambda>k. hex_digit (unat (drop_bit (4 * (15 - k)) n AND 15))) [0..<16]"

definition content_hash :: "string \<Rightarrow> string" where
  "content_hash content = hex16 (fnv1a_hash (map (\<lambda>c. of_nat (byte c)) content))"

fun json_insert :: "string \<Rightarrow> json \<Rightarrow> (string \<times> json) list \<Rightarrow> (string \<times> json) list" where
  "json_insert k v [] = [(k, v)]"
| "json_insert k v ((k', v') # kvs) = (if k' = k then (k, v) # kvs else (k', v') # json_insert k v kvs)"

fun audit_details_with_old_content_hash :: "json option \<Rightarrow> string \<Rightarrow> json" where
  "audit_details_with_old_content_hash (Some (JObject kvs)) h = JObject (json_insert ''old_content_hash'' (JString h) kvs)"
| "audit_details_with_old_content_hash (Some v) h = JObject [(''old_content_hash'', JString h), (''details'', v)]"
| "audit_details_with_old_content_hash None h = JObject [(''old_content_hash'', JString h)]"

definition update_audit_draft_for_locked_memory :: "audit_draft \<Rightarrow> memory_update \<Rightarrow> memory \<Rightarrow> audit_draft" where
  "update_audit_draft_for_locked_memory audit update existing =
     (if u_content update = None then audit
      else audit\<lparr>aud_details := Some (audit_details_with_old_content_hash (aud_details audit) (content_hash (m_content existing)))\<rparr>)"

section \<open>Metadata\<close>

definition or_else :: "'a option \<Rightarrow> 'a option \<Rightarrow> 'a option" where
  "or_else a b = (case a of None \<Rightarrow> b | Some _ \<Rightarrow> a)"

definition merge_metadata_patch ::
  "(string \<Rightarrow> string) \<Rightarrow> memory_id \<Rightarrow> metadata_patch \<Rightarrow> memory_metadata option \<Rightarrow> string option \<Rightarrow> string \<Rightarrow> memory_metadata" where
  "merge_metadata_patch lc i patch existing fallback_scope p =
     (let scope_key = or_else (mp_scope_key patch) (or_else (Option.bind existing mm_scope_key) fallback_scope);
          kept = filter (\<lambda>flag. flag \<noteq> ''missing_scope'') (case existing of None \<Rightarrow> [] | Some e \<Rightarrow> mm_quality_flags e);
          unresolved = (case scope_key of None \<Rightarrow> True | Some k \<Rightarrow> normalize_context_key lc k = UNRESOLVED_CONTEXT_KEY)
      in \<lparr>mm_memory_id = i, mm_scope_key = scope_key,
          mm_summary = (if mp_clear_summary patch then None else or_else (mp_summary patch) (Option.bind existing mm_summary)),
          mm_agent_label = (if mp_clear_agent_label patch then None
            else or_else (mp_agent_label patch) (Option.bind existing mm_agent_label)),
          mm_created_by_principal = or_else (Option.bind existing mm_created_by_principal) (Some p),
          mm_quality_flags = (if unresolved then kept @ [''missing_scope''] else kept),
          mm_schema_version = 1\<rparr>)"

definition validate_metadata_memory_id :: "memory_id \<Rightarrow> memory_metadata \<Rightarrow> store_error + unit" where
  "validate_metadata_memory_id i md =
     (if mm_memory_id md = i then Inr () else Inl (Conflict ''metadata memory_id ({}) must match memory id ({})''))"

definition metadata_row_of :: "memory_metadata \<Rightarrow> datetime \<Rightarrow> metadata_row" where
  "metadata_row_of md now =
     \<lparr>md_memory_id = mm_memory_id md, md_scope_key = mm_scope_key md, md_summary = mm_summary md,
      md_agent_label = mm_agent_label md, md_created_by_principal = mm_created_by_principal md,
      md_quality_flags = mm_quality_flags md, md_schema_version = mm_schema_version md, md_updated_at = now\<rparr>"

text \<open>On conflict every column is replaced but the creator, which is kept once it is known.\<close>

definition upsert_metadata_conn :: "memory_metadata \<Rightarrow> datetime \<Rightarrow> memory_db \<Rightarrow> store_error + memory_db" where
  "upsert_metadata_conn md now db =
     (let new = metadata_row_of md now; t = t_metadata (d_ctx db) in
      if mm_memory_id md \<notin> set (row_ids db) then Inl FOREIGN_KEY_FAILED
      else Inr (db\<lparr>d_ctx := (d_ctx db)\<lparr>t_metadata :=
        (if mm_memory_id md \<in> md_memory_id ` set t
         then map (\<lambda>r. if md_memory_id r = mm_memory_id md
            then new\<lparr>md_created_by_principal := or_else (md_created_by_principal r) (mm_created_by_principal md)\<rparr> else r) t
         else t @ [new])\<rparr>\<rparr>))"

definition row_metadata :: "metadata_row \<Rightarrow> memory_metadata" where
  "row_metadata r =
     \<lparr>mm_memory_id = md_memory_id r, mm_scope_key = md_scope_key r, mm_summary = md_summary r,
      mm_agent_label = md_agent_label r, mm_created_by_principal = md_created_by_principal r,
      mm_quality_flags = md_quality_flags r, mm_schema_version = md_schema_version r\<rparr>"

definition get_metadata_conn :: "memory_db \<Rightarrow> memory_id \<Rightarrow> memory_metadata option" where
  "get_metadata_conn db i = map_option row_metadata (find (\<lambda>r. md_memory_id r = i) (t_metadata (d_ctx db)))"

section \<open>Storing\<close>

definition upsert_vector :: "sqlite_store \<Rightarrow> memory_id \<Rightarrow> f32 list \<Rightarrow> memory_db \<Rightarrow> store_error + memory_db" where
  "upsert_vector st i e db =
     result_bind (vec_upsert (ss_rowid st) (ss_le st) (ss_dimensions st) (row_ids db) i e (d_vectors db)) (\<lambda>t.
       Inr (db\<lparr>d_vectors := t\<rparr>))"

text \<open>\<^verbatim>\<open>PreparedMemoryRow::insert\<close>\<close>

definition insert_prepared :: "sqlite_store \<Rightarrow> memory \<Rightarrow> f32 list option \<Rightarrow> memory_db \<Rightarrow> store_error + memory_db" where
  "insert_prepared st m embedding db =
     (if m_id m \<in> set (row_ids db) then Inl UNIQUE_FAILED
      else let db1 = set_rows (rows db @ [prepared_row m embedding]) db in
        result_bind (case embedding of None \<Rightarrow> Inr db1 | Some e \<Rightarrow> upsert_vector st (m_id m) e db1)
          (insert_entities (m_id m) (m_entities m)))"

definition mark_superseded :: "memory_id \<Rightarrow> memory_id \<Rightarrow> memory_db \<Rightarrow> bool mtx" where
  "mark_superseded old_id new_id db =
     (case fetch_memory_by_id db old_id of
        None \<Rightarrow> Inr (db, False)
      | Some existing \<Rightarrow>
          if m_superseded_by existing \<noteq> None then Inl (Conflict ''memory {} is already superseded'')
          else if filter (\<lambda>r. m_id r = old_id \<and> m_superseded_by r = None) (rows db) = []
          then Inl (Conflict ''memory {} changed while superseding'')
          else Inr (set_rows (map (\<lambda>r. if m_id r = old_id \<and> m_superseded_by r = None
                     then bump (r\<lparr>m_superseded_by := Some new_id\<rparr>) else r) (rows db)) db, True))"

definition validate_superseded_exists :: "memory_id \<Rightarrow> memory_db \<Rightarrow> store_error + unit" where
  "validate_superseded_exists i db =
     (if i \<in> set (row_ids db) then Inr () else Inl (NotFound ''superseded memory not found: {}''))"

definition insert_prepared_with_optional_supersession_and_audit ::
  "sqlite_store \<Rightarrow> memory \<Rightarrow> f32 list option \<Rightarrow> memory_id option \<Rightarrow> audit_draft option \<Rightarrow> memory_db \<Rightarrow> memory_id mtx" where
  "insert_prepared_with_optional_supersession_and_audit st m embedding supersedes audit db =
     result_bind (case supersedes of None \<Rightarrow> Inr () | Some sid \<Rightarrow> validate_superseded_exists sid db) (\<lambda>_.
     result_bind (insert_prepared st m embedding db) (\<lambda>db1.
     result_bind (case supersedes of None \<Rightarrow> Inr (db1, False) | Some sid \<Rightarrow> mark_superseded sid (m_id m) db1) (\<lambda>(db2, _).
     Inr (insert_optional_audit_draft (m_id m) audit db2, m_id m))))"

definition store_audited :: "sqlite_store \<Rightarrow> memory \<Rightarrow> f32 list option \<Rightarrow> audit_draft option \<Rightarrow> memory_db \<Rightarrow> memory_id mtx" where
  "store_audited st m embedding audit db =
     result_bind (insert_prepared st m embedding db) (\<lambda>db1.
     Inr (insert_optional_audit_draft (m_id m) audit db1, m_id m))"

definition store_with_supersession_audited ::
  "sqlite_store \<Rightarrow> memory \<Rightarrow> f32 list option \<Rightarrow> memory_id \<Rightarrow> audit_draft option \<Rightarrow> memory_db \<Rightarrow> memory_id mtx" where
  "store_with_supersession_audited st m embedding supersedes audit db =
     result_bind (validate_superseded_exists supersedes db) (\<lambda>_.
     result_bind (insert_prepared st m embedding db) (\<lambda>db1.
     result_bind (mark_superseded supersedes (m_id m) db1) (\<lambda>(db2, _).
     Inr (insert_optional_audit_draft (m_id m) audit db2, m_id m))))"

definition store_with_metadata_audited ::
  "sqlite_store \<Rightarrow> memory \<Rightarrow> f32 list option \<Rightarrow> memory_id option \<Rightarrow> memory_metadata \<Rightarrow> audit_draft option \<Rightarrow> datetime \<Rightarrow>
   memory_db \<Rightarrow> memory_id mtx" where
  "store_with_metadata_audited st m embedding supersedes md audit now db =
     result_bind (validate_metadata_memory_id (m_id m) md) (\<lambda>_.
     result_bind (insert_prepared_with_optional_supersession_and_audit st m embedding supersedes audit db) (\<lambda>(db1, i).
     result_bind (upsert_metadata_conn md now db1) (\<lambda>db2.
     Inr (db2, i))))"

definition with_ctx :: "(context_db \<Rightarrow> store_error + context_db) \<Rightarrow> memory_db \<Rightarrow> store_error + memory_db" where
  "with_ctx f db = result_bind (f (d_ctx db)) (\<lambda>c. Inr (db\<lparr>d_ctx := c\<rparr>))"

definition compatibility_scope_of :: "memory_metadata \<Rightarrow> string" where
  "compatibility_scope_of md = (case mm_scope_key md of None \<Rightarrow> UNRESOLVED_CONTEXT_KEY | Some k \<Rightarrow> k)"

text \<open>The checks of a governed write: the compatibility scope is written the same in both places and
  the writer is named.\<close>

definition governed_principal :: "memory \<Rightarrow> memory_metadata \<Rightarrow> store_error + string" where
  "governed_principal m md =
     result_bind (validate_metadata_memory_id (m_id m) md) (\<lambda>_.
     if p_source_conversation (m_provenance m) \<noteq> Some (compatibility_scope_of md)
     then Inl (Conflict ''memory provenance and metadata compatibility scope must match'')
     else (case p_source_agent (m_provenance m) of
         None \<Rightarrow> Inl (Conflict ''governed memory writes require a source principal'')
       | Some p \<Rightarrow> if trim p = [] then Inl (Conflict ''governed memory writes require a source principal'') else Inr p))"

definition store_governed ::
  "sqlite_store \<Rightarrow> memory \<Rightarrow> f32 list option \<Rightarrow> memory_id option \<Rightarrow> memory_metadata \<Rightarrow> context_id list \<Rightarrow> string \<Rightarrow>
   audit_draft \<Rightarrow> context_audit_draft \<Rightarrow> datetime \<Rightarrow> memory_db \<Rightarrow> memory_id mtx" where
  "store_governed st m embedding supersedes md ids p audit context_audit now db =
     result_bind (insert_prepared_with_optional_supersession_and_audit st m embedding supersedes (Some audit) db) (\<lambda>(db1, i).
     result_bind (upsert_metadata_conn md now db1) (\<lambda>db2.
     result_bind (with_ctx (insert_initial_memory_contexts i ids p (compatibility_scope_of md) context_audit now) db2) (\<lambda>db3.
     Inr (db3, i))))"

definition store_with_metadata_contexts_audited ::
  "sqlite_store \<Rightarrow> memory \<Rightarrow> f32 list option \<Rightarrow> memory_id option \<Rightarrow> memory_metadata \<Rightarrow> context_id list \<Rightarrow> audit_draft \<Rightarrow>
   context_audit_draft \<Rightarrow> datetime \<Rightarrow> memory_db \<Rightarrow> memory_id mtx" where
  "store_with_metadata_contexts_audited st m embedding supersedes md ids audit context_audit now db =
     result_bind (governed_principal m md) (\<lambda>p.
       store_governed st m embedding supersedes md ids p audit context_audit now db)"

subsection \<open>Batches\<close>

fun try_fold :: "('s \<Rightarrow> 'a \<Rightarrow> 'e + 's) \<Rightarrow> 's \<Rightarrow> 'a list \<Rightarrow> 'e + 's" where
  "try_fold f s [] = Inr s"
| "try_fold f s (x # xs) = result_bind (f s x) (\<lambda>s'. try_fold f s' xs)"

text \<open>The transaction of a batch: one operation per item, the ids collected in order.\<close>

definition batch_tx :: "('a \<Rightarrow> memory_db \<Rightarrow> memory_id mtx) \<Rightarrow> 'a list \<Rightarrow> memory_db \<Rightarrow> memory_id list mtx" where
  "batch_tx op items db =
     try_fold (\<lambda>(db, ids) item. result_bind (op item db) (\<lambda>(db', i). Inr (db', ids @ [i]))) (db, []) items"

definition audit_len_mismatch :: store_error where
  "audit_len_mismatch = Conflict ''audit length ({}) must match memories length ({})''"

definition audits_fit :: "'m list \<Rightarrow> audit_draft list option \<Rightarrow> bool" where
  "audits_fit memories audits = (case audits of None \<Rightarrow> True | Some as \<Rightarrow> length as = length memories)"

definition audit_at :: "audit_draft list option \<Rightarrow> nat \<Rightarrow> audit_draft option" where
  "audit_at audits k = Option.bind audits (\<lambda>as. if k < length as then Some (as ! k) else None)"

type_synonym batch_item = "memory \<times> f32 list option"

definition store_batch_audited ::
  "sqlite_store \<Rightarrow> batch_item list \<Rightarrow> audit_draft list option \<Rightarrow> memory_db \<Rightarrow> memory_id list mtx" where
  "store_batch_audited st memories audits db =
     (if \<not> audits_fit memories audits then Inl audit_len_mismatch
      else batch_tx (\<lambda>(k, m, e) db. store_audited st m e (audit_at audits k) db) (enumerate 0 memories) db)"

definition store_batch_with_supersession_audited ::
  "sqlite_store \<Rightarrow> batch_item list \<Rightarrow> memory_id option list \<Rightarrow> audit_draft list option \<Rightarrow> memory_db \<Rightarrow> memory_id list mtx" where
  "store_batch_with_supersession_audited st memories supersedes audits db =
     (if length supersedes \<noteq> length memories
      then Inl (Conflict ''supersedes length ({}) must match memories length ({})'')
      else if \<not> audits_fit memories audits then Inl audit_len_mismatch
      else batch_tx (\<lambda>(k, m, e) db.
          insert_prepared_with_optional_supersession_and_audit st m e (supersedes ! k) (audit_at audits k) db)
        (enumerate 0 memories) db)"

definition store_batch_with_metadata_audited ::
  "sqlite_store \<Rightarrow> batch_item list \<Rightarrow> memory_id option list \<Rightarrow> memory_metadata list \<Rightarrow> audit_draft list option \<Rightarrow> datetime \<Rightarrow>
   memory_db \<Rightarrow> memory_id list mtx" where
  "store_batch_with_metadata_audited st memories supersedes mds audits now db =
     (if length mds \<noteq> length memories then Inl (Conflict ''metadata length ({}) must match memories length ({})'')
      else if length supersedes \<noteq> length memories
      then Inl (Conflict ''supersedes length ({}) must match memories length ({})'')
      else if \<not> audits_fit memories audits then Inl audit_len_mismatch
      else result_bind (try_for_each (\<lambda>((m, _), md). validate_metadata_memory_id (m_id m) md) (zip memories mds)) (\<lambda>_.
        batch_tx (\<lambda>(k, m, e) db.
            result_bind (insert_prepared_with_optional_supersession_and_audit st m e (supersedes ! k) (audit_at audits k) db)
              (\<lambda>(db1, i). result_bind (upsert_metadata_conn (mds ! k) now db1) (\<lambda>db2. Inr (db2, i))))
          (enumerate 0 memories) db))"

definition store_batch_with_metadata_contexts_audited ::
  "sqlite_store \<Rightarrow> batch_item list \<Rightarrow> memory_id option list \<Rightarrow> memory_metadata list \<Rightarrow> context_id list list \<Rightarrow> audit_draft list \<Rightarrow>
   context_audit_draft list \<Rightarrow> datetime \<Rightarrow> memory_db \<Rightarrow> memory_id list mtx" where
  "store_batch_with_metadata_contexts_audited st memories supersedes mds memberships audits context_audits now db =
     (let expected = length memories in
      if length supersedes \<noteq> expected \<or> length mds \<noteq> expected \<or> length memberships \<noteq> expected \<or>
         length audits \<noteq> expected \<or> length context_audits \<noteq> expected
      then Inl (Conflict ''governed batch companion lengths must match memories'')
      else result_bind (try_map (\<lambda>((m, _), md). governed_principal m md) (zip memories mds)) (\<lambda>principals.
        batch_tx (\<lambda>(k, m, e) db.
            store_governed st m e (supersedes ! k) (mds ! k) (memberships ! k) (principals ! k) (audits ! k) (context_audits ! k) now db)
          (enumerate 0 memories) db))"

section \<open>Reading\<close>

definition expired_at :: "datetime \<Rightarrow> memory \<Rightarrow> bool" where
  "expired_at now m = (case m_expires_at m of None \<Rightarrow> False | Some e \<Rightarrow> now \<ge> e)"

definition get_by_id :: "sqlite_store \<Rightarrow> memory_db \<Rightarrow> memory_id \<Rightarrow> string option \<Rightarrow> datetime \<Rightarrow> memory option" where
  "get_by_id st db i caller now =
     (case fetch_memory_by_id db i of
        None \<Rightarrow> None
      | Some m \<Rightarrow>
          if expired_at now m then None
          else apply_access_policy (m\<lparr>m_entities := hydrate_entities_single st db i\<rparr>) caller)"

text \<open>\<^verbatim>\<open>get_batch_by_ids\<close>: one query for the rows, a map from id to view.\<close>

definition get_batch_by_ids ::
  "sqlite_store \<Rightarrow> memory_db \<Rightarrow> memory_id list \<Rightarrow> string option \<Rightarrow> datetime \<Rightarrow> (memory_id \<rightharpoonup> memory)" where
  "get_batch_by_ids st db ids caller now =
     (if ids = [] then Map.empty
      else map_of (rev (List.map_filter (\<lambda>m.
             map_option (\<lambda>visible. (m_id visible, visible))
               (apply_access_policy (m\<lparr>m_entities := hydrate_entities_single st db (m_id m)\<rparr>) caller))
           (filter (\<lambda>m. \<not> expired_at now m)
             (map row_to_memory (filter (\<lambda>r. m_id r \<in> set ids) (rows db)))))))"

section \<open>Updating\<close>

definition next_memory_revision :: "(datetime \<Rightarrow> int \<Rightarrow> datetime option) \<Rightarrow> datetime \<Rightarrow> datetime \<Rightarrow> datetime" where
  "next_memory_revision add now previous =
     (case add previous 1000 of None \<Rightarrow> now | Some minimum \<Rightarrow> max now minimum)"

definition has_column_updates :: "memory_update \<Rightarrow> bool" where
  "has_column_updates u \<longleftrightarrow> u_content u \<noteq> None \<or> u_tags u \<noteq> None \<or> u_access_policy u \<noteq> None \<or>
     u_importance u \<noteq> None \<or> u_expires_at u \<noteq> None \<or> u_confidence u \<noteq> None \<or> u_source_conversation u \<noteq> None"

definition assign :: "('a \<Rightarrow> memory_row \<Rightarrow> memory_row) \<Rightarrow> 'a option \<Rightarrow> memory_row \<Rightarrow> memory_row" where
  "assign f v r = (case v of None \<Rightarrow> r | Some x \<Rightarrow> f x r)"

text \<open>\<^verbatim>\<open>build_set_clause\<close> as the function its \<^verbatim>\<open>SET\<close> list computes on a row.\<close>

definition set_clause :: "memory_update \<Rightarrow> datetime \<Rightarrow> memory_row \<Rightarrow> memory_row" where
  "set_clause u now r =
     (if has_column_updates u then bump else id)
     (assign (\<lambda>_ r. r\<lparr>m_updated_at := now\<rparr>) (u_content u)
     (assign (\<lambda>v r. r\<lparr>m_provenance := (m_provenance r)\<lparr>p_source_conversation := Some v\<rparr>\<rparr>) (u_source_conversation u)
     (assign (\<lambda>v r. r\<lparr>m_confidence := v\<rparr>) (u_confidence u)
     (assign (\<lambda>v r. r\<lparr>m_expires_at := v\<rparr>) (u_expires_at u)
     (assign (\<lambda>v r. r\<lparr>m_importance := v\<rparr>) (u_importance u)
     (assign (\<lambda>v r. r\<lparr>m_access_policy := v\<rparr>) (u_access_policy u)
     (assign (\<lambda>v r. r\<lparr>m_tags := v\<rparr>) (u_tags u)
     (assign (\<lambda>v r. r\<lparr>m_content := v, m_has_embedding := False,
         mr_embedding_revision := mr_embedding_revision r + 1,
         mr_embedding_claimed_at := None, mr_embedding_claim_token := None\<rparr>) (u_content u) r))))))))"

definition not_found_outcome :: authorized_update_outcome where
  "not_found_outcome = \<lparr>auo_outcome = OutcomeNotFound, auo_reembed_revision = None\<rparr>"

definition denied_outcome :: authorized_update_outcome where
  "denied_outcome = \<lparr>auo_outcome = OutcomeDenied, auo_reembed_revision = None\<rparr>"

definition apply_update_inner :: "memory_id \<Rightarrow> memory_update \<Rightarrow> datetime \<Rightarrow> memory_db \<Rightarrow> authorized_update_outcome mtx" where
  "apply_update_inner i u now db =
     (if affected i db = 0 then Inr (db, not_found_outcome)
      else
        let db1 = (if has_column_updates u then update_row i (set_clause u now) db
                   else if u_entities u \<noteq> None then update_row i bump db else db);
            db2 = (if u_content u \<noteq> None then db1\<lparr>d_vectors := vec_delete i (d_vectors db1)\<rparr> else db1);
            revision = (if u_content u \<noteq> None then map_option mr_embedding_revision (find_row db2 i) else None)
        in result_bind (case u_entities u of None \<Rightarrow> Inr db2 | Some entities \<Rightarrow> replace_entities i entities db2) (\<lambda>db3.
           Inr (db3, \<lparr>auo_outcome = Applied, auo_reembed_revision = revision\<rparr>)))"

definition compatibility_scope_key :: "memory_db \<Rightarrow> memory_id \<Rightarrow> string" where
  "compatibility_scope_key db i =
     (case Option.bind (find (\<lambda>r. mc_memory_id r = i \<and> mc_ordinal r = 0) (t_memory_contexts (d_ctx db)))
             (\<lambda>r. find_context (d_ctx db) (mc_context_id r)) of
        None \<Rightarrow> UNRESOLVED_CONTEXT_KEY
      | Some c \<Rightarrow> cd_key c)"

definition patch_scope :: "metadata_patch option \<Rightarrow> string option" where
  "patch_scope patch = Option.bind patch mp_scope_key"

definition validate_compatibility_cache_update ::
  "memory_id \<Rightarrow> memory_update \<Rightarrow> metadata_patch option \<Rightarrow> memory_db \<Rightarrow> store_error + unit" where
  "validate_compatibility_cache_update i u patch db =
     (if u_source_conversation u = None \<and> patch_scope patch = None then Inr ()
      else let expected_scope = compatibility_scope_key db i in
        if u_source_conversation u \<notin> {None, Some expected_scope}
        then Inl (Conflict ''provenance compatibility scope must match the primary governed context; replace governed memberships instead'')
        else if patch_scope patch \<notin> {None, Some expected_scope}
        then Inl (Conflict ''metadata compatibility scope must match the primary governed context; replace governed memberships instead'')
        else Inr ())"

definition increment_record_revision_conn :: "memory_id \<Rightarrow> memory_db \<Rightarrow> store_error + memory_db" where
  "increment_record_revision_conn i db =
     (if affected i db = 0 then Inl (Conflict ''memory {} changed while {}'') else Inr (update_row i bump db))"

text \<open>The metadata step shared by the revisions.\<close>

definition apply_metadata_patch ::
  "(string \<Rightarrow> string) \<Rightarrow> memory_id \<Rightarrow> metadata_patch option \<Rightarrow> memory \<Rightarrow> string \<Rightarrow> datetime \<Rightarrow> memory_db \<Rightarrow> store_error + memory_db" where
  "apply_metadata_patch lc i patch existing p revision_at db =
     (case patch of
        None \<Rightarrow> Inr db
      | Some mp \<Rightarrow> upsert_metadata_conn (merge_metadata_patch lc i mp (get_metadata_conn db i)
            (p_source_conversation (m_provenance existing)) p) revision_at db)"

definition apply_update :: "sqlite_store \<Rightarrow> memory_id \<Rightarrow> memory_update \<Rightarrow> datetime \<Rightarrow> memory_db \<Rightarrow> authorized_update_outcome mtx" where
  "apply_update st i u now db =
     (if \<not> has_column_updates u \<and> u_entities u = None
      then Inr (db, \<lparr>auo_outcome = (if i \<in> set (row_ids db) then Applied else OutcomeNotFound), auo_reembed_revision = None\<rparr>)
      else (case fetch_memory_by_id db i of
          None \<Rightarrow> Inr (db, not_found_outcome)
        | Some existing \<Rightarrow>
            result_bind (validate_compatibility_cache_update i u None db) (\<lambda>_.
            apply_update_inner i u (next_memory_revision (ss_checked_add st) now (m_updated_at existing)) db)))"

definition update_authorized_audited ::
  "sqlite_store \<Rightarrow> memory_id \<Rightarrow> memory_update \<Rightarrow> string \<Rightarrow> audit_draft option \<Rightarrow> datetime \<Rightarrow> memory_db \<Rightarrow> authorized_update_outcome mtx" where
  "update_authorized_audited st i u p audit now db =
     (case fetch_memory_by_id db i of
        None \<Rightarrow> Inr (db, not_found_outcome)
      | Some existing \<Rightarrow>
          if \<not> has_write_access existing p then Inr (db, denied_outcome)
          else
          result_bind (validate_compatibility_cache_update i u None db) (\<lambda>_.
          result_bind (apply_update_inner i u (next_memory_revision (ss_checked_add st) now (m_updated_at existing)) db) (\<lambda>(db1, out).
          Inr (if auo_outcome out = Applied
               then insert_optional_audit_draft (m_id existing)
                      (map_option (\<lambda>a. update_audit_draft_for_locked_memory a u existing) audit) db1
               else db1, out))))"

definition apply_authorized_update_with_metadata ::
  "(string \<Rightarrow> string) \<Rightarrow> sqlite_store \<Rightarrow> memory_id \<Rightarrow> memory_update \<Rightarrow> metadata_patch option \<Rightarrow> string \<Rightarrow> datetime \<Rightarrow>
   audit_draft option \<Rightarrow> memory_db \<Rightarrow> authorized_update_outcome mtx" where
  "apply_authorized_update_with_metadata lc st i u patch p now audit db =
     (case fetch_memory_by_id db i of
        None \<Rightarrow> Inr (db, not_found_outcome)
      | Some existing \<Rightarrow>
          if \<not> has_write_access existing p then Inr (db, denied_outcome)
          else
          result_bind (validate_compatibility_cache_update i u patch db) (\<lambda>_.
          let revision_at = next_memory_revision (ss_checked_add st) now (m_updated_at existing);
              metadata_only = (patch \<noteq> None \<and> \<not> has_column_updates u \<and> u_entities u = None)
          in result_bind (apply_update_inner i u revision_at db) (\<lambda>(db1, out).
             if auo_outcome out \<noteq> Applied then Inr (db1, out)
             else
             result_bind (apply_metadata_patch lc i patch existing p revision_at db1) (\<lambda>db2.
             result_bind (if metadata_only then increment_record_revision_conn i db2 else Inr db2) (\<lambda>db3.
             Inr (insert_optional_audit_draft (m_id existing)
               (map_option (\<lambda>a. update_audit_draft_for_locked_memory a u existing) audit) db3, out))))))"

text \<open>\<^verbatim>\<open>apply_authorized_update_with_metadata_contexts\<close>: the memberships are replaced in the same transaction.\<close>

definition replace_memberships ::
  "memory_id \<Rightarrow> memory_update \<Rightarrow> metadata_patch option \<Rightarrow> context_id list option \<Rightarrow> context_audit_draft option \<Rightarrow> string \<Rightarrow>
   datetime \<Rightarrow> memory_db \<Rightarrow> store_error + memory_db" where
  "replace_memberships i u patch ids context_audit p revision_at db =
     (case ids of
        None \<Rightarrow> Inr db
      | Some is \<Rightarrow>
          (case context_audit of
             None \<Rightarrow> Inl (Conflict ''governed membership replacement requires a context audit'')
           | Some ca \<Rightarrow>
               (case patch_scope patch of
                  None \<Rightarrow> Inl (Conflict ''membership replacement requires a compatibility scope metadata patch'')
                | Some scope \<Rightarrow>
                    if u_source_conversation u \<noteq> Some scope
                    then Inl (Conflict ''membership replacement requires matching provenance and metadata compatibility scopes'')
                    else with_ctx (replace_memory_contexts_tx i is p scope ca revision_at) db)))"

definition apply_authorized_update_with_metadata_contexts ::
  "(string \<Rightarrow> string) \<Rightarrow> sqlite_store \<Rightarrow> memory_id \<Rightarrow> memory_update \<Rightarrow> metadata_patch option \<Rightarrow> context_id list option \<Rightarrow>
   string \<Rightarrow> datetime \<Rightarrow> audit_draft \<Rightarrow> context_audit_draft option \<Rightarrow> memory_db \<Rightarrow> authorized_update_outcome mtx" where
  "apply_authorized_update_with_metadata_contexts lc st i u patch ids p now audit context_audit db =
     (if (ids \<noteq> None) \<noteq> (context_audit \<noteq> None)
      then Inl (Conflict ''governed membership replacement requires exactly one context audit'')
      else (case fetch_memory_by_id db i of
        None \<Rightarrow> Inr (db, not_found_outcome)
      | Some existing \<Rightarrow>
          if \<not> has_write_access existing p then Inr (db, denied_outcome)
          else
          result_bind (if ids = None then validate_compatibility_cache_update i u patch db else Inr ()) (\<lambda>_.
          let revision_at = next_memory_revision (ss_checked_add st) now (m_updated_at existing);
              metadata_only = (patch \<noteq> None \<and> \<not> has_column_updates u \<and> u_entities u = None)
          in result_bind (apply_update_inner i u revision_at db) (\<lambda>(db1, out).
             if auo_outcome out \<noteq> Applied then Inr (db1, out)
             else
             result_bind (apply_metadata_patch lc i patch existing p revision_at db1) (\<lambda>db2.
             result_bind (if metadata_only then increment_record_revision_conn i db2 else Inr db2) (\<lambda>db3.
             result_bind (replace_memberships i u patch ids context_audit p revision_at db3) (\<lambda>db4.
             Inr (insert_audit_draft (m_id existing) (update_audit_draft_for_locked_memory audit u existing) db4, out))))))))"

subsection \<open>Optimistic writes\<close>

text \<open>\<^verbatim>\<open>apply_authorized_update_if_unmodified_with_metadata\<close>: the replacement vector and the memberships are steps
  of their own here.\<close>

definition save_embedding ::
  "sqlite_store \<Rightarrow> memory_id \<Rightarrow> f32 list option \<Rightarrow> authorized_update_outcome \<Rightarrow> memory_db \<Rightarrow> authorized_update_outcome mtx" where
  "save_embedding st i embedding out db =
     (case embedding of
        None \<Rightarrow> Inr (db, out)
      | Some e \<Rightarrow>
          result_bind (case ss_active_profile st of None \<Rightarrow> Inr () | Some profile \<Rightarrow> ensure_embedding_profile_matches profile (d_profile db)) (\<lambda>_.
          result_bind (upsert_vector st i e db) (\<lambda>db1.
          if affected i db1 = 0 then Inl (Conflict ''memory {} changed while saving'')
          else Inr (update_row i (\<lambda>r. r\<lparr>m_has_embedding := True\<rparr>) db1, out\<lparr>auo_reembed_revision := None\<rparr>))))"

definition primary_compatibility_scope :: "memory_db \<Rightarrow> context_id list \<Rightarrow> store_error + string" where
  "primary_compatibility_scope db ids =
     (case ids of
        [] \<Rightarrow> Inr UNRESOLVED_CONTEXT_KEY
      | primary # _ \<Rightarrow> (case find_context (d_ctx db) primary of
            None \<Rightarrow> Inl (Conflict ''primary context {} does not exist'')
          | Some c \<Rightarrow> Inr (cd_key c)))"

definition blank_metadata :: "memory_id \<Rightarrow> string \<Rightarrow> memory_metadata" where
  "blank_metadata i p =
     \<lparr>mm_memory_id = i, mm_scope_key = None, mm_summary = None, mm_agent_label = None,
      mm_created_by_principal = Some p, mm_quality_flags = [], mm_schema_version = 1\<rparr>"

definition save_memberships ::
  "memory_id \<Rightarrow> context_id list option \<Rightarrow> context_audit_draft option \<Rightarrow> string \<Rightarrow> datetime \<Rightarrow> memory_db \<Rightarrow> store_error + memory_db" where
  "save_memberships i ids context_audit p revision_at db =
     (case ids of
        None \<Rightarrow> Inr db
      | Some is \<Rightarrow>
          (case context_audit of
             None \<Rightarrow> Inl (Conflict ''optimistic membership replacement requires a context audit'')
           | Some ca \<Rightarrow>
               result_bind (primary_compatibility_scope db is) (\<lambda>scope.
               let md = (case get_metadata_conn db i of None \<Rightarrow> blank_metadata i p | Some md \<Rightarrow> md)
               in result_bind (upsert_metadata_conn (md\<lparr>mm_scope_key := Some scope\<rparr>) revision_at db)
                    (with_ctx (replace_memory_contexts_tx i is p scope ca revision_at)))))"

definition apply_authorized_update_if_unmodified_with_metadata ::
  "(string \<Rightarrow> string) \<Rightarrow> sqlite_store \<Rightarrow> memory_id \<Rightarrow> int \<Rightarrow> memory_update \<Rightarrow> metadata_patch option \<Rightarrow> context_id list option \<Rightarrow>
   f32 list option \<Rightarrow> string \<Rightarrow> datetime \<Rightarrow> audit_draft \<Rightarrow> context_audit_draft option \<Rightarrow> memory_db \<Rightarrow> authorized_update_outcome mtx" where
  "apply_authorized_update_if_unmodified_with_metadata lc st i expected_revision u patch ids embedding p now audit context_audit db =
     (if embedding \<noteq> None \<and> u_content u = None
      then Inl (Conflict ''a replacement embedding requires replacement content'')
      else
      result_bind (case embedding of None \<Rightarrow> Inr () | Some e \<Rightarrow> validate_embedding_vector e (ss_dimensions st)) (\<lambda>_.
      if (ids \<noteq> None) \<noteq> (context_audit \<noteq> None)
      then Inl (Conflict ''optimistic membership replacement requires a matching context audit'')
      else (case fetch_memory_by_id db i of
        None \<Rightarrow> Inr (db, not_found_outcome)
      | Some existing \<Rightarrow>
          if \<not> has_write_access existing p then Inr (db, denied_outcome)
          else if m_record_revision existing \<noteq> expected_revision
          then Inl (Conflict ''memory {} changed after it was opened'')
          else
          result_bind (if ids = None then validate_compatibility_cache_update i u patch db else Inr ()) (\<lambda>_.
          let revision_at = next_memory_revision (ss_checked_add st) now (m_updated_at existing);
              bump_needed = ((patch \<noteq> None \<or> ids \<noteq> None) \<and> \<not> has_column_updates u \<and> u_entities u = None)
          in result_bind (apply_update_inner i u revision_at db) (\<lambda>(db1, out1).
             result_bind (save_embedding st i embedding out1 db1) (\<lambda>(db2, out).
             result_bind (apply_metadata_patch lc i patch existing p revision_at db2) (\<lambda>db3.
             result_bind (if bump_needed then increment_record_revision_conn i db3 else Inr db3) (\<lambda>db4.
             result_bind (save_memberships i ids context_audit p revision_at db4) (\<lambda>db5.
             Inr (insert_audit_draft i (update_audit_draft_for_locked_memory audit u existing) db5, out))))))))))"

section \<open>Deleting\<close>

definition apply_delete :: "memory_id \<Rightarrow> datetime \<Rightarrow> memory_db \<Rightarrow> bool mtx" where
  "apply_delete i deleted_at db =
     (case fetch_memory_by_id db i of
        None \<Rightarrow> Inr (db, False)
      | Some existing \<Rightarrow>
          let db1 = insert_tombstone existing deleted_at None db
          in Inr (delete_row i db1, affected i db1 > 0))"

definition apply_authorized_delete ::
  "memory_id \<Rightarrow> string \<Rightarrow> datetime \<Rightarrow> audit_draft option \<Rightarrow> memory_db \<Rightarrow> write_outcome mtx" where
  "apply_authorized_delete i p deleted_at audit db =
     (case fetch_memory_by_id db i of
        None \<Rightarrow> Inr (db, OutcomeNotFound)
      | Some existing \<Rightarrow>
          if \<not> has_write_access existing p then Inr (db, OutcomeDenied)
          else let db1 = insert_tombstone existing deleted_at (Some p) db; db2 = delete_row i db1
            in if affected i db1 > 0 then Inr (insert_optional_audit_draft (m_id existing) audit db2, Applied)
               else Inr (db2, OutcomeNotFound))"

definition apply_authorized_delete_if_unmodified ::
  "memory_id \<Rightarrow> int \<Rightarrow> string \<Rightarrow> datetime \<Rightarrow> audit_draft \<Rightarrow> memory_db \<Rightarrow> write_outcome mtx" where
  "apply_authorized_delete_if_unmodified i expected_revision p deleted_at audit db =
     (case fetch_memory_by_id db i of
        None \<Rightarrow> Inr (db, OutcomeNotFound)
      | Some existing \<Rightarrow>
          if \<not> has_write_access existing p then Inr (db, OutcomeDenied)
          else if m_record_revision existing \<noteq> expected_revision
          then Inl (Conflict ''memory {} changed after it was opened'')
          else let db1 = insert_tombstone existing deleted_at (Some p) db
            in if affected i db1 = 0 then Inl (Conflict ''memory {} changed while deleting'')
               else Inr (insert_audit_draft i audit (delete_row i db1), Applied))"

definition SQLITE_MAX_CHUNK :: nat where "SQLITE_MAX_CHUNK = 900"

text \<open>A bulk operation: the loop over the chunks and the ids of each, one transaction.\<close>

definition bulk_tx ::
  "(memory_db \<times> bulk_auth_outcome \<Rightarrow> memory_id \<Rightarrow> store_error + (memory_db \<times> bulk_auth_outcome)) \<Rightarrow> memory_id list \<Rightarrow>
   memory_db \<Rightarrow> bulk_auth_outcome mtx" where
  "bulk_tx op ids db =
     (let none = \<lparr>bo_applied_ids = [], bo_denied = 0\<rparr> in
      if ids = [] then Inr (db, none)
      else try_fold (\<lambda>s chunk. try_fold op s chunk) (db, none) (chunks_of SQLITE_MAX_CHUNK ids))"

definition bulk_delete_one ::
  "string \<Rightarrow> datetime \<Rightarrow> audit_draft option \<Rightarrow> memory_db \<times> bulk_auth_outcome \<Rightarrow> memory_id \<Rightarrow> store_error + (memory_db \<times> bulk_auth_outcome)" where
  "bulk_delete_one p deleted_at audit = (\<lambda>(db, out) i.
     case fetch_memory_by_id db i of
       None \<Rightarrow> Inr (db, out)
     | Some m \<Rightarrow>
         if \<not> has_write_access m p then Inr (db, out\<lparr>bo_denied := saturating_add (bo_denied out) 1\<rparr>)
         else let db1 = insert_tombstone m deleted_at (Some p) db; db2 = delete_row i db1
           in if affected i db1 > 0
              then Inr (insert_optional_audit_draft i audit db2, out\<lparr>bo_applied_ids := bo_applied_ids out @ [i]\<rparr>)
              else Inr (db2, out))"

definition bulk_delete_ids ::
  "memory_id list \<Rightarrow> string \<Rightarrow> datetime \<Rightarrow> audit_draft option \<Rightarrow> memory_db \<Rightarrow> bulk_auth_outcome mtx" where
  "bulk_delete_ids ids p deleted_at audit = bulk_tx (bulk_delete_one p deleted_at audit) ids"

definition bulk_update_one ::
  "sqlite_store \<Rightarrow> memory_update \<Rightarrow> string \<Rightarrow> datetime \<Rightarrow> audit_draft option \<Rightarrow> memory_db \<times> bulk_auth_outcome \<Rightarrow> memory_id \<Rightarrow>
   store_error + (memory_db \<times> bulk_auth_outcome)" where
  "bulk_update_one st u p now audit = (\<lambda>(db, out) i.
     case fetch_memory_by_id db i of
       None \<Rightarrow> Inr (db, out)
     | Some m \<Rightarrow>
         if \<not> has_write_access m p then Inr (db, out\<lparr>bo_denied := saturating_add (bo_denied out) 1\<rparr>)
         else
         result_bind (validate_compatibility_cache_update i u None db) (\<lambda>_.
         result_bind (apply_update_inner i u (next_memory_revision (ss_checked_add st) now (m_updated_at m)) db) (\<lambda>(db1, res).
         if auo_outcome res = Applied
         then Inr (insert_optional_audit_draft i audit db1, out\<lparr>bo_applied_ids := bo_applied_ids out @ [i]\<rparr>)
         else Inr (db1, out))))"

definition bulk_update_ids ::
  "sqlite_store \<Rightarrow> memory_id list \<Rightarrow> memory_update \<Rightarrow> string \<Rightarrow> datetime \<Rightarrow> audit_draft option \<Rightarrow> memory_db \<Rightarrow> bulk_auth_outcome mtx" where
  "bulk_update_ids st ids u p now audit = bulk_tx (bulk_update_one st u p now audit) ids"

section \<open>Superseding\<close>

definition mark_superseded_by_authorized_audited ::
  "memory_id \<Rightarrow> memory_id \<Rightarrow> string \<Rightarrow> audit_draft option \<Rightarrow> memory_db \<Rightarrow> write_outcome mtx" where
  "mark_superseded_by_authorized_audited i superseded_by p audit db =
     (case fetch_memory_by_id db i of
        None \<Rightarrow> Inr (db, OutcomeNotFound)
      | Some existing \<Rightarrow>
          if \<not> has_write_access existing p then Inr (db, OutcomeDenied)
          else result_bind (mark_superseded i superseded_by db) (\<lambda>(db1, marked).
            if marked then Inr (insert_optional_audit_draft (m_id existing) audit db1, Applied)
            else Inr (db1, OutcomeNotFound)))"

definition sqlite_consolidation_context_profile :: "memory_db \<Rightarrow> memory_id \<Rightarrow> context_id list" where
  "sqlite_consolidation_context_profile db i =
     map mc_context_id (sort_key mc_ordinal (filter (\<lambda>r. mc_memory_id r = i) (t_memory_contexts (d_ctx db))))"

definition snapshot_current :: "memory_db \<Rightarrow> memory \<Rightarrow> consolidation_snapshot \<Rightarrow> bool" where
  "snapshot_current db existing snapshot \<longleftrightarrow> m_record_revision existing = cs_record_revision snapshot \<and>
     sqlite_consolidation_context_profile db (cs_memory_id snapshot) = cs_context_ids snapshot"

definition mark_superseded_if_unchanged ::
  "consolidation_snapshot \<Rightarrow> consolidation_snapshot \<Rightarrow> string \<Rightarrow> audit_draft \<Rightarrow> memory_db \<Rightarrow> write_outcome mtx" where
  "mark_superseded_if_unchanged member representative p audit db =
     (if cs_memory_id member = cs_memory_id representative
      then Inl (Conflict ''a consolidation representative cannot supersede itself'')
      else if cs_context_ids member \<noteq> cs_context_ids representative
      then Inl (Conflict ''consolidation candidates must have identical ordered context profiles'')
      else (case fetch_memory_by_id db (cs_memory_id member) of
        None \<Rightarrow> Inr (db, OutcomeNotFound)
      | Some existing_member \<Rightarrow>
          (case fetch_memory_by_id db (cs_memory_id representative) of
             None \<Rightarrow> Inr (db, OutcomeNotFound)
           | Some existing_representative \<Rightarrow>
               if \<not> has_write_access existing_member p then Inr (db, OutcomeDenied)
               else if \<not> (snapshot_current db existing_member member \<and> snapshot_current db existing_representative representative)
               then Inl (Conflict ''consolidation candidates changed after discovery'')
               else result_bind (mark_superseded (cs_memory_id member) (cs_memory_id representative) db) (\<lambda>(db1, marked).
                 if marked then Inr (insert_audit_draft (m_id existing_member) audit db1, Applied)
                 else Inr (db1, OutcomeNotFound)))))"

section \<open>Embedding claims and writes\<close>

definition EMBEDDING_CLAIM_LEASE_SECS :: int where "EMBEDDING_CLAIM_LEASE_SECS = 300"

text \<open>The authorization filter of the maintenance queries, evaluated by SQLite on the JSON columns; no
  principal means the whole store.\<close>

definition sql_write_filter :: "string option \<Rightarrow> provenance \<Rightarrow> access_policy \<Rightarrow> bool" where
  "sql_write_filter who prov policy =
     (case who of
        None \<Rightarrow> True
      | Some p \<Rightarrow> p_source_agent prov = Some p \<or>
          (policy = Public \<and> p_source_agent prov = None) \<or>
          (case policy of Restricted allowed \<Rightarrow> p \<in> set allowed | Public \<Rightarrow> False | Redacted _ \<Rightarrow> False))"

definition claim_free :: "datetime \<Rightarrow> memory_row \<Rightarrow> bool" where
  "claim_free expired_before r =
     (\<not> m_has_embedding r \<and> (case mr_embedding_claimed_at r of None \<Rightarrow> True | Some t \<Rightarrow> t \<le> expired_before))"

definition claim_candidates :: "string option \<Rightarrow> nat \<Rightarrow> datetime \<Rightarrow> memory_db \<Rightarrow> memory_row list" where
  "claim_candidates who limit expired_before db =
     take limit (sort_key m_created_at (sort_key m_id
       (filter (\<lambda>r. claim_free expired_before r \<and> sql_write_filter who (m_provenance r) (m_access_policy r)) (rows db))))"

definition claims_row :: "memory_row list \<Rightarrow> datetime \<Rightarrow> memory_row \<Rightarrow> bool" where
  "claims_row candidates expired_before r \<longleftrightarrow> claim_free expired_before r \<and>
     list_ex (\<lambda>c. m_id c = m_id r \<and> mr_embedding_revision c = mr_embedding_revision r) candidates"

definition claim_for_reembed_conn ::
  "sqlite_store \<Rightarrow> string option \<Rightarrow> nat \<Rightarrow> datetime \<Rightarrow> datetime \<Rightarrow> string \<Rightarrow> memory_db \<Rightarrow> reembed_claim list mtx" where
  "claim_for_reembed_conn st who limit now expired_before token db =
     result_bind (usize_to_i64 limit) (\<lambda>n.
       let candidates = claim_candidates who (nat n) expired_before db;
           claimed = filter (claims_row candidates expired_before) (rows db);
           db1 = set_rows (map (\<lambda>r. if claims_row candidates expired_before r
                    then r\<lparr>mr_embedding_claimed_at := Some now, mr_embedding_claim_token := Some token\<rparr> else r) (rows db)) db
       in Inr (db1, ss_returning st (map (\<lambda>r. \<lparr>rc_id = m_id r, rc_content = m_content r,
            rc_embedding_revision = mr_embedding_revision r, rc_claim_token = token\<rparr>) claimed)))"

text \<open>\<^verbatim>\<open>claim_for_reembed_with_scope_impl\<close>: a claim lives \<^verbatim>\<open>EMBEDDING_CLAIM_LEASE_SECS\<close>; the token is a fresh
  ULID. The clock is far from the ends of chrono's range, where the subtraction would saturate.\<close>

definition claim_for_reembed_with_scope ::
  "sqlite_store \<Rightarrow> string option \<Rightarrow> nat \<Rightarrow> datetime \<Rightarrow> string \<Rightarrow> memory_db \<Rightarrow> reembed_claim list mtx" where
  "claim_for_reembed_with_scope st who limit now token db =
     (if limit = 0 then Inr (db, [])
      else claim_for_reembed_conn st who limit now (now - EMBEDDING_CLAIM_LEASE_SECS * 1000000000) token db)"

definition release_embedding_claim :: "memory_id \<Rightarrow> int \<Rightarrow> string \<Rightarrow> memory_db \<Rightarrow> bool mtx" where
  "release_embedding_claim i expected_revision token db =
     (let hit = (\<lambda>r. m_id r = i \<and> \<not> m_has_embedding r \<and> mr_embedding_revision r = expected_revision \<and>
                   mr_embedding_claim_token r = Some token)
      in Inr (set_rows (map (\<lambda>r. if hit r then r\<lparr>mr_embedding_claimed_at := None, mr_embedding_claim_token := None\<rparr> else r) (rows db)) db,
              list_ex hit (rows db)))"

definition set_embedding :: "sqlite_store \<Rightarrow> memory_id \<Rightarrow> f32 list \<Rightarrow> int \<Rightarrow> memory_db \<Rightarrow> unit mtx" where
  "set_embedding st i e expected_revision db =
     result_bind (validate_embedding_vector e (ss_dimensions st)) (\<lambda>_.
     result_bind (case ss_active_profile st of None \<Rightarrow> Inr () | Some profile \<Rightarrow> ensure_embedding_profile_matches profile (d_profile db)) (\<lambda>_.
     case map_option mr_embedding_revision (find_row db i) of
       None \<Rightarrow> Inl (NotFound ''memory not found: {}'')
     | Some current_revision \<Rightarrow>
         if current_revision \<noteq> expected_revision
         then Inl (Conflict ''embedding revision mismatch for {}: expected {}, current {}'')
         else result_bind (upsert_vector st i e db) (\<lambda>db1.
           if filter (\<lambda>r. m_id r = i \<and> mr_embedding_revision r = expected_revision) (rows db1) = []
           then Inl (Conflict ''embedding revision changed while writing embedding for {}'')
           else Inr (set_rows (map (\<lambda>r. if m_id r = i \<and> mr_embedding_revision r = expected_revision
                  then r\<lparr>m_has_embedding := True, mr_embedding_claimed_at := None, mr_embedding_claim_token := None\<rparr>
                  else r) (rows db1)) db1, ()))))"

definition get_for_reembed :: "memory_db \<Rightarrow> memory_id \<Rightarrow> string \<Rightarrow> (string \<times> int) option" where
  "get_for_reembed db i p =
     (case fetch_memory_by_id db i of
        None \<Rightarrow> None
      | Some existing \<Rightarrow>
          if \<not> has_write_access existing p then None
          else map_option (\<lambda>r. (m_content existing, mr_embedding_revision r)) (find_row db i))"

definition list_for_reembed :: "memory_db \<Rightarrow> nat \<Rightarrow> store_error + (memory_id \<times> string \<times> int) list" where
  "list_for_reembed db limit =
     result_bind (usize_to_i64 limit) (\<lambda>n.
       Inr (map (\<lambda>r. (m_id r, m_content r, mr_embedding_revision r))
         (take (nat n) (sort_key m_created_at (sort_key m_id (filter (\<lambda>r. \<not> m_has_embedding r) (rows db)))))))"

text \<open>The transaction of \<^verbatim>\<open>reindex_embeddings\<close>: every vector dropped, the table recreated, the profile stamped.\<close>

definition reindex_embeddings :: "embedding_profile \<Rightarrow> memory_db \<Rightarrow> unit mtx" where
  "reindex_embeddings profile db =
     result_bind (insert_embedding_profile profile) (\<lambda>stamped.
       Inr ((set_rows (map (\<lambda>r. r\<lparr>m_has_embedding := False, mr_embedding_claimed_at := None,
               mr_embedding_claim_token := None\<rparr>) (rows db)) db)\<lparr>d_vectors := vec_empty, d_profile := stamped\<rparr>, ()))"

section \<open>Activity\<close>

text \<open>The counter is a 64-bit column; it wraps nowhere near the counts the code can reach.\<close>

definition record_search_impression :: "memory_id list \<Rightarrow> datetime \<Rightarrow> memory_db \<Rightarrow> memory_db" where
  "record_search_impression ids now db =
     foldl (\<lambda>db i. update_row i (\<lambda>r. r\<lparr>m_impression_count := m_impression_count r + 1, m_last_impressed_at := Some now\<rparr>) db) db ids"

datatype record_use_status = Recorded | UseDenied | UseNotFound

fun accumulate_record_use_outcome :: "record_use_outcome \<Rightarrow> memory_id \<Rightarrow> record_use_status \<Rightarrow> record_use_outcome" where
  "accumulate_record_use_outcome out i Recorded =
     out\<lparr>ro_recorded_ids := ro_recorded_ids out @ [i], ro_recorded := saturating_add (ro_recorded out) 1\<rparr>"
| "accumulate_record_use_outcome out i UseDenied = out\<lparr>ro_denied := saturating_add (ro_denied out) 1\<rparr>"
| "accumulate_record_use_outcome out i UseNotFound = out\<lparr>ro_not_found := saturating_add (ro_not_found out) 1\<rparr>"

definition update_single_memory_use ::
  "f64_arith \<Rightarrow> memory_id \<Rightarrow> string \<Rightarrow> datetime \<Rightarrow> f64 \<Rightarrow> f64 \<Rightarrow> memory_db \<Rightarrow> memory_db \<times> record_use_status" where
  "update_single_memory_use fa i p now event_weight half_life db =
     (case fetch_memory_by_id db i of
        None \<Rightarrow> (db, UseNotFound)
      | Some m \<Rightarrow>
          if expired_at now m \<or> check_access_level m (Some p) \<noteq> LevelFull then (db, UseDenied)
          else let decayed = decay_mass fa (m_activity_mass m) (m_last_used_at m) now half_life;
                   new_mass = fa_add fa decayed event_weight
            in (update_row i (\<lambda>r. r\<lparr>m_activity_mass := new_mass, m_last_used_at := Some now\<rparr>) db, Recorded))"

text \<open>\<^verbatim>\<open>ids.iter().filter(|id| seen.insert(**id))\<close>: the first occurrence of each.\<close>

fun first_occurrences :: "memory_id set \<Rightarrow> memory_id list \<Rightarrow> memory_id list" where
  "first_occurrences seen [] = []"
| "first_occurrences seen (i # is) =
     (if i \<in> seen then first_occurrences seen is else i # first_occurrences (insert i seen) is)"

definition no_use :: record_use_outcome where
  "no_use = \<lparr>ro_recorded_ids = [], ro_recorded = 0, ro_denied = 0, ro_not_found = 0\<rparr>"

definition record_memory_use ::
  "f64_arith \<Rightarrow> memory_id list \<Rightarrow> string \<Rightarrow> f64 \<Rightarrow> datetime \<Rightarrow> f64 \<Rightarrow> memory_db \<Rightarrow> memory_db \<times> record_use_outcome" where
  "record_memory_use fa ids p event_weight now half_life db =
     foldl (\<lambda>(db, acc) i.
         let (db', status) = update_single_memory_use fa i p now event_weight half_life db
         in (db', accumulate_record_use_outcome acc i status))
       (db, no_use) (first_occurrences {} ids)"

section \<open>Maintenance\<close>

definition upsert_metadata_audited :: "memory_metadata \<Rightarrow> audit_draft option \<Rightarrow> datetime \<Rightarrow> memory_db \<Rightarrow> unit mtx" where
  "upsert_metadata_audited md audit now db =
     (let i = mm_memory_id md in
      case fetch_memory_by_id db i of
        None \<Rightarrow> Inl (NotFound ''memory not found: {}'')
      | Some existing \<Rightarrow>
          let expected_scope = compatibility_scope_key db i in
          if mm_scope_key md \<noteq> Some expected_scope \<or> p_source_conversation (m_provenance existing) \<noteq> Some expected_scope
          then Inl (Conflict (''metadata and provenance compatibility scopes must match the memory'' @ CHR 0x27 # ''s primary governed context; replace governed memberships instead''))
          else result_bind (upsert_metadata_conn md now db) (\<lambda>db1.
            if affected i db1 = 0 then Inl (Conflict ''memory {} changed while updating metadata'')
            else Inr (insert_optional_audit_draft i audit (update_row i bump db1), ())))"

datatype expired_cleanup_scope = CleanupAll (cleanup_actor: string) | CleanupAuthorized (cleanup_actor: string)

fun authorization_principal :: "expired_cleanup_scope \<Rightarrow> string option" where
  "authorization_principal (CleanupAll actor) = None"
| "authorization_principal (CleanupAuthorized actor) = Some actor"

text \<open>The rows are selected first; each is then checked, buried and deleted.\<close>

definition expired_rows :: "datetime \<Rightarrow> expired_cleanup_scope \<Rightarrow> memory_db \<Rightarrow> memory_row list" where
  "expired_rows now scope db =
     sort_key (\<lambda>r. the (m_expires_at r)) (sort_key m_id (filter (\<lambda>r.
       (case m_expires_at r of None \<Rightarrow> False | Some e \<Rightarrow> e \<le> now) \<and>
       sql_write_filter (authorization_principal scope) (m_provenance r) (m_access_policy r)) (rows db)))"

definition evict_one ::
  "datetime \<Rightarrow> expired_cleanup_scope \<Rightarrow> audit_draft \<Rightarrow> memory_db \<times> nat \<Rightarrow> memory_row \<Rightarrow> memory_db \<times> nat" where
  "evict_one now scope audit = (\<lambda>(db, deleted) r.
     if (case authorization_principal scope of None \<Rightarrow> False
         | Some p \<Rightarrow> \<not> write_access_allowed (m_provenance r) (m_access_policy r) p)
     then (db, deleted)
     else let db1 = upsert_tombstone \<lparr>t_memory_id = m_id r, t_provenance = m_provenance r, t_access_policy = m_access_policy r,
                t_deleted_at = now, t_deleted_by_principal = Some (cleanup_actor scope)\<rparr> db;
              n = affected (m_id r) db1
       in if n > 0 then (insert_audit_draft (m_id r) audit (delete_row (m_id r) db1), deleted + n)
          else (delete_row (m_id r) db1, deleted))"

definition evict_expired_conn :: "datetime \<Rightarrow> expired_cleanup_scope \<Rightarrow> audit_draft \<Rightarrow> memory_db \<Rightarrow> memory_db \<times> nat" where
  "evict_expired_conn now scope audit db = foldl (evict_one now scope audit) (db, 0) (expired_rows now scope db)"

end
