(* ===== verification/Memory_Invariants.thy ===== *)
theory Memory_Invariants
  imports Memory_Store Context_Invariants
begin

text \<open>
  The invariant of the SQLite memory store and its preservation by every operation: the referential
  integrity of the tables and the agreement of the \<^verbatim>\<open>has_embedding\<close> flags with the vector index.
  \<open>memory_step\<close> collects the committed operations of the memory store and of the context store over one
  database.
\<close>

section \<open>The invariant\<close>

definition embedded :: "memory_db \<Rightarrow> memory_id set" where
  "embedded db = m_id ` {r \<in> set (rows db). m_has_embedding r}"

definition unclaimed :: "memory_row \<Rightarrow> bool" where
  "unclaimed r \<longleftrightarrow> mr_embedding_claimed_at r = None \<and> mr_embedding_claim_token r = None"

definition tables_ok :: "memory_db \<Rightarrow> bool" where
  "tables_ok db \<longleftrightarrow>
     distinct (row_ids db) \<and> distinct (d_entities db) \<and> fst ` set (d_entities db) \<subseteq> set (row_ids db) \<and>
     distinct (map md_memory_id (t_metadata (d_ctx db))) \<and> md_memory_id ` set (t_metadata (d_ctx db)) \<subseteq> set (row_ids db) \<and>
     mc_memory_id ` set (t_memory_contexts (d_ctx db)) \<subseteq> set (row_ids db) \<and>
     distinct (map t_memory_id (d_tombstones db))"

definition vectors_ok :: "sqlite_store \<Rightarrow> memory_db \<Rightarrow> bool" where
  "vectors_ok st db \<longleftrightarrow>
     vec_ok (ss_rowid st) (ss_dimensions st) (d_vectors db) \<and>
     dom (vec_view (ss_le st) (ss_dimensions st) (d_vectors db)) = embedded db \<and>
     list_all (\<lambda>r. m_has_embedding r \<longrightarrow> unclaimed r) (rows db)"

definition store_ok :: "sqlite_store \<Rightarrow> memory_db \<Rightarrow> bool" where
  "store_ok st db \<longleftrightarrow> tables_ok db \<and> vectors_ok st db"

text \<open>The invariant only looks at the \<open>shape\<close> of a database, which most operations keep.\<close>

definition row_shape :: "memory_row \<Rightarrow> memory_id \<times> bool \<times> bool" where
  "row_shape r = (m_id r, m_has_embedding r, m_has_embedding r \<longrightarrow> unclaimed r)"

definition shape :: "memory_db \<Rightarrow> _" where
  "shape db = (map row_shape (rows db), d_vectors db, d_entities db, map md_memory_id (t_metadata (d_ctx db)),
     map mc_memory_id (t_memory_contexts (d_ctx db)), map t_memory_id (d_tombstones db))"

lemma row_ids_shape: "row_ids db = map fst (map row_shape (rows db))"
  by (simp add: row_ids_def row_shape_def comp_def)

lemma embedded_shape: "embedded db = fst ` {x \<in> set (map row_shape (rows db)). fst (snd x)}"
  by (force simp: embedded_def row_shape_def)

lemma unclaimed_shape: "list_all (\<lambda>r. m_has_embedding r \<longrightarrow> unclaimed r) (rows db) = list_all (snd \<circ> snd) (map row_shape (rows db))"
  by (simp add: list_all_iff row_shape_def)

lemma tables_ok_shape:
  "tables_ok db = (case shape db of (rs, v, es, md, mc, ts) \<Rightarrow>
     distinct (map fst rs) \<and> distinct es \<and> fst ` set es \<subseteq> fst ` set rs \<and> distinct md \<and> set md \<subseteq> fst ` set rs \<and>
     set mc \<subseteq> fst ` set rs \<and> distinct ts)"
  by (simp add: tables_ok_def shape_def row_ids_shape del: map_map)

lemma vectors_ok_shape:
  "vectors_ok st db = (case shape db of (rs, v, _) \<Rightarrow> vec_ok (ss_rowid st) (ss_dimensions st) v \<and>
     dom (vec_view (ss_le st) (ss_dimensions st) v) = fst ` {x \<in> set rs. fst (snd x)} \<and> list_all (snd \<circ> snd) rs)"
  by (simp add: vectors_ok_def shape_def embedded_shape unclaimed_shape del: map_map set_map)

lemma store_ok_shape: "shape db' = shape db \<Longrightarrow> store_ok st db' = store_ok st db"
  by (simp add: store_ok_def tables_ok_shape vectors_ok_shape)

section \<open>What the building blocks touch\<close>

lemma set_rows_simps [simp]:
  "rows (set_rows rs db) = rs"
  "d_vectors (set_rows rs db) = d_vectors db"
  "d_entities (set_rows rs db) = d_entities db"
  "d_tombstones (set_rows rs db) = d_tombstones db"
  "d_audit (set_rows rs db) = d_audit db"
  "d_profile (set_rows rs db) = d_profile db"
  "t_metadata (d_ctx (set_rows rs db)) = t_metadata (d_ctx db)"
  "t_memory_contexts (d_ctx (set_rows rs db)) = t_memory_contexts (d_ctx db)"
  "t_contexts (d_ctx (set_rows rs db)) = t_contexts (d_ctx db)"
  by (simp_all add: set_rows_def rows_def)

lemma rows_updates [simp]:
  "rows (db\<lparr>d_vectors := v\<rparr>) = rows db"
  "rows (db\<lparr>d_entities := es\<rparr>) = rows db"
  "rows (db\<lparr>d_tombstones := ts\<rparr>) = rows db"
  "rows (db\<lparr>d_audit := au\<rparr>) = rows db"
  "rows (db\<lparr>d_profile := pr\<rparr>) = rows db"
  "rows (db\<lparr>d_ctx := c\<rparr>) = t_memories c"
  by (simp_all add: rows_def)

lemma update_row_simps [simp]:
  "rows (update_row i f db) = map (\<lambda>r. if m_id r = i then f r else r) (rows db)"
  "d_vectors (update_row i f db) = d_vectors db"
  "d_entities (update_row i f db) = d_entities db"
  "d_tombstones (update_row i f db) = d_tombstones db"
  "d_audit (update_row i f db) = d_audit db"
  "d_profile (update_row i f db) = d_profile db"
  "t_metadata (d_ctx (update_row i f db)) = t_metadata (d_ctx db)"
  "t_memory_contexts (d_ctx (update_row i f db)) = t_memory_contexts (d_ctx db)"
  "t_contexts (d_ctx (update_row i f db)) = t_contexts (d_ctx db)"
  by (simp_all add: update_row_def)

lemma audit_simps [simp]:
  "rows (insert_audit_draft i a db) = rows db"
  "d_ctx (insert_audit_draft i a db) = d_ctx db"
  "d_vectors (insert_audit_draft i a db) = d_vectors db"
  "d_entities (insert_audit_draft i a db) = d_entities db"
  "d_tombstones (insert_audit_draft i a db) = d_tombstones db"
  "d_profile (insert_audit_draft i a db) = d_profile db"
  by (simp_all add: insert_audit_draft_def)

lemma optional_audit_simps [simp]:
  "rows (insert_optional_audit_draft i oa db) = rows db"
  "d_ctx (insert_optional_audit_draft i oa db) = d_ctx db"
  "d_vectors (insert_optional_audit_draft i oa db) = d_vectors db"
  "d_entities (insert_optional_audit_draft i oa db) = d_entities db"
  "d_tombstones (insert_optional_audit_draft i oa db) = d_tombstones db"
  "d_profile (insert_optional_audit_draft i oa db) = d_profile db"
  by (simp_all add: insert_optional_audit_draft_def split: option.splits)

lemma tombstone_simps [simp]:
  "rows (upsert_tombstone t db) = rows db"
  "d_ctx (upsert_tombstone t db) = d_ctx db"
  "d_vectors (upsert_tombstone t db) = d_vectors db"
  "d_entities (upsert_tombstone t db) = d_entities db"
  "d_audit (upsert_tombstone t db) = d_audit db"
  by (simp_all add: upsert_tombstone_def)

lemma shape_audit [simp]:
  "shape (insert_audit_draft i a db) = shape db"
  "shape (insert_optional_audit_draft i oa db) = shape db"
  by (simp_all add: shape_def)

lemma find_row_mem: "find_row db i = Some r \<Longrightarrow> r \<in> set (rows db) \<and> m_id r = i"
  by (auto simp: find_row_def find_Some_iff)

lemma find_row_None: "find_row db i = None \<longleftrightarrow> i \<notin> set (row_ids db)"
  by (auto simp: find_row_def find_None_iff row_ids_def)

lemma affected_0 [simp]: "affected i db = 0 \<longleftrightarrow> i \<notin> set (row_ids db)"
  by (auto simp: affected_def row_ids_def filter_empty_conv)

lemma fetch_None [simp]: "fetch_memory_by_id db i = None \<longleftrightarrow> i \<notin> set (row_ids db)"
  by (simp add: fetch_memory_by_id_def find_row_None)

lemma fetch_Some: "fetch_memory_by_id db i = Some m \<Longrightarrow> \<exists>r. find_row db i = Some r \<and> m = row_to_memory r"
  by (auto simp: fetch_memory_by_id_def)

lemma fetch_mem: "fetch_memory_by_id db i = Some m \<Longrightarrow> i \<in> set (row_ids db)"
  by (metis fetch_None option.distinct(1))

lemma row_to_memory_simps [simp]:
  "m_id (row_to_memory r) = m_id r" "m_content (row_to_memory r) = m_content r"
  "m_provenance (row_to_memory r) = m_provenance r" "m_access_policy (row_to_memory r) = m_access_policy r"
  "m_record_revision (row_to_memory r) = m_record_revision r" "m_updated_at (row_to_memory r) = m_updated_at r"
  "m_superseded_by (row_to_memory r) = m_superseded_by r" "m_expires_at (row_to_memory r) = m_expires_at r"
  "m_entities (row_to_memory r) = []"
  by (simp_all add: row_to_memory_def memory.defs)

lemma fetch_id: "fetch_memory_by_id db i = Some m \<Longrightarrow> m_id m = i"
  by (auto dest!: fetch_Some find_row_mem)

end
