(* ===== verification/Memory_Revisions.thy ===== *)
theory Memory_Revisions
  imports Memory_Invariants
begin

text \<open>
  Revisions of the SQLite memory store. \<open>changes i\<close> is what every write to the memory \<open>i\<close> satisfies: no
  other memory moves, ids stay, the record revision and the embedding revision never go back, and
  the embedding revision advances whenever the content changes. Each building block has it, and it
  composes, so that each operation has it.
\<close>

section \<open>What a memory shows\<close>

text \<open>The columns the record revision covers. The counters of the ranking and the columns of the embedding
  protocol are left out: they move without a revision, although the impression count and the embedding flag
  are also sent to clients.\<close>

definition visible_row :: "memory_row \<Rightarrow> memory_row" where
  "visible_row r = r\<lparr>m_record_revision := 0, m_has_embedding := False, m_impression_count := 0,
     m_last_impressed_at := None, m_activity_mass := 0, m_last_used_at := None,
     mr_embedding_revision := 0, mr_embedding_claimed_at := None, mr_embedding_claim_token := None\<rparr>"

definition rest :: "memory_db \<Rightarrow> memory_id \<Rightarrow> entity list \<times> metadata_row list \<times> membership_row list" where
  "rest db j = (map snd (filter (\<lambda>(m, _). m = j) (d_entities db)),
     filter (\<lambda>r. md_memory_id r = j) (t_metadata (d_ctx db)),
     filter (\<lambda>r. mc_memory_id r = j) (t_memory_contexts (d_ctx db)))"

definition visible :: "memory_db \<Rightarrow> memory_id \<Rightarrow> memory_row option \<times> entity list \<times> metadata_row list \<times> membership_row list" where
  "visible db j = (map_option visible_row (find_row db j), rest db j)"

definition row_advances :: "memory_row \<Rightarrow> memory_row \<Rightarrow> bool" where
  "row_advances r r' \<longleftrightarrow> m_id r' = m_id r \<and> m_record_revision r \<le> m_record_revision r' \<and>
     (mr_embedding_revision r < mr_embedding_revision r' \<or>
      mr_embedding_revision r' = mr_embedding_revision r \<and> m_content r' = m_content r)"

lemma row_advances_refl [simp]: "row_advances r r"
  by (simp add: row_advances_def)

lemma row_advances_trans: "row_advances a b \<Longrightarrow> row_advances b c \<Longrightarrow> row_advances a c"
  by (auto simp: row_advances_def)

definition moved :: "memory_id \<Rightarrow> memory_row \<Rightarrow> memory_row \<Rightarrow> bool" where
  "moved i r r' \<longleftrightarrow> (if m_id r = i then row_advances r r' else r' = r)"

lemma moved_refl [simp]: "moved i r r"
  by (simp add: moved_def)

lemma moved_trans: "moved i a b \<Longrightarrow> moved i b c \<Longrightarrow> moved i a c"
  by (auto simp: moved_def row_advances_def split: if_splits)

lemma moved_id: "moved i r r' \<Longrightarrow> m_id r' = m_id r"
  by (auto simp: moved_def row_advances_def split: if_splits)

definition changes :: "memory_id \<Rightarrow> memory_db \<Rightarrow> memory_db \<Rightarrow> bool" where
  "changes i db db' \<longleftrightarrow> list_all2 (moved i) (rows db) (rows db') \<and> (\<forall>j. j \<noteq> i \<longrightarrow> rest db' j = rest db j)"

lemma changes_refl [simp]: "changes i db db"
  by (simp add: changes_def list_all2_refl)

lemma changes_trans: "changes i a b \<Longrightarrow> changes i b c \<Longrightarrow> changes i a c"
  by (auto simp: changes_def intro: list_all2_trans [OF moved_trans])

lemma changes_same_tables:
  assumes "rows db' = rows db" "d_entities db' = d_entities db"
    "t_metadata (d_ctx db') = t_metadata (d_ctx db)" "t_memory_contexts (d_ctx db') = t_memory_contexts (d_ctx db)"
  shows "changes i db db'"
  using assms by (simp add: changes_def rest_def list_all2_refl)

lemma changes_audit [simp]:
  "changes i db (insert_audit_draft j a db)" "changes i db (insert_optional_audit_draft j oa db)"
  "changes i db (db\<lparr>d_vectors := v\<rparr>)"
  by (rule changes_same_tables; simp)+

lemma changes_update_row: "(\<And>r. row_advances r (f r)) \<Longrightarrow> changes i db (update_row i f db)"
  by (simp add: changes_def rest_def list_all2_map2 moved_def list_all2_refl)

lemma row_advances_bump [simp]: "row_advances r (bump r)"
  by (simp add: row_advances_def bump_def)

lemma row_advances_set_clause: "row_advances r (set_clause u now r)"
  by (simp add: row_advances_def set_clause_def assign_def bump_def split: option.splits)

section \<open>The building blocks\<close>

lemma replace_entities_Inr:
  assumes "replace_entities i es db = Inr db'"
  shows "db' = db\<lparr>d_entities := add_entities i es (filter (\<lambda>(m, _). m \<noteq> i) (d_entities db))\<rparr>"
  using assms by (auto simp: replace_entities_def insert_entities_def split: if_splits)

lemma add_entities_other: "j \<noteq> i \<Longrightarrow> filter (\<lambda>(m, _). m = j) (add_entities i es t) = filter (\<lambda>(m, _). m = j) t"
  by (induction es arbitrary: t) auto

lemma filter_drop_other: "j \<noteq> i \<Longrightarrow> filter (\<lambda>(m, _). m = j) (filter (\<lambda>(m, _). m \<noteq> i) t) = filter (\<lambda>(m, _). m = j) t"
  by (induction t) auto

lemma changes_replace_entities: "replace_entities i es db = Inr db' \<Longrightarrow> changes i db db'"
  by (auto simp: changes_def rest_def list_all2_refl add_entities_other filter_drop_other
      simp del: filter_filter dest!: replace_entities_Inr)

lemma upsert_metadata_Inr:
  assumes "upsert_metadata_conn md now db = Inr db'"
  shows "mm_memory_id md \<in> set (row_ids db)"
    "\<exists>t. db' = db\<lparr>d_ctx := (d_ctx db)\<lparr>t_metadata := t\<rparr>\<rparr> \<and>
      (if mm_memory_id md \<in> md_memory_id ` set (t_metadata (d_ctx db)) then map md_memory_id t = map md_memory_id (t_metadata (d_ctx db))
       else map md_memory_id t = map md_memory_id (t_metadata (d_ctx db)) @ [mm_memory_id md]) \<and>
      (\<forall>j. j \<noteq> mm_memory_id md \<longrightarrow> filter (\<lambda>r. md_memory_id r = j) t = filter (\<lambda>r. md_memory_id r = j) (t_metadata (d_ctx db)))"
proof -
  show "mm_memory_id md \<in> set (row_ids db)"
    using assms by (auto simp: upsert_metadata_conn_def Let_def split: if_splits)
  let ?g = "\<lambda>r. if md_memory_id r = mm_memory_id md
    then (metadata_row_of md now)\<lparr>md_created_by_principal := or_else (md_created_by_principal r) (mm_created_by_principal md)\<rparr> else r"
  have new: "md_memory_id (metadata_row_of md now) = mm_memory_id md" by (simp add: metadata_row_of_def)
  then have g: "md_memory_id (?g r) = md_memory_id r" for r by simp
  have "j \<noteq> mm_memory_id md \<Longrightarrow> filter (\<lambda>r. md_memory_id r = j) (map ?g t) = filter (\<lambda>r. md_memory_id r = j) t" for j t
    by (induction t) (simp_all add: new)
  moreover have "map md_memory_id (map ?g t) = map md_memory_id t" for t by (simp add: g)
  ultimately show "\<exists>t. db' = db\<lparr>d_ctx := (d_ctx db)\<lparr>t_metadata := t\<rparr>\<rparr> \<and>
      (if mm_memory_id md \<in> md_memory_id ` set (t_metadata (d_ctx db)) then map md_memory_id t = map md_memory_id (t_metadata (d_ctx db))
       else map md_memory_id t = map md_memory_id (t_metadata (d_ctx db)) @ [mm_memory_id md]) \<and>
      (\<forall>j. j \<noteq> mm_memory_id md \<longrightarrow> filter (\<lambda>r. md_memory_id r = j) t = filter (\<lambda>r. md_memory_id r = j) (t_metadata (d_ctx db)))"
    using assms by (auto simp: upsert_metadata_conn_def Let_def new split: if_splits)
qed

lemma changes_upsert_metadata: "upsert_metadata_conn md now db = Inr db' \<Longrightarrow> mm_memory_id md = i \<Longrightarrow> changes i db db'"
  by (auto simp: changes_def rest_def rows_def [symmetric] list_all2_refl dest!: upsert_metadata_Inr(2))

lemma insert_memory_contexts_Inr:
  assumes "insert_memory_contexts i ids p scope a now preserved c = Inr c'"
  shows "c' = insert_context_audit a None (Some i) now (c\<lparr>t_memory_contexts := t_memory_contexts c @ membership_rows i ids now\<rparr>)"
  using assms by (auto simp: insert_memory_contexts_def dest!: insert_effects(5) split: if_splits)

lemma replace_memory_contexts_tx_Inr:
  assumes "replace_memory_contexts_tx i ids p scope a now c = Inr c'"
  shows "c' = set_scope i scope now (\<lambda>x. x) (insert_context_audit a None (Some i) now
    (c\<lparr>t_memory_contexts := filter (\<lambda>r. mc_memory_id r \<noteq> i) (t_memory_contexts c) @ membership_rows i ids now\<rparr>))"
  using assms by (auto simp: replace_memory_contexts_tx_def dest!: insert_memory_contexts_Inr)

lemma membership_rows_memory: "r \<in> set (membership_rows i ids now) \<Longrightarrow> mc_memory_id r = i"
  by (auto simp: membership_rows_def)

lemma membership_rows_other: "j \<noteq> i \<Longrightarrow> filter (\<lambda>r. mc_memory_id r = j) (membership_rows i ids now) = []"
  by (auto simp: filter_empty_conv dest: membership_rows_memory)

lemma set_scope_rows:
  "t_memories (set_scope i key now b c) = map (\<lambda>x. if m_id x = i
     then b (x\<lparr>m_provenance := (m_provenance x)\<lparr>p_source_conversation := Some key\<rparr>\<rparr>) else x) (t_memories c)"
  "t_metadata (set_scope i key now b c) =
     map (\<lambda>r. if md_memory_id r = i then r\<lparr>md_scope_key := Some key, md_updated_at := now\<rparr> else r) (t_metadata c)"
  by (simp_all add: set_scope_def)

lemma set_scope_metadata_other:
  "j \<noteq> i \<Longrightarrow> filter (\<lambda>r. md_memory_id r = j) (map (\<lambda>r. if md_memory_id r = i then r\<lparr>md_scope_key := k, md_updated_at := now\<rparr> else r) t)
     = filter (\<lambda>r. md_memory_id r = j) t"
  by (induction t) auto

lemma insert_context_audit_metadata [simp]: "t_metadata (insert_context_audit a i m now c) = t_metadata c"
  by (simp add: insert_context_audit_def)

lemma changes_set_scope:
  assumes "\<And>x. row_advances x (b x)"
  shows "changes i db (db\<lparr>d_ctx := set_scope i key now b (insert_context_audit a None (Some i) now
    ((d_ctx db)\<lparr>t_memory_contexts := filter (\<lambda>r. mc_memory_id r \<noteq> i) (t_memory_contexts (d_ctx db)) @ membership_rows i ids now\<rparr>))\<rparr>)"
proof -
  have "row_advances x (b (x\<lparr>m_provenance := pr\<rparr>))" for x pr
    using assms [of "x\<lparr>m_provenance := pr\<rparr>"] by (simp add: row_advances_def)
  then show ?thesis
    by (simp add: changes_def rest_def set_scope_rows set_scope_metadata_other membership_rows_other filter_filter_other
        list_all2_map2 moved_def list_all2_refl flip: rows_def)
qed

lemma changes_replace_contexts:
  assumes "with_ctx (replace_memory_contexts_tx i ids p scope a now) db = Inr db'"
  shows "changes i db db'"
  using assms changes_set_scope [of "\<lambda>x. x" i db]
  by (auto simp: with_ctx_def dest!: replace_memory_contexts_tx_Inr)

section \<open>Advances of the record revision\<close>

definition bumps :: "memory_id \<Rightarrow> memory_db \<Rightarrow> memory_db \<Rightarrow> bool" where
  "bumps i db db' \<longleftrightarrow> list_all2 (\<lambda>r r'. m_id r' = m_id r \<and> (m_id r = i \<longrightarrow> m_record_revision r < m_record_revision r')) (rows db) (rows db')"

lemma bumps_changes: "bumps i a b \<Longrightarrow> changes i b c \<Longrightarrow> bumps i a c"
  unfolding bumps_def changes_def
  by (elim conjE, erule (1) list_all2_trans [rotated]) (auto simp: moved_def row_advances_def split: if_splits)

lemma changes_bumps: "changes i a b \<Longrightarrow> bumps i b c \<Longrightarrow> bumps i a c"
  unfolding bumps_def changes_def
  by (elim conjE, erule (1) list_all2_trans [rotated]) (auto simp: moved_def row_advances_def split: if_splits)

lemma bumps_update_row: "(\<And>r. m_id (f r) = m_id r \<and> m_record_revision r < m_record_revision (f r)) \<Longrightarrow> bumps i db (update_row i f db)"
  by (simp add: bumps_def list_all2_map2 list_all2_refl)

lemma update_row_bump: "changes i db (update_row i bump db)" "bumps i db (update_row i bump db)"
  by (simp_all add: changes_update_row bumps_update_row) (rule bumps_update_row, simp add: bump_def)

lemma set_clause_bumps: "has_column_updates u \<Longrightarrow> m_id (set_clause u now r) = m_id r \<and> m_record_revision r < m_record_revision (set_clause u now r)"
  by (simp add: set_clause_def assign_def bump_def split: option.splits)

section \<open>Writes to one memory\<close>

definition untouched :: "memory_db \<Rightarrow> memory_db \<Rightarrow> bool" where
  "untouched db db' \<longleftrightarrow> rows db' = rows db \<and> d_entities db' = d_entities db \<and>
     t_metadata (d_ctx db') = t_metadata (d_ctx db) \<and> t_memory_contexts (d_ctx db') = t_memory_contexts (d_ctx db)"

lemma untouched_simps [simp]:
  "untouched db db" "untouched a (insert_audit_draft i x b) = untouched a b"
  "untouched a (insert_optional_audit_draft i y b) = untouched a b"
  by (simp_all add: untouched_def)

definition writes :: "memory_id \<Rightarrow> memory_db \<Rightarrow> memory_db \<Rightarrow> bool" where
  "writes i db db' \<longleftrightarrow> changes i db db' \<and> (bumps i db db' \<or> untouched db db')"

lemma writes_refl [simp]: "writes i db db"
  by (simp add: writes_def)

lemma writes_bump: "bumps i db db' \<Longrightarrow> changes i db db' \<Longrightarrow> writes i db db'"
  by (simp add: writes_def)

lemma writes_audit:
  "writes i db db' \<Longrightarrow> writes i db (insert_audit_draft j a db')"
  "writes i db db' \<Longrightarrow> writes i db (insert_optional_audit_draft j oa db')"
  by (auto simp: writes_def intro: changes_trans bumps_changes)

lemma apply_update_inner_effect:
  assumes "apply_update_inner i u now db = Inr (db', out)"
  shows "changes i db db'"
    "has_column_updates u \<or> u_entities u \<noteq> None \<Longrightarrow> i \<in> set (row_ids db) \<Longrightarrow> bumps i db db'"
    "\<not> has_column_updates u \<Longrightarrow> u_entities u = None \<Longrightarrow> db' = db"
    "auo_outcome out = (if i \<in> set (row_ids db) then Applied else OutcomeNotFound)"
proof -
  define db1 where "db1 = (if has_column_updates u then update_row i (set_clause u now) db
                   else if u_entities u \<noteq> None then update_row i bump db else db)"
  define db2 where "db2 = (if u_content u \<noteq> None then db1\<lparr>d_vectors := vec_delete i (d_vectors db1)\<rparr> else db1)"
  have c: "changes i db db1" "changes i db1 db2"
    by (simp_all add: db1_def db2_def changes_update_row row_advances_set_clause)
  have b: "bumps i db db1" if "has_column_updates u \<or> u_entities u \<noteq> None"
    using that by (auto intro!: bumps_update_row set_clause_bumps simp: bump_def db1_def)
  consider "i \<notin> set (row_ids db)" "db' = db" "out = not_found_outcome"
    | "i \<in> set (row_ids db)" "u_entities u = None" "db' = db2" "auo_outcome out = Applied"
    | es where "i \<in> set (row_ids db)" "u_entities u = Some es" "replace_entities i es db2 = Inr db'" "auo_outcome out = Applied"
    using assms
    by (auto simp: apply_update_inner_def Let_def db1_def [symmetric] db2_def split: if_split_asm option.splits)
  note cases = this
  from cases show "changes i db db'"
    by cases (auto intro: changes_trans [OF changes_trans [OF c]] changes_trans [OF c] dest: changes_replace_entities)
  from cases show "auo_outcome out = (if i \<in> set (row_ids db) then Applied else OutcomeNotFound)"
    by cases (simp_all add: not_found_outcome_def)
  show "bumps i db db'" if "has_column_updates u \<or> u_entities u \<noteq> None" "i \<in> set (row_ids db)"
    using cases by cases (use that b [OF that(1)] c in \<open>auto intro: bumps_changes dest: changes_replace_entities\<close>)
  show "db' = db" if "\<not> has_column_updates u" "u_entities u = None"
    using cases that by cases (auto simp: has_column_updates_def db1_def db2_def)
qed

lemma writes_apply_update_inner:
  assumes "apply_update_inner i u now db = Inr (db', out)"
  shows "writes i db db'"
proof (cases "i \<in> set (row_ids db) \<and> (has_column_updates u \<or> u_entities u \<noteq> None)")
  case True
  then show ?thesis using apply_update_inner_effect(1,2) [OF assms] by (auto intro: writes_bump)
next
  case False
  then have "db' = db" using assms apply_update_inner_effect(3) [OF assms]
    by (auto simp: apply_update_inner_def)
  then show ?thesis by simp
qed

lemma apply_update_writes: "apply_update st i u now db = Inr (db', out) \<Longrightarrow> writes i db db'"
  by (auto simp: apply_update_def intro: writes_apply_update_inner split: if_splits option.splits)

lemma update_authorized_audited_writes: "update_authorized_audited st i u p audit now db = Inr (db', out) \<Longrightarrow> writes i db db'"
  by (auto simp: update_authorized_audited_def intro: writes_apply_update_inner writes_audit split: if_splits option.splits)

lemma apply_metadata_patch_changes: "apply_metadata_patch lc i patch ex p now db = Inr db' \<Longrightarrow> changes i db db'"
  by (auto simp: apply_metadata_patch_def merge_metadata_patch_def Let_def intro: changes_upsert_metadata split: option.splits)

lemma apply_metadata_patch_None [simp]: "apply_metadata_patch lc i None ex p now db = Inr db' \<longleftrightarrow> db' = db"
  by (auto simp: apply_metadata_patch_def)

lemma increment_effect:
  assumes "increment_record_revision_conn i db = Inr db'"
  shows "changes i db db'" "bumps i db db'"
  using assms by (auto simp: increment_record_revision_conn_def bump_def intro!: changes_update_row bumps_update_row
      row_advances_bump [unfolded bump_def] split: if_splits)

lemma replace_memberships_effect:
  assumes "replace_memberships i u patch ids ca p now db = Inr db'"
  shows "changes i db db'" "ids = None \<Longrightarrow> db' = db" "ids \<noteq> None \<Longrightarrow> has_column_updates u"
  using assms by (auto simp: replace_memberships_def has_column_updates_def intro: changes_replace_contexts split: option.splits if_splits)

text \<open>The steps after the update proper, shared by the three revisions.\<close>

lemma revise_tail_writes:
  assumes u: "apply_update_inner i u t db = Inr (db1, out)" and present: "i \<in> set (row_ids db)"
    and c2: "changes i db1 db2" and keep: "u_content u = None \<and> patch = None \<longrightarrow> db2 = db1"
    and inc: "(if needed \<and> \<not> has_column_updates u \<and> u_entities u = None then increment_record_revision_conn i db2 else Inr db2) = Inr db3"
    and c4: "changes i db3 db4" and keep4: "needed \<or> db4 = db3 \<or> has_column_updates u" and needed: "patch = None \<or> needed"
  shows "writes i db db4"
proof -
  note e = apply_update_inner_effect [OF u]
  have c: "changes i db db2" "changes i db2 db3"
    using e(1) c2 inc increment_effect(1) by (auto intro: changes_trans split: if_splits)
  then have all: "changes i db db4" using c4 by (blast intro: changes_trans)
  show ?thesis
  proof (cases "has_column_updates u \<or> u_entities u \<noteq> None")
    case True
    then have "bumps i db db4" using e(2) present inc c2 c4 by (auto intro: bumps_changes)
    then show ?thesis using all by (rule writes_bump)
  next
    case False
    then have db1: "db1 = db" "u_content u = None" using e(3) by (auto simp: has_column_updates_def)
    show ?thesis
    proof (cases needed)
      case True
      then have "bumps i db2 db3" using False inc increment_effect(2) [of i db2 db3] by simp
      then show ?thesis using all c(1) c4 by (blast intro: writes_bump changes_bumps bumps_changes)
    next
      case False': False
      then have "db4 = db" using False keep4 needed keep db1 inc by auto
      then show ?thesis by simp
    qed
  qed
qed

lemma apply_authorized_update_with_metadata_writes:
  assumes "apply_authorized_update_with_metadata lc st i u patch p now audit db = Inr (db', out)"
  shows "writes i db db'"
proof (cases "\<exists>ex. fetch_memory_by_id db i = Some ex \<and> has_write_access ex p")
  case False
  then have "db' = db" using assms
    by (auto simp: apply_authorized_update_with_metadata_def split: option.splits if_splits)
  then show ?thesis by simp
next
  case True
  then obtain ex where ex: "fetch_memory_by_id db i = Some ex" "has_write_access ex p" by auto
  let ?t = "next_memory_revision (ss_checked_add st) now (m_updated_at ex)"
  from assms ex obtain db1 where u: "apply_update_inner i u ?t db = Inr (db1, out)"
    by (auto simp: apply_authorized_update_with_metadata_def Let_def split: if_splits)
  have "auo_outcome out = Applied" using apply_update_inner_effect(4) [OF u] fetch_mem [OF ex(1)] by simp
  with assms ex u obtain db2 db3 oa where md: "apply_metadata_patch lc i patch ex p ?t db1 = Inr db2"
    and inc: "(if patch \<noteq> None \<and> \<not> has_column_updates u \<and> u_entities u = None then increment_record_revision_conn i db2 else Inr db2) = Inr db3"
    and db': "db' = insert_optional_audit_draft (m_id ex) oa db3"
    by (auto simp: apply_authorized_update_with_metadata_def Let_def)
  have "writes i db db3"
  proof (rule revise_tail_writes [OF u fetch_mem [OF ex(1)] apply_metadata_patch_changes [OF md] _ inc changes_refl, where patch = patch])
    show "u_content u = None \<and> patch = None \<longrightarrow> db2 = db1" using md by auto
  qed auto
  then show ?thesis unfolding db' by (rule writes_audit)
qed

lemma apply_authorized_update_with_metadata_contexts_writes:
  assumes "apply_authorized_update_with_metadata_contexts lc st i u patch ids p now audit ca db = Inr (db', out)"
  shows "writes i db db'"
proof (cases "\<exists>ex. fetch_memory_by_id db i = Some ex \<and> has_write_access ex p")
  case False
  then have "db' = db" using assms
    by (auto simp: apply_authorized_update_with_metadata_contexts_def split: option.splits if_splits)
  then show ?thesis by simp
next
  case True
  then obtain ex where ex: "fetch_memory_by_id db i = Some ex" "has_write_access ex p" by auto
  let ?t = "next_memory_revision (ss_checked_add st) now (m_updated_at ex)"
  from assms ex obtain db1 where u: "apply_update_inner i u ?t db = Inr (db1, out)"
    by (auto simp: apply_authorized_update_with_metadata_contexts_def Let_def split: if_splits)
  have "auo_outcome out = Applied" using apply_update_inner_effect(4) [OF u] fetch_mem [OF ex(1)] by simp
  with assms ex u obtain db2 db3 db4 a where md: "apply_metadata_patch lc i patch ex p ?t db1 = Inr db2"
    and inc: "(if patch \<noteq> None \<and> \<not> has_column_updates u \<and> u_entities u = None then increment_record_revision_conn i db2 else Inr db2) = Inr db3"
    and m: "replace_memberships i u patch ids ca p ?t db3 = Inr db4" and db': "db' = insert_audit_draft (m_id ex) a db4"
    by (cases ids; cases ca) (auto simp: apply_authorized_update_with_metadata_contexts_def Let_def)
  have "writes i db db4"
  proof (rule revise_tail_writes [OF u fetch_mem [OF ex(1)] apply_metadata_patch_changes [OF md] _ inc replace_memberships_effect(1) [OF m], where patch = patch])
    show "u_content u = None \<and> patch = None \<longrightarrow> db2 = db1" using md by auto
    show "patch \<noteq> None \<or> db4 = db3 \<or> has_column_updates u" using replace_memberships_effect(2,3) [OF m] by auto
  qed auto
  then show ?thesis unfolding db' by (rule writes_audit)
qed

lemma save_embedding_changes: "save_embedding st i e out db = Inr (db', out') \<Longrightarrow> changes i db db'"
  by (auto simp: save_embedding_def upsert_vector_def row_advances_def split: option.splits if_splits
      intro!: changes_trans [OF changes_audit(3) changes_update_row])

lemma save_embedding_None [simp]: "save_embedding st i None out db = Inr (db', out') \<longleftrightarrow> db' = db \<and> out' = out"
  by (auto simp: save_embedding_def)

lemma save_memberships_changes: "save_memberships i ids ca p t db = Inr db' \<Longrightarrow> changes i db db'"
proof (cases ids)
  case (Some cs)
  assume "save_memberships i ids ca p t db = Inr db'"
  with Some obtain a scope md db1 where "upsert_metadata_conn md t db = Inr db1" "mm_memory_id md = i"
    "with_ctx (replace_memory_contexts_tx i cs p scope a t) db1 = Inr db'"
    by (auto simp: save_memberships_def Let_def blank_metadata_def get_metadata_conn_def row_metadata_def find_Some_iff
        split: option.splits)
  then show ?thesis by (blast intro: changes_trans changes_upsert_metadata changes_replace_contexts)
qed (auto simp: save_memberships_def)

lemma apply_authorized_update_if_unmodified_cases:
  assumes "apply_authorized_update_if_unmodified_with_metadata lc st i n u patch ids e p now audit ca db = Inr (db', out)"
  obtains "db' = db" "auo_outcome out \<noteq> Applied"
  | ex t db1 out1 db2 db3 db4 db5 a where "fetch_memory_by_id db i = Some ex" "has_write_access ex p" "m_record_revision ex = n"
    "u_content u = None \<longrightarrow> e = None" "apply_update_inner i u t db = Inr (db1, out1)" "save_embedding st i e out1 db1 = Inr (db2, out)"
    "apply_metadata_patch lc i patch ex p t db2 = Inr db3"
    "(if (patch \<noteq> None \<or> ids \<noteq> None) \<and> \<not> has_column_updates u \<and> u_entities u = None
      then increment_record_revision_conn i db3 else Inr db3) = Inr db4"
    "save_memberships i ids ca p t db4 = Inr db5" "db' = insert_audit_draft i a db5"
proof (cases "\<exists>ex. fetch_memory_by_id db i = Some ex \<and> has_write_access ex p")
  case False
  then have "db' = db \<and> auo_outcome out \<noteq> Applied" using assms
    by (auto simp: apply_authorized_update_if_unmodified_with_metadata_def not_found_outcome_def denied_outcome_def
        split: option.splits if_splits)
  then show ?thesis using that(1) by blast
next
  case True
  then obtain ex where ex: "fetch_memory_by_id db i = Some ex" "has_write_access ex p" by auto
  let ?t = "next_memory_revision (ss_checked_add st) now (m_updated_at ex)"
  from assms ex have rev: "m_record_revision ex = n" "u_content u = None \<longrightarrow> e = None" "(ids \<noteq> None) = (ca \<noteq> None)"
    by (auto simp: apply_authorized_update_if_unmodified_with_metadata_def split: if_split_asm)
  from assms ex rev obtain db1 out1 db2 db3 db4 db5 where
    "apply_update_inner i u ?t db = Inr (db1, out1)" "save_embedding st i e out1 db1 = Inr (db2, out)"
    "apply_metadata_patch lc i patch ex p ?t db2 = Inr db3"
    "(if (patch \<noteq> None \<or> ids \<noteq> None) \<and> \<not> has_column_updates u \<and> u_entities u = None
      then increment_record_revision_conn i db3 else Inr db3) = Inr db4"
    "save_memberships i ids ca p ?t db4 = Inr db5"
    "db' = insert_audit_draft i (update_audit_draft_for_locked_memory audit u ex) db5"
    by (cases e; cases ids; cases ca) (auto simp: apply_authorized_update_if_unmodified_with_metadata_def Let_def)
  then show ?thesis by (rule that(2) [OF ex rev(1,2)])
qed

lemma apply_authorized_update_if_unmodified_writes:
  assumes "apply_authorized_update_if_unmodified_with_metadata lc st i n u patch ids e p now audit ca db = Inr (db', out)"
  shows "writes i db db'"
  using assms
proof (cases rule: apply_authorized_update_if_unmodified_cases)
  case (2 ex t db1 out1 db2 db3 db4 db5 a)
  have "writes i db db5"
  proof (rule revise_tail_writes [OF 2(5) fetch_mem [OF 2(1)] _ _ 2(8), where patch = patch])
    show "changes i db1 db3" by (rule changes_trans [OF save_embedding_changes [OF 2(6)] apply_metadata_patch_changes [OF 2(7)]])
    show "u_content u = None \<and> patch = None \<longrightarrow> db3 = db1" using 2(4,6,7) by auto
    show "changes i db4 db5" by (rule save_memberships_changes [OF 2(9)])
    show "(patch \<noteq> None \<or> ids \<noteq> None) \<or> db5 = db4 \<or> has_column_updates u" using 2(9) by (cases ids) (auto simp: save_memberships_def)
  qed auto
  then show ?thesis unfolding 2(10) by (rule writes_audit)
qed simp

section \<open>Tracking\<close>

text \<open>\<open>tracked j\<close>: where the memory \<open>j\<close> is there before and after, its revisions did not go back and an
  unchanged record revision means that nothing a reader sees has changed.\<close>

definition tracked :: "memory_id \<Rightarrow> memory_db \<Rightarrow> memory_db \<Rightarrow> bool" where
  "tracked j db db' = (case (find_row db j, find_row db' j) of
     (Some r, Some r') \<Rightarrow> row_advances r r' \<and> (m_record_revision r' = m_record_revision r \<longrightarrow> visible db' j = visible db j)
   | _ \<Rightarrow> True)"

definition tracks :: "memory_db \<Rightarrow> memory_db \<Rightarrow> bool" where
  "tracks db db' \<longleftrightarrow> (\<forall>j. tracked j db db')"

lemma tracked_absent: "j \<notin> set (row_ids db) \<or> j \<notin> set (row_ids db') \<Longrightarrow> tracked j db db'"
  by (auto simp: tracked_def find_row_None [symmetric] split: option.splits)

lemma tracked_same: "find_row db' j = find_row db j \<Longrightarrow> rest db' j = rest db j \<Longrightarrow> tracked j db db'"
  by (auto simp: tracked_def visible_def split: option.splits)

lemma tracked_trans:
  assumes "tracked j a b" "tracked j b c" "j \<in> set (row_ids b) \<or> j \<notin> set (row_ids a) \<or> j \<notin> set (row_ids c)"
  shows "tracked j a c"
proof (cases "j \<in> set (row_ids a) \<and> j \<in> set (row_ids c)")
  case True
  then obtain x y z where f: "find_row a j = Some x" "find_row b j = Some y" "find_row c j = Some z"
    using assms(3) by (metis find_row_None option.exhaust)
  then have "row_advances x y" "row_advances y z"
    "m_record_revision y = m_record_revision x \<longrightarrow> visible b j = visible a j"
    "m_record_revision z = m_record_revision y \<longrightarrow> visible c j = visible b j"
    using assms(1,2) by (simp_all add: tracked_def)
  then show ?thesis using f row_advances_trans by (auto simp: tracked_def row_advances_def)
qed (use tracked_absent in blast)

lemma find_list_all2:
  assumes "list_all2 P xs ys" "\<And>x y. P x y \<Longrightarrow> m_id y = m_id x"
  shows "rel_option P (find (\<lambda>r. m_id r = j) xs) (find (\<lambda>r. m_id r = j) ys)"
  using assms by (induction rule: list_all2_induct) auto

lemma rows_list_all2:
  assumes "list_all2 P (rows db) (rows db')" "\<And>x y. P x y \<Longrightarrow> m_id y = m_id x"
  shows "rel_option P (find_row db j) (find_row db' j)" "row_ids db' = row_ids db"
proof -
  show "rel_option P (find_row db j) (find_row db' j)"
    unfolding find_row_def by (rule find_list_all2 [OF assms])
  have "list_all2 (\<lambda>x y. m_id x = m_id y) (rows db) (rows db')"
    using assms(1) by (rule list_all2_mono) (simp add: assms(2))
  then show "row_ids db' = row_ids db"
    by (simp add: row_ids_def list_all2_conv_all_nth list_eq_iff_nth_eq)
qed

lemma changes_find: "changes i db db' \<Longrightarrow> rel_option (moved i) (find_row db j) (find_row db' j)"
  unfolding changes_def by (blast intro: rows_list_all2(1) moved_id)

lemma changes_ids: "changes i db db' \<Longrightarrow> row_ids db' = row_ids db"
  unfolding changes_def by (blast intro: rows_list_all2(2) moved_id)

lemma changes_tracked:
  assumes "changes i db db'" "j \<noteq> i"
  shows "tracked j db db'"
proof (cases "find_row db j")
  case (Some r)
  with assms show ?thesis using changes_find [OF assms(1), of j] find_row_mem [OF Some]
    by (intro tracked_same) (auto simp: moved_def changes_def option_rel_Some1)
qed (simp add: tracked_def)

lemma writes_tracks:
  assumes "writes i db db'"
  shows "tracks db db'"
  unfolding tracks_def
proof
  fix j
  from assms have c: "changes i db db'" and bu: "bumps i db db' \<or> untouched db db'" by (simp_all add: writes_def)
  show "tracked j db db'"
  proof (cases "j = i \<and> bumps i db db'")
    case True
    then have "rel_option (\<lambda>r r'. m_id r' = m_id r \<and> (m_id r = i \<longrightarrow> m_record_revision r < m_record_revision r')) (find_row db i) (find_row db' i)"
      unfolding bumps_def by (blast intro: rows_list_all2(1))
    with changes_find [OF c, of i] True show ?thesis
      by (cases "find_row db i") (auto simp: tracked_def moved_def option_rel_Some1 dest: find_row_mem)
  next
    case False
    then show ?thesis using bu changes_tracked [OF c]
      by (cases "j = i") (auto simp: untouched_def find_row_def rest_def intro!: tracked_same)
  qed
qed

text \<open>Bookkeeping that no reader sees.\<close>

definition hidden :: "memory_row \<Rightarrow> memory_row \<Rightarrow> bool" where
  "hidden r r' \<longleftrightarrow> visible_row r' = visible_row r \<and> m_record_revision r' = m_record_revision r \<and>
     mr_embedding_revision r' = mr_embedding_revision r"

lemma hidden_refl [simp]: "hidden r r" by (simp add: hidden_def)

lemma hidden_trans: "hidden a b \<Longrightarrow> hidden b c \<Longrightarrow> hidden a c" by (simp add: hidden_def)

lemma visible_row_eq: "visible_row r' = visible_row r \<Longrightarrow> m_id r' = m_id r \<and> m_content r' = m_content r"
  by (cases r; cases r') (auto simp: visible_row_def)

lemma hidden_tracks:
  assumes "list_all2 hidden (rows db) (rows db')" "d_entities db' = d_entities db"
    "t_metadata (d_ctx db') = t_metadata (d_ctx db)" "t_memory_contexts (d_ctx db') = t_memory_contexts (d_ctx db)"
  shows "tracks db db'" "row_ids db' = row_ids db"
proof -
  have id: "hidden r r' \<Longrightarrow> m_id r' = m_id r \<and> m_content r' = m_content r" for r r'
    using visible_row_eq [of r' r] by (simp add: hidden_def)
  show "row_ids db' = row_ids db" by (rule rows_list_all2(2) [OF assms(1)]) (simp add: id)
  have "tracked j db db'" for j
  proof (cases "find_row db j")
    case (Some r)
    with rows_list_all2(1) [OF assms(1), of j] id obtain r' where r': "find_row db' j = Some r'" "hidden r r'"
      by (auto simp: option_rel_Some1)
    then show ?thesis using Some id [OF r'(2)] assms(2-)
      by (simp add: tracked_def row_advances_def hidden_def visible_def rest_def)
  qed (simp add: tracked_def)
  then show "tracks db db'" by (simp add: tracks_def)
qed

section \<open>The other operations\<close>

lemma distinct_row:
  "distinct (row_ids db) \<Longrightarrow> find_row db i = Some r \<Longrightarrow> x \<in> set (rows db) \<Longrightarrow> m_id x = i \<Longrightarrow> x = r"
  by (auto simp: row_ids_def distinct_map inj_on_def dest!: find_row_mem)

lemma mark_superseded_effect:
  assumes "mark_superseded i j db = Inr (db', b)" "distinct (row_ids db)"
  shows "writes i db db'" "b = (i \<in> set (row_ids db))"
    "b \<Longrightarrow> \<exists>r. find_row db i = Some r \<and> m_superseded_by r = None \<and>
       db' = update_row i (\<lambda>r. bump (r\<lparr>m_superseded_by := Some j\<rparr>)) db"
proof -
  let ?g = "\<lambda>r. bump (r\<lparr>m_superseded_by := Some j\<rparr>)"
  consider "i \<notin> set (row_ids db)" "db' = db" "\<not> b"
    | r where "find_row db i = Some r" "m_superseded_by r = None" "b" "db' = update_row i ?g db"
  proof (cases "find_row db i")
    case None
    then have "mark_superseded i j db = Inr (db, False)" by (simp add: mark_superseded_def fetch_memory_by_id_def)
    with assms(1) None show ?thesis by (intro that(1)) (simp_all add: find_row_None)
  next
    case (Some r)
    with assms(1) have r: "m_superseded_by r = None" "b"
      "db' = set_rows (map (\<lambda>r. if m_id r = i \<and> m_superseded_by r = None then ?g r else r) (rows db)) db"
      by (simp_all add: mark_superseded_def fetch_memory_by_id_def split: if_split_asm)
    then have "\<forall>x \<in> set (rows db). m_id x = i \<longrightarrow> m_superseded_by x = None"
      using distinct_row [OF assms(2) Some] by blast
    then have "map (\<lambda>r. if m_id r = i \<and> m_superseded_by r = None then ?g r else r) (rows db) = map (\<lambda>r. if m_id r = i then ?g r else r) (rows db)"
      by (intro map_cong) auto
    then have "db' = update_row i ?g db" unfolding r(3) update_row_def by (simp only:)
    with Some r that(2) show ?thesis by blast
  qed
  note cases = this
  from cases show "b = (i \<in> set (row_ids db))"
    by cases (auto simp: row_ids_def dest: find_row_mem)
  from cases show "b \<Longrightarrow> \<exists>r. find_row db i = Some r \<and> m_superseded_by r = None \<and> db' = update_row i ?g db" by cases auto
  from cases show "writes i db db'"
    by cases (auto simp: bump_def row_advances_def intro!: writes_bump bumps_update_row changes_update_row)
qed

lemma find_map_id: "(\<And>r. m_id (f r) = m_id r) \<Longrightarrow> find (\<lambda>r. m_id r = j) (map f xs) = map_option f (find (\<lambda>r. m_id r = j) xs)"
  by (induction xs) auto

lemma find_filter_id: "find (\<lambda>r. m_id r = j) (filter (\<lambda>r. m_id r \<noteq> i) xs) = (if j = i then None else find (\<lambda>r. m_id r = j) xs)"
  by (induction xs) auto

lemma clear_superseded_id [simp]: "m_id (clear_superseded_by i r) = m_id r"
  by (simp add: clear_superseded_by_def bump_def)

lemma delete_row_effect:
  "find_row (delete_row i db) j = (if j = i then None else map_option (clear_superseded_by i) (find_row db j))
     \<or> (i \<notin> set (row_ids db) \<and> delete_row i db = db)"
  "j \<noteq> i \<Longrightarrow> rest (delete_row i db) j = rest db j"
  "row_ids (delete_row i db) = filter (\<lambda>k. k \<noteq> i) (row_ids db)"
proof -
  show "find_row (delete_row i db) j = (if j = i then None else map_option (clear_superseded_by i) (find_row db j))
     \<or> (i \<notin> set (row_ids db) \<and> delete_row i db = db)"
    by (auto simp: delete_row_def find_row_def find_map_id find_filter_id)
  show "j \<noteq> i \<Longrightarrow> rest (delete_row i db) j = rest db j"
    by (simp add: delete_row_def rest_def filter_drop_other filter_filter_other del: filter_filter)
      (simp add: filter_filter_other)
  have "filter (\<lambda>k. k \<noteq> i) (row_ids db) = row_ids db" if "i \<notin> set (row_ids db)"
    using that by (auto simp: filter_id_conv)
  then show "row_ids (delete_row i db) = filter (\<lambda>k. k \<noteq> i) (row_ids db)"
    by (simp add: delete_row_def) (simp add: row_ids_def comp_def filter_map)
qed

lemma delete_row_tracks: "tracks db (delete_row i db)"
  unfolding tracks_def
proof
  fix j
  show "tracked j db (delete_row i db)"
  proof (cases "j = i")
    case True
    then show ?thesis by (intro tracked_absent) (simp add: delete_row_effect(3))
  next
    case False
    then show ?thesis using delete_row_effect(1) [of i db j] delete_row_effect(2) [OF False, of db]
      by (cases "find_row db j")
        (auto simp: tracked_def visible_def clear_superseded_by_def row_advances_def bump_def intro: tracked_same)
  qed
qed

lemma tracks_refl [simp]: "tracks db db"
  by (simp add: tracks_def tracked_def visible_def split: option.splits)

lemma find_row_cong: "rows db' = rows db \<Longrightarrow> find_row db' j = find_row db j"
  by (simp add: find_row_def)

text \<open>Audit rows and tombstones are outside of what a memory shows.\<close>

lemma visible_frame [simp]:
  "find_row (insert_audit_draft i x b) j = find_row b j" "visible (insert_audit_draft i x b) j = visible b j"
  "find_row (insert_optional_audit_draft i y b) j = find_row b j" "visible (insert_optional_audit_draft i y b) j = visible b j"
  "find_row (upsert_tombstone t b) j = find_row b j" "visible (upsert_tombstone t b) j = visible b j"
  by (simp_all add: visible_def rest_def find_row_def)

lemma tracks_frame [simp]:
  "tracks a (insert_audit_draft i x b) = tracks a b" "tracks a (insert_optional_audit_draft i y b) = tracks a b"
  "tracks (upsert_tombstone t a) b = tracks a b"
  by (simp_all add: tracks_def tracked_def cong: option.case_cong)

lemma row_ids_frame [simp]:
  "row_ids (insert_audit_draft i x b) = row_ids b" "row_ids (insert_optional_audit_draft i y b) = row_ids b"
  "row_ids (upsert_tombstone t b) = row_ids b" "affected i (upsert_tombstone t b) = affected i b"
  by (simp_all add: row_ids_def affected_def)

definition shrinks :: "memory_db \<Rightarrow> memory_db \<Rightarrow> bool" where
  "shrinks db db' \<longleftrightarrow> tracks db db' \<and> set (row_ids db') \<subseteq> set (row_ids db)"

definition grows :: "memory_db \<Rightarrow> memory_db \<Rightarrow> bool" where
  "grows db db' \<longleftrightarrow> tracks db db' \<and> set (row_ids db) \<subseteq> set (row_ids db')"

lemma shrinks_trans: "shrinks a b \<Longrightarrow> shrinks b c \<Longrightarrow> shrinks a c"
  unfolding shrinks_def tracks_def by (blast intro: tracked_trans)

lemma grows_trans: "grows a b \<Longrightarrow> grows b c \<Longrightarrow> grows a c"
  unfolding grows_def tracks_def by (blast intro: tracked_trans)

lemma shrinks_delete: "shrinks db (delete_row i db)"
  by (auto simp: shrinks_def delete_row_tracks delete_row_effect(3))

lemma writes_shrinks_grows: "writes i db db' \<Longrightarrow> shrinks db db' \<and> grows db db'"
  using writes_tracks [of i db db'] changes_ids [of i db db'] by (simp add: shrinks_def grows_def writes_def)

lemma update_authorized_superseded_writes:
  assumes "distinct (row_ids db)"
  shows "mark_superseded_by_authorized_audited i j p audit db = Inr (db', out) \<Longrightarrow> writes i db db'"
    "mark_superseded_if_unchanged member representative p a db = Inr (db', out) \<Longrightarrow> writes (cs_memory_id member) db db'"
  using mark_superseded_effect(1) [OF _ assms]
  by (auto simp: mark_superseded_by_authorized_audited_def mark_superseded_if_unchanged_def
      intro!: writes_audit split: option.splits if_splits)

lemma upsert_metadata_audited_writes:
  assumes "upsert_metadata_audited md audit now db = Inr (db', u)"
  shows "writes (mm_memory_id md) db db'"
proof -
  from assms obtain db1 where db1: "upsert_metadata_conn md now db = Inr db1"
    "db' = insert_optional_audit_draft (mm_memory_id md) audit (update_row (mm_memory_id md) bump db1)"
    by (auto simp: upsert_metadata_audited_def Let_def split: option.splits if_splits)
  have "changes (mm_memory_id md) db db1" by (rule changes_upsert_metadata [OF db1(1) refl])
  then have "writes (mm_memory_id md) db (update_row (mm_memory_id md) bump db1)"
    using update_row_bump [of "mm_memory_id md" db1] by (blast intro: writes_bump changes_bumps changes_trans)
  then show ?thesis unfolding db1(2) by (rule writes_audit)
qed

subsection \<open>Storing\<close>

lemma add_entities_new: "filter (\<lambda>(m, _). m = j) (add_entities i es t) = filter (\<lambda>(m, _). m = j) t" if "j \<noteq> i"
  using that by (rule add_entities_other)

lemma find_append_id: "find (\<lambda>r. m_id r = j) (xs @ [x]) = (case find (\<lambda>r. m_id r = j) xs of None \<Rightarrow> if m_id x = j then Some x else None | Some r \<Rightarrow> Some r)"
  by (induction xs) auto

lemma prepared_row_id [simp]:
  "m_id (prepared_row m e) = m_id m" "m_has_embedding (prepared_row m e) = (e \<noteq> None)" "unclaimed (prepared_row m e)"
  by (simp_all add: prepared_row_def unclaimed_def memory.defs)

lemma insert_prepared_Inr:
  assumes "insert_prepared st m e db = Inr db'"
  shows "m_id m \<notin> set (row_ids db)"
    "\<exists>v. db' = (set_rows (rows db @ [prepared_row m e]) db)\<lparr>d_vectors := v, d_entities := add_entities (m_id m) (m_entities m) (d_entities db)\<rparr> \<and>
       (case e of None \<Rightarrow> v = d_vectors db
        | Some x \<Rightarrow> vec_upsert (ss_rowid st) (ss_le st) (ss_dimensions st) (row_ids db @ [m_id m]) (m_id m) x (d_vectors db) = Inr v)"
proof -
  show "m_id m \<notin> set (row_ids db)" using assms by (auto simp: insert_prepared_def split: if_splits)
  have ins: "insert_entities i es d = Inr d' \<Longrightarrow> d' = d\<lparr>d_entities := add_entities i es (d_entities d)\<rparr>" for i es d d'
    by (auto simp: insert_entities_def split: if_splits)
  have ids: "row_ids (set_rows (rows db @ [prepared_row m e]) db) = row_ids db @ [m_id m]" by (simp add: row_ids_def)
  show "\<exists>v. db' = (set_rows (rows db @ [prepared_row m e]) db)\<lparr>d_vectors := v, d_entities := add_entities (m_id m) (m_entities m) (d_entities db)\<rparr> \<and>
       (case e of None \<Rightarrow> v = d_vectors db
        | Some x \<Rightarrow> vec_upsert (ss_rowid st) (ss_le st) (ss_dimensions st) (row_ids db @ [m_id m]) (m_id m) x (d_vectors db) = Inr v)"
  proof (cases e)
    case None
    with assms have "insert_entities (m_id m) (m_entities m) (set_rows (rows db @ [prepared_row m None]) db) = Inr db'"
      by (simp add: insert_prepared_def Let_def split: if_split_asm)
    from ins [OF this] None show ?thesis by (intro exI [of _ "d_vectors db"]) (simp add: set_rows_def)
  next
    case (Some x)
    with assms obtain v where v: "vec_upsert (ss_rowid st) (ss_le st) (ss_dimensions st) (row_ids db @ [m_id m]) (m_id m) x (d_vectors db) = Inr v"
      "insert_entities (m_id m) (m_entities m) ((set_rows (rows db @ [prepared_row m e]) db)\<lparr>d_vectors := v\<rparr>) = Inr db'"
      using ids by (auto simp: insert_prepared_def Let_def upsert_vector_def split: if_split_asm)
    from ins [OF v(2)] v(1) Some show ?thesis by (intro exI [of _ v]) simp
  qed
qed

lemma insert_prepared_grows:
  assumes "insert_prepared st m e db = Inr db'"
  shows "grows db db'" "row_ids db' = row_ids db @ [m_id m]"
proof -
  note i = insert_prepared_Inr [OF assms]
  from i(2) obtain v where v: "db' = (set_rows (rows db @ [prepared_row m e]) db)\<lparr>d_vectors := v, d_entities := add_entities (m_id m) (m_entities m) (d_entities db)\<rparr>"
    by blast
  show ids: "row_ids db' = row_ids db @ [m_id m]" unfolding v by (simp add: row_ids_def)
  have "tracked j db db'" for j
  proof (cases "j = m_id m")
    case False
    then have "find_row db' j = find_row db j" "rest db' j = rest db j" unfolding v
      by (simp_all add: find_row_def find_append_id rest_def add_entities_new split: option.splits)
    then show ?thesis by (rule tracked_same)
  qed (use i(1) in \<open>simp add: tracked_absent\<close>)
  then show "grows db db'" by (auto simp: grows_def tracks_def ids)
qed

lemma new_row_grows:
  assumes "grows db db1" "i \<notin> set (row_ids db)" "changes i db1 db2"
  shows "grows db db2"
proof -
  have "tracked j db db2" for j
  proof (cases "j = i")
    case False
    then show ?thesis using assms changes_tracked [OF assms(3) False] changes_ids [OF assms(3)]
      by (auto simp: grows_def tracks_def intro: tracked_trans)
  qed (use assms(2) in \<open>simp add: tracked_absent\<close>)
  then show ?thesis using assms changes_ids [OF assms(3)] by (simp add: grows_def tracks_def)
qed

text \<open>\<open>adds i\<close>: a new memory \<open>i\<close> and, for the others, tracked changes only.\<close>

definition adds :: "memory_id \<Rightarrow> memory_db \<Rightarrow> memory_db \<Rightarrow> bool" where
  "adds i db db' \<longleftrightarrow> grows db db' \<and> i \<notin> set (row_ids db) \<and> row_ids db' = row_ids db @ [i]"

lemma adds_frame [simp]:
  "adds i a (insert_audit_draft j x b) = adds i a b" "adds i a (insert_optional_audit_draft j y b) = adds i a b"
  by (simp_all add: adds_def grows_def)

lemma adds_changes: "adds i db db1 \<Longrightarrow> changes i db1 db2 \<Longrightarrow> adds i db db2"
  using new_row_grows [of db db1 i db2] changes_ids [of i db1 db2] by (simp add: adds_def)

lemma adds_writes: "adds i db db1 \<Longrightarrow> writes j db1 db2 \<Longrightarrow> adds i db db2"
  using writes_shrinks_grows [of j db1 db2] by (auto simp: adds_def writes_def changes_ids intro: grows_trans)

lemma insert_prepared_adds: "insert_prepared st m e db = Inr db' \<Longrightarrow> adds (m_id m) db db'"
  using insert_prepared_Inr(1) insert_prepared_grows by (auto simp: adds_def)

lemma adds_distinct: "adds i db db' \<Longrightarrow> distinct (row_ids db) \<Longrightarrow> distinct (row_ids db')"
  by (simp add: adds_def)

lemma insert_prepared_supersession_adds:
  assumes "insert_prepared_with_optional_supersession_and_audit st m e old audit db = Inr (db', i)" "distinct (row_ids db)"
  shows "i = m_id m \<and> adds (m_id m) db db'"
proof -
  from assms(1) obtain db1 db2 b where s: "insert_prepared st m e db = Inr db1"
    "(case old of None \<Rightarrow> Inr (db1, False) | Some sid \<Rightarrow> mark_superseded sid (m_id m) db1) = Inr (db2, b)"
    "db' = insert_optional_audit_draft (m_id m) audit db2" "i = m_id m"
    by (auto simp: insert_prepared_with_optional_supersession_and_audit_def)
  note a = insert_prepared_adds [OF s(1)]
  from s(2) have "adds (m_id m) db db2"
    using a by (cases old) (auto intro: adds_writes [OF a] mark_superseded_effect(1) [OF _ adds_distinct [OF a assms(2)]])
  then show ?thesis using s by simp
qed

lemma store_audited_adds:
  "store_audited st m e audit db = Inr (db', i) \<Longrightarrow> i = m_id m \<and> adds (m_id m) db db'"
  by (auto simp: store_audited_def intro: insert_prepared_adds)

lemma store_with_supersession_eq:
  "store_with_supersession_audited st m e sid audit db =
     insert_prepared_with_optional_supersession_and_audit st m e (Some sid) audit db"
  by (simp add: store_with_supersession_audited_def insert_prepared_with_optional_supersession_and_audit_def)

lemma upsert_metadata_adds:
  "adds i db db1 \<Longrightarrow> upsert_metadata_conn md now db1 = Inr db2 \<Longrightarrow> mm_memory_id md = i \<Longrightarrow> adds i db db2"
  by (blast intro: adds_changes changes_upsert_metadata)

lemma store_with_metadata_audited_adds:
  "store_with_metadata_audited st m e old md audit now db = Inr (db', i) \<Longrightarrow> distinct (row_ids db) \<Longrightarrow>
     i = m_id m \<and> adds (m_id m) db db'"
  by (auto simp: store_with_metadata_audited_def validate_metadata_memory_id_def split: if_splits
      dest!: insert_prepared_supersession_adds intro: upsert_metadata_adds)

lemma changes_initial_contexts:
  assumes "with_ctx (insert_initial_memory_contexts i ids p scope a now) db = Inr db'"
  shows "changes i db db'"
  using assms
  by (auto simp: with_ctx_def insert_initial_memory_contexts_def changes_def rest_def membership_rows_other list_all2_refl
      simp flip: rows_def dest!: insert_memory_contexts_Inr)

lemma store_governed_adds:
  assumes "store_governed st m e old md ids p audit ca now db = Inr (db', i)" "mm_memory_id md = m_id m" "distinct (row_ids db)"
  shows "i = m_id m \<and> adds (m_id m) db db'"
proof -
  from assms(1) obtain db1 db2 where s: "insert_prepared_with_optional_supersession_and_audit st m e old (Some audit) db = Inr (db1, i)"
    "upsert_metadata_conn md now db1 = Inr db2"
    "with_ctx (insert_initial_memory_contexts i ids p (compatibility_scope_of md) ca now) db2 = Inr db'"
    by (auto simp: store_governed_def)
  note a = insert_prepared_supersession_adds [OF s(1) assms(3)]
  then have "adds (m_id m) db db2" using upsert_metadata_adds [OF _ s(2)] assms(2) by blast
  then show ?thesis using a changes_initial_contexts [OF s(3)] by (auto intro: adds_changes)
qed

lemma governed_principal_Inr:
  "governed_principal m md = Inr p \<Longrightarrow> mm_memory_id md = m_id m \<and> p_source_agent (m_provenance m) = Some p \<and> trim p \<noteq> [] \<and>
     p_source_conversation (m_provenance m) = Some (compatibility_scope_of md)"
  by (auto simp: governed_principal_def validate_metadata_memory_id_def split: if_splits option.splits)

lemma store_with_metadata_contexts_audited_adds:
  "store_with_metadata_contexts_audited st m e old md ids audit ca now db = Inr (db', i) \<Longrightarrow> distinct (row_ids db) \<Longrightarrow>
     i = m_id m \<and> adds (m_id m) db db'"
  by (auto simp: store_with_metadata_contexts_audited_def dest!: governed_principal_Inr dest: store_governed_adds)

subsection \<open>Batches, bulk operations and bookkeeping\<close>

lemma try_fold_inv:
  assumes "try_fold f s xs = Inr s'" "I s" "\<And>s x s'. x \<in> set xs \<Longrightarrow> I s \<Longrightarrow> f s x = Inr s' \<Longrightarrow> I s'"
  shows "I s'"
  using assms by (induction xs arbitrary: s) auto

lemma foldl_inv: "I s \<Longrightarrow> (\<And>s x. I s \<Longrightarrow> I (f s x)) \<Longrightarrow> I (foldl f s xs)"
  by (induction xs arbitrary: s) auto

lemma batch_tx_inv:
  assumes "batch_tx op items db = Inr (db', ids)" "I db"
    "\<And>item d d' i. item \<in> set items \<Longrightarrow> I d \<Longrightarrow> op item d = Inr (d', i) \<Longrightarrow> I d'"
  shows "I db'"
proof -
  have "(\<lambda>(d, _). I d) (db', ids)"
    using assms(1) unfolding batch_tx_def
    by (rule try_fold_inv [where I = "\<lambda>(d, _). I d"]) (use assms(2,3) in auto)
  then show ?thesis by simp
qed

lemma bulk_tx_inv:
  assumes "bulk_tx op ids db = Inr (db', out)" "I db"
    "\<And>d c d' c' i. I d \<Longrightarrow> op (d, c) i = Inr (d', c') \<Longrightarrow> I d'"
  shows "I db'"
proof (cases "ids = []")
  case False
  have inner: "try_fold op s chunk = Inr s' \<Longrightarrow> I (fst s) \<Longrightarrow> I (fst s')" for s chunk s'
    by (rule try_fold_inv [where I = "\<lambda>s. I (fst s)"]) (use assms(3) in \<open>force+\<close>)
  from assms(1) False have "try_fold (try_fold op) (db, \<lparr>bo_applied_ids = [], bo_denied = 0\<rparr>) (chunks_of SQLITE_MAX_CHUNK ids) = Inr (db', out)"
    by (simp add: bulk_tx_def)
  then have "I (fst (db', out))"
    by (rule try_fold_inv [where I = "\<lambda>s. I (fst s)"]) (simp_all add: assms(2) inner)
  then show ?thesis by simp
qed (use assms in \<open>simp add: bulk_tx_def\<close>)

lemma shrinks_bury: "shrinks d (delete_row i (upsert_tombstone t d))"
  using delete_row_tracks [of "upsert_tombstone t d" i] by (auto simp: shrinks_def delete_row_effect(3))

lemma shrinks_frame [simp]:
  "shrinks db db"
  "shrinks a (insert_audit_draft i x b) = shrinks a b" "shrinks a (insert_optional_audit_draft i y b) = shrinks a b"
  by (simp_all add: shrinks_def)

lemma deletes_shrink:
  "apply_delete i t db = Inr (db', b) \<Longrightarrow> shrinks db db'"
  "apply_authorized_delete i p t oa db = Inr (db', out) \<Longrightarrow> shrinks db db'"
  "apply_authorized_delete_if_unmodified i n p t a db = Inr (db', out) \<Longrightarrow> shrinks db db'"
  "bulk_delete_one p t oa (db, c) i = Inr (db', c') \<Longrightarrow> shrinks db db'"
  using shrinks_bury [of db i]
  by (auto simp: apply_delete_def apply_authorized_delete_def apply_authorized_delete_if_unmodified_def bulk_delete_one_def
      insert_tombstone_def Let_def split: option.splits if_splits)

lemma bulk_delete_ids_shrinks: "bulk_delete_ids ids p t oa db = Inr (db', out) \<Longrightarrow> shrinks db db'"
  unfolding bulk_delete_ids_def
  by (erule bulk_tx_inv [where I = "shrinks db"]) (auto intro: shrinks_trans deletes_shrink(4))

lemma bulk_update_one_writes: "bulk_update_one st u p now oa (db, c) i = Inr (db', c') \<Longrightarrow> writes i db db'"
  by (auto simp: bulk_update_one_def intro: writes_apply_update_inner writes_audit split: option.splits if_splits)

lemma bulk_update_ids_grows: "bulk_update_ids st ids u p now oa db = Inr (db', out) \<Longrightarrow> grows db db'"
  unfolding bulk_update_ids_def
  by (erule bulk_tx_inv [where I = "grows db"]) (auto simp: grows_def [of db db] intro: grows_trans dest!: bulk_update_one_writes writes_shrinks_grows)

lemma evict_expired_shrinks: "shrinks db (fst (evict_expired_conn now scope a db))"
proof -
  have one: "shrinks d (fst (evict_one now scope a (d, n) r))" for d n r
    using shrinks_bury [of d "m_id r"] by (auto simp: evict_one_def Let_def split: option.splits)
  show ?thesis unfolding evict_expired_conn_def
    by (rule foldl_inv [where I = "\<lambda>s. shrinks db (fst s)"]) (auto intro: shrinks_trans one)
qed

lemma visible_row_simps [simp]:
  "hidden r (r\<lparr>mr_embedding_claimed_at := x, mr_embedding_claim_token := y\<rparr>)"
  "hidden r (r\<lparr>m_has_embedding := b, mr_embedding_claimed_at := x, mr_embedding_claim_token := y\<rparr>)"
  "hidden r (r\<lparr>m_impression_count := n, m_last_impressed_at := x\<rparr>)"
  "hidden r (r\<lparr>m_activity_mass := f, m_last_used_at := x\<rparr>)"
  by (simp_all add: hidden_def visible_row_def)

text \<open>\<open>quiet\<close>: an operation whose changes no reader sees.\<close>

definition quiet :: "memory_db \<Rightarrow> memory_db \<Rightarrow> bool" where
  "quiet db db' \<longleftrightarrow> list_all2 hidden (rows db) (rows db') \<and> d_entities db' = d_entities db \<and>
     t_metadata (d_ctx db') = t_metadata (d_ctx db) \<and> t_memory_contexts (d_ctx db') = t_memory_contexts (d_ctx db)"

lemma quiet_tracks: "quiet db db' \<Longrightarrow> tracks db db' \<and> row_ids db' = row_ids db"
  unfolding quiet_def using hidden_tracks [of db db'] by blast

lemma quiet_refl [simp]: "quiet db db"
  by (simp add: quiet_def list_all2_refl)

lemma quiet_trans: "quiet a b \<Longrightarrow> quiet b c \<Longrightarrow> quiet a c"
  unfolding quiet_def by (auto intro: list_all2_trans [OF hidden_trans])

lemma quiet_set_rows: "(\<And>r. hidden r (f r)) \<Longrightarrow> quiet db (set_rows (map f (rows db)) db)"
  by (simp add: quiet_def list_all2_map2 list_all2_refl)

lemma quiet_update_row: "(\<And>r. hidden r (f r)) \<Longrightarrow> quiet db (update_row i f db)"
  unfolding update_row_def by (rule quiet_set_rows) simp

lemma quiet_vectors: "quiet a b \<Longrightarrow> quiet a (b\<lparr>d_vectors := v\<rparr>)" "quiet a b \<Longrightarrow> quiet a (b\<lparr>d_profile := pr\<rparr>)"
  by (simp_all add: quiet_def)

lemma quiet_operations:
  "claim_for_reembed_with_scope st who limit now token db = Inr (db', cs) \<Longrightarrow> quiet db db'"
  "release_embedding_claim i n token db = Inr (db', b) \<Longrightarrow> quiet db db'"
  "reindex_embeddings profile db = Inr (db', u) \<Longrightarrow> quiet db db'"
  by (auto simp: claim_for_reembed_with_scope_def claim_for_reembed_conn_def release_embedding_claim_def
      reindex_embeddings_def Let_def intro!: quiet_set_rows quiet_vectors split: if_splits)

lemma set_embedding_quiet: "set_embedding st i e n db = Inr (db', u) \<Longrightarrow> quiet db db'"
  by (auto simp: set_embedding_def upsert_vector_def intro!: quiet_trans [OF quiet_vectors(1) quiet_set_rows]
      split: if_splits option.splits)

lemma record_search_impression_quiet: "quiet db (record_search_impression ids now db)"
  unfolding record_search_impression_def
  by (rule foldl_inv [where I = "quiet db"]) (auto elim!: quiet_trans intro!: quiet_update_row)

lemma record_memory_use_quiet: "quiet db (fst (record_memory_use fa ids p w now hl db))"
proof -
  have one: "quiet d (fst (update_single_memory_use fa i p now w hl d))" for d i
    by (auto simp: update_single_memory_use_def Let_def intro!: quiet_update_row split: option.splits)
  show ?thesis unfolding record_memory_use_def
    by (rule foldl_inv [where I = "\<lambda>s. quiet db (fst s)"]) (auto simp: split_def Let_def intro: quiet_trans one)
qed

end
