(* ===== verification/Memory_Coherence.thy ===== *)
theory Memory_Coherence
  imports Memory_Revisions
begin

text \<open>
  Every operation of the SQLite memory store keeps the invariant \<open>store_ok\<close>: first the writers of each
  table, then the operations built from them. The vector index enters only through its interface \<open>vec\<close>.
\<close>

section \<open>The invariant is kept\<close>

lemma store_ok_ids: "store_ok st db \<Longrightarrow> distinct (row_ids db)"
  by (simp add: store_ok_def tables_ok_def)

lemma store_ok_frame [simp]:
  "store_ok st (insert_audit_draft i a db) = store_ok st db"
  "store_ok st (insert_optional_audit_draft i oa db) = store_ok st db"
  by (rule store_ok_shape; simp)+

lemma shape_rows: "(\<And>r. r \<in> set (rows db) \<Longrightarrow> row_shape (f r) = row_shape r) \<Longrightarrow> shape (set_rows (map f (rows db)) db) = shape db"
  by (simp add: shape_def)

lemma shape_update_row: "(\<And>r. row_shape (f r) = row_shape r) \<Longrightarrow> shape (update_row i f db) = shape db"
  unfolding update_row_def by (rule shape_rows) simp

lemma row_shape_bump [simp]: "row_shape (bump r) = row_shape r"
  by (simp add: row_shape_def bump_def unclaimed_def)

lemma row_shape_superseded [simp]: "row_shape (r\<lparr>m_superseded_by := x\<rparr>) = row_shape r"
  by (simp add: row_shape_def unclaimed_def)

text \<open>The parts of the invariant that each writer of a table keeps.\<close>

lemma tables_ok_frame:
  assumes "tables_ok db" "row_ids db' = row_ids db" "d_entities db' = d_entities db" "d_tombstones db' = d_tombstones db"
    "map md_memory_id (t_metadata (d_ctx db')) = map md_memory_id (t_metadata (d_ctx db))"
    "mc_memory_id ` set (t_memory_contexts (d_ctx db')) \<subseteq> set (row_ids db)"
  shows "tables_ok db'"
  using assms by (simp add: tables_ok_def del: map_eq_conv) (metis list.set_map)

lemma vectors_ok_frame:
  assumes "map row_shape (rows db') = map row_shape (rows db)" "d_vectors db' = d_vectors db"
  shows "vectors_ok st db' = vectors_ok st db"
  using assms by (simp add: vectors_ok_shape shape_def del: map_eq_conv)

lemma store_ok_upsert_metadata:
  assumes "store_ok st db" "upsert_metadata_conn md now db = Inr db'"
  shows "store_ok st db'"
proof -
  note m = upsert_metadata_Inr [OF assms(2)]
  from m(2) obtain t where t: "db' = db\<lparr>d_ctx := (d_ctx db)\<lparr>t_metadata := t\<rparr>\<rparr>"
    "(if mm_memory_id md \<in> md_memory_id ` set (t_metadata (d_ctx db)) then map md_memory_id t = map md_memory_id (t_metadata (d_ctx db))
       else map md_memory_id t = map md_memory_id (t_metadata (d_ctx db)) @ [mm_memory_id md])" by blast
  have ids: "row_ids db' = row_ids db" by (simp add: t(1) row_ids_def) (simp add: rows_def)
  have "distinct (map md_memory_id t) \<and> set (map md_memory_id t) \<subseteq> set (row_ids db)"
    using t(2) m(1) assms(1) by (auto simp: store_ok_def tables_ok_def simp del: set_map split: if_splits) (auto)
  then have "tables_ok db'" using assms(1) ids by (simp add: store_ok_def tables_ok_def t(1))
  moreover have "vectors_ok st db' = vectors_ok st db" by (rule vectors_ok_frame) (simp_all add: t(1) rows_def)
  ultimately show ?thesis using assms(1) by (simp add: store_ok_def)
qed

lemma store_ok_set_scope:
  assumes "store_ok st db" "i \<in> set (row_ids db)" "\<And>x. row_shape (b x) = row_shape x"
  shows "store_ok st (db\<lparr>d_ctx := set_scope i key now b (insert_context_audit a None (Some i) now
    ((d_ctx db)\<lparr>t_memory_contexts := filter (\<lambda>r. mc_memory_id r \<noteq> i) (t_memory_contexts (d_ctx db)) @ membership_rows i ids now\<rparr>))\<rparr>)"
    (is "store_ok st ?db'")
proof -
  have shape: "row_shape (b (x\<lparr>m_provenance := pr\<rparr>)) = row_shape x" for x pr
    unfolding assms(3) by (simp add: row_shape_def unclaimed_def)
  have rows: "map row_shape (rows ?db') = map row_shape (rows db)"
    by (simp add: set_scope_rows shape comp_def rows_def if_distrib cong: map_cong if_cong)
  then have ids: "row_ids ?db' = row_ids db" by (simp only: row_ids_shape)
  have "tables_ok ?db'"
    by (rule tables_ok_frame [of db])
      (use assms(1,2) ids in \<open>auto simp: store_ok_def tables_ok_def set_scope_rows dest: membership_rows_memory\<close>)
  moreover have "vectors_ok st ?db' = vectors_ok st db" by (rule vectors_ok_frame [OF rows]) simp
  ultimately show ?thesis using assms(1) by (simp add: store_ok_def)
qed

lemma store_ok_replace_contexts:
  assumes "with_ctx (replace_memory_contexts_tx i ids p scope a now) db = Inr db'" "store_ok st db" "i \<in> set (row_ids db)"
  shows "store_ok st db'"
  using assms store_ok_set_scope [OF assms(2,3), of "\<lambda>x. x"]
  by (auto simp: with_ctx_def dest!: replace_memory_contexts_tx_Inr)

lemma store_ok_initial_contexts:
  assumes "with_ctx (insert_initial_memory_contexts i ids p scope a now) db = Inr db'" "store_ok st db" "i \<in> set (row_ids db)"
  shows "store_ok st db'"
proof -
  from assms(1) have db': "db' = db\<lparr>d_ctx := insert_context_audit a None (Some i) now
      ((d_ctx db)\<lparr>t_memory_contexts := t_memory_contexts (d_ctx db) @ membership_rows i ids now\<rparr>)\<rparr>"
    by (auto simp: with_ctx_def insert_initial_memory_contexts_def dest!: insert_memory_contexts_Inr)
  have rows: "rows db' = rows db" by (simp add: db' rows_def)
  have "tables_ok db'"
    by (rule tables_ok_frame [of db])
      (use assms(2,3) rows in \<open>auto simp: store_ok_def tables_ok_def db' row_ids_def dest: membership_rows_memory\<close>)
  moreover have "vectors_ok st db' = vectors_ok st db" by (rule vectors_ok_frame) (simp_all add: rows, simp add: db')
  ultimately show ?thesis using assms(2) by (simp add: store_ok_def)
qed

lemma set_add_entities: "set (add_entities i es t) = set t \<union> Pair i ` set es"
  by (induction es arbitrary: t) auto

lemma distinct_add_entities: "distinct t \<Longrightarrow> distinct (add_entities i es t)"
  by (induction es arbitrary: t) auto

lemma vectors_ok_coherent:
  "vectors_ok st db \<longleftrightarrow> embedding_index.coherent (vec_view (ss_le st) (ss_dimensions st)) (vec_ok (ss_rowid st) (ss_dimensions st))
     (embedded db) (d_vectors db) \<and> list_all (\<lambda>r. m_has_embedding r \<longrightarrow> unclaimed r) (rows db)"
  by (simp add: vectors_ok_def vec.coherent_def)

lemma embedded_append: "embedded (set_rows (rows db @ [r]) db) = (if m_has_embedding r then insert (m_id r) (embedded db) else embedded db)"
  by (auto simp: embedded_def)

lemma store_ok_insert_prepared:
  assumes "insert_prepared st m e db = Inr db'" "store_ok st db"
  shows "store_ok st db'"
proof -
  note i = insert_prepared_Inr [OF assms(1)]
  from i(2) obtain v where v: "db' = (set_rows (rows db @ [prepared_row m e]) db)\<lparr>d_vectors := v, d_entities := add_entities (m_id m) (m_entities m) (d_entities db)\<rparr>"
    "case e of None \<Rightarrow> v = d_vectors db
     | Some x \<Rightarrow> vec_upsert (ss_rowid st) (ss_le st) (ss_dimensions st) (row_ids db @ [m_id m]) (m_id m) x (d_vectors db) = Inr v" by blast
  have ids: "row_ids db' = row_ids db @ [m_id m]" by (simp add: v(1) row_ids_def)
  have "tables_ok db'"
    using assms(2) i(1) by (auto simp: store_ok_def tables_ok_def ids) (auto simp: v(1) set_add_entities distinct_add_entities)
  moreover have "embedded db' = (if e = None then embedded db else insert (m_id m) (embedded db))"
    using embedded_append [of db "prepared_row m e"] by (simp add: v(1) embedded_def)
  then have "vectors_ok st db'"
    using v(2) assms(2) vec.coherent_upsert [of "ss_le st" "ss_dimensions st" "ss_rowid st"]
    by (cases e) (auto simp: store_ok_def vectors_ok_coherent v(1))
  ultimately show ?thesis by (simp add: store_ok_def)
qed

lemma embedded_iff: "j \<in> embedded db \<longleftrightarrow> (\<exists>r \<in> set (rows db). m_id r = j \<and> m_has_embedding r)"
  by (auto simp: embedded_def)

text \<open>Writing a vector and the flag of its memory together.\<close>

lemma vectors_ok_flag:
  assumes "vectors_ok st db" "vec_upsert (ss_rowid st) (ss_le st) (ss_dimensions st) (row_ids db) i e (d_vectors db) = Inr v"
    "distinct (row_ids db)" "\<And>r. m_id (f r) = m_id r \<and> m_has_embedding (f r)"
    "\<And>r. r \<in> set (rows db) \<Longrightarrow> m_id r = i \<Longrightarrow> unclaimed (f r)"
    "rows db' = map (\<lambda>r. if m_id r = i then f r else r) (rows db)" "d_vectors db' = v"
  shows "vectors_ok st db'"
proof -
  have "i \<in> set (row_ids db)" using assms(1,2) vec.upsert_mem by (auto simp: vectors_ok_def)
  then obtain r0 where r0: "r0 \<in> set (rows db)" "m_id r0 = i" by (auto simp: row_ids_def)
  have "embedded db' = insert i (embedded db)"
  proof (intro set_eqI iffI)
    fix j
    assume "j \<in> embedded db'"
    then show "j \<in> insert i (embedded db)" using assms(4) by (auto simp: embedded_iff assms(6) split: if_splits)
  next
    fix j
    assume "j \<in> insert i (embedded db)"
    then obtain r where "r \<in> set (rows db)" "m_id r = j" "j = i \<or> m_has_embedding r" using r0 by (auto simp: embedded_iff)
    moreover from this have "(if m_id r = i then f r else r) \<in> set (rows db')" unfolding assms(6) set_map by (intro imageI)
    ultimately show "j \<in> embedded db'" using assms(4) [of r] by (auto simp: embedded_iff split: if_splits)
  qed
  then show ?thesis
    using vec.coherent_upsert [OF _ assms(2), of "embedded db"] assms(1,4-)
    by (auto simp: vectors_ok_coherent list_all_iff)
qed

lemma set_clause_shape: "u_content u = None \<Longrightarrow> row_shape (set_clause u now r) = row_shape r"
  by (simp add: row_shape_def set_clause_def assign_def bump_def unclaimed_def split: option.splits)

lemma set_clause_content:
  "u_content u \<noteq> None \<Longrightarrow> m_id (set_clause u now r) = m_id r \<and> \<not> m_has_embedding (set_clause u now r) \<and> unclaimed (set_clause u now r)"
  by (auto simp: set_clause_def assign_def bump_def unclaimed_def split: option.splits)

lemma store_ok_content:
  assumes "store_ok st db" "u_content u \<noteq> None"
  shows "store_ok st ((update_row i (set_clause u now) db)\<lparr>d_vectors := vec_delete i (d_vectors db)\<rparr>)" (is "store_ok st ?db'")
proof -
  note sc = set_clause_content [OF assms(2), of now]
  have ids: "row_ids ?db' = row_ids db" using sc by (simp add: row_ids_def)
  then have "tables_ok ?db'" using assms(1) by (simp add: store_ok_def tables_ok_def)
  moreover have "embedded ?db' = embedded db - {i}" using sc by (auto simp: embedded_def image_iff split: if_splits)
  then have "vectors_ok st ?db'"
    using assms(1) vec.coherent_remove [of "ss_le st" "ss_dimensions st" "ss_rowid st" "embedded db" "d_vectors db" i] sc
    by (auto simp: store_ok_def vectors_ok_coherent list_all_iff)
  ultimately show ?thesis by (simp add: store_ok_def)
qed

lemma store_ok_replace_entities:
  assumes "replace_entities i es db = Inr db'" "store_ok st db" "i \<in> set (row_ids db)"
  shows "store_ok st db'"
proof -
  note db' = replace_entities_Inr [OF assms(1)]
  have "rows db' = rows db" by (simp add: db')
  then have "vectors_ok st db' = vectors_ok st db" by (intro vectors_ok_frame) (simp_all add: db')
  moreover have "row_ids db' = row_ids db" by (simp add: db' row_ids_def)
  then have "tables_ok db'"
    using assms(2,3) by (auto simp: store_ok_def tables_ok_def db' set_add_entities distinct_add_entities)
  ultimately show ?thesis using assms(2) by (simp add: store_ok_def)
qed

lemma store_ok_apply_update_inner:
  assumes "apply_update_inner i u now db = Inr (db', out)" "store_ok st db"
  shows "store_ok st db'"
proof (cases "i \<in> set (row_ids db)")
  case False
  then show ?thesis using assms by (simp add: apply_update_inner_def)
next
  case True
  define db1 where "db1 = (if has_column_updates u then update_row i (set_clause u now) db
                   else if u_entities u \<noteq> None then update_row i bump db else db)"
  define db2 where "db2 = (if u_content u \<noteq> None then db1\<lparr>d_vectors := vec_delete i (d_vectors db1)\<rparr> else db1)"
  have ok: "store_ok st db2"
  proof (cases "u_content u = None")
    case True
    then have "shape db2 = shape db"
      by (auto simp: db2_def db1_def intro!: shape_update_row set_clause_shape)
    then show ?thesis using assms(2) store_ok_shape [of db2 db st] by simp
  next
    case False
    then have "has_column_updates u" by (simp add: has_column_updates_def)
    then show ?thesis using store_ok_content [OF assms(2) False, of i now] False by (simp add: db2_def db1_def)
  qed
  have ids: "row_ids db2 = row_ids db"
    using changes_ids [of i db db1] by (simp add: db2_def db1_def row_ids_def comp_def changes_update_row row_advances_set_clause)
  have "(case u_entities u of None \<Rightarrow> Inr db2 | Some entities \<Rightarrow> replace_entities i entities db2) = Inr db'"
    using assms(1) True
    by (cases "u_entities u") (auto simp: apply_update_inner_def Let_def db1_def [symmetric] db2_def split: if_split_asm)
  then show ?thesis using ok True ids by (auto intro: store_ok_replace_entities split: option.splits)
qed

lemma row_of_id: "store_ok st db \<Longrightarrow> r \<in> set (rows db) \<Longrightarrow> find_row db (m_id r) = Some r"
  using distinct_row [OF store_ok_ids, of st db "m_id r" _ r] find_row_None [of db "m_id r"]
  by (cases "find_row db (m_id r)") (auto simp: row_ids_def)

lemma store_ok_flag:
  assumes "store_ok st db" "vec_upsert (ss_rowid st) (ss_le st) (ss_dimensions st) (row_ids db) i x (d_vectors db) = Inr v"
    "\<And>r. m_id (f r) = m_id r \<and> m_has_embedding (f r)" "\<And>r. find_row db i = Some r \<Longrightarrow> unclaimed (f r)"
  shows "store_ok st (update_row i f (db\<lparr>d_vectors := v\<rparr>))" (is "store_ok st ?db'")
proof -
  have "row_ids ?db' = row_ids db" using assms(3) by (simp add: row_ids_def)
  then have "tables_ok ?db'" using assms(1) by (simp add: store_ok_def tables_ok_def)
  moreover have "vectors_ok st ?db'"
  proof (rule vectors_ok_flag [OF _ assms(2) store_ok_ids [OF assms(1)] assms(3)])
    show "vectors_ok st db" using assms(1) by (simp add: store_ok_def)
    show "unclaimed (f r)" if "r \<in> set (rows db)" "m_id r = i" for r
      using assms(4) [of r] row_of_id [OF assms(1) that(1)] that(2) by simp
  qed simp_all
  ultimately show ?thesis by (simp add: store_ok_def)
qed

lemma store_ok_save_embedding:
  assumes "save_embedding st i e out db = Inr (db', out')" "store_ok st db"
    "\<And>r. e \<noteq> None \<Longrightarrow> find_row db i = Some r \<Longrightarrow> unclaimed r"
  shows "store_ok st db'"
proof (cases e)
  case (Some x)
  with assms(1) obtain v where v: "vec_upsert (ss_rowid st) (ss_le st) (ss_dimensions st) (row_ids db) i x (d_vectors db) = Inr v"
    "db' = update_row i (\<lambda>r. r\<lparr>m_has_embedding := True\<rparr>) (db\<lparr>d_vectors := v\<rparr>)"
    by (auto simp: save_embedding_def upsert_vector_def split: option.splits if_splits)
  show ?thesis unfolding v(2)
    by (rule store_ok_flag [OF assms(2) v(1)]) (use assms(3) Some in \<open>auto simp: unclaimed_def\<close>)
qed (use assms in simp)

lemma set_embedding_Inr:
  assumes "set_embedding st i e n db = Inr (db', u)" "distinct (row_ids db)"
  shows "\<exists>r v. find_row db i = Some r \<and> mr_embedding_revision r = n \<and>
    vec_upsert (ss_rowid st) (ss_le st) (ss_dimensions st) (row_ids db) i e (d_vectors db) = Inr v \<and>
    db' = update_row i (\<lambda>r. r\<lparr>m_has_embedding := True, mr_embedding_claimed_at := None, mr_embedding_claim_token := None\<rparr>)
      (db\<lparr>d_vectors := v\<rparr>)"
proof -
  let ?f = "\<lambda>r. r\<lparr>m_has_embedding := True, mr_embedding_claimed_at := None, mr_embedding_claim_token := None\<rparr>"
  from assms(1) obtain r v where r: "find_row db i = Some r" "mr_embedding_revision r = n"
    and v: "vec_upsert (ss_rowid st) (ss_le st) (ss_dimensions st) (row_ids db) i e (d_vectors db) = Inr v"
    and db': "db' = set_rows (map (\<lambda>r. if m_id r = i \<and> mr_embedding_revision r = n then ?f r else r) (rows db)) (db\<lparr>d_vectors := v\<rparr>)"
    by (auto simp: set_embedding_def upsert_vector_def split: option.splits if_splits)
  have "map (\<lambda>r. if m_id r = i \<and> mr_embedding_revision r = n then ?f r else r) (rows db) = map (\<lambda>r. if m_id r = i then ?f r else r) (rows db)"
    by (intro map_cong) (use distinct_row [OF assms(2) r(1)] r(2) in auto)
  then have "db' = update_row i ?f (db\<lparr>d_vectors := v\<rparr>)" by (simp only: db' update_row_def rows_updates)
  then show ?thesis using r v by blast
qed

lemma store_ok_set_embedding:
  assumes "set_embedding st i e n db = Inr (db', u)" "store_ok st db"
  shows "store_ok st db'"
  using set_embedding_Inr [OF assms(1) store_ok_ids [OF assms(2)]] store_ok_flag [OF assms(2)]
  by (auto simp: unclaimed_def)

lemma store_ok_tombstone: "store_ok st db \<Longrightarrow> store_ok st (upsert_tombstone t db)"
proof -
  assume ok: "store_ok st db"
  have "distinct (map t_memory_id (d_tombstones (upsert_tombstone t db)))"
  proof (cases "t_memory_id t \<in> t_memory_id ` set (d_tombstones db)")
    case True
    have "map t_memory_id (map (\<lambda>x. if t_memory_id x = t_memory_id t then t else x) ts) = map t_memory_id ts" for ts by (induction ts) auto
    then show ?thesis using ok True by (simp add: upsert_tombstone_def store_ok_def tables_ok_def del: map_map)
  next
    case False
    then show ?thesis using ok by (simp add: upsert_tombstone_def store_ok_def tables_ok_def)
  qed
  moreover have "vectors_ok st (upsert_tombstone t db) = vectors_ok st db" by (rule vectors_ok_frame) simp_all
  ultimately show ?thesis using ok by (simp add: store_ok_def tables_ok_def)
qed

lemma row_shape_clear [simp]: "row_shape (clear_superseded_by i r) = row_shape r"
  by (simp add: clear_superseded_by_def)

lemma clear_superseded_flag [simp]: "m_has_embedding (clear_superseded_by i r) = m_has_embedding r"
  by (simp add: clear_superseded_by_def bump_def)

lemma store_ok_delete:
  assumes "store_ok st db"
  shows "store_ok st (delete_row i db)"
proof (cases "i \<in> set (row_ids db)")
  case True
  have rows: "rows (delete_row i db) = map (clear_superseded_by i) (filter (\<lambda>r. m_id r \<noteq> i) (rows db))"
    and v: "d_vectors (delete_row i db) = vec_delete i (d_vectors db)" using True by (simp_all add: delete_row_def)
  have t: "d_entities (delete_row i db) = filter (\<lambda>(m, _). m \<noteq> i) (d_entities db)" "d_tombstones (delete_row i db) = d_tombstones db"
    "t_metadata (d_ctx (delete_row i db)) = filter (\<lambda>r. md_memory_id r \<noteq> i) (t_metadata (d_ctx db))"
    "t_memory_contexts (d_ctx (delete_row i db)) = filter (\<lambda>r. mc_memory_id r \<noteq> i) (t_memory_contexts (d_ctx db))"
    using True by (simp_all add: delete_row_def)
  have "tables_ok (delete_row i db)"
    using assms by (auto simp: store_ok_def tables_ok_def delete_row_effect(3) t distinct_map_filter)
  moreover have "embedded (delete_row i db) = embedded db - {i}"
  proof (intro set_eqI iffI)
    fix j
    assume "j \<in> embedded db - {i}"
    then obtain r where r: "r \<in> set (rows db)" "m_id r = j" "m_has_embedding r" "j \<noteq> i" by (auto simp: embedded_iff)
    then have "clear_superseded_by i r \<in> set (rows (delete_row i db))" unfolding rows by simp
    with r show "j \<in> embedded (delete_row i db)" unfolding embedded_iff by (intro bexI) auto
  qed (auto simp: embedded_iff rows)
  then have "vectors_ok st (delete_row i db)"
    using assms vec.coherent_remove [of "ss_le st" "ss_dimensions st" "ss_rowid st" "embedded db" "d_vectors db" i]
    by (auto simp: store_ok_def vectors_ok_coherent v list_all_iff rows clear_superseded_by_def bump_def unclaimed_def)
  ultimately show ?thesis by (simp add: store_ok_def)
qed (use assms in \<open>simp add: delete_row_def\<close>)

lemma store_ok_bury: "store_ok st db \<Longrightarrow> store_ok st (delete_row i (upsert_tombstone t db))"
  by (blast intro: store_ok_delete store_ok_tombstone)

lemma store_ok_reindex:
  assumes "reindex_embeddings profile db = Inr (db', u)" "store_ok st db"
  shows "store_ok st db'"
proof -
  from assms(1) obtain pr where db': "db' = (set_rows (map (\<lambda>r. r\<lparr>m_has_embedding := False, mr_embedding_claimed_at := None,
               mr_embedding_claim_token := None\<rparr>) (rows db)) db)\<lparr>d_vectors := vec_empty, d_profile := pr\<rparr>"
    by (auto simp: reindex_embeddings_def)
  have "row_ids db' = row_ids db" by (simp add: db' row_ids_def)
  then have "tables_ok db'" using assms(2) by (simp add: store_ok_def tables_ok_def) (simp add: db')
  moreover have "embedded db' = {}" by (auto simp: db' embedded_def)
  then have "vectors_ok st db'"
    using assms(2) vec.coherent_empty [of "ss_le st" "ss_dimensions st" "ss_rowid st" "embedded db" "d_vectors db"]
    by (simp add: store_ok_def vectors_ok_coherent) (simp add: db' list_all_iff)
  ultimately show ?thesis by (simp add: store_ok_def)
qed

lemma store_ok_claim:
  "claim_for_reembed_with_scope st' who limit now token db = Inr (db', cs) \<Longrightarrow> store_ok st db' = store_ok st db"
  "release_embedding_claim i n token db = Inr (db', b) \<Longrightarrow> store_ok st db' = store_ok st db"
  by (auto simp: claim_for_reembed_with_scope_def claim_for_reembed_conn_def release_embedding_claim_def claims_row_def
      claim_free_def row_shape_def Let_def intro!: store_ok_shape shape_rows split: if_splits)

text \<open>The operations, from their building blocks.\<close>

lemma store_ok_mark_superseded:
  assumes "mark_superseded i j db = Inr (db', b)" "store_ok st db"
  shows "store_ok st db'"
proof (cases b)
  case True
  then have "shape db' = shape db"
    using mark_superseded_effect(3) [OF assms(1) store_ok_ids [OF assms(2)]] by (auto intro!: shape_update_row)
  then show ?thesis using assms(2) store_ok_shape [of db' db st] by simp
next
  case False
  then have "db' = db" using assms(1) by (auto simp: mark_superseded_def split: option.splits if_splits)
  then show ?thesis using assms(2) by simp
qed

lemma store_ok_bump [simp]: "store_ok st (update_row i bump db) = store_ok st db"
  by (intro store_ok_shape shape_update_row) simp

lemma store_ok_increment: "increment_record_revision_conn i db = Inr db' \<Longrightarrow> store_ok st db \<Longrightarrow> store_ok st db'"
  by (auto simp: increment_record_revision_conn_def split: if_splits)

lemma store_ok_metadata_patch: "apply_metadata_patch lc i patch ex p t db = Inr db' \<Longrightarrow> store_ok st db \<Longrightarrow> store_ok st db'"
  by (auto simp: apply_metadata_patch_def intro: store_ok_upsert_metadata split: option.splits)

lemma store_ok_supersession:
  assumes "insert_prepared_with_optional_supersession_and_audit st m e old audit db = Inr (db', i)" "store_ok st db"
  shows "store_ok st db'"
  using assms
  by (auto simp: insert_prepared_with_optional_supersession_and_audit_def split: option.splits
      dest!: store_ok_insert_prepared dest: store_ok_mark_superseded)

lemma store_ok_stores:
  "store_audited st m e oa db = Inr (db', i) \<Longrightarrow> store_ok st db \<Longrightarrow> store_ok st db'"
  "store_with_supersession_audited st m e sid oa db = Inr (db', i) \<Longrightarrow> store_ok st db \<Longrightarrow> store_ok st db'"
  "store_with_metadata_audited st m e old md oa now db = Inr (db', i) \<Longrightarrow> store_ok st db \<Longrightarrow> store_ok st db'"
  unfolding store_with_supersession_eq
  by (auto simp: store_audited_def store_with_metadata_audited_def
      intro: store_ok_insert_prepared store_ok_supersession store_ok_upsert_metadata)

lemma store_ok_governed:
  assumes "store_governed st m e old md ids p audit ca now db = Inr (db', i)" "store_ok st db"
  shows "store_ok st db'"
proof -
  from assms(1) obtain db1 db2 where s: "insert_prepared_with_optional_supersession_and_audit st m e old (Some audit) db = Inr (db1, i)"
    "upsert_metadata_conn md now db1 = Inr db2"
    "with_ctx (insert_initial_memory_contexts i ids p (compatibility_scope_of md) ca now) db2 = Inr db'"
    by (auto simp: store_governed_def)
  have "row_ids db2 = row_ids db1" using changes_ids [OF changes_upsert_metadata [OF s(2) refl]] .
  moreover have "i \<in> set (row_ids db1)"
    using insert_prepared_supersession_adds [OF s(1) store_ok_ids [OF assms(2)]] by (auto simp: adds_def)
  moreover have "store_ok st db2" by (rule store_ok_upsert_metadata [OF store_ok_supersession [OF s(1) assms(2)] s(2)])
  ultimately show ?thesis using store_ok_initial_contexts [OF s(3)] by simp
qed

lemma store_ok_batches:
  assumes "store_ok st db"
  shows "store_batch_audited st ms oas db = Inr (db', js) \<Longrightarrow> store_ok st db'"
    "store_batch_with_supersession_audited st ms olds oas db = Inr (db', js) \<Longrightarrow> store_ok st db'"
    "store_batch_with_metadata_audited st ms olds mds oas now db = Inr (db', js) \<Longrightarrow> store_ok st db'"
    "store_batch_with_metadata_contexts_audited st ms olds mds idss as cas now db = Inr (db', js) \<Longrightarrow> store_ok st db'"
proof -
  show "store_batch_audited st ms oas db = Inr (db', js) \<Longrightarrow> store_ok st db'"
    "store_batch_with_supersession_audited st ms olds oas db = Inr (db', js) \<Longrightarrow> store_ok st db'"
    "store_batch_with_metadata_contexts_audited st ms olds mds idss as cas now db = Inr (db', js) \<Longrightarrow> store_ok st db'"
    by (auto simp: store_batch_audited_def store_batch_with_supersession_audited_def assms
        store_batch_with_metadata_contexts_audited_def Let_def split: if_splits
        elim!: batch_tx_inv [where I = "store_ok st"] intro: store_ok_stores(1) store_ok_supersession store_ok_governed)
  show "store_batch_with_metadata_audited st ms olds mds oas now db = Inr (db', js) \<Longrightarrow> store_ok st db'"
    by (auto simp: store_batch_with_metadata_audited_def assms split: if_splits
        elim!: batch_tx_inv [where I = "store_ok st"] intro: store_ok_upsert_metadata [OF store_ok_supersession])
qed

lemma store_ok_update_metadata:
  assumes "apply_authorized_update_with_metadata lc st' i u patch p now oa db = Inr (db', out)" "store_ok st db"
  shows "store_ok st db'"
  using assms
  by (auto simp: apply_authorized_update_with_metadata_def Let_def dest!: store_ok_apply_update_inner
      store_ok_metadata_patch store_ok_increment split: if_splits option.splits)

lemma store_ok_updates:
  assumes "store_ok st db"
  shows "apply_update st' i u now db = Inr (db', out) \<Longrightarrow> store_ok st db'"
    "update_authorized_audited st' i u p oa now db = Inr (db', out) \<Longrightarrow> store_ok st db'"
    "bulk_update_one st' u p now oa (db, c) i = Inr (db', c') \<Longrightarrow> store_ok st db'"
    "upsert_metadata_audited md oa now db = Inr (db', v) \<Longrightarrow> store_ok st db'"
proof -
  show "apply_update st' i u now db = Inr (db', out) \<Longrightarrow> store_ok st db'"
    "update_authorized_audited st' i u p oa now db = Inr (db', out) \<Longrightarrow> store_ok st db'"
    "bulk_update_one st' u p now oa (db, c) i = Inr (db', c') \<Longrightarrow> store_ok st db'"
    using assms by (auto simp: apply_update_def update_authorized_audited_def bulk_update_one_def
        dest: store_ok_apply_update_inner split: if_splits option.splits)
  show "upsert_metadata_audited md oa now db = Inr (db', v) \<Longrightarrow> store_ok st db'"
    using assms
    by (auto simp: upsert_metadata_audited_def Let_def intro: store_ok_upsert_metadata split: if_splits option.splits)
qed

lemma present_after: "changes i db db' \<Longrightarrow> fetch_memory_by_id db i = Some ex \<Longrightarrow> i \<in> set (row_ids db')"
  using fetch_mem [of db i ex] changes_ids [of i db db'] by simp

lemma store_ok_update_contexts:
  assumes "apply_authorized_update_with_metadata_contexts lc st' i u patch ids p now audit ca db = Inr (db', out)" "store_ok st db"
  shows "store_ok st db'"
proof (cases "\<exists>ex. fetch_memory_by_id db i = Some ex \<and> has_write_access ex p")
  case False
  then have "db' = db" using assms(1)
    by (auto simp: apply_authorized_update_with_metadata_contexts_def split: option.splits if_splits)
  then show ?thesis using assms(2) by simp
next
  case True
  then obtain ex where ex: "fetch_memory_by_id db i = Some ex" "has_write_access ex p" by auto
  let ?t = "next_memory_revision (ss_checked_add st') now (m_updated_at ex)"
  from assms(1) ex obtain db1 where u: "apply_update_inner i u ?t db = Inr (db1, out)"
    by (auto simp: apply_authorized_update_with_metadata_contexts_def Let_def split: if_splits)
  have "auo_outcome out = Applied" using apply_update_inner_effect(4) [OF u] fetch_mem [OF ex(1)] by simp
  with assms ex u obtain db2 db3 db4 a where md: "apply_metadata_patch lc i patch ex p ?t db1 = Inr db2"
    and inc: "(if patch \<noteq> None \<and> \<not> has_column_updates u \<and> u_entities u = None then increment_record_revision_conn i db2 else Inr db2) = Inr db3"
    and m: "replace_memberships i u patch ids ca p ?t db3 = Inr db4" and db': "db' = insert_audit_draft (m_id ex) a db4"
    by (cases ids; cases ca) (auto simp: apply_authorized_update_with_metadata_contexts_def Let_def)
  have "store_ok st db3" using store_ok_metadata_patch [OF md store_ok_apply_update_inner [OF u assms(2)]] inc
    by (auto dest: store_ok_increment split: if_splits)
  moreover have "changes i db db3"
    using apply_update_inner_effect(1) [OF u] apply_metadata_patch_changes [OF md] inc increment_effect(1) [of i db2 db3]
    by (auto intro: changes_trans split: if_splits)
  ultimately have "store_ok st db4"
    using m present_after [OF _ ex(1)]
    by (auto simp: replace_memberships_def intro: store_ok_replace_contexts split: option.splits if_splits)
  then show ?thesis by (simp add: db')
qed

lemma store_ok_save_memberships:
  assumes "save_memberships i ids ca p t db = Inr db'" "store_ok st db" "i \<in> set (row_ids db)"
  shows "store_ok st db'"
proof (cases ids)
  case (Some cs)
  with assms(1) obtain a scope md db1 where s: "upsert_metadata_conn md t db = Inr db1"
    "with_ctx (replace_memory_contexts_tx i cs p scope a t) db1 = Inr db'"
    by (auto simp: save_memberships_def Let_def split: option.splits)
  have "row_ids db1 = row_ids db" by (rule changes_ids [OF changes_upsert_metadata [OF s(1) refl]])
  then show ?thesis
    using store_ok_replace_contexts [OF s(2) store_ok_upsert_metadata [OF assms(2) s(1)]] assms(3) by simp
qed (use assms in \<open>auto simp: save_memberships_def\<close>)

text \<open>A replacement vector comes with new content, which has just dropped the claim.\<close>

lemma apply_update_inner_unclaimed:
  assumes "apply_update_inner i u t db = Inr (db1, out)" "u_content u \<noteq> None" "find_row db1 i = Some r"
  shows "unclaimed r"
proof -
  have "has_column_updates u" using assms(2) by (simp add: has_column_updates_def)
  with assms have "rows db1 = map (\<lambda>r. if m_id r = i then set_clause u t r else r) (rows db)"
    by (cases "u_entities u")
      (auto simp: apply_update_inner_def Let_def find_row_None [symmetric] dest!: replace_entities_Inr split: if_split_asm)
  then show ?thesis using find_row_mem [OF assms(3)] set_clause_content [OF assms(2), of t] by (auto split: if_splits)
qed

lemma store_ok_update_if_unmodified:
  assumes "apply_authorized_update_if_unmodified_with_metadata lc st i n u patch ids e p now audit ca db = Inr (db', out)" "store_ok st db"
  shows "store_ok st db'"
  using assms(1)
proof (cases rule: apply_authorized_update_if_unmodified_cases)
  case (2 ex t db1 out1 db2 db3 db4 db5 a)
  have "store_ok st db2"
    using store_ok_save_embedding [OF 2(6) store_ok_apply_update_inner [OF 2(5) assms(2)]] apply_update_inner_unclaimed [OF 2(5)] 2(4)
    by blast
  then have "store_ok st db4" using store_ok_metadata_patch [OF 2(7)] 2(8) by (auto dest: store_ok_increment split: if_splits)
  moreover have "changes i db db4"
    using apply_update_inner_effect(1) [OF 2(5)] save_embedding_changes [OF 2(6)] apply_metadata_patch_changes [OF 2(7)]
      2(8) increment_effect(1) [of i db3 db4]
    by (auto intro: changes_trans split: if_splits)
  ultimately have "store_ok st db5" using store_ok_save_memberships [OF 2(9)] present_after [OF _ 2(1)] by blast
  then show ?thesis by (simp add: 2(10))
qed (use assms(2) in simp)

lemma store_ok_bulk_update: "bulk_update_ids st' ids u p now oa db = Inr (db', out) \<Longrightarrow> store_ok st db \<Longrightarrow> store_ok st db'"
  unfolding bulk_update_ids_def by (erule bulk_tx_inv [where I = "store_ok st"]) (auto intro: store_ok_updates(3))

lemma store_ok_deletes:
  "apply_delete i t db = Inr (db', b) \<Longrightarrow> store_ok st db \<Longrightarrow> store_ok st db'"
  "apply_authorized_delete i p t oa db = Inr (db', out) \<Longrightarrow> store_ok st db \<Longrightarrow> store_ok st db'"
  "apply_authorized_delete_if_unmodified i n p t a db = Inr (db', out) \<Longrightarrow> store_ok st db \<Longrightarrow> store_ok st db'"
  "bulk_delete_one p t oa (db, c) i = Inr (db', c') \<Longrightarrow> store_ok st db \<Longrightarrow> store_ok st db'"
  using store_ok_bury [of st db i]
  by (auto simp: apply_delete_def apply_authorized_delete_def apply_authorized_delete_if_unmodified_def bulk_delete_one_def
      insert_tombstone_def Let_def split: option.splits if_splits)

lemma store_ok_bulk_delete: "bulk_delete_ids ids p t oa db = Inr (db', out) \<Longrightarrow> store_ok st db \<Longrightarrow> store_ok st db'"
  unfolding bulk_delete_ids_def by (erule bulk_tx_inv [where I = "store_ok st"]) (auto intro: store_ok_deletes(4))

lemma store_ok_evict: "evict_expired_conn now scope a db = (db', k) \<Longrightarrow> store_ok st db \<Longrightarrow> store_ok st db'"
proof -
  assume e: "evict_expired_conn now scope a db = (db', k)" and ok: "store_ok st db"
  have one: "store_ok st (fst s) \<Longrightarrow> store_ok st (fst (evict_one now scope a s r))" for s r
    using store_ok_bury [of st "fst s" "m_id r"] by (auto simp: evict_one_def Let_def split_def split: option.splits)
  have "store_ok st (fst (evict_expired_conn now scope a db))" unfolding evict_expired_conn_def
    by (rule foldl_inv [where I = "\<lambda>s. store_ok st (fst s)"]) (simp_all add: ok one)
  then show ?thesis by (simp add: e)
qed

lemma store_ok_supersedes:
  assumes "store_ok st db"
  shows "mark_superseded_by_authorized_audited i j p oa db = Inr (db', out) \<Longrightarrow> store_ok st db'"
    "mark_superseded_if_unchanged member representative p a db = Inr (db', out) \<Longrightarrow> store_ok st db'"
  using assms
  by (auto simp: mark_superseded_by_authorized_audited_def mark_superseded_if_unchanged_def
      dest!: store_ok_mark_superseded split: option.splits if_splits)

lemma store_ok_activity:
  assumes "store_ok st db"
  shows "store_ok st (record_search_impression ids now db)" "store_ok st (fst (record_memory_use fa ids p w now hl db))"
proof -
  have imp: "store_ok st (update_row i (\<lambda>r. r\<lparr>m_impression_count := m_impression_count r + 1, m_last_impressed_at := Some now\<rparr>) d)
      = store_ok st d" for i d
    by (intro store_ok_shape shape_update_row) (simp add: row_shape_def unclaimed_def)
  show "store_ok st (record_search_impression ids now db)" unfolding record_search_impression_def
    by (rule foldl_inv [where I = "store_ok st"]) (simp_all add: imp assms)
  have use: "store_ok st (update_row i (\<lambda>r. r\<lparr>m_activity_mass := x, m_last_used_at := Some now\<rparr>) d) = store_ok st d" for i d x
    by (intro store_ok_shape shape_update_row) (simp add: row_shape_def unclaimed_def)
  have one: "store_ok st d \<Longrightarrow> store_ok st (fst (update_single_memory_use fa i p now w hl d))" for d i
    by (simp add: update_single_memory_use_def Let_def use split: option.splits)
  show "store_ok st (fst (record_memory_use fa ids p w now hl db))" unfolding record_memory_use_def
    by (rule foldl_inv [where I = "\<lambda>s. store_ok st (fst s)"]) (auto simp: split_def Let_def assms one)
qed

end
