(* ===== verification/Memory_Safety.thy ===== *)
theory Memory_Safety
  imports Memory_Coherence
begin

text \<open>
  Safety of the SQLite memory store over every sequence of operations: the tables and the vector
  index stay coherent, revisions track what a reader sees, and with them the two optimistic
  protocols of the code, revision-checked writes and revision-checked embeddings.
\<close>

section \<open>Steps\<close>

text \<open>A committed operation, of the memory store or of the context store over the same database. The
  clock, tokens and drafts are those of the call.\<close>

inductive memory_step ::
  "(string \<Rightarrow> string) \<Rightarrow> (nat \<Rightarrow> nat \<Rightarrow> f64) \<Rightarrow> f64_arith \<Rightarrow> sqlite_store \<Rightarrow> memory_db \<Rightarrow> memory_db \<Rightarrow> bool"
  for lc fdiv fa st where
  m_store: "store_audited st m e oa db = Inr (db', i) \<Longrightarrow> memory_step lc fdiv fa st db db'"
| m_store_supersede: "store_with_supersession_audited st m e sid oa db = Inr (db', i) \<Longrightarrow> memory_step lc fdiv fa st db db'"
| m_store_metadata: "store_with_metadata_audited st m e old md oa now db = Inr (db', i) \<Longrightarrow> memory_step lc fdiv fa st db db'"
| m_store_contexts: "store_with_metadata_contexts_audited st m e old md ids a ca now db = Inr (db', i) \<Longrightarrow> memory_step lc fdiv fa st db db'"
| m_batch: "store_batch_audited st ms oas db = Inr (db', is) \<Longrightarrow> memory_step lc fdiv fa st db db'"
| m_batch_supersede: "store_batch_with_supersession_audited st ms olds oas db = Inr (db', is) \<Longrightarrow> memory_step lc fdiv fa st db db'"
| m_batch_metadata: "store_batch_with_metadata_audited st ms olds mds oas now db = Inr (db', is) \<Longrightarrow> memory_step lc fdiv fa st db db'"
| m_batch_contexts: "store_batch_with_metadata_contexts_audited st ms olds mds idss as cas now db = Inr (db', is) \<Longrightarrow>
    memory_step lc fdiv fa st db db'"
| m_update: "apply_update st i u now db = Inr (db', out) \<Longrightarrow> memory_step lc fdiv fa st db db'"
| m_update_authorized: "update_authorized_audited st i u p oa now db = Inr (db', out) \<Longrightarrow> memory_step lc fdiv fa st db db'"
| m_update_metadata: "apply_authorized_update_with_metadata lc st i u patch p now oa db = Inr (db', out) \<Longrightarrow> memory_step lc fdiv fa st db db'"
| m_update_contexts: "apply_authorized_update_with_metadata_contexts lc st i u patch idso p now a cao db = Inr (db', out) \<Longrightarrow>
    memory_step lc fdiv fa st db db'"
| m_update_optimistic: "apply_authorized_update_if_unmodified_with_metadata lc st i n u patch idso e p now a cao db = Inr (db', out) \<Longrightarrow>
    memory_step lc fdiv fa st db db'"
| m_bulk_update: "bulk_update_ids st is u p now oa db = Inr (db', bout) \<Longrightarrow> memory_step lc fdiv fa st db db'"
| m_delete: "apply_delete i now db = Inr (db', b) \<Longrightarrow> memory_step lc fdiv fa st db db'"
| m_delete_authorized: "apply_authorized_delete i p now oa db = Inr (db', wout) \<Longrightarrow> memory_step lc fdiv fa st db db'"
| m_delete_optimistic: "apply_authorized_delete_if_unmodified i n p now a db = Inr (db', wout) \<Longrightarrow> memory_step lc fdiv fa st db db'"
| m_bulk_delete: "bulk_delete_ids is p now oa db = Inr (db', bout) \<Longrightarrow> memory_step lc fdiv fa st db db'"
| m_evict: "evict_expired_conn now scope a db = (db', k) \<Longrightarrow> memory_step lc fdiv fa st db db'"
| m_supersede: "mark_superseded i j db = Inr (db', b) \<Longrightarrow> memory_step lc fdiv fa st db db'"
| m_supersede_authorized: "mark_superseded_by_authorized_audited i j p oa db = Inr (db', wout) \<Longrightarrow> memory_step lc fdiv fa st db db'"
| m_consolidate: "mark_superseded_if_unchanged member rep p a db = Inr (db', wout) \<Longrightarrow> memory_step lc fdiv fa st db db'"
| m_claim: "claim_for_reembed_with_scope st who limit now token db = Inr (db', cs) \<Longrightarrow> memory_step lc fdiv fa st db db'"
| m_release: "release_embedding_claim i n token db = Inr (db', b) \<Longrightarrow> memory_step lc fdiv fa st db db'"
| m_set_embedding: "set_embedding st i v n db = Inr (db', unit) \<Longrightarrow> memory_step lc fdiv fa st db db'"
| m_reindex: "reindex_embeddings profile db = Inr (db', unit) \<Longrightarrow> ep_dimensions profile = ss_dimensions st \<Longrightarrow>
    memory_step lc fdiv fa st db db'"
| m_impression: "db' = record_search_impression is now db \<Longrightarrow> memory_step lc fdiv fa st db db'"
| m_use: "record_memory_use fa is p w now hl db = (db', uout) \<Longrightarrow> memory_step lc fdiv fa st db db'"
| m_metadata: "upsert_metadata_audited md oa now db = Inr (db', unit) \<Longrightarrow> memory_step lc fdiv fa st db db'"
| m_context: "context_step lc fdiv p (d_ctx db) c \<Longrightarrow> db' = db\<lparr>d_ctx := c\<rparr> \<Longrightarrow> memory_step lc fdiv fa st db db'"

section \<open>Every step is tracked\<close>

lemma batch_grows:
  assumes "batch_tx op items db = Inr (db', ids)" "distinct (row_ids db)"
    "\<And>item d d' i. item \<in> set items \<Longrightarrow> distinct (row_ids d) \<Longrightarrow> op item d = Inr (d', i) \<Longrightarrow> \<exists>j. adds j d d'"
  shows "grows db db'"
proof -
  have "grows db db' \<and> distinct (row_ids db')"
    using assms(1)
  proof (rule batch_tx_inv [where I = "\<lambda>d. grows db d \<and> distinct (row_ids d)"])
    show "grows db db \<and> distinct (row_ids db)" using assms(2) by (simp add: grows_def)
  next
    fix item d d' i
    assume "item \<in> set items" "grows db d \<and> distinct (row_ids d)" "op item d = Inr (d', i)"
    moreover from this assms(3) obtain j where "adds j d d'" by blast
    ultimately show "grows db d' \<and> distinct (row_ids d')"
      using grows_trans [of db d d'] by (simp add: adds_def)
  qed
  then show ?thesis ..
qed

lemma try_map_nth: "try_map f xs = Inr ys \<Longrightarrow> k < length xs \<Longrightarrow> f (xs ! k) = Inr (ys ! k)"
  by (induction xs arbitrary: ys k) (auto simp: nth_Cons split: nat.splits)

lemma store_batch_grows:
  assumes "distinct (row_ids db)"
  shows "store_batch_audited st ms oas db = Inr (db', js) \<Longrightarrow> grows db db'"
    "store_batch_with_supersession_audited st ms olds oas db = Inr (db', js) \<Longrightarrow> grows db db'"
    "store_batch_with_metadata_audited st ms olds mds oas now db = Inr (db', js) \<Longrightarrow> grows db db'"
    "store_batch_with_metadata_contexts_audited st ms olds mds idss as cas now db = Inr (db', js) \<Longrightarrow> grows db db'"
proof -
  show "store_batch_audited st ms oas db = Inr (db', js) \<Longrightarrow> grows db db'"
    by (auto simp: store_batch_audited_def elim!: batch_grows [OF _ assms] dest: store_audited_adds split: if_splits)
  show "store_batch_with_supersession_audited st ms olds oas db = Inr (db', js) \<Longrightarrow> grows db db'"
    by (auto simp: store_batch_with_supersession_audited_def elim!: batch_grows [OF _ assms]
        dest: insert_prepared_supersession_adds split: if_splits)
  show "grows db db'" if b: "store_batch_with_metadata_audited st ms olds mds oas now db = Inr (db', js)"
  proof -
    from b have v: "length mds = length ms" "\<forall>x \<in> set (zip ms mds). mm_memory_id (snd x) = m_id (fst (fst x))"
      by (auto simp: store_batch_with_metadata_audited_def validate_metadata_memory_id_def split_def split: if_splits)
    have md: "mm_memory_id (mds ! k) = m_id m" if "(k, m, e) \<in> set (enumerate 0 ms)" for k m e
      using that v(1) v(2) [rule_format, OF nth_mem, of k] by (auto simp: in_set_enumerate_eq)
    have added: "\<exists>j. adds j d d'" if "adds (m_id m) d d1" "upsert_metadata_conn (mds ! k) now d1 = Inr d'" "(k, m, e) \<in> set (enumerate 0 ms)" for m d d1 k d' e
      using upsert_metadata_adds [OF that(1,2) md [OF that(3)]] by blast
    from b show ?thesis
      by (auto simp: store_batch_with_metadata_audited_def elim!: batch_grows [OF _ assms]
          dest!: insert_prepared_supersession_adds intro: added split: if_splits)
  qed
  show "grows db db'" if b: "store_batch_with_metadata_contexts_audited st ms olds mds idss as cas now db = Inr (db', js)"
  proof -
    from b obtain ps where ps: "length mds = length ms" "try_map (\<lambda>((m, _), md). governed_principal m md) (zip ms mds) = Inr ps"
      by (auto simp: store_batch_with_metadata_contexts_audited_def Let_def split: if_splits)
    have md: "mm_memory_id (mds ! k) = m_id m" if "(k, m, e) \<in> set (enumerate 0 ms)" for k m e
      using that ps(1) try_map_nth [OF ps(2), of k] by (auto simp: in_set_enumerate_eq dest: governed_principal_Inr)
    from b show ?thesis
      by (auto simp: store_batch_with_metadata_contexts_audited_def Let_def elim!: batch_grows [OF _ assms]
          dest: store_governed_adds [OF _ md] split: if_splits)
  qed
qed

lemma context_step_tables:
  assumes "context_step lc fdiv p c c'"
  shows "(t_memories c' = t_memories c \<and> t_metadata c' = t_metadata c \<and> t_memory_contexts c' = t_memory_contexts c) \<or>
    (\<exists>m ids audit now. replace_memory_contexts m ids p audit now c = Inr (c', Applied))"
  using assms
proof (induction rule: context_step.induct)
  case (step_create draft audit now db db' c)
  from step_create.hyps show ?case by (rule create_context_effect) simp
next
  case (step_parent i parent p audit now db db' u)
  then show ?case by (auto dest!: set_context_parent_effect(1) simp: update_context_def)
next
  case (step_lifecycle i l p audit now db db' u)
  then show ?case by (auto dest!: set_context_lifecycle_effect(1) simp: update_context_def)
next
  case (step_update i patch p audit now db db' u)
  then show ?case by (auto elim!: update_context_definition_effect simp: update_context_def)
next
  case (step_memberships m ids p audit now db db' out)
  show ?case
  proof (cases "out = Applied")
    case True
    with step_memberships show ?thesis by blast
  next
    case False
    with step_memberships have "db' = db" by (auto simp: replace_memory_contexts_def split: if_splits option.splits)
    then show ?thesis by simp
  qed
qed (auto simp: grant_context_use_def revoke_context_use_def replace_context_grants_def upsert_context_kind_def
    upsert_context_kind_policy_def upsert_context_anchor_policy_def rollback_unreferenced_legacy_context_def Let_def
    dest!: upsert_effects insert_effects split: if_splits option.splits)

lemma replace_memory_contexts_Applied:
  assumes "replace_memory_contexts m ids p audit now c = Inr (c', Applied)"
  shows "m \<in> m_id ` set (t_memories c) \<and> (\<exists>key. c' = insert_context_audit audit None (Some m) now (set_scope m key now bump
      (c\<lparr>t_memory_contexts := filter (\<lambda>r. mc_memory_id r \<noteq> m) (t_memory_contexts c) @ membership_rows m ids now\<rparr>)))"
  using assms
  by (auto simp: replace_memory_contexts_def bump_def [abs_def] find_Some_iff dest!: insert_effects(5)
      split: if_splits option.splits)

lemma context_step_tracks:
  assumes "context_step lc fdiv p (d_ctx db) c"
  shows "tracks db (db\<lparr>d_ctx := c\<rparr>)"
  using context_step_tables [OF assms]
proof
  assume "t_memories c = t_memories (d_ctx db) \<and> t_metadata c = t_metadata (d_ctx db) \<and> t_memory_contexts c = t_memory_contexts (d_ctx db)"
  then show ?thesis by (simp add: tracks_def tracked_same find_row_def rest_def rows_def)
next
  assume "\<exists>m ids audit now. replace_memory_contexts m ids p audit now (d_ctx db) = Inr (c, Applied)"
  then obtain m ids audit now where rep: "replace_memory_contexts m ids p audit now (d_ctx db) = Inr (c, Applied)" by blast
  obtain key where c: "c = insert_context_audit audit None (Some m) now (set_scope m key now bump
      ((d_ctx db)\<lparr>t_memory_contexts := filter (\<lambda>r. mc_memory_id r \<noteq> m) (t_memory_contexts (d_ctx db)) @ membership_rows m ids now\<rparr>))"
    using replace_memory_contexts_Applied [OF rep] by blast
  have "writes m db (db\<lparr>d_ctx := c\<rparr>)"
    unfolding c
    by (rule writes_bump)
      (auto simp: bumps_def changes_def rest_def set_scope_rows set_scope_metadata_other membership_rows_other filter_filter_other
        list_all2_map2 moved_def row_advances_def bump_def rows_def [symmetric] intro!: list_all2_refl)
  then show ?thesis by (rule writes_tracks)
qed

lemma adds_tracks: "adds i db db' \<Longrightarrow> tracks db db'" by (simp add: adds_def grows_def)
lemma shrinks_tracks: "shrinks db db' \<Longrightarrow> tracks db db'" by (simp add: shrinks_def)
lemma grows_tracks: "grows db db' \<Longrightarrow> tracks db db'" by (simp add: grows_def)
lemma evict_tracks: "evict_expired_conn now scope a db = (db', k) \<Longrightarrow> tracks db db'"
  using evict_expired_shrinks [of db now scope a] by (simp add: shrinks_def)
lemma use_tracks: "record_memory_use fa ids p w now hl db = (db', uout) \<Longrightarrow> tracks db db'"
  using quiet_tracks [OF record_memory_use_quiet [of db fa ids p w now hl]] by simp

lemmas writes_ops = apply_update_writes update_authorized_audited_writes apply_authorized_update_with_metadata_writes
  apply_authorized_update_with_metadata_contexts_writes apply_authorized_update_if_unmodified_writes upsert_metadata_audited_writes

lemmas quiet_ops = quiet_operations set_embedding_quiet

lemmas op_tracks = writes_ops [THEN writes_tracks] quiet_ops [THEN quiet_tracks, THEN conjunct1]
  deletes_shrink(1-3) [THEN shrinks_tracks] bulk_delete_ids_shrinks [THEN shrinks_tracks]
  bulk_update_ids_grows [THEN grows_tracks] store_audited_adds [THEN conjunct2, THEN adds_tracks] evict_tracks use_tracks

lemmas op_tracks_distinct = insert_prepared_supersession_adds [folded store_with_supersession_eq, THEN conjunct2, THEN adds_tracks]
  store_with_metadata_audited_adds [THEN conjunct2, THEN adds_tracks] store_with_metadata_contexts_audited_adds [THEN conjunct2, THEN adds_tracks]
  store_batch_grows(1) [THEN grows_tracks, rotated 1] store_batch_grows(2) [THEN grows_tracks, rotated 1]
  store_batch_grows(3) [THEN grows_tracks, rotated 1] store_batch_grows(4) [THEN grows_tracks, rotated 1]
  mark_superseded_effect(1) [THEN writes_tracks] update_authorized_superseded_writes(1) [THEN writes_tracks, rotated 1]
  update_authorized_superseded_writes(2) [THEN writes_tracks, rotated 1]

lemma memory_step_tracks:
  assumes "memory_step lc fdiv fa st db db'" and "distinct (row_ids db)"
  shows "tracks db db'"
  using assms
proof (induction rule: memory_step.induct)
  case (m_store_supersede m e sid oa db db' i)
  then show ?case unfolding store_with_supersession_eq
    by (blast dest: insert_prepared_supersession_adds adds_tracks)
next
  case (m_impression db' js now db)
  then show ?case using quiet_tracks [OF record_search_impression_quiet] by simp
next
  case (m_context p db c db')
  then show ?case by (simp add: context_step_tracks)
qed (erule op_tracks | erule (1) op_tracks_distinct)+

text \<open>Claim C7. Revisions are sound, which optimistic writes rest on: over every committed operation a memory that is
  there before and after keeps its content unless its embedding revision advances, neither revision goes back, and
  where the record revision is the same the record is the same: its entities, metadata and memberships, and its columns
  except the embedding flag and claim and the usage counters, which move without a revision.\<close>

theorem revisions_track_changes:
  assumes "memory_step lc fdiv fa st db db'" and "distinct (row_ids db)"
    and "find_row db j = Some r" and "find_row db' j = Some r'"
  shows "m_record_revision r \<le> m_record_revision r' \<and> mr_embedding_revision r \<le> mr_embedding_revision r' \<and>
    (mr_embedding_revision r' = mr_embedding_revision r \<longrightarrow> m_content r' = m_content r) \<and>
    (m_record_revision r' = m_record_revision r \<longrightarrow> visible db' j = visible db j)"
proof -
  have "tracks db db'" by (rule memory_step_tracks [OF assms(1,2)])
  then show ?thesis using assms(3,4) by (auto simp: tracks_def tracked_def row_advances_def dest!: spec [of _ j])
qed

section \<open>The invariant\<close>

lemma store_ok_context_step:
  assumes "context_step lc fdiv p (d_ctx db) c" "store_ok st db"
  shows "store_ok st (db\<lparr>d_ctx := c\<rparr>)"
  using context_step_tables [OF assms(1)]
proof
  assume "t_memories c = t_memories (d_ctx db) \<and> t_metadata c = t_metadata (d_ctx db) \<and> t_memory_contexts c = t_memory_contexts (d_ctx db)"
  then have "shape (db\<lparr>d_ctx := c\<rparr>) = shape db" by (simp add: shape_def rows_def)
  then show ?thesis using assms(2) store_ok_shape [of "db\<lparr>d_ctx := c\<rparr>" db st] by simp
next
  assume "\<exists>m ids audit now. replace_memory_contexts m ids p audit now (d_ctx db) = Inr (c, Applied)"
  then obtain m ids audit now where rep: "replace_memory_contexts m ids p audit now (d_ctx db) = Inr (c, Applied)" by blast
  let ?c = "(d_ctx db)\<lparr>t_memory_contexts := filter (\<lambda>r. mc_memory_id r \<noteq> m) (t_memory_contexts (d_ctx db)) @ membership_rows m ids now\<rparr>"
  obtain key where c: "m \<in> set (row_ids db)" "c = insert_context_audit audit None (Some m) now (set_scope m key now bump ?c)"
    using replace_memory_contexts_Applied [OF rep] by (auto simp: row_ids_def rows_def)
  have "shape (db\<lparr>d_ctx := c\<rparr>) = shape (db\<lparr>d_ctx := set_scope m key now bump (insert_context_audit audit None (Some m) now ?c)\<rparr>)"
    by (simp add: shape_def c(2) set_scope_rows)
  from store_ok_shape [OF this, of st] show ?thesis using store_ok_set_scope [OF assms(2) c(1), of bump] by simp
qed

lemmas store_ok_ops = store_ok_stores store_ok_updates store_ok_update_metadata store_ok_update_contexts store_ok_update_if_unmodified
  store_ok_bulk_update store_ok_deletes(1-3) store_ok_bulk_delete store_ok_evict store_ok_mark_superseded store_ok_supersedes
  store_ok_claim [THEN iffD2] store_ok_set_embedding store_ok_reindex store_ok_batches

lemma memory_step_store_ok:
  assumes "memory_step lc fdiv fa st db db'" "store_ok st db"
  shows "store_ok st db'"
  using assms
proof (induction rule: memory_step.induct)
  case (m_store_contexts m e old md ids a ca now db db' i)
  then show ?case by (auto simp: store_with_metadata_contexts_audited_def intro: store_ok_governed)
next
  case (m_impression db' js now db)
  then show ?case by (simp add: store_ok_activity(1))
next
  case (m_use js p w now hl db db' out)
  then show ?case using store_ok_activity(2) [of st db fa js p w now hl] by simp
next
  case (m_context p db c db')
  then show ?case by (simp add: store_ok_context_step)
qed (auto simp: store_ok_claim dest: store_ok_ops)


text \<open>Claim C6. Over every sequence of committed operations of the memory and context stores the database stays sound: memory
  ids are unique; entities, metadata and memberships belong to existing memories; the vector tables are consistent; no
  embedded memory is claimed; and the vectors a lookup finds are exactly those of the memories flagged as embedded.\<close>

theorem store_stays_coherent:
  assumes "(memory_step lc fdiv fa st)\<^sup>*\<^sup>* db db'" and "store_ok st db"
  shows "store_ok st db' \<and>
    dom (fetch_many (ss_le st) (ss_dimensions st) (row_ids db') (d_vectors db')) = {i. \<exists>r. find_row db' i = Some r \<and> m_has_embedding r}"
proof -
  from assms have ok: "store_ok st db'"
    by (induction rule: rtranclp_induct) (auto intro: memory_step_store_ok)
  have "embedded db' = {i. \<exists>r. find_row db' i = Some r \<and> m_has_embedding r}"
    using row_of_id [OF ok] find_row_mem by (fastforce simp: embedded_iff)
  moreover have "embedded db' \<subseteq> set (row_ids db')" by (auto simp: embedded_def row_ids_def)
  ultimately show ?thesis using ok fetch_many_view [of "ss_rowid st" "ss_dimensions st" "d_vectors db'" "ss_le st" "row_ids db'"]
    by (auto simp: store_ok_def vectors_ok_def)
qed

section \<open>Runs that keep a memory\<close>

inductive memory_run ::
  "(string \<Rightarrow> string) \<Rightarrow> (nat \<Rightarrow> nat \<Rightarrow> f64) \<Rightarrow> f64_arith \<Rightarrow> sqlite_store \<Rightarrow> memory_id \<Rightarrow> memory_db \<Rightarrow> memory_db \<Rightarrow> bool"
  for lc fdiv fa st j where
  run_here: "j \<in> set (row_ids db) \<Longrightarrow> memory_run lc fdiv fa st j db db"
| run_step: "memory_run lc fdiv fa st j a b \<Longrightarrow> memory_step lc fdiv fa st b c \<Longrightarrow> j \<in> set (row_ids c) \<Longrightarrow>
    memory_run lc fdiv fa st j a c"

lemma memory_run_tracked:
  assumes "memory_run lc fdiv fa st j a c" "store_ok st a"
  shows "store_ok st c \<and> j \<in> set (row_ids c) \<and> tracked j a c"
  using assms
proof (induction rule: memory_run.induct)
  case (run_here db)
  moreover have "tracked j db db" using tracks_refl [of db] unfolding tracks_def by blast
  ultimately show ?case by simp
next
  case (run_step a b c)
  then have b: "store_ok st b" "j \<in> set (row_ids b)" "tracked j a b" by simp_all
  have "tracked j b c" using memory_step_tracks [OF run_step.hyps(2) store_ok_ids [OF b(1)]] by (simp add: tracks_def)
  then show ?case using b run_step.hyps(2,3) by (blast intro: tracked_trans memory_step_store_ok)
qed

lemma changes_visible: "changes i db db' \<Longrightarrow> j \<noteq> i \<Longrightarrow> visible db' j = visible db j"
  using changes_find [of i db db' j] find_row_mem [of db j]
  by (cases "find_row db j") (auto simp: visible_def changes_def moved_def option_rel_Some1)

lemma get_by_id_revision:
  assumes "get_by_id st db i caller t = Some seen" "optimistic_revision seen = Some n"
  shows "\<exists>r. find_row db i = Some r \<and> m_record_revision r = n"
proof (cases "find_row db i")
  case (Some r)
  have "m_was_redacted (redacted m)" for m by (simp add: redacted_def Let_def)
  then show ?thesis using assms Some
    by (auto simp: get_by_id_def fetch_memory_by_id_def apply_access_policy_def optimistic_revision_def
        split: if_splits access_level.splits)
qed (use assms in \<open>simp add: get_by_id_def fetch_memory_by_id_def\<close>)

text \<open>Claim C4. No lost update. A client reads a memory and keeps its revision token; any operations happen, the memory
  staying in the store; then the client writes with that token. When the write is applied, the record of the memory was still
  the one the client had read: every column but the two revisions, the embedding flag and claim, and the usage counters
  (impressions and activity, which move without a revision), with its entities, metadata and memberships; the client had
  write access, and the record of no other memory has changed.\<close>

theorem no_lost_update:
  assumes "store_ok st db0" and "get_by_id st db0 i caller t = Some seen" and "optimistic_revision seen = Some n"
    and "memory_run lc fdiv fa st i db0 db"
    and "apply_authorized_update_if_unmodified_with_metadata lc st i n u patch ids e p now audit ca db = Inr (db', out)"
    and "auo_outcome out = Applied"
  shows "visible db i = visible db0 i \<and> (\<exists>m. fetch_memory_by_id db i = Some m \<and> has_write_access m p) \<and>
    (\<forall>j. j \<noteq> i \<longrightarrow> visible db' j = visible db j)"
proof -
  obtain r0 where r0: "find_row db0 i = Some r0" "m_record_revision r0 = n" using get_by_id_revision [OF assms(2,3)] by blast
  from assms(5) obtain m where m: "fetch_memory_by_id db i = Some m" "has_write_access m p" "m_record_revision m = n"
    by (rule apply_authorized_update_if_unmodified_cases) (use assms(6) in auto)
  then obtain r where r: "find_row db i = Some r" "m_record_revision r = n" by (auto dest!: fetch_Some)
  have "visible db i = visible db0 i"
    using memory_run_tracked [OF assms(4,1)] r r0 by (simp add: tracked_def)
  moreover have "changes i db db'" using apply_authorized_update_if_unmodified_writes [OF assms(5)] by (simp add: writes_def)
  ultimately show ?thesis using m changes_visible by blast
qed

section \<open>Embedding claims\<close>

text \<open>\<^verbatim>\<open>RETURNING\<close> gives every updated row once, in some order.\<close>

definition returning_ok :: "sqlite_store \<Rightarrow> bool" where
  "returning_ok st \<longleftrightarrow> (\<forall>cs. mset (ss_returning st cs) = mset cs)"

lemma find_row_update:
  assumes "\<And>r. m_id (f r) = m_id r"
  shows "find_row (update_row i f db) j = (if j = i then map_option f (find_row db j) else find_row db j)"
proof -
  have "find_row (update_row i f db) j = map_option (\<lambda>r. if m_id r = i then f r else r) (find_row db j)"
    unfolding find_row_def update_row_simps by (rule find_map_id) (simp add: assms)
  then show ?thesis by (cases "find_row db j") (auto dest: find_row_mem)
qed

lemma returning_set: "returning_ok st \<Longrightarrow> set (ss_returning st cs) = set cs"
  unfolding returning_ok_def by (metis set_mset_mset)

text \<open>What a claim returns: the row of each claim, free and authorized before, stamped after.\<close>

lemma claim_row:
  assumes "claim_for_reembed_with_scope st who limit now token db = Inr (db', cs)" "returning_ok st" "store_ok st db" "c \<in> set cs"
  shows "\<exists>r. find_row db (rc_id c) = Some r \<and> claim_free (now - EMBEDDING_CLAIM_LEASE_SECS * 1000000000) r \<and>
    sql_write_filter who (m_provenance r) (m_access_policy r) \<and>
    rc_content c = m_content r \<and> rc_embedding_revision c = mr_embedding_revision r \<and> rc_claim_token c = token \<and>
    find_row db' (rc_id c) = Some (r\<lparr>mr_embedding_claimed_at := Some now, mr_embedding_claim_token := Some token\<rparr>)"
proof -
  let ?e = "now - EMBEDDING_CLAIM_LEASE_SECS * 1000000000"
  let ?stamp = "\<lambda>r. r\<lparr>mr_embedding_claimed_at := Some now, mr_embedding_claim_token := Some token\<rparr>"
  from assms(1,4) have "limit \<noteq> 0" by (cases "limit = 0") (auto simp: claim_for_reembed_with_scope_def)
  with assms(1) obtain n where "usize_to_i64 limit = Inr n" "claim_for_reembed_conn st who limit now ?e token db = Inr (db', cs)"
    by (auto simp: claim_for_reembed_with_scope_def claim_for_reembed_conn_def)
  then have cs: "cs = ss_returning st (map (\<lambda>r. \<lparr>rc_id = m_id r, rc_content = m_content r,
      rc_embedding_revision = mr_embedding_revision r, rc_claim_token = token\<rparr>) (filter (claims_row (claim_candidates who (nat n) ?e db) ?e) (rows db)))"
    and db': "db' = set_rows (map (\<lambda>r. if claims_row (claim_candidates who (nat n) ?e db) ?e r then ?stamp r else r) (rows db)) db"
    by (simp_all add: claim_for_reembed_conn_def Let_def)
  from assms(4) obtain r where r: "r \<in> set (rows db)" "claims_row (claim_candidates who (nat n) ?e db) ?e r" "rc_id c = m_id r"
    "rc_content c = m_content r" "rc_embedding_revision c = mr_embedding_revision r" "rc_claim_token c = token" unfolding cs returning_set [OF assms(2)] by auto
  have f: "find_row db (m_id r) = Some r" by (rule row_of_id [OF assms(3) r(1)])
  from r(2) obtain q where q: "q \<in> set (claim_candidates who (nat n) ?e db)" "m_id q = m_id r" "claim_free ?e r"
    by (auto simp: claims_row_def list_ex_iff)
  then have "q \<in> set (rows db) \<and> sql_write_filter who (m_provenance q) (m_access_policy q)"
    by (auto simp: claim_candidates_def dest!: in_set_takeD)
  then have "sql_write_filter who (m_provenance r) (m_access_policy r)"
    using distinct_row [OF store_ok_ids [OF assms(3)] f, of q] q(2) by simp
  moreover have "find_row db' (m_id r) = Some (?stamp r)"
    unfolding find_row_def db' set_rows_simps using f r(2)
    by (subst find_map_id) (simp_all add: find_row_def)
  ultimately show ?thesis using f r q(3) by auto
qed

text \<open>Claim C5. No stale vector. A worker claims memories to embed; any operations happen, a claimed memory staying in the
  store; then the worker stores the vector it computed from the claimed content under the claimed revision. When
  that succeeds, the content of the memory is still the content that was embedded, the memory is flagged as embedded
  and free of claims, and the index holds exactly that vector for it.\<close>

theorem no_stale_vector:
  assumes "store_ok st db0" and "returning_ok st"
    and "claim_for_reembed_with_scope st who limit now token db0 = Inr (db1, cs)" and "c \<in> set cs"
    and "memory_run lc fdiv fa st (rc_id c) db1 db"
    and "set_embedding st (rc_id c) v (rc_embedding_revision c) db = Inr (db', x)"
  shows "\<exists>r. find_row db' (rc_id c) = Some r \<and> m_content r = rc_content c \<and> m_has_embedding r \<and> unclaimed r \<and>
    vec_view (ss_le st) (ss_dimensions st) (d_vectors db') = (vec_view (ss_le st) (ss_dimensions st) (d_vectors db))(rc_id c \<mapsto> v)"
proof -
  let ?f = "\<lambda>r. r\<lparr>m_has_embedding := True, mr_embedding_claimed_at := None, mr_embedding_claim_token := None\<rparr>"
  have ok1: "store_ok st db1" using store_ok_claim(1) [OF assms(3)] assms(1) by simp
  obtain r1 where r1: "find_row db1 (rc_id c) = Some r1" "m_content r1 = rc_content c" "mr_embedding_revision r1 = rc_embedding_revision c"
    using claim_row [OF assms(3,2,1,4)] by fastforce
  note run = memory_run_tracked [OF assms(5) ok1]
  obtain r w where r: "find_row db (rc_id c) = Some r" "mr_embedding_revision r = rc_embedding_revision c"
    and w: "vec_upsert (ss_rowid st) (ss_le st) (ss_dimensions st) (row_ids db) (rc_id c) v (d_vectors db) = Inr w"
    and db': "db' = update_row (rc_id c) ?f (db\<lparr>d_vectors := w\<rparr>)"
    using set_embedding_Inr [OF assms(6)] run store_ok_ids by blast
  have "m_content r = rc_content c" using run r r1 by (simp add: tracked_def row_advances_def)
  moreover have "find_row (db\<lparr>d_vectors := w\<rparr>) (rc_id c) = Some r" using r(1) by (simp add: find_row_def)
  then have "find_row db' (rc_id c) = Some (?f r)" unfolding db' by (subst find_row_update) simp_all
  moreover have "vec_ok (ss_rowid st) (ss_dimensions st) (d_vectors db)" using run by (simp add: store_ok_def vectors_ok_def)
  ultimately show ?thesis using vec.view_upsert [OF _ w] by (simp add: unclaimed_def db')
qed

lemma sql_write_filter_eq [simp]: "sql_write_filter (Some p) prov policy = write_access_allowed prov policy p"
  by (auto simp: sql_write_filter_def write_access_allowed_def Let_def split: access_policy.splits)

text \<open>A row that is not free for a claim is left as it is.\<close>

lemma claim_passes_over:
  assumes "claim_for_reembed_with_scope st who limit now token db = Inr (db', cs)" "find_row db j = Some r"
    "\<not> claim_free (now - EMBEDDING_CLAIM_LEASE_SECS * 1000000000) r"
  shows "find_row db' j = Some r"
proof (cases "limit = 0")
  case True
  then show ?thesis using assms by (simp add: claim_for_reembed_with_scope_def)
next
  case False
  let ?e = "now - EMBEDDING_CLAIM_LEASE_SECS * 1000000000"
  obtain n where db': "db' = set_rows (map (\<lambda>r. if claims_row (claim_candidates who (nat n) ?e db) ?e r
      then r\<lparr>mr_embedding_claimed_at := Some now, mr_embedding_claim_token := Some token\<rparr> else r) (rows db)) db"
    using assms(1) False by (auto simp: claim_for_reembed_with_scope_def claim_for_reembed_conn_def Let_def)
  show ?thesis
    unfolding find_row_def db' set_rows_simps using assms(2,3)
    by (subst find_map_id) (simp_all add: find_row_def claims_row_def)
qed

text \<open>Claim C11. A standing claim is exclusive, and claims are authorized. A claimed memory had no vector, and a claiming
  principal had write access to it; the claim is recorded with its time and token. Then any operations happen, the memory
  staying in the store. As long as the claim has not been given up or replaced in between, so that its time is still on the
  row, no other claim before the end of the lease of 300 seconds gets the memory or changes its row, for whatever
  principal, limit and token. (Storing the vector, releasing the claim and new content do give it up.)\<close>

theorem claims_are_exclusive:
  assumes "store_ok st db" and "returning_ok st"
    and "claim_for_reembed_with_scope st who limit now token db = Inr (db1, cs1)" and "c \<in> set cs1"
    and "memory_run lc fdiv fa st (rc_id c) db1 db2"
    and "find_row db2 (rc_id c) = Some r" and "mr_embedding_claimed_at r = Some now"
    and "claim_for_reembed_with_scope st who' limit' now' token' db2 = Inr (db3, cs2)" and "now' < now + 300 * 1000000000"
  shows "rc_id c \<notin> rc_id ` set cs2 \<and> find_row db3 (rc_id c) = Some r \<and>
    (\<exists>m. fetch_memory_by_id db (rc_id c) = Some m \<and> \<not> m_has_embedding m \<and> (\<forall>p. who = Some p \<longrightarrow> has_write_access m p)) \<and>
    (\<exists>r1. find_row db1 (rc_id c) = Some r1 \<and> mr_embedding_claimed_at r1 = Some now \<and> mr_embedding_claim_token r1 = Some token)"
proof (intro conjI)
  have ok1: "store_ok st db1" using store_ok_claim(1) [OF assms(3)] assms(1) by simp
  have ok2: "store_ok st db2" using memory_run_tracked [OF assms(5) ok1] by simp
  have held: "\<not> claim_free (now' - EMBEDDING_CLAIM_LEASE_SECS * 1000000000) r"
    using assms(7,9) by (simp add: claim_free_def EMBEDDING_CLAIM_LEASE_SECS_def)
  show "rc_id c \<notin> rc_id ` set cs2"
  proof
    assume "rc_id c \<in> rc_id ` set cs2"
    then obtain c' where "c' \<in> set cs2" "rc_id c' = rc_id c" by auto
    with claim_row [OF assms(8,2) ok2, of c'] assms(6) held show False by auto
  qed
  show "find_row db3 (rc_id c) = Some r" by (rule claim_passes_over [OF assms(8,6) held])
  obtain r0 where r0: "find_row db (rc_id c) = Some r0" "\<not> m_has_embedding r0" "sql_write_filter who (m_provenance r0) (m_access_policy r0)"
    and r1: "find_row db1 (rc_id c) = Some (r0\<lparr>mr_embedding_claimed_at := Some now, mr_embedding_claim_token := Some token\<rparr>)"
    using claim_row [OF assms(3,2,1,4)] by (auto simp: claim_free_def)
  have "m_has_embedding (row_to_memory r0) = m_has_embedding r0" by (simp add: row_to_memory_def memory.defs)
  then show "\<exists>m. fetch_memory_by_id db (rc_id c) = Some m \<and> \<not> m_has_embedding m \<and> (\<forall>p. who = Some p \<longrightarrow> has_write_access m p)"
    using r0 by (auto simp: fetch_memory_by_id_def has_write_access_def)
  show "\<exists>r1. find_row db1 (rc_id c) = Some r1 \<and> mr_embedding_claimed_at r1 = Some now \<and> mr_embedding_claim_token r1 = Some token"
    using r1 by simp
qed

section \<open>A store to run the operations on\<close>

definition sample_mdb :: memory_db where
  "sample_mdb = \<lparr>d_ctx = sample_db\<lparr>t_memories := [prepared_row (sample_memory\<lparr>m_access_policy := Restricted [''alice'']\<rparr>) None]\<rparr>,
     d_entities = [], d_vectors = vec_empty, d_profile = None, d_tombstones = [], d_audit = []\<rparr>"

definition sample_sqlite :: sqlite_store where
  "sample_sqlite = \<lparr>ss_rowid = next_rowid, ss_le = True, ss_dimensions = 2, ss_active_profile = None,
     ss_checked_add = (\<lambda>t d. Some (t + d)), ss_entity_scan = (\<lambda>es. es), ss_returning = (\<lambda>cs. cs)\<rparr>"

definition sample_memory_audit :: audit_draft where
  "sample_memory_audit = \<lparr>aud_action = AuditUpdate, aud_caller_agent = Some ''alice'', aud_timestamp = 5, aud_details = None\<rparr>"

definition content_update :: "string \<Rightarrow> memory_update" where
  "content_update s = \<lparr>u_content = Some s, u_tags = None, u_access_policy = None, u_importance = None, u_expires_at = None,
     u_confidence = None, u_source_conversation = None, u_entities = None\<rparr>"

definition mdb_after :: "'a mtx \<Rightarrow> memory_db" where
  "mdb_after res = (case res of Inl _ \<Rightarrow> sample_mdb | Inr (db, _) \<Rightarrow> db)"

lemma sample_sqlite_ok: "returning_ok sample_sqlite" "vec_ok (ss_rowid sample_sqlite) 2 vec_empty"
  using vec_ok_empty by (simp_all add: returning_ok_def sample_sqlite_def)

lemma sample_mdb_rows: "rows sample_mdb = [prepared_row (sample_memory\<lparr>m_access_policy := Restricted [''alice'']\<rparr>) None]"
  by (simp add: sample_mdb_def rows_def)

lemma sample_mdb_ok: "store_ok sample_sqlite sample_mdb"
proof -
  have "tables_ok sample_mdb"
    by (simp add: tables_ok_def row_ids_def sample_mdb_rows) (simp add: sample_mdb_def sample_db_def)
  moreover have "embedded sample_mdb = {}" by (simp add: embedded_def sample_mdb_rows)
  then have "vectors_ok sample_sqlite sample_mdb"
    using sample_sqlite_ok(2) vec.view_empty [of "ss_le sample_sqlite" 2]
    by (simp add: vectors_ok_def sample_mdb_rows) (simp add: sample_mdb_def sample_sqlite_def)
  ultimately show ?thesis by (simp add: store_ok_def)
qed

lemma sample_memory_row:
  "m_id (prepared_row m e) = m_id m" "m_content (prepared_row m e) = m_content m" "m_provenance (prepared_row m e) = m_provenance m"
  "m_access_policy (prepared_row m e) = m_access_policy m" "m_record_revision (prepared_row m e) = m_record_revision m"
  "mr_embedding_revision (prepared_row m e) = 0" "mr_embedding_claimed_at (prepared_row m e) = None"
  "m_updated_at (prepared_row m e) = m_updated_at m" "m_superseded_by (prepared_row m e) = m_superseded_by m"
  "m_expires_at (prepared_row m e) = m_expires_at m"
  by (simp_all add: prepared_row_def memory.defs)

text \<open>A run: a worker claims the memory of the sample store; then alice rewrites it or the worker embeds it.\<close>

definition claimed_mdb :: memory_db where
  "claimed_mdb = set_rows (map (\<lambda>r. r\<lparr>mr_embedding_claimed_at := Some 1000, mr_embedding_claim_token := Some ''token''\<rparr>) (rows sample_mdb)) sample_mdb"

definition sample_claims :: "reembed_claim list" where
  "sample_claims = [\<lparr>rc_id = 7, rc_content = ''secret plan'', rc_embedding_revision = 0, rc_claim_token = ''token''\<rparr>]"

lemma sample_claim: "claim_for_reembed_with_scope sample_sqlite (Some ''alice'') 5 1000 ''token'' sample_mdb = Inr (claimed_mdb, sample_claims)"
  by (simp add: claim_for_reembed_with_scope_def claim_for_reembed_conn_def usize_to_i64_def Let_def claim_candidates_def
      claims_row_def claim_free_def sample_mdb_rows sample_memory_row claimed_mdb_def sample_claims_def sort_key_simps
      write_access_allowed_def sample_memory_def provenance_default_def sample_sqlite_def)

definition sample_embed :: "unit mtx" where
  "sample_embed = set_embedding sample_sqlite 7 [0, 0] 0 claimed_mdb"

definition sample_rewrite :: "authorized_update_outcome mtx" where
  "sample_rewrite = apply_authorized_update_if_unmodified_with_metadata (\<lambda>s. s) sample_sqlite 7 3 (content_update ''new plan'') None None
     None ''alice'' 2000 sample_memory_audit None claimed_mdb"

lemma sample_embed_ok: "\<not> isl sample_embed" by code_simp
lemma sample_rewrite_ok: "\<not> isl sample_rewrite" by code_simp
lemma sample_rewrite_applied: "auo_outcome (snd (projr sample_rewrite)) = Applied" by code_simp

lemma mdb_after_eq: "\<not> isl res \<Longrightarrow> res = Inr (mdb_after res, snd (projr res))"
  by (cases res) (auto simp: mdb_after_def)

lemmas sample_rewrite_eq = mdb_after_eq [OF sample_rewrite_ok, unfolded sample_rewrite_def]
lemmas sample_embed_eq = mdb_after_eq [OF sample_embed_ok, unfolded sample_embed_def]

lemma sample_steps_memory:
  "memory_step lc fdiv fa sample_sqlite sample_mdb claimed_mdb"
  "memory_step (\<lambda>s. s) fdiv fa sample_sqlite claimed_mdb (mdb_after sample_rewrite)"
  using m_claim [OF sample_claim] m_update_optimistic [OF sample_rewrite_eq] by (simp_all add: sample_rewrite_def)

lemma claimed_mdb_rows: "rows claimed_mdb = map (\<lambda>r. r\<lparr>mr_embedding_claimed_at := Some 1000, mr_embedding_claim_token := Some ''token''\<rparr>) (rows sample_mdb)"
  by (simp add: claimed_mdb_def)

lemma claimed_mdb_ok: "store_ok sample_sqlite claimed_mdb"
  using memory_step_store_ok [OF sample_steps_memory(1) sample_mdb_ok] .

theorem revisions_track_changes_witness: "visible claimed_mdb 7 = visible sample_mdb 7"
proof -
  have "find_row sample_mdb 7 \<noteq> None" "find_row claimed_mdb 7 \<noteq> None"
    "map_option m_record_revision (find_row claimed_mdb 7) = map_option m_record_revision (find_row sample_mdb 7)" by code_simp+
  then obtain r r' where "find_row sample_mdb 7 = Some r" "find_row claimed_mdb 7 = Some r'" "m_record_revision r' = m_record_revision r"
    by auto
  then show ?thesis
    using revisions_track_changes [OF sample_steps_memory(1) store_ok_ids [OF sample_mdb_ok], of 7 r r'] by blast
qed

theorem store_stays_coherent_witness: "store_ok sample_sqlite (mdb_after sample_rewrite)"
proof -
  have "(memory_step (\<lambda>s. s) (\<lambda>_ _. 0) undefined sample_sqlite)\<^sup>*\<^sup>* sample_mdb (mdb_after sample_rewrite)"
    using sample_steps_memory by (blast intro: rtranclp.rtrancl_into_rtrancl)
  from store_stays_coherent [OF this sample_mdb_ok] show ?thesis by blast
qed

theorem no_lost_update_witness: "visible claimed_mdb 7 = visible sample_mdb 7"
proof -
  have "\<not> Option.is_none (get_by_id sample_sqlite sample_mdb 7 (Some ''alice'') 50)"
    "optimistic_revision (the (get_by_id sample_sqlite sample_mdb 7 (Some ''alice'') 50)) = Some 3" by code_simp+
  then obtain seen where seen: "get_by_id sample_sqlite sample_mdb 7 (Some ''alice'') 50 = Some seen" "optimistic_revision seen = Some 3"
    by (auto simp: Option.is_none_def)
  have "7 \<in> set (row_ids sample_mdb)" "7 \<in> set (row_ids claimed_mdb)" by code_simp+
  then have "memory_run (\<lambda>s. s) (\<lambda>_ _. 0) undefined sample_sqlite 7 sample_mdb claimed_mdb"
    by (blast intro: run_step run_here sample_steps_memory)
  from no_lost_update [OF sample_mdb_ok seen this sample_rewrite_eq] show ?thesis
    using sample_rewrite_applied by (simp add: sample_rewrite_def)
qed

theorem no_stale_vector_witness:
  "\<exists>r. find_row (mdb_after sample_embed) 7 = Some r \<and> m_content r = ''secret plan'' \<and> m_has_embedding r"
proof -
  have "7 \<in> set (row_ids claimed_mdb)" by code_simp
  then have run: "memory_run (\<lambda>s. s) (\<lambda>_ _. 0) undefined sample_sqlite 7 claimed_mdb claimed_mdb" by (rule run_here)
  let ?c = "hd sample_claims"
  have c: "?c \<in> set sample_claims" "rc_id ?c = 7" "rc_content ?c = ''secret plan''" "rc_embedding_revision ?c = 0"
    by (simp_all add: sample_claims_def)
  from no_stale_vector [OF sample_mdb_ok sample_sqlite_ok(1) sample_claim c(1), unfolded c, OF run sample_embed_eq]
  show ?thesis by (auto simp: sample_embed_def)
qed

theorem claims_are_exclusive_witness:
  "\<exists>db2 cs2. claim_for_reembed_with_scope sample_sqlite None 5 2000 ''other'' claimed_mdb = Inr (db2, cs2) \<and> 7 \<notin> rc_id ` set cs2"
proof -
  have "usize_to_i64 5 = Inr 5" by (simp add: usize_to_i64_def)
  then obtain db2 cs2 where second: "claim_for_reembed_with_scope sample_sqlite None 5 2000 ''other'' claimed_mdb = Inr (db2, cs2)"
    by (auto simp: claim_for_reembed_with_scope_def claim_for_reembed_conn_def Let_def)
  let ?c = "hd sample_claims"
  have c: "?c \<in> set sample_claims" "rc_id ?c = 7" by (simp_all add: sample_claims_def)
  have run: "memory_run (\<lambda>s. s) (\<lambda>_ _. 0) undefined sample_sqlite 7 claimed_mdb claimed_mdb"
    by (rule run_here) code_simp
  have "\<not> Option.is_none (find_row claimed_mdb 7)" "mr_embedding_claimed_at (the (find_row claimed_mdb 7)) = Some 1000" by code_simp+
  then obtain r where r: "find_row claimed_mdb 7 = Some r" "mr_embedding_claimed_at r = Some 1000" by (auto simp: Option.is_none_def)
  have "(2000 :: datetime) < 1000 + 300 * 1000000000" by simp
  from claims_are_exclusive [OF sample_mdb_ok sample_sqlite_ok(1) sample_claim c(1), unfolded c(2), OF run r second this]
  show ?thesis using second by blast
qed

end
