(* ===== verification/Memory_Contract.thy ===== *)
theory Memory_Contract
  imports Memory_Safety
begin

text \<open>
  What the operations of the SQLite memory store promise their caller: stored memories read back, deletions take
  everything of a memory with them and leave a tombstone, bulk deletions and evictions remove exactly the memories the
  caller may change, and uses are counted once per memory.
\<close>

section \<open>Storing and reading back\<close>

lemma fetch_insert:
  assumes "insert_prepared st m e db = Inr db'"
  shows "find_row db' (m_id m) = Some (prepared_row m e)"
proof -
  from insert_prepared_Inr(2) [OF assms] obtain v where
    "db' = (set_rows (rows db @ [prepared_row m e]) db)\<lparr>d_vectors := v, d_entities := add_entities (m_id m) (m_entities m) (d_entities db)\<rparr>"
    by blast
  moreover have "find (\<lambda>r. m_id r = m_id m) (rows db) = None"
    using insert_prepared_Inr(1) [OF assms] by (simp add: find_row_None [symmetric] find_row_def)
  ultimately show ?thesis by (simp add: find_row_def find_append_id)
qed

lemma add_entities_distinct:
  assumes "distinct es" "\<forall>e \<in> set es. (i, e) \<notin> set t"
  shows "add_entities i es t = t @ map (Pair i) es"
  using assms
proof (induction es arbitrary: t)
  case (Cons e es)
  then have "add_entities i es (t @ [(i, e)]) = (t @ [(i, e)]) @ map (Pair i) es" by (intro Cons.IH) auto
  then show ?case using Cons.prems by simp
qed simp

lemma hydrate_insert:
  assumes "insert_prepared st m e db = Inr db'" "store_ok st db" "distinct (m_entities m)"
  shows "hydrate_entities_single st db' (m_id m) = ss_entity_scan st (m_entities m)"
proof -
  from insert_prepared_Inr(2) [OF assms(1)] obtain v where
    db': "db' = (set_rows (rows db @ [prepared_row m e]) db)\<lparr>d_vectors := v, d_entities := add_entities (m_id m) (m_entities m) (d_entities db)\<rparr>"
    by blast
  have new: "m_id m \<notin> fst ` set (d_entities db)"
    using insert_prepared_Inr(1) [OF assms(1)] assms(2) by (auto simp: store_ok_def tables_ok_def)
  then have "add_entities (m_id m) (m_entities m) (d_entities db) = d_entities db @ map (Pair (m_id m)) (m_entities m)"
    by (intro add_entities_distinct [OF assms(3)]) force
  moreover have "filter (\<lambda>(k, _). k = m_id m) (d_entities db) = []" using new by (force simp: filter_empty_conv)
  ultimately show ?thesis by (simp add: hydrate_entities_single_def db' filter_map comp_def)
qed

lemma row_to_memory_prepared:
  assumes "importance_new (importance_value (m_importance m)) = m_importance m" "confidence_new (confidence_value (m_confidence m)) = m_confidence m"
  shows "row_to_memory (prepared_row m e) = m\<lparr>m_has_embedding := e \<noteq> None, m_entities := [], m_was_redacted := False\<rparr>"
  using assms by (simp add: row_to_memory_def prepared_row_def memory.defs)

text \<open>Claim C9. A stored memory reads back. With scores made by their constructors and entities without repetition, the memory
  that was stored is the memory a later read bases its view on, through the same expiry and access checks, its embedding
  flag says whether a vector came with it, and the index returns that vector and only for such a memory.\<close>

theorem store_get_roundtrip:
  assumes "store_audited st m e audit db = Inr (db', i)" and "store_ok st db"
    and "importance_new (importance_value (m_importance m)) = m_importance m"
    and "confidence_new (confidence_value (m_confidence m)) = m_confidence m" and "distinct (m_entities m)"
  shows "i = m_id m \<and> get_by_id st db' i caller now =
      (if expired_at now m then None
       else apply_access_policy (m\<lparr>m_has_embedding := e \<noteq> None, m_was_redacted := False, m_entities := ss_entity_scan st (m_entities m)\<rparr>) caller) \<and>
    fetch_many (ss_le st) (ss_dimensions st) [i] (d_vectors db') i = e"
proof -
  from assms(1) obtain db1 where s: "insert_prepared st m e db = Inr db1" "db' = insert_optional_audit_draft (m_id m) audit db1" "i = m_id m"
    by (auto simp: store_audited_def)
  have "fetch_memory_by_id db' i = Some (m\<lparr>m_has_embedding := e \<noteq> None, m_entities := [], m_was_redacted := False\<rparr>)"
    using fetch_insert [OF s(1)] by (simp add: fetch_memory_by_id_def s(2,3) row_to_memory_prepared [OF assms(3,4)])
  moreover have "hydrate_entities_single st db' i = ss_entity_scan st (m_entities m)"
    using hydrate_insert [OF s(1) assms(2,5)] by (simp add: s(2,3) hydrate_entities_single_def)
  ultimately have get: "get_by_id st db' i caller now = (if expired_at now m then None
       else apply_access_policy (m\<lparr>m_has_embedding := e \<noteq> None, m_was_redacted := False, m_entities := ss_entity_scan st (m_entities m)\<rparr>) caller)"
    by (simp add: get_by_id_def expired_at_def)
  have ok: "vectors_ok st db" "vectors_ok st db1" "vec_ok (ss_rowid st) (ss_dimensions st) (d_vectors db)"
    using assms(2) store_ok_insert_prepared [OF s(1) assms(2)] by (simp_all add: store_ok_def vectors_ok_def)
  have "vec_view (ss_le st) (ss_dimensions st) (d_vectors db1) (m_id m) = e"
  proof (cases e)
    case None
    have "m_id m \<notin> embedded db" using insert_prepared_Inr(1) [OF s(1)] by (auto simp: embedded_def row_ids_def)
    then show ?thesis using insert_prepared_Inr(2) [OF s(1)] ok(1) None by (auto simp: vectors_ok_def domIff)
  next
    case (Some x)
    then show ?thesis using insert_prepared_Inr(2) [OF s(1)] vec.view_upsert [OF ok(3)] by auto
  qed
  then show ?thesis using get ok(2) fetch_many_view [of "ss_rowid st" "ss_dimensions st" "d_vectors db1" "ss_le st" "[i]"]
    by (simp add: s(2,3) vectors_ok_def)
qed

section \<open>Deleting\<close>

lemma find_upsert_tombstone: "fetch_tombstone_by_id (upsert_tombstone t db) (t_memory_id t) = Some t"
proof -
  have map: "t_memory_id t \<in> t_memory_id ` set ts \<Longrightarrow>
      find (\<lambda>x. t_memory_id x = t_memory_id t) (map (\<lambda>x. if t_memory_id x = t_memory_id t then t else x) ts) = Some t" for ts
    by (induction ts) auto
  have append: "t_memory_id t \<notin> t_memory_id ` set ts \<Longrightarrow> find (\<lambda>x. t_memory_id x = t_memory_id t) (ts @ [t]) = Some t" for ts
    by (induction ts) auto
  show ?thesis by (simp add: fetch_tombstone_by_id_def upsert_tombstone_def map append)
qed

lemma tombstone_upsert_other: "j \<noteq> t_memory_id t \<Longrightarrow> fetch_tombstone_by_id (upsert_tombstone t db) j = fetch_tombstone_by_id db j"
proof -
  assume j: "j \<noteq> t_memory_id t"
  have "find (\<lambda>x. t_memory_id x = j) (map (\<lambda>x. if t_memory_id x = t_memory_id t then t else x) ts) = find (\<lambda>x. t_memory_id x = j) ts"
    "find (\<lambda>x. t_memory_id x = j) (ts @ [t]) = find (\<lambda>x. t_memory_id x = j) ts" for ts
    using j by (induction ts) auto
  then show ?thesis by (simp add: fetch_tombstone_by_id_def upsert_tombstone_def)
qed

text \<open>A row when the memories of \<open>S\<close> are deleted: what one of them had superseded is active again, at the next revision.\<close>

definition freed :: "memory_id set \<Rightarrow> memory_row \<Rightarrow> memory_row" where
  "freed S r = (if \<exists>i \<in> S. m_superseded_by r = Some i
     then r\<lparr>m_superseded_by := None, m_record_revision := m_record_revision r + 1\<rparr> else r)"

lemma freed_empty [simp]: "freed {} = (\<lambda>r. r)"
  by (simp add: freed_def fun_eq_iff)

lemma freed_id [simp]: "m_id (freed S r) = m_id r"
  by (simp add: freed_def)

lemma clear_superseded_freed: "clear_superseded_by i = freed {i}"
  by (auto simp: fun_eq_iff clear_superseded_by_def freed_def bump_def)

lemma freed_freed: "freed S (freed {i} r) = freed (insert i S) r"
  by (auto simp: freed_def)

text \<open>The audit row of a draft for the memory \<open>i\<close>.\<close>

definition audit_record :: "memory_id \<Rightarrow> audit_draft \<Rightarrow> audit_row" where
  "audit_record i a = \<lparr>au_memory_id = i, au_action = audit_action_to_string (aud_action a), au_caller_agent = aud_caller_agent a,
     au_timestamp = aud_timestamp a, au_details = aud_details a\<rparr>"

lemma insert_audit_draft_rows: "d_audit (insert_audit_draft i a db) = d_audit db @ [audit_record i a]"
  by (simp add: insert_audit_draft_def audit_record_def)

text \<open>The context tables other than those of the memories.\<close>

definition context_tables :: "memory_db \<Rightarrow> context_db" where
  "context_tables db = (d_ctx db)\<lparr>t_memories := [], t_metadata := [], t_memory_contexts := []\<rparr>"

lemma context_tables_frame:
  "context_tables (insert_audit_draft i a db) = context_tables db" "context_tables (upsert_tombstone t db) = context_tables db"
  "d_profile (upsert_tombstone t db) = d_profile db"
  by (simp_all add: context_tables_def insert_audit_draft_def upsert_tombstone_def)

lemma delete_row_find:
  "find_row (delete_row i db) j = (if j = i then None else map_option (freed {i}) (find_row db j))" if "i \<in> set (row_ids db)"
  using delete_row_effect(1) [of i db j] that by (simp add: clear_superseded_freed)

lemma delete_row_tables:
  "d_tombstones (delete_row i db) = d_tombstones db" "d_audit (delete_row i db) = d_audit db"
  "d_profile (delete_row i db) = d_profile db" "context_tables (delete_row i db) = context_tables db"
  "i \<in> set (row_ids db) \<Longrightarrow> d_vectors (delete_row i db) = vec_delete i (d_vectors db)"
  "i \<in> set (row_ids db) \<Longrightarrow> rest (delete_row i db) i = ([], [], [])"
  by (auto simp: delete_row_def rest_def context_tables_def filter_empty_conv)

text \<open>Claim C10. An authorized deletion is complete and leaves its trace: it is applied only for a principal with write access;
  the row, entities, metadata, memberships and vector of the memory are gone; the memories it had superseded are active
  again at their next revision and no other memory changes; the tombstone shows the memory's existence to exactly those who
  could see it before and names who deleted it and when, and every other tombstone stays; the audit log grows by exactly the
  row of the draft for this memory; the embedding profile and the context tables stay as they are.\<close>

theorem authorized_delete_complete:
  assumes "apply_authorized_delete i p t (Some a) db = Inr (db', Applied)" and "store_ok st db"
  shows "\<exists>m. fetch_memory_by_id db i = Some m \<and> has_write_access m p \<and> fetch_memory_by_id db' i = None \<and> rest db' i = ([], [], []) \<and>
    vec_view (ss_le st) (ss_dimensions st) (d_vectors db') = (vec_view (ss_le st) (ss_dimensions st) (d_vectors db))(i := None) \<and>
    (\<forall>j. j \<noteq> i \<longrightarrow> find_row db' j = map_option (freed {i}) (find_row db j) \<and> rest db' j = rest db j \<and>
      fetch_tombstone_by_id db' j = fetch_tombstone_by_id db j) \<and>
    (\<exists>ts. fetch_tombstone_by_id db' i = Some ts \<and> t_deleted_by_principal ts = Some p \<and> t_deleted_at ts = t \<and>
      (\<forall>caller. tombstone_check_access_level ts caller = check_access_level m caller)) \<and>
    d_audit db' = d_audit db @ [audit_record i a] \<and> d_profile db' = d_profile db \<and> context_tables db' = context_tables db"
proof -
  from assms(1) obtain m where m: "fetch_memory_by_id db i = Some m" "has_write_access m p"
    by (auto simp: apply_authorized_delete_def split: option.splits if_splits)
  then have id: "m_id m = i" "i \<in> set (row_ids db)" by (auto dest: fetch_id fetch_mem)
  let ?ts = "tombstone_from_memory m t (Some p)"
  have db': "db' = insert_audit_draft i a (delete_row i (upsert_tombstone ?ts db))"
    using assms(1) m id by (auto simp: apply_authorized_delete_def insert_tombstone_def insert_optional_audit_draft_def Let_def split: if_splits)
  note del = delete_row_find [of i "upsert_tombstone ?ts db"] delete_row_tables [of i "upsert_tombstone ?ts db"]
    delete_row_effect(2) [of _ i "upsert_tombstone ?ts db"]
  have rest: "rest (insert_audit_draft k x d) j = rest d j" "rest (upsert_tombstone y d) j = rest d j" for k x d j y
    by (simp_all add: rest_def)
  have ts: "fetch_tombstone_by_id db' i = Some ?ts"
    using find_upsert_tombstone [of ?ts db] id(1)
    by (simp add: db' fetch_tombstone_by_id_def del) (simp add: tombstone_from_memory_def)
  have level: "tombstone_check_access_level ?ts caller = check_access_level m caller" for caller
    by (rule tombstone_preserves_access_level)
  have "vec_ok (ss_rowid st) (ss_dimensions st) (d_vectors db)" using assms(2) by (simp add: store_ok_def vectors_ok_def)
  then have view: "vec_view (ss_le st) (ss_dimensions st) (d_vectors db') = (vec_view (ss_le st) (ss_dimensions st) (d_vectors db))(i := None)"
    using id(2) by (simp add: db' del vec.view_remove)
  have gone: "fetch_memory_by_id db' i = None" "rest db' i = ([], [], [])" using id(2) by (simp_all add: db' fetch_memory_by_id_def del rest)
  have others: "find_row db' j = map_option (freed {i}) (find_row db j) \<and> rest db' j = rest db j \<and>
      fetch_tombstone_by_id db' j = fetch_tombstone_by_id db j" if "j \<noteq> i" for j
  proof (intro conjI)
    show "find_row db' j = map_option (freed {i}) (find_row db j)" "rest db' j = rest db j" using id(2) that by (simp_all add: db' del rest)
    have "t_memory_id ?ts = i" by (simp add: tombstone_from_memory_def id)
    then show "fetch_tombstone_by_id db' j = fetch_tombstone_by_id db j"
      using tombstone_upsert_other [of j ?ts db] that by (simp add: db' fetch_tombstone_by_id_def del)
  qed
  have audit: "d_audit db' = d_audit db @ [audit_record i a]" "d_profile db' = d_profile db" "context_tables db' = context_tables db"
    by (simp_all add: db' insert_audit_draft_rows del context_tables_frame)
  show ?thesis
    by (rule exI [of _ m]) (use m gone view others ts level audit in \<open>simp add: tombstone_from_memory_def\<close>)
qed

section \<open>Deleting in bulk\<close>

text \<open>\<open>writable\<close>: the memory is there and the principal may change it.\<close>

definition writable :: "memory_db \<Rightarrow> string \<Rightarrow> memory_id \<Rightarrow> bool" where
  "writable db p i = (case fetch_memory_by_id db i of None \<Rightarrow> False | Some m \<Rightarrow> has_write_access m p)"

definition barred :: "memory_db \<Rightarrow> string \<Rightarrow> memory_id \<Rightarrow> bool" where
  "barred db p i = (i \<in> set (row_ids db) \<and> \<not> writable db p i)"

lemma try_fold_append: "try_fold f s (xs @ ys) = result_bind (try_fold f s xs) (\<lambda>s'. try_fold f s' ys)"
  by (induction xs arbitrary: s) (auto simp: result_bind_def split: sum.splits)

lemma try_fold_chunks:
  assumes "0 < n"
  shows "try_fold (\<lambda>s chunk. try_fold f s chunk) s (chunks_of n xs) = try_fold f s xs"
  using assms
proof (induction n xs arbitrary: s rule: chunks_of.induct)
  case (1 n xs)
  show ?case
  proof (cases "n = 0 \<or> xs = []")
    case False
    then have "try_fold (\<lambda>s chunk. try_fold f s chunk) s (chunks_of n xs) = result_bind (try_fold f s (take n xs)) (\<lambda>s'. try_fold f s' (drop n xs))"
      using 1 by (subst chunks_of.simps) (simp add: result_bind_def split: sum.splits)
    then show ?thesis by (simp flip: try_fold_append)
  qed (use 1 assms in \<open>auto simp: chunks_of.simps\<close>)
qed

lemma first_occurrences_insert: "first_occurrences (insert i S) xs = first_occurrences S (filter (\<lambda>x. x \<noteq> i) xs)"
proof (induction xs arbitrary: S)
  case (Cons x xs)
  have "insert x (insert i S) = insert i (insert x S)" by blast
  then show ?case using Cons by simp
qed simp

lemma first_occurrences_set: "set (first_occurrences S xs) = set xs - S" "distinct (first_occurrences S xs)"
  by (induction xs arbitrary: S) auto

lemma clear_superseded_access [simp]:
  "m_provenance (freed S r) = m_provenance r" "m_access_policy (freed S r) = m_access_policy r"
  by (simp_all add: freed_def)

lemma writable_row: "writable db p i = (case find_row db i of None \<Rightarrow> False | Some r \<Rightarrow> write_access_allowed (m_provenance r) (m_access_policy r) p)"
  by (cases "find_row db i") (simp_all add: writable_def fetch_memory_by_id_def has_write_access_def)

lemma bury_access:
  assumes "i \<in> set (row_ids db)"
  shows "writable (delete_row i (upsert_tombstone t db)) p j = (writable db p j \<and> j \<noteq> i)"
    "barred (delete_row i (upsert_tombstone t db)) p j = (barred db p j \<and> j \<noteq> i)"
proof -
  show w: "writable (delete_row i (upsert_tombstone t db)) p j = (writable db p j \<and> j \<noteq> i)"
    using assms by (cases "find_row db j") (simp_all add: writable_row delete_row_find)
  show "barred (delete_row i (upsert_tombstone t db)) p j = (barred db p j \<and> j \<noteq> i)"
    by (auto simp: barred_def w delete_row_effect(3))
qed

lemma access_frame [simp]:
  "writable (insert_optional_audit_draft k oa db) p = writable db p" "barred (insert_optional_audit_draft k oa db) p = barred db p"
  by (simp_all add: fun_eq_iff writable_row barred_def)

lemma bulk_delete_one_eq:
  "\<exists>ts. bulk_delete_one p t oa (d, out) i =
     (if writable d p i then Inr (insert_optional_audit_draft i oa (delete_row i (upsert_tombstone ts d)), out\<lparr>bo_applied_ids := bo_applied_ids out @ [i]\<rparr>)
      else if barred d p i then Inr (d, out\<lparr>bo_denied := saturating_add (bo_denied out) 1\<rparr>) else Inr (d, out))"
proof (cases "fetch_memory_by_id d i")
  case None
  moreover from this have "i \<notin> set (row_ids d)" by simp
  ultimately show ?thesis by (simp add: bulk_delete_one_def writable_def barred_def del: fetch_None)
next
  case (Some m)
  then show ?thesis using fetch_mem [OF Some]
    by (intro exI [of _ "tombstone_from_memory m t (Some p)"])
      (simp add: bulk_delete_one_def writable_def barred_def insert_tombstone_def Let_def)
qed

lemma writable_mem: "writable d p i \<Longrightarrow> i \<in> set (row_ids d)"
  by (cases "find_row d i") (auto simp: writable_row row_ids_def dest: find_row_mem)

lemma bulk_delete_fold:
  "\<exists>d' out'. try_fold (bulk_delete_one p t oa) (d, out) ids = Inr (d', out') \<and>
     bo_applied_ids out' = bo_applied_ids out @ first_occurrences {} (filter (writable d p) ids) \<and>
     unat (bo_denied out') = min (unat (bo_denied out) + length (filter (barred d p) ids)) (2 ^ 64 - 1) \<and>
     row_ids d' = filter (\<lambda>i. \<not> (writable d p i \<and> i \<in> set ids)) (row_ids d)"
proof (induction ids arbitrary: d out)
  case Nil
  have "unat (bo_denied out) \<le> 2 ^ 64 - 1" using unsigned_less [of "bo_denied out", where 'a = nat] by simp
  then show ?case by (simp add: min_def)
next
  case (Cons i ids)
  obtain ts where one: "bulk_delete_one p t oa (d, out) i =
     (if writable d p i then Inr (insert_optional_audit_draft i oa (delete_row i (upsert_tombstone ts d)), out\<lparr>bo_applied_ids := bo_applied_ids out @ [i]\<rparr>)
      else if barred d p i then Inr (d, out\<lparr>bo_denied := saturating_add (bo_denied out) 1\<rparr>) else Inr (d, out))"
    using bulk_delete_one_eq by blast
  show ?case
  proof (cases "writable d p i")
    case True
    let ?d = "delete_row i (upsert_tombstone ts d)"
    note acc = bury_access [OF writable_mem [OF True], of ts]
    obtain d' out' where ih: "try_fold (bulk_delete_one p t oa) (insert_optional_audit_draft i oa ?d, out\<lparr>bo_applied_ids := bo_applied_ids out @ [i]\<rparr>) ids = Inr (d', out')"
      "bo_applied_ids out' = bo_applied_ids out @ i # first_occurrences {} (filter (writable ?d p) ids)"
      "unat (bo_denied out') = min (unat (bo_denied out) + length (filter (barred ?d p) ids)) (2 ^ 64 - 1)"
      "row_ids d' = filter (\<lambda>i. \<not> (writable ?d p i \<and> i \<in> set ids)) (row_ids ?d)"
      using Cons.IH [of "insert_optional_audit_draft i oa ?d" "out\<lparr>bo_applied_ids := bo_applied_ids out @ [i]\<rparr>"] by auto
    have w: "writable ?d p = (\<lambda>x. writable d p x \<and> x \<noteq> i)" by (auto simp: fun_eq_iff acc)
    have "\<not> barred d p i" using True by (simp add: barred_def)
    then have "filter (barred ?d p) ids = filter (barred d p) (i # ids)" by (auto simp: acc intro: filter_cong)
    moreover have "i # first_occurrences {} (filter (writable ?d p) ids) = first_occurrences {} (filter (writable d p) (i # ids))"
      using True w by (simp add: first_occurrences_insert)
    moreover have "row_ids d' = filter (\<lambda>j. \<not> (writable d p j \<and> j \<in> set (i # ids))) (row_ids d)"
      using True by (auto simp: ih(4) delete_row_effect(3) acc intro: filter_cong)
    ultimately show ?thesis using one True ih by simp
  next
    case False
    let ?out = "if barred d p i then out\<lparr>bo_denied := saturating_add (bo_denied out) 1\<rparr> else out"
    obtain d' out' where ih: "try_fold (bulk_delete_one p t oa) (d, ?out) ids = Inr (d', out')"
      "bo_applied_ids out' = bo_applied_ids ?out @ first_occurrences {} (filter (writable d p) ids)"
      "unat (bo_denied out') = min (unat (bo_denied ?out) + length (filter (barred d p) ids)) (2 ^ 64 - 1)"
      "row_ids d' = filter (\<lambda>i. \<not> (writable d p i \<and> i \<in> set ids)) (row_ids d)"
      using Cons.IH [of d ?out] by blast
    have "unat (bo_denied out') = min (unat (bo_denied out) + length (filter (barred d p) (i # ids))) (2 ^ 64 - 1)"
      using ih(3) by (auto simp: unat_saturating_add)
    moreover have "row_ids d' = filter (\<lambda>j. \<not> (writable d p j \<and> j \<in> set (i # ids))) (row_ids d)"
      using False by (auto simp: ih(4) intro: filter_cong)
    ultimately show ?thesis using one False ih by (cases "barred d p i") auto
  qed
qed

text \<open>Claim C12. A bulk deletion always completes and is exact: whatever the chunks of the statement, it deletes the listed
  memories the principal may change and no others, reports each of them once in the order of the request, and counts
  every refusal, saturating at the limit of the counter.\<close>

theorem bulk_delete_exact:
  "\<exists>db' out. bulk_delete_ids ids p t audit db = Inr (db', out) \<and>
     bo_applied_ids out = first_occurrences {} (filter (writable db p) ids) \<and>
     unat (bo_denied out) = min (length (filter (barred db p) ids)) (2 ^ 64 - 1) \<and>
     row_ids db' = filter (\<lambda>i. \<not> (writable db p i \<and> i \<in> set ids)) (row_ids db)"
proof (cases "ids = []")
  case True
  then show ?thesis by (simp add: bulk_delete_ids_def bulk_tx_def Let_def)
next
  case False
  then have "bulk_delete_ids ids p t audit db = try_fold (bulk_delete_one p t audit) (db, \<lparr>bo_applied_ids = [], bo_denied = 0\<rparr>) ids"
    by (simp add: bulk_delete_ids_def bulk_tx_def Let_def SQLITE_MAX_CHUNK_def try_fold_chunks)
  then show ?thesis using bulk_delete_fold [of p t audit db "\<lparr>bo_applied_ids = [], bo_denied = 0\<rparr>" ids] by simp
qed

section \<open>Evicting expired memories\<close>

definition evictable :: "datetime \<Rightarrow> expired_cleanup_scope \<Rightarrow> memory_row \<Rightarrow> bool" where
  "evictable now scope r \<longleftrightarrow> (case m_expires_at r of None \<Rightarrow> False | Some e \<Rightarrow> e \<le> now) \<and>
     (case scope of CleanupAll _ \<Rightarrow> True | CleanupAuthorized p \<Rightarrow> write_access_allowed (m_provenance r) (m_access_policy r) p)"

lemma evictable_filter:
  "evictable now scope r \<longleftrightarrow> (case m_expires_at r of None \<Rightarrow> False | Some e \<Rightarrow> e \<le> now) \<and>
     sql_write_filter (authorization_principal scope) (m_provenance r) (m_access_policy r)"
  by (cases scope) (simp_all add: evictable_def, simp add: sql_write_filter_def)

lemma affected_distinct: "distinct (row_ids db) \<Longrightarrow> i \<in> set (row_ids db) \<Longrightarrow> affected i db = 1"
proof -
  have "distinct (map m_id rs) \<Longrightarrow> i \<in> m_id ` set rs \<Longrightarrow> length (filter (\<lambda>r. m_id r = i) rs) = 1" for rs :: "memory_row list"
  proof (induction rs)
    case (Cons r rs)
    then have "m_id r = i \<Longrightarrow> filter (\<lambda>r. m_id r = i) rs = []" unfolding filter_empty_conv by (metis distinct.simps(2) imageI list.set_map list.simps(9))
    with Cons show ?case by (cases "m_id r = i") auto
  qed simp
  then show "distinct (row_ids db) \<Longrightarrow> i \<in> set (row_ids db) \<Longrightarrow> affected i db = 1" by (simp add: affected_def row_ids_def)
qed

definition burial :: "datetime \<Rightarrow> expired_cleanup_scope \<Rightarrow> memory_row \<Rightarrow> memory_tombstone" where
  "burial now scope r = \<lparr>t_memory_id = m_id r, t_provenance = m_provenance r, t_access_policy = m_access_policy r,
     t_deleted_at = now, t_deleted_by_principal = Some (cleanup_actor scope)\<rparr>"

lemma evict_one_eq:
  assumes "evictable now scope r" "distinct (row_ids d)" "m_id r \<in> set (row_ids d)"
  shows "evict_one now scope a (d, n) r = (insert_audit_draft (m_id r) a (delete_row (m_id r) (upsert_tombstone (burial now scope r) d)), n + 1)"
  using assms affected_distinct [OF assms(2,3)]
  by (cases scope) (simp_all add: evict_one_def evictable_def burial_def Let_def)

lemma fetch_tombstone_frame [simp]:
  "fetch_tombstone_by_id (insert_audit_draft i x d) j = fetch_tombstone_by_id d j"
  "fetch_tombstone_by_id (delete_row i d) j = fetch_tombstone_by_id d j"
  by (simp_all add: fetch_tombstone_by_id_def delete_row_tables)

lemma delete_row_rows:
  "i \<in> set (row_ids db) \<Longrightarrow> rows (delete_row i db) = map (freed {i}) (filter (\<lambda>r. m_id r \<noteq> i) (rows db))"
  by (auto simp: delete_row_def affected_def row_ids_def rows_def filter_empty_conv clear_superseded_freed)

lemma evict_fold:
  assumes "distinct (map m_id rs)" "\<forall>r \<in> set rs. evictable now scope r \<and> m_id r \<in> set (row_ids d)" "distinct (row_ids d)"
    "foldl (evict_one now scope a) (d, n) rs = (d', n')"
  shows "rows d' = map (freed (m_id ` set rs)) (filter (\<lambda>r. m_id r \<notin> m_id ` set rs) (rows d)) \<and> n' = n + length rs \<and>
    d_audit d' = d_audit d @ map (\<lambda>r. audit_record (m_id r) a) rs \<and>
    (\<forall>r \<in> set rs. fetch_tombstone_by_id d' (m_id r) = Some (burial now scope r)) \<and>
    (\<forall>j. j \<notin> m_id ` set rs \<longrightarrow> fetch_tombstone_by_id d' j = fetch_tombstone_by_id d j)"
  using assms
proof (induction rs arbitrary: d n)
  case (Cons r rs)
  let ?d = "insert_audit_draft (m_id r) a (delete_row (m_id r) (upsert_tombstone (burial now scope r) d))"
  have one: "evict_one now scope a (d, n) r = (?d, n + 1)" using Cons.prems by (intro evict_one_eq) auto
  have ids: "row_ids ?d = filter (\<lambda>k. k \<noteq> m_id r) (row_ids d)" by (simp add: delete_row_effect(3))
  have "m_id r \<in> set (row_ids d)" using Cons.prems(2) by simp
  then have kept: "rows ?d = map (freed {m_id r}) (filter (\<lambda>x. m_id x \<noteq> m_id r) (rows d))" by (simp add: delete_row_rows)
  have tomb: "fetch_tombstone_by_id ?d j = (if j = m_id r then Some (burial now scope r) else fetch_tombstone_by_id d j)" for j
    using find_upsert_tombstone [of "burial now scope r" d] tombstone_upsert_other [of j "burial now scope r" d]
    by (simp add: burial_def)
  have audit: "d_audit ?d = d_audit d @ [audit_record (m_id r) a]" by (simp add: insert_audit_draft_rows delete_row_tables)
  have fresh: "m_id r \<notin> m_id ` set rs" "\<forall>x \<in> set rs. m_id x \<noteq> m_id r"
    using Cons.prems(1) by (simp_all add: image_iff) force
  have "rows d' = map (freed (m_id ` set rs)) (filter (\<lambda>r. m_id r \<notin> m_id ` set rs) (rows ?d)) \<and> n' = n + 1 + length rs \<and>
    d_audit d' = d_audit ?d @ map (\<lambda>r. audit_record (m_id r) a) rs \<and>
    (\<forall>r \<in> set rs. fetch_tombstone_by_id d' (m_id r) = Some (burial now scope r)) \<and>
    (\<forall>j. j \<notin> m_id ` set rs \<longrightarrow> fetch_tombstone_by_id d' j = fetch_tombstone_by_id ?d j)"
    using Cons.prems fresh one by (intro Cons.IH) (simp_all add: delete_row_effect(3))
  moreover have "map (freed (m_id ` set rs)) (filter (\<lambda>r. m_id r \<notin> m_id ` set rs) (rows ?d)) =
      map (freed (m_id ` set (r # rs))) (filter (\<lambda>x. m_id x \<notin> m_id ` set (r # rs)) (rows d))"
    unfolding kept by (simp add: filter_map comp_def freed_freed conj_commute)
  ultimately show ?case unfolding tomb audit using fresh by auto
qed simp

lemma kept_rows:
  assumes "distinct (map m_id rs)"
  shows "filter (\<lambda>r. m_id r \<notin> m_id ` set (filter P rs)) rs = filter (\<lambda>r. \<not> P r) rs"
  using assms by (intro filter_cong refl) (auto simp: distinct_map inj_on_def)

text \<open>Claim C13. Eviction is exact: it removes the expired memories, for a principal only those the principal may change, and
  keeps every other memory in place and as it was, except that what an evicted memory had superseded is active again at its
  next revision; it returns their number, appends to the audit log exactly one row for each, in the order of expiry and then
  of ids, and leaves each a tombstone with the provenance and policy of the memory under the name of the actor, touching no
  other tombstone.\<close>

theorem eviction_exact:
  assumes "evict_expired_conn now scope a db = (db', k)" and "distinct (row_ids db)"
  shows "rows db' = map (freed {m_id r | r. r \<in> set (rows db) \<and> evictable now scope r})
      (filter (\<lambda>r. \<not> evictable now scope r) (rows db)) \<and>
    k = length (filter (evictable now scope) (rows db)) \<and>
    d_audit db' = d_audit db @ map (\<lambda>r. audit_record (m_id r) a)
      (sort_key (\<lambda>r. the (m_expires_at r)) (sort_key m_id (filter (evictable now scope) (rows db)))) \<and>
    (\<forall>i. fetch_tombstone_by_id db' i = (case find_row db i of
       Some r \<Rightarrow> if evictable now scope r then Some (burial now scope r) else fetch_tombstone_by_id db i
     | None \<Rightarrow> fetch_tombstone_by_id db i))"
proof -
  define rs where "rs = expired_rows now scope db"
  have set: "set rs = set (filter (evictable now scope) (rows db))" "length rs = length (filter (evictable now scope) (rows db))"
    by (simp_all add: rs_def expired_rows_def evictable_filter [abs_def] length_filter_conv_card)
  have "mset rs = mset (filter (evictable now scope) (rows db))"
    by (simp add: rs_def expired_rows_def evictable_filter [abs_def])
  then have "mset (map m_id rs) = mset (map m_id (filter (evictable now scope) (rows db)))" by (simp only: mset_map)
  then have distinct: "distinct (map m_id rs)"
    using assms(2) by (metis mset_eq_imp_distinct_iff distinct_map_filter row_ids_def)
  note e = evict_fold [OF distinct, of now scope db a 0 db' k]
  have run: "rows db' = map (freed (m_id ` set rs)) (filter (\<lambda>r. m_id r \<notin> m_id ` set rs) (rows db)) \<and> k = 0 + length rs \<and>
    d_audit db' = d_audit db @ map (\<lambda>r. audit_record (m_id r) a) rs \<and>
    (\<forall>r \<in> set rs. fetch_tombstone_by_id db' (m_id r) = Some (burial now scope r)) \<and>
    (\<forall>j. j \<notin> m_id ` set rs \<longrightarrow> fetch_tombstone_by_id db' j = fetch_tombstone_by_id db j)"
    using assms set by (intro e) (auto simp: row_ids_def rs_def evict_expired_conn_def)
  have "fetch_tombstone_by_id db' i = (case find_row db i of
       Some r \<Rightarrow> if evictable now scope r then Some (burial now scope r) else fetch_tombstone_by_id db i
     | None \<Rightarrow> fetch_tombstone_by_id db i)" for i
  proof (cases "find_row db i")
    case None
    then have "i \<notin> m_id ` set rs" using set by (auto simp: find_row_None row_ids_def)
    then show ?thesis using run None by simp
  next
    case (Some r)
    then have "r \<in> set (rows db)" "m_id r = i" by (auto dest: find_row_mem)
    then have "r \<in> set rs \<longleftrightarrow> evictable now scope r" by (simp add: set(1))
    moreover have "r \<in> set rs" if "i \<in> m_id ` set rs"
    proof -
      from that obtain x where "x \<in> set rs" "m_id x = i" by auto
      with distinct_row [OF assms(2) Some, of x] show ?thesis by (simp add: set(1))
    qed
    ultimately show ?thesis using run Some \<open>m_id r = i\<close> by (cases "evictable now scope r") auto
  qed
  moreover have "rs = sort_key (\<lambda>r. the (m_expires_at r)) (sort_key m_id (filter (evictable now scope) (rows db)))"
    by (simp add: rs_def expired_rows_def evictable_filter [abs_def])
  moreover have "m_id ` set rs = {m_id r | r. r \<in> set (rows db) \<and> evictable now scope r}" by (auto simp: set(1))
  moreover have "filter (\<lambda>r. m_id r \<notin> m_id ` set rs) (rows db) = filter (\<lambda>r. \<not> evictable now scope r) (rows db)"
    using kept_rows [of "rows db" "evictable now scope"] assms(2) by (simp add: row_ids_def set(1))
  ultimately show ?thesis using run set(2) by simp
qed

section \<open>Recording uses\<close>

definition usable :: "memory_db \<Rightarrow> datetime \<Rightarrow> string \<Rightarrow> memory_id \<Rightarrow> bool" where
  "usable db now p i = (case fetch_memory_by_id db i of None \<Rightarrow> False
     | Some m \<Rightarrow> \<not> expired_at now m \<and> check_access_level m (Some p) = LevelFull)"

definition used :: "f64_arith \<Rightarrow> datetime \<Rightarrow> f64 \<Rightarrow> f64 \<Rightarrow> memory_row \<Rightarrow> memory_row" where
  "used fa now w half_life r = r\<lparr>m_activity_mass := fa_add fa (decay_mass fa (m_activity_mass r) (m_last_used_at r) now half_life) w,
     m_last_used_at := Some now\<rparr>"

lemma row_to_memory_activity [simp]:
  "m_activity_mass (row_to_memory r) = m_activity_mass r" "m_last_used_at (row_to_memory r) = m_last_used_at r"
  by (simp_all add: row_to_memory_def memory.defs)

lemma check_access_level_cong:
  "m_provenance m' = m_provenance m \<Longrightarrow> m_access_policy m' = m_access_policy m \<Longrightarrow> check_access_level m' c = check_access_level m c"
  by (simp only: check_access_level_def)

lemma used_keeps [simp]:
  "m_id (used fa now w hl r) = m_id r" "m_expires_at (used fa now w hl r) = m_expires_at r"
  "check_access_level (row_to_memory (used fa now w hl r)) c = check_access_level (row_to_memory r) c"
  by (simp_all add: used_def) (rule check_access_level_cong; simp)

lemma use_one_eq:
  assumes "distinct (row_ids d)"
  shows "update_single_memory_use fa i p now w hl d =
     (if usable d now p i then (update_row i (used fa now w hl) d, Recorded)
      else if i \<in> set (row_ids d) then (d, UseDenied) else (d, UseNotFound))"
proof (cases "find_row d i")
  case (Some r)
  then have "i \<in> set (row_ids d)" using find_row_None [of d i] by auto
  moreover have "update_row i (\<lambda>x. x\<lparr>m_activity_mass := fa_add fa (decay_mass fa (m_activity_mass r) (m_last_used_at r) now hl) w,
      m_last_used_at := Some now\<rparr>) d = update_row i (used fa now w hl) d"
    unfolding update_row_def using distinct_row [OF assms Some] by (auto simp: used_def intro!: arg_cong2 [of _ _ _ _ set_rows])
  ultimately show ?thesis using Some
    by (simp add: update_single_memory_use_def usable_def fetch_memory_by_id_def Let_def)
qed (simp add: update_single_memory_use_def usable_def fetch_memory_by_id_def find_row_None [symmetric])

lemma usable_after: "usable (update_row i (used fa now w hl) d) now p = usable d now p"
proof
  fix j
  show "usable (update_row i (used fa now w hl) d) now p j = usable d now p j"
    by (cases "find_row d j"; cases "j = i") (simp_all add: usable_def fetch_memory_by_id_def find_row_update expired_at_def)
qed

lemma row_ids_used: "row_ids (update_row i (used fa now w hl) d) = row_ids d"
  by (simp add: row_ids_def)

lemma use_fold:
  assumes "distinct (row_ids d)" "distinct ids"
    "foldl (\<lambda>(db, acc) i. let (db', status) = update_single_memory_use fa i p now w hl db in (db', accumulate_record_use_outcome acc i status))
       (d, out) ids = (d', out')"
  shows "ro_recorded_ids out' = ro_recorded_ids out @ filter (usable d now p) ids \<and>
    unat (ro_recorded out') = min (unat (ro_recorded out) + length (filter (usable d now p) ids)) (2 ^ 64 - 1) \<and>
    unat (ro_denied out') = min (unat (ro_denied out) + length (filter (\<lambda>i. i \<in> set (row_ids d) \<and> \<not> usable d now p i) ids)) (2 ^ 64 - 1) \<and>
    unat (ro_not_found out') = min (unat (ro_not_found out) + length (filter (\<lambda>i. i \<notin> set (row_ids d)) ids)) (2 ^ 64 - 1) \<and>
    (\<forall>j. find_row d' j = (if j \<in> set ids \<and> usable d now p j then map_option (used fa now w hl) (find_row d j) else find_row d j))"
  using assms
proof (induction ids arbitrary: d out)
  case Nil
  have "unat x \<le> 2 ^ 64 - 1" for x :: u64 using unsigned_less [of x, where 'a = nat] by simp
  then show ?case using Nil by (simp add: min_def)
next
  case (Cons i ids)
  let ?d = "if usable d now p i then update_row i (used fa now w hl) d else d"
  let ?s = "if usable d now p i then Recorded else if i \<in> set (row_ids d) then UseDenied else UseNotFound"
  have one: "update_single_memory_use fa i p now w hl d = (?d, ?s)" using use_one_eq [OF Cons.prems(1)] by simp
  have same: "usable ?d now p = usable d now p" "row_ids ?d = row_ids d" by (simp_all add: usable_after row_ids_used)
  have gone: "usable d now p i \<Longrightarrow> i \<in> set (row_ids d)"
    by (cases "fetch_memory_by_id d i") (auto simp: usable_def dest: fetch_mem)
  have find: "find_row ?d j = (if j = i \<and> usable d now p i then map_option (used fa now w hl) (find_row d j) else find_row d j)" for j
    by (simp add: find_row_update)
  note ih = Cons.IH [of ?d "accumulate_record_use_outcome out i ?s", unfolded same]
  have "ro_recorded_ids out' = ro_recorded_ids (accumulate_record_use_outcome out i ?s) @ filter (usable d now p) ids \<and>
    unat (ro_recorded out') = min (unat (ro_recorded (accumulate_record_use_outcome out i ?s)) + length (filter (usable d now p) ids)) (2 ^ 64 - 1) \<and>
    unat (ro_denied out') = min (unat (ro_denied (accumulate_record_use_outcome out i ?s)) + length (filter (\<lambda>i. i \<in> set (row_ids d) \<and> \<not> usable d now p i) ids)) (2 ^ 64 - 1) \<and>
    unat (ro_not_found out') = min (unat (ro_not_found (accumulate_record_use_outcome out i ?s)) + length (filter (\<lambda>i. i \<notin> set (row_ids d)) ids)) (2 ^ 64 - 1) \<and>
    (\<forall>j. find_row d' j = (if j \<in> set ids \<and> usable d now p j then map_option (used fa now w hl) (find_row ?d j) else find_row ?d j))"
    by (rule ih) (use Cons.prems one in simp_all)
  then show ?case using Cons.prems(2) gone unfolding find by (cases "usable d now p i"; cases "i \<in> set (row_ids d)") (auto simp: unat_saturating_add)
qed

text \<open>Recording uses counts each memory once: of the distinct ids given, those that are there, unexpired and readable in
  full by the principal are recorded, in order, each with the decayed mass plus the weight of one event; all others are
  counted as denied or not found, the counters saturating, and no other row changes.\<close>

lemma uses_counted_once:
  assumes "record_memory_use fa ids p w now half_life db = (db', out)" and "distinct (row_ids db)"
  shows "ro_recorded_ids out = filter (usable db now p) (first_occurrences {} ids) \<and>
    unat (ro_recorded out) = min (length (ro_recorded_ids out)) (2 ^ 64 - 1) \<and>
    unat (ro_denied out) = min (card {i \<in> set ids. i \<in> set (row_ids db) \<and> \<not> usable db now p i}) (2 ^ 64 - 1) \<and>
    unat (ro_not_found out) = min (card {i \<in> set ids. i \<notin> set (row_ids db)}) (2 ^ 64 - 1) \<and>
    (\<forall>j. find_row db' j = (if j \<in> set ids \<and> usable db now p j then map_option (used fa now w half_life) (find_row db j) else find_row db j))"
proof -
  note f = use_fold [OF assms(2) first_occurrences_set(2) assms(1) [unfolded record_memory_use_def]]
  have len: "length (filter P (first_occurrences {} ids)) = card {i \<in> set ids. P i}" for P
    using distinct_card [OF distinct_filter [OF first_occurrences_set(2)], of P "{}" ids]
    by (simp add: first_occurrences_set(1))
  show ?thesis using f by (simp add: no_use_def len first_occurrences_set(1))
qed

section \<open>The operations on the sample store\<close>

definition note_memory :: memory where
  "note_memory = sample_memory\<lparr>m_id := 8, m_access_policy := Public, m_expires_at := Some 60\<rparr>"

definition noted :: "memory_id mtx" where
  "noted = store_audited sample_sqlite note_memory (Some [0, 0]) (Some sample_memory_audit) sample_mdb"

definition removed :: "write_outcome mtx" where
  "removed = apply_authorized_delete 7 ''alice'' 50 (Some sample_memory_audit) sample_mdb"

lemma noted_ok: "\<not> isl noted" by code_simp
lemma noted_id: "snd (projr noted) = 8" by code_simp
lemma removed_ok: "\<not> isl removed" by code_simp
lemma removed_applied: "snd (projr removed) = Applied" by code_simp

lemmas noted_eq = mdb_after_eq [OF noted_ok, unfolded noted_id]
lemmas removed_eq = mdb_after_eq [OF removed_ok, unfolded removed_applied]

theorem store_get_roundtrip_witness: "fetch_many True 2 [8] (d_vectors (mdb_after noted)) 8 = Some [0, 0]"
proof -
  have "importance_new (importance_value (m_importance note_memory)) = m_importance note_memory"
    "confidence_new (confidence_value (m_confidence note_memory)) = m_confidence note_memory" "distinct (m_entities note_memory)" by code_simp+
  from store_get_roundtrip [OF noted_eq [unfolded noted_def] sample_mdb_ok this]
  have "fetch_many (ss_le sample_sqlite) (ss_dimensions sample_sqlite) [8] (d_vectors (mdb_after noted)) 8 = Some [0, 0]"
    unfolding noted_def by blast
  then show ?thesis by (simp add: sample_sqlite_def)
qed

theorem authorized_delete_complete_witness: "fetch_memory_by_id (mdb_after removed) 7 = None"
  unfolding removed_def using authorized_delete_complete [OF removed_eq [unfolded removed_def] sample_mdb_ok] by (elim exE conjE)

theorem eviction_exact_witness:
  "row_ids (fst (evict_expired_conn 70 (CleanupAuthorized ''alice'') sample_memory_audit (mdb_after noted))) = [7]"
proof -
  have "distinct (row_ids (mdb_after noted))" by code_simp
  moreover have "map m_id (filter (\<lambda>r. \<not> evictable 70 (CleanupAuthorized ''alice'') r) (rows (mdb_after noted))) = [7]" by code_simp
  ultimately show ?thesis
    using eviction_exact [OF prod.collapse [symmetric], where now = 70 and scope = "CleanupAuthorized ''alice''" and a = sample_memory_audit
        and db = "mdb_after noted"] by (simp add: row_ids_def comp_def)
qed

end
