(* ===== verification/Memory_Filter.thy ===== *)
theory Memory_Filter
  imports Memory_Store
begin

text \<open>
  Memory filters: \<^verbatim>\<open>MemoryFilter\<close> and \<^verbatim>\<open>TimeRange\<close> of \<^verbatim>\<open>src/src/types.rs\<close> and the filtering half of
  \<^verbatim>\<open>src/src/store/query.rs\<close>: the filter as SQL conditions (\<^verbatim>\<open>WhereClause::from_filter\<close>), as Rust
  predicates on a memory, and its application to the view of a caller
  (\<^verbatim>\<open>apply_access_policy_for_filter\<close>).

  A condition of the clause is the truth of the SQL expression on a row; a comparison with
  \<^verbatim>\<open>NULL\<close> is not true. \<open>sql_like\<close> is SQLite's \<^verbatim>\<open>LIKE ... ESCAPE\<close>: both texts end at their first NUL byte,
  letters fold for ASCII only, and \<^verbatim>\<open>%\<close> may stop at any byte, which changes nothing for patterns of whole
  characters. For a pattern of more than \<open>MAX_LIKE_PATTERN_LENGTH\<close> bytes SQLite raises an error, which is outside
  the model: the theorems on what a text filter or a text search finds ask for \<open>like_fits\<close>. \<open>lc\<close> is
  \<^verbatim>\<open>str::to_lowercase\<close>.
\<close>

section \<open>Filters\<close>

record time_range =
  tr_after :: "datetime option"
  tr_before :: "datetime option"

record memory_filter =
  mf_context_ids :: "context_id list option"
  mf_legacy_context_ids_any :: "context_id list option"
  mf_explicit_context_filter :: bool
  mf_tags :: "string list option"
  mf_agent_label :: "string option"
  mf_scope :: "string option"
  mf_origin_scope :: "string option"
  mf_scopes_any :: "string list option"
  mf_time_range :: "time_range option"
  mf_text_search :: "string option"
  mf_has_embedding :: "bool option"
  mf_limit :: "nat option"
  mf_memory_type :: "memory_type option"
  mf_include_superseded :: "bool option"
  mf_entity :: "string option"
  mf_entities_any :: "string list option"
  mf_entity_type :: "string option"

definition memory_filter_default :: memory_filter where
  "memory_filter_default =
     \<lparr>mf_context_ids = None, mf_legacy_context_ids_any = None, mf_explicit_context_filter = False, mf_tags = None,
      mf_agent_label = None, mf_scope = None, mf_origin_scope = None, mf_scopes_any = None, mf_time_range = None,
      mf_text_search = None, mf_has_embedding = None, mf_limit = None, mf_memory_type = None,
      mf_include_superseded = None, mf_entity = None, mf_entities_any = None, mf_entity_type = None\<rparr>"

text \<open>A guard \<^verbatim>\<open>if let Some(x) = ... && !p(x) { return false; }\<close>.\<close>

definition when_some :: "'a option \<Rightarrow> ('a \<Rightarrow> bool) \<Rightarrow> bool" where
  "when_some x p = (case x of None \<Rightarrow> True | Some v \<Rightarrow> p v)"

lemma when_some_simps [simp]: "when_some None p" "when_some (Some v) p = p v"
  by (simp_all add: when_some_def)

lemma when_some_mono: "when_some x p \<Longrightarrow> (\<And>v. x = Some v \<Longrightarrow> p v \<Longrightarrow> q v) \<Longrightarrow> when_some x q"
  by (cases x) auto

section \<open>Text matching\<close>

definition is_ascii :: "string \<Rightarrow> bool" where
  "is_ascii s \<longleftrightarrow> list_all (\<lambda>c. byte c < 128) s"

definition escape_like :: "string \<Rightarrow> string" where
  "escape_like s = concat (map (\<lambda>c. if c = CHR 0x5C \<or> c = CHR ''%'' \<or> c = CHR ''_'' then [CHR 0x5C, c] else [c]) s)"

definition contains_case_insensitive_ascii :: "(string \<Rightarrow> string) \<Rightarrow> string \<Rightarrow> string \<Rightarrow> bool" where
  "contains_case_insensitive_ascii lc haystack needle =
     (if needle = [] then True
      else if is_ascii haystack
      then (if length needle > length haystack then False
            else list_ex (\<lambda>start. list_all (\<lambda>(h, n). ascii_lower h = n)
                   (zip (take (length needle) (drop start haystack)) needle))
                 [0..<length haystack + 1 - length needle])
      else contains_str needle (lc haystack))"

text \<open>SQLite's \<^verbatim>\<open>LIKE\<close> with \<^verbatim>\<open>ESCAPE '\'\<close>: pattern first, both read as C strings.\<close>

definition c_string :: "string \<Rightarrow> string" where
  "c_string = takeWhile (\<lambda>c. c \<noteq> CHR 0x00)"

definition utf8_continuation :: "char \<Rightarrow> bool" where
  "utf8_continuation c \<longleftrightarrow> 128 \<le> byte c \<and> byte c < 192"

function like_compare :: "string \<Rightarrow> string \<Rightarrow> bool" where
  "like_compare [] s = (s = [])"
| "like_compare (p # ps) s =
     (if p = CHR ''%'' then like_compare ps s \<or> (case s of [] \<Rightarrow> False | c # cs \<Rightarrow> like_compare (p # ps) cs)
      else if p = CHR ''_'' then (case s of [] \<Rightarrow> False | c # cs \<Rightarrow> like_compare ps (dropWhile utf8_continuation cs))
      else if p = CHR 0x5C then
        (case ps of [] \<Rightarrow> False
         | q # qs \<Rightarrow> (case s of [] \<Rightarrow> False | c # cs \<Rightarrow> ascii_lower q = ascii_lower c \<and> like_compare qs cs))
      else (case s of [] \<Rightarrow> False | c # cs \<Rightarrow> ascii_lower p = ascii_lower c \<and> like_compare ps cs))"
  by pat_completeness auto
termination
  by (relation "measure (\<lambda>(p, s). length p + length s)") (auto simp: less_Suc_eq_le le_SucI length_dropWhile_le)

definition sql_like :: "string \<Rightarrow> string \<Rightarrow> bool" where
  "sql_like pattern s = like_compare (c_string pattern) (c_string s)"

text \<open>The default of \<^verbatim>\<open>SQLITE_MAX_LIKE_PATTERN_LENGTH\<close>.\<close>

definition MAX_LIKE_PATTERN_LENGTH :: nat where "MAX_LIKE_PATTERN_LENGTH = 50000"

definition like_pattern :: "string \<Rightarrow> string" where
  "like_pattern text = ''%'' @ escape_like text @ ''%''"

definition like_fits :: "string \<Rightarrow> bool" where
  "like_fits text \<longleftrightarrow> length (like_pattern text) \<le> MAX_LIKE_PATTERN_LENGTH"

definition normalize_filter :: "(string \<Rightarrow> string) \<Rightarrow> memory_filter \<Rightarrow> memory_filter" where
  "normalize_filter lc f =
     (case mf_text_search f of
        None \<Rightarrow> f
      | Some text \<Rightarrow> (let trimmed = lc (trim text) in
          f\<lparr>mf_text_search := if trimmed = [] then None else Some trimmed\<rparr>))"

section \<open>The filter on a memory\<close>

definition needs_entity_hydration :: "memory_filter \<Rightarrow> bool" where
  "needs_entity_hydration f \<longleftrightarrow> mf_entity f \<noteq> None \<or> mf_entities_any f \<noteq> None \<or> mf_entity_type f \<noteq> None"

definition in_time_range :: "time_range \<Rightarrow> datetime \<Rightarrow> bool" where
  "in_time_range tr t \<longleftrightarrow> when_some (tr_after tr) (\<lambda>after. t \<ge> after) \<and> when_some (tr_before tr) (\<lambda>before. t < before)"

definition matches_non_access_filter :: "(string \<Rightarrow> string) \<Rightarrow> memory \<Rightarrow> memory_filter \<Rightarrow> datetime \<Rightarrow> bool" where
  "matches_non_access_filter lc m f now \<longleftrightarrow>
     when_some (mf_tags f) (\<lambda>tags. tags = [] \<or> list_ex (\<lambda>t. t \<in> set (m_tags m)) tags) \<and>
     when_some (mf_agent_label f) (\<lambda>agent. p_source_agent (m_provenance m) = Some agent) \<and>
     when_some (mf_scope f) (\<lambda>scope. p_source_conversation (m_provenance m) = Some scope) \<and>
     when_some (mf_origin_scope f) (\<lambda>origin_scope.
       or_else (p_origin_conversation (m_provenance m)) (p_source_conversation (m_provenance m)) = Some origin_scope) \<and>
     when_some (mf_scopes_any f) (\<lambda>scopes. scopes = [] \<or>
       (case p_source_conversation (m_provenance m) of None \<Rightarrow> False | Some scope_key \<Rightarrow> scope_key \<in> set scopes)) \<and>
     when_some (mf_entity f) (\<lambda>entity. list_ex (\<lambda>e. e_name e = entity) (m_entities m)) \<and>
     when_some (mf_entities_any f) (\<lambda>names. names = [] \<or> list_ex (\<lambda>e. e_name e \<in> set names) (m_entities m)) \<and>
     when_some (mf_entity_type f) (\<lambda>ty. list_ex (\<lambda>e. entity_type_str (e_type e) = ty) (m_entities m)) \<and>
     when_some (mf_time_range f) (\<lambda>tr. in_time_range tr (m_created_at m)) \<and>
     when_some (mf_text_search f) (\<lambda>text. contains_case_insensitive_ascii lc (m_content m) text) \<and>
     when_some (mf_has_embedding f) (\<lambda>b. m_has_embedding m = b) \<and>
     when_some (mf_memory_type f) (\<lambda>t. m_memory_type m = t) \<and>
     (mf_include_superseded f = Some True \<or> m_superseded_by m = None) \<and>
     \<not> expired_at now m"

definition matches_lifecycle_filter :: "memory \<Rightarrow> memory_filter \<Rightarrow> datetime \<Rightarrow> bool" where
  "matches_lifecycle_filter m f now \<longleftrightarrow>
     (mf_include_superseded f = Some True \<or> m_superseded_by m = None) \<and> when_some (m_expires_at m) (\<lambda>e. now < e)"

definition apply_access_policy_for_filter ::
  "(string \<Rightarrow> string) \<Rightarrow> memory \<Rightarrow> memory_filter \<Rightarrow> string option \<Rightarrow> datetime \<Rightarrow> memory option" where
  "apply_access_policy_for_filter lc m f caller now =
     (if \<not> matches_lifecycle_filter m f now then None
      else case (case check_access_level m caller of
                   LevelFull \<Rightarrow> Some m | LevelRedacted \<Rightarrow> Some (redacted m) | LevelDenied \<Rightarrow> None) of
          None \<Rightarrow> None
        | Some v \<Rightarrow>
            if m_was_redacted v \<and> m_superseded_by m \<noteq> None then None
            else if m_was_redacted v \<and> mf_explicit_context_filter f then None
            else if \<not> matches_non_access_filter lc v f now then None
            else if mf_text_search f \<noteq> None \<and> \<not> content_searchable_by v caller then None
            else Some v)"

section \<open>The filter in SQL\<close>

text \<open>The memberships of a memory in active contexts, with the kind of the context.\<close>

definition active_memberships :: "memory_db \<Rightarrow> memory_id \<Rightarrow> (context_id \<times> context_kind) list" where
  "active_memberships db i =
     [(mc_context_id mc, cd_kind (cx_def cx)). mc \<leftarrow> t_memory_contexts (d_ctx db), cx \<leftarrow> t_contexts (d_ctx db),
        mc_memory_id mc = i \<and> cd_id (cx_def cx) = mc_context_id mc \<and> cd_lifecycle (cx_def cx) = Active]"

text \<open>The context conditions: some active membership, and for every active membership a selected one
  of the same kind; the compatibility adapter asks for any selected active membership.\<close>

definition context_conditions :: "memory_db \<Rightarrow> memory_filter \<Rightarrow> memory_id \<Rightarrow> bool" where
  "context_conditions db f i \<longleftrightarrow>
     when_some (mf_context_ids f) (\<lambda>ids.
       active_memberships db i \<noteq> [] \<and>
       (ids = [] \<or> \<not> list_ex (\<lambda>(_, attached). \<not> list_ex (\<lambda>(c, compatible). compatible = attached \<and> c \<in> set ids)
                           (active_memberships db i)) (active_memberships db i))) \<and>
     when_some (mf_legacy_context_ids_any f) (\<lambda>ids.
       ids = [] \<or> list_ex (\<lambda>(c, _). c \<in> set ids) (active_memberships db i))"

definition entity_rows :: "memory_db \<Rightarrow> memory_id \<Rightarrow> entity list" where
  "entity_rows db i = map snd (filter (\<lambda>(m, _). m = i) (d_entities db))"

definition sql_eq :: "'a option \<Rightarrow> 'a \<Rightarrow> bool" where
  "sql_eq column v = (case column of None \<Rightarrow> False | Some x \<Rightarrow> x = v)"

definition sql_in :: "'a option \<Rightarrow> 'a list \<Rightarrow> bool" where
  "sql_in column vs = (case column of None \<Rightarrow> False | Some x \<Rightarrow> x \<in> set vs)"

text \<open>The conditions of the clause other than those on contexts.\<close>

definition column_conditions :: "memory_db \<Rightarrow> memory_filter \<Rightarrow> string option \<Rightarrow> datetime \<Rightarrow> memory_row \<Rightarrow> bool" where
  "column_conditions db f caller now r \<longleftrightarrow>
     (case m_expires_at r of None \<Rightarrow> True | Some e \<Rightarrow> e > now) \<and>
     when_some (mf_time_range f) (\<lambda>tr. when_some (tr_after tr) (\<lambda>after. m_created_at r \<ge> after) \<and>
       when_some (tr_before tr) (\<lambda>before. m_created_at r < before)) \<and>
     when_some (mf_agent_label f) (sql_eq (p_source_agent (m_provenance r))) \<and>
     when_some (mf_scope f) (sql_eq (p_source_conversation (m_provenance r))) \<and>
     when_some (mf_origin_scope f)
       (sql_eq (or_else (p_origin_conversation (m_provenance r)) (p_source_conversation (m_provenance r)))) \<and>
     when_some (mf_scopes_any f) (\<lambda>scopes. scopes = [] \<or> sql_in (p_source_conversation (m_provenance r)) scopes) \<and>
     when_some (mf_text_search f) (\<lambda>text. sql_like (like_pattern text) (m_content r)) \<and>
     when_some (mf_has_embedding f) (\<lambda>b. m_has_embedding r = b) \<and>
     when_some (mf_tags f) (\<lambda>tags. tags = [] \<or> list_ex (\<lambda>t. t \<in> set tags) (m_tags r)) \<and>
     when_some (mf_memory_type f) (\<lambda>t. memory_type_to_string (m_memory_type r) = memory_type_to_string t) \<and>
     (mf_include_superseded f = Some True \<or> m_superseded_by r = None) \<and>
     when_some (mf_entity f) (\<lambda>entity. list_ex (\<lambda>e. e_name e = entity) (entity_rows db (m_id r))) \<and>
     when_some (mf_entities_any f) (\<lambda>names. names = [] \<or> list_ex (\<lambda>e. e_name e \<in> set names) (entity_rows db (m_id r))) \<and>
     when_some (mf_entity_type f) (\<lambda>ty. list_ex (\<lambda>e. entity_type_str (e_type e) = ty) (entity_rows db (m_id r))) \<and>
     (caller = None \<longrightarrow> access_policy_to_string (m_access_policy r) = ''public'')"

definition from_filter :: "memory_db \<Rightarrow> memory_filter \<Rightarrow> string option \<Rightarrow> datetime \<Rightarrow> memory_row \<Rightarrow> bool" where
  "from_filter db f caller now r \<longleftrightarrow> column_conditions db f caller now r \<and> context_conditions db f (m_id r)"

section \<open>Text matching agrees\<close>

declare like_compare.simps(2) [simp del]

lemma like_compare_percent: "like_compare (CHR ''%'' # p) s \<longleftrightarrow> like_compare p s \<or> (\<exists>c cs. s = c # cs \<and> like_compare (CHR ''%'' # p) cs)"
  by (subst like_compare.simps(2)) (auto split: list.splits)

lemma like_compare_any [simp]: "like_compare ''%'' s"
  by (induction s) (subst like_compare_percent, simp)+

lemma escape_like_simps [simp]:
  "escape_like [] = []"
  "escape_like (c # s) = (if c = CHR 0x5C \<or> c = CHR ''%'' \<or> c = CHR ''_'' then [CHR 0x5C, c] else [c]) @ escape_like s"
  by (simp_all add: escape_like_def)

lemma like_compare_escaped_char:
  "like_compare ((if c = CHR 0x5C \<or> c = CHR ''%'' \<or> c = CHR ''_'' then [CHR 0x5C, c] else [c]) @ p) s \<longleftrightarrow>
     (\<exists>d ds. s = d # ds \<and> ascii_lower c = ascii_lower d \<and> like_compare p ds)"
  by (auto simp: like_compare.simps(2) split: list.splits)

lemma like_compare_escaped: "like_compare (escape_like t @ ''%'') s \<longleftrightarrow> starts_with (to_ascii_lowercase t) (to_ascii_lowercase s)"
proof (induction t arbitrary: s)
  case (Cons c t)
  then show ?case
    by (cases s) (simp_all only: escape_like_simps append_assoc like_compare_escaped_char, auto simp: to_ascii_lowercase_def)
qed (simp add: to_ascii_lowercase_def)

lemma contains_str_iff: "contains_str p s \<longleftrightarrow> (\<exists>a b. s = a @ p @ b)"
proof (induction s)
  case (Cons c s)
  have "(\<exists>a b. c # s = a @ p @ b) \<longleftrightarrow> (\<exists>b. c # s = p @ b) \<or> (\<exists>a b. s = a @ p @ b)"
    by (metis append_Cons append_Nil list.exhaust list.inject)
  then show ?case using Cons.IH by (simp add: starts_with_iff)
qed auto

lemma like_compare_literal: "like_compare (like_pattern t) s \<longleftrightarrow> contains_str (to_ascii_lowercase t) (to_ascii_lowercase s)"
proof (induction s)
  case Nil
  have "like_compare (like_pattern t) [] \<longleftrightarrow> like_compare (escape_like t @ ''%'') []"
    by (simp add: like_pattern_def) (subst like_compare_percent, simp)
  then show ?case
    by (simp add: like_compare_escaped) (cases t; simp add: to_ascii_lowercase_def)
next
  case (Cons c s)
  have "like_compare (like_pattern t) (c # s) \<longleftrightarrow> like_compare (escape_like t @ ''%'') (c # s) \<or> like_compare (like_pattern t) s"
    by (simp add: like_pattern_def) (subst like_compare_percent, simp)
  then show ?case
    by (simp add: Cons.IH like_compare_escaped) (simp add: to_ascii_lowercase_def)
qed

definition nul_free :: "string \<Rightarrow> bool" where
  "nul_free s \<longleftrightarrow> CHR 0x00 \<notin> set s"

lemma c_string_nul_free: "nul_free s \<Longrightarrow> c_string s = s"
  unfolding c_string_def nul_free_def by (auto simp: takeWhile_eq_all_conv)

lemma nul_free_pattern: "nul_free t \<Longrightarrow> nul_free (like_pattern t)"
  by (auto simp: nul_free_def like_pattern_def escape_like_def split: if_splits)

lemma sql_like_literal:
  "nul_free t \<Longrightarrow> nul_free s \<Longrightarrow> sql_like (like_pattern t) s \<longleftrightarrow> contains_str (to_ascii_lowercase t) (to_ascii_lowercase s)"
  by (simp add: sql_like_def c_string_nul_free nul_free_pattern like_compare_literal)

lemma contains_case_insensitive_ascii_eq:
  assumes "is_ascii h"
  shows "contains_case_insensitive_ascii lc h n \<longleftrightarrow> contains_str n (to_ascii_lowercase h)"
proof -
  have pointwise: "list_all (\<lambda>(h, n). ascii_lower h = n) (zip u n) \<longleftrightarrow> to_ascii_lowercase u = n" if "length u = length n" for u
    using that by (induction u n rule: list_induct2) (simp_all add: to_ascii_lowercase_def)
  have "(\<exists>k. k < length h + 1 - length n \<and> to_ascii_lowercase (take (length n) (drop k h)) = n) \<longleftrightarrow>
      (\<exists>a b. to_ascii_lowercase h = a @ n @ b)" (is "?at \<longleftrightarrow> ?occurs") if "length n \<le> length h"
  proof
    assume ?at
    then show ?occurs
      by (metis append_take_drop_id map_append to_ascii_lowercase_def)
  next
    assume ?occurs
    then obtain a b where ab: "map ascii_lower h = a @ n @ b" by (auto simp: to_ascii_lowercase_def)
    then have "length h = length a + length n + length b" by (metis length_append length_map add.assoc)
    moreover have "map ascii_lower (take (length n) (drop (length a) h)) = n"
      using ab by (simp flip: take_map drop_map)
    ultimately show ?at by (intro exI [of _ "length a"]) (simp add: to_ascii_lowercase_def)
  qed
  then have at: "list_ex (\<lambda>k. list_all (\<lambda>(h, n). ascii_lower h = n) (zip (take (length n) (drop k h)) n)) [0..<length h + 1 - length n] \<longleftrightarrow>
      contains_str n (to_ascii_lowercase h)" if "length n \<le> length h"
    using that by (auto simp: list_ex_iff pointwise Bex_def contains_str_iff)
  have short: "length n \<le> length h" if "contains_str n (to_ascii_lowercase h)"
    using that by (metis contains_str_iff le_add1 le_add2 le_trans length_append length_to_ascii_lowercase)
  have "contains_str [] (to_ascii_lowercase h)" by (simp add: contains_str_iff) (metis append_Nil)
  with assms at short show ?thesis
    by (auto simp: contains_case_insensitive_ascii_def not_less)
qed

section \<open>What a filtered view says about the row\<close>

lemma check_access_level_redacted_view:
  assumes "check_access_level m caller = LevelRedacted"
  shows "check_access_level (redacted m) caller = LevelRedacted \<and> (\<exists>fs. m_access_policy m = Redacted fs)"
  using assms
  by (cases "m_access_policy m"; cases caller)
    (auto simp: check_access_level_def redacted_def provenance_default_def Let_def split: if_splits option.splits)

lemma redacted_simps [simp]:
  "m_was_redacted (redacted m)" "m_access_policy (redacted m) = m_access_policy m" "m_id (redacted m) = m_id m"
  "m_created_at (redacted m) = m_created_at m" "m_superseded_by (redacted m) = m_superseded_by m"
  "m_has_embedding (redacted m) = m_has_embedding m" "m_memory_type (redacted m) = m_memory_type m"
  by (simp_all add: redacted_def Let_def)

lemma redacted_fields:
  assumes "m_access_policy m = Redacted fs"
  shows "m_content (redacted m) = (if FieldContent \<in> set fs then m_content m else ''[redacted]'')"
    "m_tags (redacted m) = (if FieldTags \<in> set fs then m_tags m else [])"
    "m_provenance (redacted m) = (if FieldProvenance \<in> set fs then m_provenance m else provenance_default)"
    "m_entities (redacted m) = (if FieldEntities \<in> set fs then m_entities m else [])"
    "m_expires_at (redacted m) = (if FieldExpiresAt \<in> set fs then m_expires_at m else None)"
  using assms by (simp_all add: redacted_def Let_def)

text \<open>When a redacted view passes the filter and the text filter only reads a visible content, the
  memory passes it as well: a hidden field never matches.\<close>

lemma redacted_view_matches:
  assumes policy: "m_access_policy m = Redacted fs"
    and view: "matches_non_access_filter lc (redacted m) f now"
    and searched: "mf_text_search f \<noteq> None \<Longrightarrow> FieldContent \<in> set fs"
    and live: "matches_lifecycle_filter m f now"
  shows "matches_non_access_filter lc m f now"
proof -
  have "when_some (mf_tags f) (\<lambda>tags. tags = [] \<or> list_ex (\<lambda>t. t \<in> set (m_tags m)) tags)"
    "when_some (mf_entity f) (\<lambda>entity. list_ex (\<lambda>e. e_name e = entity) (m_entities m))"
    "when_some (mf_entities_any f) (\<lambda>names. names = [] \<or> list_ex (\<lambda>e. e_name e \<in> set names) (m_entities m))"
    "when_some (mf_entity_type f) (\<lambda>ty. list_ex (\<lambda>e. entity_type_str (e_type e) = ty) (m_entities m))"
    "when_some (mf_text_search f) (\<lambda>t. contains_case_insensitive_ascii lc (m_content m) t)"
    "when_some (mf_agent_label f) (\<lambda>agent. p_source_agent (m_provenance m) = Some agent)"
    "when_some (mf_scope f) (\<lambda>scope. p_source_conversation (m_provenance m) = Some scope)"
    "when_some (mf_origin_scope f) (\<lambda>origin. or_else (p_origin_conversation (m_provenance m)) (p_source_conversation (m_provenance m)) = Some origin)"
    "when_some (mf_scopes_any f) (\<lambda>scopes. scopes = [] \<or>
       (case p_source_conversation (m_provenance m) of None \<Rightarrow> False | Some scope_key \<Rightarrow> scope_key \<in> set scopes))"
    using view searched unfolding matches_non_access_filter_def
    by (auto elim!: when_some_mono simp: redacted_fields [OF policy] provenance_default_def or_else_def list_ex_iff split: if_splits)
  moreover have "\<not> expired_at now m"
    using live by (auto simp: matches_lifecycle_filter_def expired_at_def split: option.splits)
  ultimately show ?thesis
    using view live by (simp add: matches_non_access_filter_def matches_lifecycle_filter_def)
qed

lemma filtered_view_cases:
  assumes "apply_access_policy_for_filter lc m f caller now = Some v"
  obtains (Full) "check_access_level m caller = LevelFull" "v = m" "matches_non_access_filter lc m f now"
      "mf_text_search f = None \<or> content_searchable_by m caller"
    | (Redacted) fs where "check_access_level m caller = LevelRedacted" "m_access_policy m = Redacted fs" "v = redacted m"
      "m_superseded_by m = None" "\<not> mf_explicit_context_filter f" "matches_non_access_filter lc (redacted m) f now"
      "mf_text_search f = None \<or> FieldContent \<in> set fs" "matches_lifecycle_filter m f now"
proof -
  have "matches_lifecycle_filter m f now"
    using assms by (simp add: apply_access_policy_for_filter_def split: if_splits)
  with assms that check_access_level_redacted_view [of m caller] show thesis
    by (auto simp: apply_access_policy_for_filter_def content_searchable_by_def
        split: if_splits access_level.splits)
qed

lemma filtered_view_matches:
  assumes "apply_access_policy_for_filter lc m f caller now = Some v"
  shows "matches_non_access_filter lc m f now"
  using assms by (cases rule: filtered_view_cases) (auto intro: redacted_view_matches)

text \<open>Applying the access policy to a filtered view again changes nothing.\<close>

lemma redacted_redacted: "redacted (redacted m) = redacted m"
  by (simp add: redacted_def Let_def)

lemma filtered_view_stable:
  assumes "apply_access_policy_for_filter lc m f caller now = Some v"
  shows "apply_access_policy v caller = Some v"
  using assms
  by (cases rule: filtered_view_cases)
    (simp_all add: apply_access_policy_def check_access_level_redacted_view redacted_redacted)

section \<open>The clause loses nothing\<close>

text \<open>A row as the scan hands it to the access policy: its columns with its entities.\<close>

definition hydrated :: "sqlite_store \<Rightarrow> memory_db \<Rightarrow> memory_row \<Rightarrow> memory" where
  "hydrated st db r = (row_to_memory r)\<lparr>m_entities := ss_entity_scan st (entity_rows db (m_id r))\<rparr>"

text \<open>The order in which SQLite returns the entity rows is open; which rows it returns is not.\<close>

definition scan_returns_rows :: "sqlite_store \<Rightarrow> bool" where
  "scan_returns_rows st \<longleftrightarrow> (\<forall>es. set (ss_entity_scan st es) = set es)"

text \<open>Text on which SQLite's \<^verbatim>\<open>LIKE\<close> and Rust's lower-casing agree.\<close>

definition plain_text :: "string \<Rightarrow> bool" where
  "plain_text s \<longleftrightarrow> list_all (\<lambda>c. 0 < byte c \<and> byte c < 128) s"

lemma plain_text_ascii: "plain_text s \<Longrightarrow> is_ascii s"
  by (auto simp: plain_text_def is_ascii_def list_all_iff)

lemma hydrated_simps [simp]:
  "m_id (hydrated st db r) = m_id r" "m_content (hydrated st db r) = m_content r" "m_tags (hydrated st db r) = m_tags r"
  "m_provenance (hydrated st db r) = m_provenance r" "m_access_policy (hydrated st db r) = m_access_policy r"
  "m_created_at (hydrated st db r) = m_created_at r" "m_expires_at (hydrated st db r) = m_expires_at r"
  "m_has_embedding (hydrated st db r) = m_has_embedding r" "m_memory_type (hydrated st db r) = m_memory_type r"
  "m_superseded_by (hydrated st db r) = m_superseded_by r" "\<not> m_was_redacted (hydrated st db r)"
  "m_entities (hydrated st db r) = ss_entity_scan st (entity_rows db (m_id r))"
  by (simp_all add: hydrated_def row_to_memory_def memory.truncate_def)

lemma entity_scan_ex [simp]:
  "scan_returns_rows st \<Longrightarrow> list_ex P (ss_entity_scan st es) = list_ex P es"
  by (simp add: scan_returns_rows_def list_ex_iff)

lemma contains_lower:
  "contains_str t (to_ascii_lowercase s) \<Longrightarrow> contains_str (to_ascii_lowercase t) (to_ascii_lowercase s)"
  unfolding contains_str_iff by (metis map_append to_ascii_lowercase_def to_ascii_lowercase_idem)

lemma plain_text_nul_free: "plain_text s \<Longrightarrow> nul_free s"
  by (auto simp: plain_text_def nul_free_def list_all_iff byte_def)

lemma nul_free_to_ascii_lowercase: "nul_free s \<Longrightarrow> nul_free (to_ascii_lowercase s)"
proof -
  have "char_of (n + 32) \<noteq> CHR 0x00" if "n \<le> 90" for n :: nat
  proof
    assume "char_of (n + 32) = CHR 0x00"
    from arg_cong [OF this, of byte] show False using that by (simp add: byte_def)
  qed
  then have "c = CHR 0x00" if "CHR 0x00 = ascii_lower c" for c using that by (auto simp: ascii_lower_def split: if_splits)
  then show "nul_free s \<Longrightarrow> nul_free (to_ascii_lowercase s)" unfolding nul_free_def to_ascii_lowercase_def by (metis imageE list.set_map)
qed

lemma like_of_match:
  assumes "contains_case_insensitive_ascii lc s t" and "plain_text s"
  shows "sql_like (like_pattern t) s"
proof -
  have c: "contains_str t (to_ascii_lowercase s)"
    using assms by (simp add: contains_case_insensitive_ascii_eq plain_text_ascii)
  then have "nul_free t"
    using nul_free_to_ascii_lowercase [OF plain_text_nul_free [OF assms(2)]] by (auto simp: contains_str_iff nul_free_def)
  with c show ?thesis using assms(2) by (simp add: sql_like_literal contains_lower plain_text_nul_free)
qed

lemma column_conditions_of_match:
  assumes scan: "scan_returns_rows st"
    and m: "matches_non_access_filter lc (hydrated st db r) f now"
    and like: "\<And>t. mf_text_search f = Some t \<Longrightarrow> sql_like (like_pattern t) (m_content r)"
    and public: "caller = None \<Longrightarrow> m_access_policy r = Public"
  shows "column_conditions db f caller now r"
proof -
  have "when_some (mf_text_search f) (\<lambda>t. sql_like (like_pattern t) (m_content r))"
    using like by (cases "mf_text_search f") auto
  moreover have "when_some (mf_tags f) (\<lambda>tags. tags = [] \<or> list_ex (\<lambda>t. t \<in> set tags) (m_tags r))"
    using m unfolding matches_non_access_filter_def by (elim conjE when_some_mono) (auto simp: list_ex_iff)
  moreover have "when_some (mf_agent_label f) (sql_eq (p_source_agent (m_provenance r)))"
    "when_some (mf_scope f) (sql_eq (p_source_conversation (m_provenance r)))"
    "when_some (mf_origin_scope f)
       (sql_eq (or_else (p_origin_conversation (m_provenance r)) (p_source_conversation (m_provenance r))))"
    using m unfolding matches_non_access_filter_def by (auto elim!: when_some_mono simp: sql_eq_def)
  moreover have "when_some (mf_memory_type f) (\<lambda>t. memory_type_to_string (m_memory_type r) = memory_type_to_string t)"
    using m unfolding matches_non_access_filter_def by (auto elim!: when_some_mono)
  moreover have "when_some (mf_scopes_any f) (\<lambda>scopes. scopes = [] \<or> sql_in (p_source_conversation (m_provenance r)) scopes)"
    using m by (simp add: matches_non_access_filter_def sql_in_def)
  ultimately show ?thesis
    using m public scan
    by (auto simp: column_conditions_def matches_non_access_filter_def in_time_range_def expired_at_def
        split: option.splits)
qed

lemma denied_without_caller: "check_access_level m None \<noteq> LevelDenied \<Longrightarrow> m_access_policy m = Public"
  by (cases "m_access_policy m") (simp_all add: check_access_level_def)

text \<open>The text condition of the clause, on the only rows for which it may fail to follow from the
  view.\<close>

lemma filtered_view_in_clause:
  assumes scan: "scan_returns_rows st"
    and v: "apply_access_policy_for_filter lc (hydrated st db r) f caller now = Some v"
    and like: "\<And>t. mf_text_search f = Some t \<Longrightarrow> sql_like (like_pattern t) (m_content r)"
  shows "column_conditions db f caller now r"
proof (rule column_conditions_of_match [OF scan filtered_view_matches [OF v] like])
  assume "caller = None"
  moreover from v have "check_access_level (hydrated st db r) caller \<noteq> LevelDenied"
    by (cases rule: filtered_view_cases) auto
  ultimately show "m_access_policy r = Public"
    using denied_without_caller [of "hydrated st db r"] by simp
qed

lemma filtered_view_in_clause_plain:
  assumes "scan_returns_rows st" and v: "apply_access_policy_for_filter lc (hydrated st db r) f caller now = Some v"
    and "mf_text_search f \<noteq> None \<Longrightarrow> plain_text (m_content r)"
  shows "column_conditions db f caller now r"
proof (rule filtered_view_in_clause [OF assms(1) v])
  fix t assume "mf_text_search f = Some t"
  with filtered_view_matches [OF v] assms(3) show "sql_like (like_pattern t) (m_content r)"
    by (auto simp: matches_non_access_filter_def intro: like_of_match)
qed

lemma filtered_view_id: "apply_access_policy_for_filter lc m f caller now = Some v \<Longrightarrow> m_id v = m_id m"
  by (erule filtered_view_cases) simp_all

lemma column_conditions_iff_like:
  assumes "scan_returns_rows st" and "apply_access_policy_for_filter lc (hydrated st db r) f caller now = Some v"
  shows "column_conditions db f caller now r \<longleftrightarrow> when_some (mf_text_search f) (\<lambda>t. sql_like (like_pattern t) (m_content r))"
proof
  assume "when_some (mf_text_search f) (\<lambda>t. sql_like (like_pattern t) (m_content r))"
  then show "column_conditions db f caller now r" by (intro filtered_view_in_clause [OF assms]) simp
qed (simp add: column_conditions_def)

section \<open>Filters cannot probe hidden fields\<close>

definition alive :: "datetime \<Rightarrow> memory \<Rightarrow> bool" where
  "alive now m \<longleftrightarrow> m_superseded_by m = None \<and> \<not> expired_at now m"

text \<open>Two memories a caller must not be able to tell apart: the same memory, or two redacted ones the
  caller does not own that agree on what their policy shows and on being alive.\<close>

definition alike :: "datetime \<Rightarrow> string option \<Rightarrow> memory \<Rightarrow> memory \<Rightarrow> bool" where
  "alike now caller m m' \<longleftrightarrow> m = m' \<or>
     (case m_access_policy m of
        Redacted fs \<Rightarrow> same_visible fs m m' \<and> \<not> owned_by m caller \<and> \<not> owned_by m' caller \<and> alive now m = alive now m'
      | Public \<Rightarrow> False | Restricted _ \<Rightarrow> False)"

lemma alike_keys: "alike now caller m m' \<Longrightarrow> m_id m = m_id m' \<and> m_created_at m = m_created_at m'"
  by (auto simp: alike_def same_visible_def split: access_policy.splits)

lemma redacted_alike_matches:
  assumes "m_access_policy m = Redacted fs" and "same_visible fs m m'" and "m_superseded_by m = m_superseded_by m'"
  shows "matches_non_access_filter lc (redacted m) f now = matches_non_access_filter lc (redacted m') f now"
proof -
  from assms have policy': "m_access_policy m' = Redacted fs" by (simp add: same_visible_def)
  have "m_content (redacted m) = m_content (redacted m')" "m_tags (redacted m) = m_tags (redacted m')"
    "m_provenance (redacted m) = m_provenance (redacted m')" "m_entities (redacted m) = m_entities (redacted m')"
    "m_expires_at (redacted m) = m_expires_at (redacted m')"
    using assms(2) by (simp_all add: redacted_fields [OF assms(1)] redacted_fields [OF policy'] same_visible_def)
  then show ?thesis
    using assms(2,3) by (simp add: matches_non_access_filter_def expired_at_def same_visible_def)
qed

lemma redacted_filtered_view:
  assumes "m_access_policy m = Redacted fs" and "\<not> owned_by m caller"
  shows "apply_access_policy_for_filter lc m f caller now =
    (if normalize_caller caller \<noteq> None \<and> alive now m \<and> \<not> mf_explicit_context_filter f \<and>
        matches_non_access_filter lc (redacted m) f now \<and> (mf_text_search f = None \<or> FieldContent \<in> set fs)
     then Some (redacted m) else None)"
proof -
  have "alive now m \<longleftrightarrow> m_superseded_by m = None \<and> matches_lifecycle_filter m f now"
    by (auto simp: alive_def matches_lifecycle_filter_def expired_at_def split: option.splits)
  then show ?thesis
    using check_access_level_Redacted [OF assms] check_access_level_redacted_view [of m caller] assms(1)
    by (auto simp: apply_access_policy_for_filter_def content_searchable_by_def)
qed

lemma alike_filtered_views:
  assumes "alike now caller m m'"
  shows "map_option sanitize_for_wire (apply_access_policy_for_filter lc m f caller now) =
    map_option sanitize_for_wire (apply_access_policy_for_filter lc m' f caller now)"
proof (cases "m = m'")
  case False
  with assms obtain fs where fs: "m_access_policy m = Redacted fs" "same_visible fs m m'" "\<not> owned_by m caller"
    "\<not> owned_by m' caller" "alive now m = alive now m'" by (auto simp: alike_def split: access_policy.splits)
  then have fs': "m_access_policy m' = Redacted fs" by (simp add: same_visible_def)
  have "matches_non_access_filter lc (redacted m) f now = matches_non_access_filter lc (redacted m') f now" if "alive now m"
    using that fs(5) by (intro redacted_alike_matches [OF fs(1,2)]) (simp add: alive_def)
  then show ?thesis
    using fs redacted_sanitized_eq [OF fs(1,2)]
    by (auto simp: redacted_filtered_view [OF fs(1,3)] redacted_filtered_view [OF fs' fs(4)])
qed simp

text \<open>The content a text filter reads is the same in both.\<close>

lemma alike_content:
  assumes "alike now caller m m'" and v: "apply_access_policy_for_filter lc m f caller now = Some v" and "mf_text_search f \<noteq> None"
  shows "m_content m = m_content m'"
proof (cases "m = m'")
  case False
  with assms(1) obtain fs where fs: "m_access_policy m = Redacted fs" "same_visible fs m m'" "\<not> owned_by m caller"
    by (auto simp: alike_def split: access_policy.splits)
  with v assms(3) show ?thesis
    by (auto simp: redacted_filtered_view [OF fs(1,3)] same_visible_def split: if_splits)
qed simp

text \<open>What a query makes of one row: the clause, then the view.\<close>

definition row_view ::
  "(string \<Rightarrow> string) \<Rightarrow> sqlite_store \<Rightarrow> memory_db \<Rightarrow> memory_filter \<Rightarrow> string option \<Rightarrow> datetime \<Rightarrow> memory_row \<Rightarrow> memory option" where
  "row_view lc st db f caller now r =
     (if from_filter db f caller now r then apply_access_policy_for_filter lc (hydrated st db r) f caller now else None)"

lemma alike_row_views_half:
  assumes scan: "scan_returns_rows st" and alike: "alike now caller (hydrated st db r) (hydrated st db' r')"
    and ctx: "active_memberships db (m_id r) = active_memberships db' (m_id r)"
    and v: "apply_access_policy_for_filter lc (hydrated st db r) f caller now = Some v"
    and v': "apply_access_policy_for_filter lc (hydrated st db' r') f caller now = Some v'"
  shows "from_filter db f caller now r = from_filter db' f caller now r'"
proof -
  have "m_id r = m_id r'" using alike_keys [OF alike] by simp
  moreover have "m_content r = m_content r'" if "mf_text_search f \<noteq> None"
    using alike_content [OF alike v that] by simp
  ultimately show ?thesis
    using ctx column_conditions_iff_like [OF scan v] column_conditions_iff_like [OF scan v']
    by (cases "mf_text_search f") (simp_all add: from_filter_def context_conditions_def)
qed

lemma alike_row_views:
  assumes "scan_returns_rows st" and "alike now caller (hydrated st db r) (hydrated st db' r')"
    and "active_memberships db (m_id r) = active_memberships db' (m_id r)"
  shows "map_option sanitize_for_wire (row_view lc st db f caller now r) = map_option sanitize_for_wire (row_view lc st db' f caller now r')"
proof (cases "apply_access_policy_for_filter lc (hydrated st db r) f caller now")
  case None
  then show ?thesis using alike_filtered_views [OF assms(2), of lc f] by (simp add: row_view_def)
next
  case (Some v)
  then obtain v' where v': "apply_access_policy_for_filter lc (hydrated st db' r') f caller now = Some v'"
    using alike_filtered_views [OF assms(2), of lc f] by (cases "apply_access_policy_for_filter lc (hydrated st db' r') f caller now") auto
  show ?thesis
    using alike_row_views_half [OF assms Some v'] alike_filtered_views [OF assms(2), of lc f]
    by (simp add: row_view_def)
qed

text \<open>Escaping makes a search text literal: a pattern built from any text by \<^verbatim>\<open>escape_like\<close>,
  wildcards and escapes in it included, matches exactly the contents in which the text occurs up to
  the case of ASCII letters.\<close>

lemma escaped_like_is_literal_substring:
  "nul_free t \<Longrightarrow> nul_free s \<Longrightarrow>
   sql_like (''%'' @ escape_like t @ ''%'') s \<longleftrightarrow> contains_str (to_ascii_lowercase t) (to_ascii_lowercase s)"
  using sql_like_literal by (simp add: like_pattern_def)

end
