(* ===== verification/Memory_Query.thy ===== *)
theory Memory_Query
  imports Memory_Filter Memory_Invariants
begin

text \<open>
  Queries over the SQLite memory store: the paged scan of \<^verbatim>\<open>src/src/store/query.rs\<close>, listing
  (\<^verbatim>\<open>list_with_paging\<close> of \<^verbatim>\<open>src/src/store/admin.rs\<close>) and text search (\<^verbatim>\<open>src/src/store/search.rs\<close>),
  with the batched entity hydration of \<^verbatim>\<open>src/src/store/crud.rs\<close>.

  A scan reads one state of the database: the code holds the connection for the whole scan. Sizes
  (\<^verbatim>\<open>usize\<close>) are naturals that saturate at \<open>2 ^ 64 - 1\<close> where the code saturates; a page is bound
  to the statement as an \<^verbatim>\<open>i64\<close>, which fails for larger sizes. Query order is by creation time and
  identifier, newest first; identifiers are compared as numbers, the order of their fixed-width texts.
\<close>

section \<open>Constants\<close>

definition OVERFETCH_FACTOR :: nat where "OVERFETCH_FACTOR = 4"
definition MAX_SCAN_ROWS :: nat where "MAX_SCAN_ROWS = 10000"
definition DEFAULT_LIST_LIMIT :: nat where "DEFAULT_LIST_LIMIT = 100"
definition ENTITY_BATCH_CHUNK_SIZE :: nat where "ENTITY_BATCH_CHUNK_SIZE = 500"

definition usize_sat :: "nat \<Rightarrow> nat" where
  "usize_sat n = min n (2 ^ 64 - 1)"

section \<open>Entities in batches\<close>

text \<open>The rows of one \<^verbatim>\<open>IN\<close> query: each listed memory once. The order of the rows of different memories
  does not matter to the map built from them.\<close>

definition entity_batch_rows :: "sqlite_store \<Rightarrow> memory_db \<Rightarrow> memory_id list \<Rightarrow> (memory_id \<times> entity) list" where
  "entity_batch_rows st db chunk = concat (map (\<lambda>i. map (Pair i) (hydrate_entities_single st db i)) (remdups chunk))"

definition push_entity :: "(memory_id \<rightharpoonup> entity list) \<Rightarrow> memory_id \<times> entity \<Rightarrow> (memory_id \<rightharpoonup> entity list)" where
  "push_entity em = (\<lambda>(i, e). em(i \<mapsto> (case em i of None \<Rightarrow> [e] | Some es \<Rightarrow> es @ [e])))"

definition hydrate_entities_batch :: "sqlite_store \<Rightarrow> memory_db \<Rightarrow> memory_id list \<Rightarrow> (memory_id \<rightharpoonup> entity list)" where
  "hydrate_entities_batch st db ids =
     foldl (\<lambda>em chunk. foldl push_entity em (entity_batch_rows st db chunk)) Map.empty (chunks_of ENTITY_BATCH_CHUNK_SIZE ids)"

text \<open>Each memory takes its entities out of the map.\<close>

fun take_entities :: "(memory_id \<rightharpoonup> entity list) \<Rightarrow> memory list \<Rightarrow> memory list" where
  "take_entities em [] = []"
| "take_entities em (m # ms) =
     (case em (m_id m) of
        None \<Rightarrow> m # take_entities em ms
      | Some es \<Rightarrow> m\<lparr>m_entities := es\<rparr> # take_entities (em(m_id m := None)) ms)"

definition hydrate_entities_for_memories :: "sqlite_store \<Rightarrow> memory_db \<Rightarrow> memory list \<Rightarrow> memory list" where
  "hydrate_entities_for_memories st db ms =
     (if ms = [] then ms else take_entities (hydrate_entities_batch st db (map m_id ms)) ms)"

section \<open>The paged scan\<close>

record scan_config =
  sc_filter :: memory_filter
  sc_caller :: "string option"
  sc_now :: datetime
  sc_page_size :: nat

text \<open>\<^verbatim>\<open>ORDER BY created_at DESC, id DESC\<close>\<close>

definition cmp_newest :: "memory_row \<Rightarrow> memory_row \<Rightarrow> ordering" where
  "cmp_newest a b = then_with (cmp_ord (m_created_at b) (m_created_at a)) (cmp_ord (m_id b) (m_id a))"

definition scan_rows :: "memory_db \<Rightarrow> scan_config \<Rightarrow> (memory_row \<Rightarrow> bool) \<Rightarrow> memory_row list" where
  "scan_rows db cfg extra =
     sort_by cmp_newest (filter (\<lambda>r. extra r \<and> from_filter db (sc_filter cfg) (sc_caller cfg) (sc_now cfg) r) (rows db))"

definition fetch_page :: "memory_db \<Rightarrow> scan_config \<Rightarrow> (memory_row \<Rightarrow> bool) \<Rightarrow> int \<Rightarrow> int \<Rightarrow> memory list" where
  "fetch_page db cfg extra limit offset = map row_to_memory (take (nat limit) (drop (nat offset) (scan_rows db cfg extra)))"

text \<open>The rows of a page the caller may see under the filter.\<close>

definition visible_page ::
  "sqlite_store \<Rightarrow> (string \<Rightarrow> string) \<Rightarrow> memory_db \<Rightarrow> scan_config \<Rightarrow> bool \<Rightarrow> memory list \<Rightarrow> memory list" where
  "visible_page st lc db cfg hydrate page =
     List.map_filter (\<lambda>m. apply_access_policy_for_filter lc m (sc_filter cfg) (sc_caller cfg) (sc_now cfg))
       (if hydrate \<or> needs_entity_hydration (sc_filter cfg) then hydrate_entities_for_memories st db page else page)"

function paged_scan_loop ::
  "sqlite_store \<Rightarrow> (string \<Rightarrow> string) \<Rightarrow> memory_db \<Rightarrow> scan_config \<Rightarrow> (memory_row \<Rightarrow> bool) \<Rightarrow> bool \<Rightarrow>
   ('s \<Rightarrow> memory list \<Rightarrow> store_error + ('s \<times> bool)) \<Rightarrow> 's \<Rightarrow> nat \<Rightarrow> store_error + 's" where
  "paged_scan_loop st lc db cfg extra hydrate accumulate s offset_val =
     (case usize_to_i64 (sc_page_size cfg) of Inl e \<Rightarrow> Inl e | Inr limit_i64 \<Rightarrow>
     (case usize_to_i64 offset_val of Inl e \<Rightarrow> Inl e | Inr offset_i64 \<Rightarrow>
      let page = fetch_page db cfg extra limit_i64 offset_i64 in
      if page = [] then Inr s
      else let shown = visible_page st lc db cfg hydrate page in
        (case (if shown = [] then Inr (s, True) else accumulate s shown) of
           Inl e \<Rightarrow> Inl e
         | Inr (s', continue) \<Rightarrow>
             if \<not> continue then Inr s'
             else if length page < sc_page_size cfg then Inr s'
             else let offset_val' = usize_sat (offset_val + sc_page_size cfg) in
               if offset_val' \<ge> MAX_SCAN_ROWS then Inr s'
               else paged_scan_loop st lc db cfg extra hydrate accumulate s' offset_val')))"
  by pat_completeness auto
termination
proof (relation "measure (\<lambda>(_, _, _, _, _, _, _, _, offset_val). MAX_SCAN_ROWS - offset_val)", goal_cases)
  case (2 st lc db cfg extra hydrate accumulate s offset_val limit_i64 offset_i64 page shown p s' continue offset_val')
  have "sc_page_size cfg > 0"
    using 2 by (cases "sc_page_size cfg") (auto simp: usize_to_i64_def fetch_page_def split: if_splits)
  with 2 show ?case by (simp add: usize_sat_def MAX_SCAN_ROWS_def)
qed simp

declare paged_scan_loop.simps [simp del]

fun accumulate_memory_page :: "('s \<Rightarrow> memory \<Rightarrow> 's \<times> bool) \<Rightarrow> 's \<Rightarrow> memory list \<Rightarrow> 's \<times> bool" where
  "accumulate_memory_page accumulate s [] = (s, True)"
| "accumulate_memory_page accumulate s (m # ms) =
     (case accumulate s m of (s', continue) \<Rightarrow>
        if continue then accumulate_memory_page accumulate s' ms else (s', False))"

definition run_with_extra_hydrated ::
  "sqlite_store \<Rightarrow> (string \<Rightarrow> string) \<Rightarrow> memory_db \<Rightarrow> scan_config \<Rightarrow> (memory_row \<Rightarrow> bool) \<Rightarrow> ('s \<Rightarrow> memory \<Rightarrow> 's \<times> bool) \<Rightarrow> 's \<Rightarrow> store_error + 's" where
  "run_with_extra_hydrated st lc db cfg extra accumulate s =
     paged_scan_loop st lc db cfg extra True (\<lambda>s ms. Inr (accumulate_memory_page accumulate s ms)) s 0"

definition run_hydrated ::
  "sqlite_store \<Rightarrow> (string \<Rightarrow> string) \<Rightarrow> memory_db \<Rightarrow> scan_config \<Rightarrow> ('s \<Rightarrow> memory \<Rightarrow> 's \<times> bool) \<Rightarrow> 's \<Rightarrow> store_error + 's" where
  "run_hydrated st lc db cfg accumulate s = run_with_extra_hydrated st lc db cfg (\<lambda>_. True) accumulate s"

definition run_pages ::
  "sqlite_store \<Rightarrow> (string \<Rightarrow> string) \<Rightarrow> memory_db \<Rightarrow> scan_config \<Rightarrow> ('s \<Rightarrow> memory list \<Rightarrow> store_error + ('s \<times> bool)) \<Rightarrow> 's \<Rightarrow> store_error + 's" where
  "run_pages st lc db cfg accumulate s = paged_scan_loop st lc db cfg (\<lambda>_. True) False accumulate s 0"

section \<open>Listing and text search\<close>

definition list_push :: "string option \<Rightarrow> nat \<Rightarrow> memory list \<Rightarrow> memory \<Rightarrow> memory list \<times> bool" where
  "list_push caller limit results m =
     (case apply_access_policy m caller of
        None \<Rightarrow> (results, True)
      | Some v \<Rightarrow> (results @ [v], length (results @ [v]) < limit))"

definition list_with_paging ::
  "sqlite_store \<Rightarrow> (string \<Rightarrow> string) \<Rightarrow> memory_db \<Rightarrow> memory_filter \<Rightarrow> string option \<Rightarrow> datetime \<Rightarrow> store_error + memory list" where
  "list_with_paging st lc db f caller now =
     (let limit = (case mf_limit f of None \<Rightarrow> DEFAULT_LIST_LIMIT | Some n \<Rightarrow> n) in
      if limit = 0 then Inr []
      else let page_size = max (usize_sat (limit * OVERFETCH_FACTOR)) 1 in
        run_hydrated st lc db \<lparr>sc_filter = f, sc_caller = caller, sc_now = now, sc_page_size = page_size\<rparr>
          (list_push caller limit) [])"

definition list_impl ::
  "sqlite_store \<Rightarrow> (string \<Rightarrow> string) \<Rightarrow> memory_db \<Rightarrow> memory_filter \<Rightarrow> string option \<Rightarrow> datetime \<Rightarrow> store_error + memory list" where
  "list_impl st lc db f caller now = list_with_paging st lc db (normalize_filter lc f) caller now"

definition plain_result :: "f64 option \<Rightarrow> memory \<Rightarrow> search_result" where
  "plain_result distance m =
     \<lparr>sr_memory = m, sr_distance = distance, sr_retrieval_score = None, sr_reranker_score = None,
      sr_composite_score = None, sr_score_breakdown = None\<rparr>"

definition text_push :: "string option \<Rightarrow> nat \<Rightarrow> search_result list \<Rightarrow> memory \<Rightarrow> search_result list \<times> bool" where
  "text_push caller limit results m =
     (if \<not> content_searchable_by m caller then (results, True)
      else (case apply_access_policy m caller of
          None \<Rightarrow> (results, True)
        | Some v \<Rightarrow> (results @ [plain_result None v], length (results @ [plain_result None v]) < limit)))"

definition text_search_scan ::
  "sqlite_store \<Rightarrow> (string \<Rightarrow> string) \<Rightarrow> memory_db \<Rightarrow> memory_filter \<Rightarrow> string option \<Rightarrow> datetime \<Rightarrow> nat \<Rightarrow> nat \<Rightarrow> string \<Rightarrow>
   store_error + search_result list" where
  "text_search_scan st lc db f caller now limit page_size pattern =
     run_with_extra_hydrated st lc db \<lparr>sc_filter = f, sc_caller = caller, sc_now = now, sc_page_size = page_size\<rparr>
       (\<lambda>r. sql_like pattern (m_content r)) (text_push caller limit) []"

definition search_by_text_impl ::
  "sqlite_store \<Rightarrow> (string \<Rightarrow> string) \<Rightarrow> memory_db \<Rightarrow> string \<Rightarrow> nat \<Rightarrow> memory_filter \<Rightarrow> string option \<Rightarrow> datetime \<Rightarrow>
   store_error + search_result list" where
  "search_by_text_impl st lc db query limit f caller now =
     (if limit = 0 then Inr []
      else text_search_scan st lc db (normalize_filter lc f) caller now limit
             (max (usize_sat (limit * OVERFETCH_FACTOR)) 1) (like_pattern query))"

section \<open>Batched hydration is hydration one by one\<close>

lemma concat_chunks_of: "0 < n \<Longrightarrow> concat (chunks_of n xs) = xs"
  by (induction n xs rule: chunks_of.induct) (subst chunks_of.simps, simp)

lemma foldl_foldl: "foldl (\<lambda>a c. foldl f a (g c)) a cs = foldl f a (concat (map g cs))"
  by (induction cs arbitrary: a) simp_all

lemma concat_map_concat: "concat (map (\<lambda>c. concat (map g c)) cs) = concat (map g (concat cs))"
  by (induction cs) simp_all

lemma push_entities:
  "foldl push_entity em (map (Pair i) es) =
     (if es = [] then em else em(i \<mapsto> (case em i of None \<Rightarrow> es | Some xs \<Rightarrow> xs @ es)))"
proof (induction es rule: rev_induct)
  case (snoc e es)
  then show ?case by (auto simp: push_entity_def split: option.splits)
qed simp

lemma push_all_entities:
  assumes "distinct ids" and "\<forall>i \<in> set ids. em i = None"
  shows "foldl push_entity em (concat (map (\<lambda>i. map (Pair i) (g i)) ids)) =
    (\<lambda>i. if i \<in> set ids \<and> g i \<noteq> [] then Some (g i) else em i)"
  using assms
proof (induction ids arbitrary: em)
  case (Cons i ids)
  then have "foldl push_entity (em(i := x)) (concat (map (\<lambda>i. map (Pair i) (g i)) ids)) =
      (\<lambda>j. if j \<in> set ids \<and> g j \<noteq> [] then Some (g j) else (em(i := x)) j)" for x
    by (intro Cons.IH) auto
  from this [of None] this [of "Some (g i)"] show ?case
    using Cons.prems by (auto simp: push_entities fun_upd_idem)
qed simp

lemma hydrate_entities_batch_eq:
  assumes "distinct ids"
  shows "hydrate_entities_batch st db ids i =
    (if i \<in> set ids \<and> hydrate_entities_single st db i \<noteq> [] then Some (hydrate_entities_single st db i) else None)"
proof -
  let ?g = "\<lambda>i. map (Pair i) (hydrate_entities_single st db i)"
  have chunks: "concat (chunks_of ENTITY_BATCH_CHUNK_SIZE ids) = ids"
    by (rule concat_chunks_of) (simp add: ENTITY_BATCH_CHUNK_SIZE_def)
  have "distinct c" if "c \<in> set (chunks_of ENTITY_BATCH_CHUNK_SIZE ids)" for c
    using that assms chunks by (metis distinct_concat_iff)
  then have "map (entity_batch_rows st db) (chunks_of ENTITY_BATCH_CHUNK_SIZE ids) =
      map (\<lambda>c. concat (map ?g c)) (chunks_of ENTITY_BATCH_CHUNK_SIZE ids)"
    by (simp add: entity_batch_rows_def distinct_remdups_id)
  from arg_cong [OF this, of concat]
  have "concat (map (entity_batch_rows st db) (chunks_of ENTITY_BATCH_CHUNK_SIZE ids)) = concat (map ?g ids)"
    by (simp only: concat_map_concat chunks)
  then show ?thesis
    using push_all_entities [OF assms, of Map.empty "hydrate_entities_single st db"]
    by (simp add: hydrate_entities_batch_def foldl_foldl)
qed

lemma take_entities_eq:
  assumes "distinct (map m_id ms)" and "\<forall>m \<in> set ms. m_entities m = []"
    and "\<forall>m \<in> set ms. em (m_id m) = (if g (m_id m) = [] then None else Some (g (m_id m)))"
  shows "take_entities em ms = map (\<lambda>m. m\<lparr>m_entities := g (m_id m)\<rparr>) ms"
  using assms
proof (induction ms arbitrary: em)
  case (Cons m ms)
  have "take_entities (em(m_id m := x)) ms = map (\<lambda>m. m\<lparr>m_entities := g (m_id m)\<rparr>) ms" for x
    using Cons.prems by (intro Cons.IH) (auto simp: image_iff)
  moreover have "take_entities em ms = map (\<lambda>m. m\<lparr>m_entities := g (m_id m)\<rparr>) ms"
    using Cons.prems by (intro Cons.IH) auto
  ultimately show ?case using Cons.prems by simp
qed simp

lemma hydrate_entities_for_memories_eq:
  assumes "distinct (map m_id ms)" and "\<forall>m \<in> set ms. m_entities m = []"
  shows "hydrate_entities_for_memories st db ms = map (\<lambda>m. m\<lparr>m_entities := hydrate_entities_single st db (m_id m)\<rparr>) ms"
  using take_entities_eq [OF assms, of "hydrate_entities_batch st db (map m_id ms)" "hydrate_entities_single st db"]
  by (simp add: hydrate_entities_for_memories_def hydrate_entities_batch_eq [OF assms(1)])

section \<open>What a scan returns\<close>

interpretation newest: comparator cmp_newest
  using comparator_cmp_then [OF comparator_id_desc [of "m_created_at :: memory_row \<Rightarrow> _"] comparator_id_desc [of "m_id :: memory_row \<Rightarrow> _"]]
  by (simp add: cmp_newest_def [abs_def] cmp_then_def [abs_def])

lemma map_filter_map: "List.map_filter f (map g xs) = List.map_filter (\<lambda>x. f (g x)) xs"
  by (induction xs) (simp_all split: option.splits)

lemma map_filter_append: "List.map_filter f (xs @ ys) = List.map_filter f xs @ List.map_filter f ys"
  by (induction xs) (simp_all split: option.splits)

lemma map_filter_map_filter: "List.map_filter f (List.map_filter g xs) = List.map_filter (\<lambda>x. Option.bind (g x) f) xs"
  by (induction xs) (simp_all split: option.splits)

lemma visible_page_hydrated:
  assumes "distinct (map m_id rs)"
  shows "visible_page st lc db cfg True (map row_to_memory rs) =
    List.map_filter (\<lambda>r. apply_access_policy_for_filter lc (hydrated st db r) (sc_filter cfg) (sc_caller cfg) (sc_now cfg)) rs"
proof -
  have ids: "m_id (row_to_memory r) = m_id r" "m_entities (row_to_memory r) = []" for r
    by (simp_all add: row_to_memory_def memory.truncate_def)
  then have "hydrate_entities_for_memories st db (map row_to_memory rs) = map (hydrated st db) rs"
    using assms
    by (subst hydrate_entities_for_memories_eq)
      (auto simp: hydrated_def hydrate_entities_single_def entity_rows_def comp_def)
  then show ?thesis by (simp add: visible_page_def map_filter_map)
qed

text \<open>An accumulator that appends what \<open>look\<close> makes of a memory until \<open>limit\<close> results are there.\<close>

definition push_view :: "(memory \<Rightarrow> 'b option) \<Rightarrow> nat \<Rightarrow> 'b list \<Rightarrow> memory \<Rightarrow> 'b list \<times> bool" where
  "push_view look limit results m =
     (case look m of None \<Rightarrow> (results, True) | Some v \<Rightarrow> (results @ [v], length (results @ [v]) < limit))"

lemma accumulate_push_view:
  assumes "length s < limit"
  shows "accumulate_memory_page (push_view look limit) s ms =
    (take limit (s @ List.map_filter look ms), length (s @ List.map_filter look ms) < limit)"
  using assms
proof (induction ms arbitrary: s)
  case (Cons m ms)
  show ?case
  proof (cases "look m")
    case None
    with Cons show ?thesis by (simp add: push_view_def)
  next
    case (Some v)
    show ?thesis
    proof (cases "Suc (length s) < limit")
      case True
      then show ?thesis using Cons.IH [of "s @ [v]"] Some by (simp add: push_view_def)
    next
      case False
      with Cons.prems have "limit = Suc (length s)" by simp
      then show ?thesis using Some by (simp add: push_view_def)
    qed
  qed
qed simp

text \<open>The rows a scan looks at: the pages that start before \<^verbatim>\<open>MAX_SCAN_ROWS\<close>.\<close>

definition scan_window :: "nat \<Rightarrow> nat" where
  "scan_window page_size = (MAX_SCAN_ROWS + page_size - 1) div page_size * page_size"

lemma scan_window_last:
  assumes "0 < n" and "k * n < MAX_SCAN_ROWS" and "MAX_SCAN_ROWS \<le> Suc k * n"
  shows "scan_window n = Suc k * n"
proof -
  have "Suc k * n \<le> MAX_SCAN_ROWS + n - 1" "MAX_SCAN_ROWS + n - 1 < Suc (Suc k) * n"
    using assms by simp_all
  then have "(MAX_SCAN_ROWS + n - 1) div n = Suc k"
    by (metis div_nat_eqI mult.commute)
  then show ?thesis by (simp add: scan_window_def)
qed

lemma scan_window_more:
  assumes "0 < n" and "k * n < MAX_SCAN_ROWS"
  shows "Suc k * n \<le> scan_window n"
proof -
  have "Suc k * n \<le> MAX_SCAN_ROWS + n - 1" using assms by simp
  then have "Suc k \<le> (MAX_SCAN_ROWS + n - 1) div n"
    using assms(1) by (simp add: less_eq_div_iff_mult_less_eq)
  then show ?thesis unfolding scan_window_def by (rule mult_le_mono1)
qed

lemma scan_window_covers: "0 < n \<Longrightarrow> MAX_SCAN_ROWS \<le> scan_window n"
  using mod_less_divisor [of n "MAX_SCAN_ROWS + n - 1"] div_mult_mod_eq [of "MAX_SCAN_ROWS + n - 1" n]
  unfolding scan_window_def by linarith

lemma take_page:
  assumes "n \<le> w"
  shows "take w xs = take n xs @ take (w - n) (drop n xs)"
  using assms take_add [of n "w - n" xs] by simp

lemma usize_to_i64_small: "n < 2 ^ 63 \<Longrightarrow> usize_to_i64 n = Inr (int n)"
  by (simp add: usize_to_i64_def)

lemma distinct_scan_rows: "distinct (row_ids db) \<Longrightarrow> distinct (map m_id (scan_rows db cfg extra))"
proof -
  assume "distinct (row_ids db)"
  then have "distinct (rows db)" "inj_on m_id (set (rows db))" by (simp_all add: row_ids_def distinct_map)
  then show ?thesis by (auto simp: scan_rows_def distinct_map intro: inj_on_subset)
qed

text \<open>What \<open>look\<close> makes of the caller's view of a row.\<close>

definition scan_view :: "sqlite_store \<Rightarrow> (string \<Rightarrow> string) \<Rightarrow> memory_db \<Rightarrow> scan_config \<Rightarrow> (memory \<Rightarrow> 'b option) \<Rightarrow> memory_row \<Rightarrow> 'b option" where
  "scan_view st lc db cfg look r =
     Option.bind (apply_access_policy_for_filter lc (hydrated st db r) (sc_filter cfg) (sc_caller cfg) (sc_now cfg)) look"

text \<open>One turn of the loop.\<close>

lemma scan_loop_step:
  fixes look :: "memory \<Rightarrow> 'b option"
  assumes "sc_page_size cfg < 2 ^ 63" "offset_val < 2 ^ 63" and ids: "distinct (row_ids db)" and short: "length s < limit"
    and rs: "rs = take (sc_page_size cfg) (drop offset_val (scan_rows db cfg extra))"
    and out: "out = s @ List.map_filter (scan_view st lc db cfg look) rs"
    and acc: "acc = (\<lambda>s ms. Inr (accumulate_memory_page (push_view look limit) s ms))"
  shows "paged_scan_loop st lc db cfg extra True acc s offset_val =
     (if rs = [] then Inr s
      else if \<not> length out < limit then Inr (take limit out)
      else if length rs < sc_page_size cfg then Inr out
      else if usize_sat (offset_val + sc_page_size cfg) \<ge> MAX_SCAN_ROWS then Inr out
      else paged_scan_loop st lc db cfg extra True acc out (usize_sat (offset_val + sc_page_size cfg)))"
proof -
  let ?V = "visible_page st lc db cfg True (map row_to_memory rs)"
  have fetched: "fetch_page db cfg extra (int (sc_page_size cfg)) (int offset_val) = map row_to_memory rs"
    by (simp add: fetch_page_def rs)
  have "distinct (map m_id rs)"
    using distinct_scan_rows [OF ids] by (simp add: rs take_map [symmetric] drop_map [symmetric])
  then have "List.map_filter look ?V = List.map_filter (scan_view st lc db cfg look) rs"
    by (simp add: visible_page_hydrated map_filter_map_filter scan_view_def [abs_def])
  then have "(if ?V = [] then Inr (s, True) else acc s ?V) = Inr (take limit out, length out < limit)"
    using short accumulate_push_view [OF short, of look ?V] by (simp add: acc out del: append_assoc take_append length_append)
      (auto simp: List.map_filter_def)
  moreover have "take limit out = out" if "length out < limit"
    using that by simp
  ultimately show ?thesis
    using assms(1,2)
    by (subst paged_scan_loop.simps) (simp add: usize_to_i64_small fetched Let_def)
qed

text \<open>Every paged loop of the store follows this scheme: a page of \<open>n\<close> rows at a time, until \<open>limit\<close> results are
  there, a page is short or the ceiling is reached.\<close>

lemma paged_window:
  fixes F :: "'b list \<Rightarrow> nat \<Rightarrow> store_error + 'b list"
  assumes "0 < n"
    and step: "\<And>s off rs out. off < MAX_SCAN_ROWS \<Longrightarrow> length s < limit \<Longrightarrow> rs = take n (drop off R) \<Longrightarrow> out = s @ List.map_filter g rs \<Longrightarrow>
      F s off = (if rs = [] then Inr s
        else if \<not> length out < limit then Inr (take limit out)
        else if length rs < n then Inr out
        else if usize_sat (off + n) \<ge> MAX_SCAN_ROWS then Inr out
        else F out (usize_sat (off + n)))"
    and "off = k * n" and "off < MAX_SCAN_ROWS" and "length s < limit"
  shows "F s off = Inr (take limit (s @ List.map_filter g (take (scan_window n - off) (drop off R))))"
  using assms(3-5)
proof (induction "MAX_SCAN_ROWS - off" arbitrary: s off k rule: less_induct)
  case less
  let ?next = "drop (off + n) R"
  define rs where "rs = take n (drop off R)"
  define out where "out = s @ List.map_filter g rs"
  note unfolded = step [OF less.prems(2,3) rs_def out_def]
  have "Suc k * n \<le> scan_window n"
    using scan_window_more [OF assms(1), of k] less.prems(1,2) by simp
  then have split: "take (scan_window n - off) (drop off R) = rs @ take (scan_window n - (off + n)) ?next"
    using take_page [of n "scan_window n - off" "drop off R"] less.prems(1)
    by (simp add: rs_def add.commute)
  have rest: "Inr (take limit out) = (Inr (take limit (out @ List.map_filter g (take (scan_window n - (off + n)) ?next))) :: store_error + _)"
    if "\<not> length out < limit \<or> ?next = [] \<or> scan_window n = off + n"
    using that by auto
  show ?case
  proof (cases "rs = [] \<or> \<not> length out < limit \<or> length rs < n")
    case True
    then have "\<not> length out < limit \<or> ?next = []"
      using assms(1) by (auto simp: rs_def)
    then show ?thesis
      using True rest unfolded less.prems(3) by (auto simp: split out_def map_filter_append)
  next
    case False
    show ?thesis
    proof (cases "MAX_SCAN_ROWS \<le> off + n")
      case True
      then have "scan_window n = off + n"
        using scan_window_last [OF assms(1), of k] less.prems(1,2) by simp
      then show ?thesis
        using True False rest unfolded
        by (auto simp: rs_def [symmetric] out_def map_filter_append usize_sat_def MAX_SCAN_ROWS_def)
    next
      case more: False
      then have sat: "usize_sat (off + n) = off + n"
        by (simp add: usize_sat_def MAX_SCAN_ROWS_def)
      have "F out (off + n) = Inr (take limit (out @ List.map_filter g (take (scan_window n - (off + n)) ?next)))"
        using more False less.prems(1,2) assms(1) by (intro less.hyps [of _ "Suc k"]) auto
      then show ?thesis
        using more False unfolded by (simp add: sat split out_def map_filter_append)
    qed
  qed
qed

lemma scan_loop_from:
  assumes page: "0 < sc_page_size cfg" "sc_page_size cfg < 2 ^ 63" and ids: "distinct (row_ids db)"
    and "offset_val = k * sc_page_size cfg" and "offset_val < MAX_SCAN_ROWS" and "length s < limit"
  shows "paged_scan_loop st lc db cfg extra True (\<lambda>s ms. Inr (accumulate_memory_page (push_view look limit) s ms)) s offset_val =
    Inr (take limit (s @ List.map_filter (scan_view st lc db cfg look)
      (take (scan_window (sc_page_size cfg) - offset_val) (drop offset_val (scan_rows db cfg extra)))))"
proof (rule paged_window [OF page(1) _ assms(4-6)])
  fix s off rs out
  assume "off < MAX_SCAN_ROWS" "length s < limit" "rs = take (sc_page_size cfg) (drop off (scan_rows db cfg extra))"
    "out = s @ List.map_filter (scan_view st lc db cfg look) rs"
  then show "paged_scan_loop st lc db cfg extra True (\<lambda>s ms. Inr (accumulate_memory_page (push_view look limit) s ms)) s off =
      (if rs = [] then Inr s else if \<not> length out < limit then Inr (take limit out) else if length rs < sc_page_size cfg then Inr out
       else if MAX_SCAN_ROWS \<le> usize_sat (off + sc_page_size cfg) then Inr out
       else paged_scan_loop st lc db cfg extra True (\<lambda>s ms. Inr (accumulate_memory_page (push_view look limit) s ms)) out
         (usize_sat (off + sc_page_size cfg)))"
    by (intro scan_loop_step [OF page(2) _ ids _ _ _ refl]) (simp_all add: MAX_SCAN_ROWS_def)
qed

section \<open>Queries against their specification\<close>

definition newest_rows :: "memory_db \<Rightarrow> memory_row list" where
  "newest_rows db = sort_by cmp_newest (rows db)"

definition query_limit :: "memory_filter \<Rightarrow> nat" where
  "query_limit f = (case mf_limit f of None \<Rightarrow> DEFAULT_LIST_LIMIT | Some n \<Rightarrow> n)"

lemma filter_newest: "sort_by cmp_newest (filter P (rows db)) = filter P (newest_rows db)"
  by (simp add: newest_rows_def newest.filter_sort_by)

lemma map_filter_filter: "List.map_filter g (filter P xs) = List.map_filter (\<lambda>x. if P x then g x else None) xs"
  by (induction xs) (simp_all split: option.splits)

lemma length_newest_rows [simp]: "length (newest_rows db) = length (rows db)"
  by (simp add: newest_rows_def)

text \<open>A scan of a store that fits the window sees every row.\<close>

lemma scan_exact:
  assumes "distinct (row_ids db)" "length (rows db) \<le> MAX_SCAN_ROWS" "0 < limit" "limit * OVERFETCH_FACTOR < 2 ^ 63"
    and cfg: "cfg = \<lparr>sc_filter = f, sc_caller = caller, sc_now = now, sc_page_size = max (usize_sat (limit * OVERFETCH_FACTOR)) 1\<rparr>"
  shows "run_with_extra_hydrated st lc db cfg extra (push_view look limit) [] =
    Inr (take limit (List.map_filter (\<lambda>r. if extra r then Option.bind (row_view lc st db f caller now r) look else None) (newest_rows db)))"
proof -
  let ?n = "sc_page_size cfg"
  have n: "0 < ?n" "?n < 2 ^ 63"
    using assms(3,4) by (simp_all add: cfg usize_sat_def)
  have "length (scan_rows db cfg extra) \<le> length (rows db)" by (simp add: scan_rows_def)
  then have "length (scan_rows db cfg extra) \<le> scan_window ?n"
    using assms(2) scan_window_covers [OF n(1)] by simp
  then have "run_with_extra_hydrated st lc db cfg extra (push_view look limit) [] =
      Inr (take limit (List.map_filter (scan_view st lc db cfg look) (scan_rows db cfg extra)))"
    using scan_loop_from [OF n assms(1), where offset_val = 0 and k = 0 and s = "[]" and limit = limit and extra = extra and st = st
        and lc = lc and look = look] assms(3)
    by (simp add: run_with_extra_hydrated_def MAX_SCAN_ROWS_def)
  also have "scan_rows db cfg extra = filter (\<lambda>r. extra r \<and> from_filter db f caller now r) (newest_rows db)"
    by (simp add: scan_rows_def filter_newest cfg)
  also have "List.map_filter (scan_view st lc db cfg look) \<dots> =
      List.map_filter (\<lambda>r. if extra r then Option.bind (row_view lc st db f caller now r) look else None) (newest_rows db)"
    unfolding map_filter_filter by (rule arg_cong [of _ _ "\<lambda>g. List.map_filter g (newest_rows db)"])
      (auto simp: scan_view_def row_view_def cfg)
  finally show ?thesis .
qed

lemma list_push_eq: "list_push caller limit = push_view (\<lambda>m. apply_access_policy m caller) limit"
  by (intro ext) (simp add: list_push_def push_view_def)

lemma row_view_stable: "Option.bind (row_view lc st db f caller now r) (\<lambda>m. apply_access_policy m caller) = row_view lc st db f caller now r"
  by (cases "row_view lc st db f caller now r") (auto simp: row_view_def intro: filtered_view_stable split: if_splits)

lemma list_impl_eq:
  assumes "distinct (row_ids db)" "length (rows db) \<le> MAX_SCAN_ROWS" "query_limit f * OVERFETCH_FACTOR < 2 ^ 63"
  shows "list_impl st lc db f caller now =
    Inr (take (query_limit f) (List.map_filter (row_view lc st db (normalize_filter lc f) caller now) (newest_rows db)))"
proof -
  have limit: "query_limit (normalize_filter lc f) = query_limit f"
    by (simp add: query_limit_def normalize_filter_def Let_def split: option.splits)
  have body: "list_impl st lc db f caller now = (if query_limit f = 0 then Inr []
      else run_with_extra_hydrated st lc db \<lparr>sc_filter = normalize_filter lc f, sc_caller = caller, sc_now = now,
        sc_page_size = max (usize_sat (query_limit f * OVERFETCH_FACTOR)) 1\<rparr> (\<lambda>_. True)
        (push_view (\<lambda>m. apply_access_policy m caller) (query_limit f)) [])"
    using limit by (simp add: list_impl_def list_with_paging_def run_hydrated_def list_push_eq Let_def flip: query_limit_def)
  show ?thesis
  proof (cases "query_limit f = 0")
    case False
    then show ?thesis
      unfolding body by (subst scan_exact [OF assms(1,2) _ assms(3) refl]) (simp_all add: row_view_stable)
  qed (simp add: body)
qed

lemma text_push_eq:
  "text_push caller limit = push_view (\<lambda>m. if content_searchable_by m caller then map_option (plain_result None) (apply_access_policy m caller) else None) limit"
  by (intro ext) (simp add: text_push_def push_view_def split: option.splits)

lemma row_view_text:
  "Option.bind (row_view lc st db f caller now r)
     (\<lambda>m. if content_searchable_by m caller then map_option (plain_result None) (apply_access_policy m caller) else None) =
   Option.bind (row_view lc st db f caller now r) (\<lambda>v. if content_searchable_by v caller then Some (plain_result None v) else None)"
  by (cases "row_view lc st db f caller now r") (auto simp: row_view_def filtered_view_stable split: if_splits)

lemma row_view_plain:
  assumes "scan_returns_rows st" and "mf_text_search f = None \<or> plain_text (m_content r)"
  shows "row_view lc st db f caller now r =
    (if context_conditions db f (m_id r) then apply_access_policy_for_filter lc (hydrated st db r) f caller now else None)"
  using filtered_view_in_clause_plain [OF assms(1), of lc db r f caller now] assms(2)
  by (cases "apply_access_policy_for_filter lc (hydrated st db r) f caller now") (auto simp: row_view_def from_filter_def)

lemma context_conditions_normalize [simp]: "context_conditions db (normalize_filter lc f) i = context_conditions db f i"
  by (simp add: context_conditions_def normalize_filter_def Let_def split: option.splits)

lemma map_filter_cong: "(\<And>x. x \<in> set xs \<Longrightarrow> f x = g x) \<Longrightarrow> List.map_filter f xs = List.map_filter g xs"
  by (induction xs) (simp_all split: option.splits)

lemma set_newest_rows [simp]: "set (newest_rows db) = set (rows db)"
  by (simp add: newest_rows_def)

text \<open>Claim C23. Listing is exact. On a store whose rows fit the scan ceiling, \<^verbatim>\<open>list\<close> returns the first
  \<^verbatim>\<open>limit\<close> memories, newest first, among those that apply to the context filter and whose view for the
  caller passes the filter: neither the SQL conditions, the pages, the overfetching nor the repeated
  policy check loses, adds or reorders one. With a text filter this asks for contents in ASCII without NUL, where
  SQLite's \<^verbatim>\<open>LIKE\<close> agrees with the check in Rust (\<open>non_ascii_match_dropped\<close> shows what happens elsewhere), and for a
  pattern within SQLite's length limit.\<close>

theorem list_exact:
  assumes "distinct (row_ids db)" and "scan_returns_rows st"
    and "length (rows db) \<le> MAX_SCAN_ROWS" and "query_limit f * OVERFETCH_FACTOR < 2 ^ 63"
    and "\<forall>t. mf_text_search (normalize_filter lc f) = Some t \<longrightarrow> like_fits t \<and> (\<forall>r \<in> set (rows db). plain_text (m_content r))"
  shows "list_impl st lc db f caller now =
    Inr (take (query_limit f) (List.map_filter (\<lambda>r.
      if context_conditions db f (m_id r)
      then apply_access_policy_for_filter lc (hydrated st db r) (normalize_filter lc f) caller now else None) (newest_rows db)))"
proof -
  have "mf_text_search (normalize_filter lc f) = None \<or> plain_text (m_content r)" if "r \<in> set (newest_rows db)" for r
    using assms(5) that by (cases "mf_text_search (normalize_filter lc f)") simp_all
  then have "List.map_filter (row_view lc st db (normalize_filter lc f) caller now) (newest_rows db) =
      List.map_filter (\<lambda>r. if context_conditions db f (m_id r)
        then apply_access_policy_for_filter lc (hydrated st db r) (normalize_filter lc f) caller now else None) (newest_rows db)"
    by (intro map_filter_cong) (simp add: row_view_plain [OF assms(2)])
  then show ?thesis by (simp add: list_impl_eq [OF assms(1,3,4)])
qed

text \<open>Claim C24. Text search is exact. On a store whose rows fit the scan ceiling, \<^verbatim>\<open>search_by_text\<close> returns
  the first \<^verbatim>\<open>limit\<close> results, newest first, among the rows the filter leaves to the caller whose content
  the caller may search and contains the query up to the case of ASCII letters; wildcards in the query
  are literal. Query and contents have no NUL byte, at which \<^verbatim>\<open>LIKE\<close> stops reading, and the pattern is within SQLite's
  length limit.\<close>

theorem text_search_exact:
  assumes "distinct (row_ids db)" and "length (rows db) \<le> MAX_SCAN_ROWS" and "limit * OVERFETCH_FACTOR < 2 ^ 63"
    and "nul_free query" and "like_fits query" and "\<forall>r \<in> set (rows db). nul_free (m_content r)"
  shows "search_by_text_impl st lc db query limit f caller now =
    Inr (take limit (List.map_filter (\<lambda>r.
      if contains_str (to_ascii_lowercase query) (to_ascii_lowercase (m_content r))
      then Option.bind (row_view lc st db (normalize_filter lc f) caller now r)
             (\<lambda>v. if content_searchable_by v caller then Some (plain_result None v) else None)
      else None) (newest_rows db)))"
proof (cases "limit = 0")
  case False
  then show ?thesis
    unfolding search_by_text_impl_def text_search_scan_def text_push_eq
    by (simp only: if_False, subst scan_exact [OF assms(1,2) _ assms(3) refl])
      (simp_all add: row_view_text, intro arg_cong [of _ _ "take limit"] map_filter_cong,
       use assms(4,6) in \<open>simp add: sql_like_literal row_view_text\<close>)
qed (simp add: search_by_text_impl_def)

text \<open>A content that does not contain the search text up to the case of ASCII letters is never listed, although the check in
  Rust accepts it when the two agree after \<^verbatim>\<open>str::to_lowercase\<close>: the \<^verbatim>\<open>LIKE\<close> condition comes first.\<close>

lemma non_ascii_match_dropped:
  assumes "distinct (row_ids db)" "length (rows db) \<le> MAX_SCAN_ROWS" "query_limit f * OVERFETCH_FACTOR < 2 ^ 63"
    and "mf_text_search (normalize_filter lc f) = Some t" "nul_free t"
    and "r \<in> set (rows db)" "nul_free (m_content r)" "\<not> contains_str (to_ascii_lowercase t) (to_ascii_lowercase (m_content r))"
  shows "\<exists>ms. list_impl st lc db f caller now = Inr ms \<and> m_id r \<notin> m_id ` set ms"
proof -
  have "m_id r \<noteq> m_id v" if "x \<in> set (rows db)" "row_view lc st db (normalize_filter lc f) caller now x = Some v" for x v
  proof
    assume "m_id r = m_id v"
    have "m_id v = m_id x" using that(2) by (auto simp: row_view_def filtered_view_id split: if_splits)
    then have "x = r" using assms(1,6) that(1) \<open>m_id r = m_id v\<close> by (auto simp: row_ids_def distinct_map dest: inj_onD)
    then have "sql_like (like_pattern t) (m_content r)"
      using that(2) assms(4) by (auto simp: row_view_def from_filter_def column_conditions_def split: if_splits)
    with assms(5,7,8) show False by (simp add: sql_like_literal)
  qed
  then show ?thesis unfolding list_impl_eq [OF assms(1-3)]
    by (fastforce simp: List.map_filter_def dest!: in_set_takeD)
qed

text \<open>The word for school in French capitals and in lower case, the first letter with its accent.\<close>

definition ECOLE :: string where "ECOLE = [CHR 0xC3, CHR 0x89, CHR ''C'', CHR ''O'', CHR ''L'', CHR ''E'']"
definition ecole :: string where "ecole = [CHR 0xC3, CHR 0xA9, CHR ''c'', CHR ''o'', CHR ''l'', CHR ''e'']"

lemma accented_match:
  assumes "lc ECOLE = ecole"
  shows "contains_case_insensitive_ascii lc ECOLE ecole" "nul_free ecole" "nul_free ECOLE"
    "\<not> contains_str (to_ascii_lowercase ecole) (to_ascii_lowercase ECOLE)"
proof -
  have "\<not> is_ascii ECOLE" by code_simp
  then show "contains_case_insensitive_ascii lc ECOLE ecole"
    by (simp add: contains_case_insensitive_ascii_def assms ecole_def)
  show "nul_free ecole" "nul_free ECOLE" "\<not> contains_str (to_ascii_lowercase ecole) (to_ascii_lowercase ECOLE)" by code_simp+
qed

section \<open>Listing is non-interfering\<close>

definition readable :: "sqlite_store \<Rightarrow> memory_db \<Rightarrow> string option \<Rightarrow> memory_row \<Rightarrow> bool" where
  "readable st db caller r \<longleftrightarrow> check_access_level (hydrated st db r) caller \<noteq> LevelDenied"

lemma row_view_readable: "\<not> readable st db caller r \<Longrightarrow> row_view lc st db f caller now r = None"
  by (simp add: readable_def row_view_def apply_access_policy_for_filter_def)

lemma map_filter_readable:
  "List.map_filter (row_view lc st db f caller now) rs = List.map_filter (row_view lc st db f caller now) (filter (readable st db caller) rs)"
  by (induction rs) (simp_all add: row_view_readable split: option.splits)

lemma map_map_filter: "map h (List.map_filter g xs) = List.map_filter (\<lambda>x. map_option h (g x)) xs"
  by (induction xs) (simp_all split: option.splits)

lemma map_filter_list_all2: "list_all2 (\<lambda>x y. f x = g y) xs ys \<Longrightarrow> List.map_filter f xs = List.map_filter g ys"
  by (induction rule: list_all2_induct) (simp_all split: option.splits)

text \<open>Claim C17. Listing with any filter is non-interfering: if the memories a caller may read are
  pairwise alike in two stores (the same, or redacted ones that differ only in what their policy
  hides), with the same active memberships, then any filtered listing sends the same answer from both.
  Memories the caller may not read may be present in one store only, and hidden tags, scopes, entities,
  agents and contents cannot be probed by filtering on them. Both stores fit the scan ceiling.\<close>

theorem list_noninterference:
  assumes "distinct (row_ids db)" "distinct (row_ids db')" and scan: "scan_returns_rows st"
    and "length (rows db) \<le> MAX_SCAN_ROWS" "length (rows db') \<le> MAX_SCAN_ROWS" and "query_limit f * OVERFETCH_FACTOR < 2 ^ 63"
    and same: "list_all2 (\<lambda>r r'. alike now caller (hydrated st db r) (hydrated st db' r') \<and>
      active_memberships db (m_id r) = active_memberships db' (m_id r))
      (filter (readable st db caller) (newest_rows db)) (filter (readable st db' caller) (newest_rows db'))"
  shows "map_sum id (map sanitize_for_wire) (list_impl st lc db f caller now) =
    map_sum id (map sanitize_for_wire) (list_impl st lc db' f caller now)"
proof -
  let ?g = "\<lambda>db r. map_option sanitize_for_wire (row_view lc st db (normalize_filter lc f) caller now r)"
  have "list_all2 (\<lambda>r r'. ?g db r = ?g db' r') (filter (readable st db caller) (newest_rows db)) (filter (readable st db' caller) (newest_rows db'))"
    by (rule list_all2_mono [OF same]) (blast intro: alike_row_views [OF scan])
  then have "List.map_filter (?g db) (filter (readable st db caller) (newest_rows db)) =
      List.map_filter (?g db') (filter (readable st db' caller) (newest_rows db'))"
    by (rule map_filter_list_all2)
  moreover have "map sanitize_for_wire (List.map_filter (row_view lc st d (normalize_filter lc f) caller now) (newest_rows d)) =
      List.map_filter (?g d) (filter (readable st d caller) (newest_rows d))" for d
    by (subst map_filter_readable) (rule map_map_filter)
  ultimately have "map sanitize_for_wire (List.map_filter (row_view lc st db (normalize_filter lc f) caller now) (newest_rows db)) =
      map sanitize_for_wire (List.map_filter (row_view lc st db' (normalize_filter lc f) caller now) (newest_rows db'))"
    by simp
  then show ?thesis
    by (simp add: list_impl_eq [OF assms(1,4,6)] list_impl_eq [OF assms(2,5,6)] take_map [symmetric])
qed

section \<open>Witnesses\<close>

definition query_sqlite :: sqlite_store where
  "query_sqlite = \<lparr>ss_rowid = next_rowid, ss_le = True, ss_dimensions = 2, ss_active_profile = None,
     ss_checked_add = (\<lambda>t d. Some (t + d)), ss_entity_scan = (\<lambda>es. es), ss_returning = (\<lambda>cs. cs)\<rparr>"

text \<open>A redacted memory of alice with the given content and a newer public one.\<close>

definition query_mdb :: "string \<Rightarrow> memory_db" where
  "query_mdb content = \<lparr>d_ctx = sample_db\<lparr>t_memories :=
       [prepared_row (sample_memory\<lparr>m_content := content\<rparr>) None,
        prepared_row (sample_memory\<lparr>m_id := 8, m_content := ''Plan 100%'', m_created_at := 200, m_access_policy := Public\<rparr>) None]\<rparr>,
     d_entities = [], d_vectors = vec_empty, d_profile = None, d_tombstones = [], d_audit = []\<rparr>"

lemma query_sqlite_scan: "scan_returns_rows query_sqlite"
  by (simp add: scan_returns_rows_def query_sqlite_def)

lemma query_limit_default: "query_limit (memory_filter_default\<lparr>mf_text_search := t\<rparr>) * OVERFETCH_FACTOR < 2 ^ 63"
  by (simp add: query_limit_def memory_filter_default_def DEFAULT_LIST_LIMIT_def OVERFETCH_FACTOR_def)

lemma five_rows: "5 * OVERFETCH_FACTOR < 2 ^ 63"
  by (simp add: OVERFETCH_FACTOR_def)

lemma query_mdb_small:
  "distinct (row_ids (query_mdb content))" "length (rows (query_mdb content)) \<le> MAX_SCAN_ROWS"
  by (simp_all add: query_mdb_def row_ids_def rows_def prepared_row_def memory.defs sample_memory_def MAX_SCAN_ROWS_def)

theorem list_exact_witness:
  "map_sum id (map (\<lambda>m. (m_id m, m_content m)))
     (list_impl query_sqlite (\<lambda>s. s) (query_mdb ''secret plan'') (memory_filter_default\<lparr>mf_text_search := Some ''plan''\<rparr>) (Some ''bob'') 50) =
   Inr [(8, ''Plan 100%'')]"
proof -
  have "mf_text_search (normalize_filter (\<lambda>s. s) (memory_filter_default\<lparr>mf_text_search := Some ''plan''\<rparr>)) = Some ''plan''"
    "like_fits ''plan''" "\<forall>r \<in> set (rows (query_mdb ''secret plan'')). plain_text (m_content r)" by code_simp+
  then have fits: "\<forall>t. mf_text_search (normalize_filter (\<lambda>s. s) (memory_filter_default\<lparr>mf_text_search := Some ''plan''\<rparr>)) = Some t \<longrightarrow>
      like_fits t \<and> (\<forall>r \<in> set (rows (query_mdb ''secret plan'')). plain_text (m_content r))" by simp
  show ?thesis
    by (subst list_exact [OF query_mdb_small(1) query_sqlite_scan query_mdb_small(2) query_limit_default fits]) code_simp
qed

theorem text_search_exact_witness:
  "map_sum id (map (\<lambda>r. m_id (sr_memory r)))
     (search_by_text_impl query_sqlite (\<lambda>s. s) (query_mdb ''plan 100x'') ''plan 100%'' 5 memory_filter_default (Some ''alice'') 50) = Inr [8]"
  by (subst text_search_exact [OF query_mdb_small five_rows]) code_simp+

theorem list_noninterference_witness:
  "map_sum id (map sanitize_for_wire)
     (list_impl query_sqlite (\<lambda>s. s) (query_mdb ''secret plan'') (memory_filter_default\<lparr>mf_text_search := Some ''secret''\<rparr>) (Some ''bob'') 50) =
   map_sum id (map sanitize_for_wire)
     (list_impl query_sqlite (\<lambda>s. s) (query_mdb ''nothing'') (memory_filter_default\<lparr>mf_text_search := Some ''secret''\<rparr>) (Some ''bob'') 50)"
  by (rule list_noninterference [OF query_mdb_small(1) query_mdb_small(1) query_sqlite_scan query_mdb_small(2) query_mdb_small(2) query_limit_default])
    code_simp

end
