(* ===== verification/Memory_Search.thy ===== *)
theory Memory_Search
  imports Memory_Query
begin

text \<open>
  Vector and full-text search over the SQLite memory store, \<^verbatim>\<open>src/src/store/search.rs\<close>, with
  \<^verbatim>\<open>search_batch\<close> of \<^verbatim>\<open>src/src/store/vector/sqlite_vec.rs\<close>.

  The nearest-neighbour query of sqlite-vec is the parameter \<open>knn\<close>: given the rows it may rank, the
  query vector and a bound, it lists row ids with distances. \<open>knn_ok\<close> states what it documents: the
  bound or all rows, each once, with its distance, none of the others nearer. The FTS5 index is the
  parameter \<open>fts\<close>: given the rows and a \<^verbatim>\<open>MATCH\<close> expression it fails or assigns ranks to the matching
  rows. The adaptive loops may run forever on a fetch size of zero, so they are partial functions;
  the theorems show that they return.
\<close>

section \<open>Candidates from the vector index\<close>

definition MAX_VEC_CANDIDATES :: nat where "MAX_VEC_CANDIDATES = 1000"

record vector_hit =
  vh_memory_id :: memory_id
  vh_distance :: f64

type_synonym knn_query = "(int \<times> u8 list) list \<Rightarrow> f32 list \<Rightarrow> nat \<Rightarrow> (int \<times> f64) list"

text \<open>The join of the ranked row ids with the embedding map.\<close>

definition joined_hits :: "vector_tables \<Rightarrow> (int \<times> f64) list \<Rightarrow> vector_hit list" where
  "joined_hits t ranked =
     [\<lparr>vh_memory_id = i, vh_distance = d\<rparr>. (r, d) \<leftarrow> ranked, (i, r') \<leftarrow> v_map t, r' = r]"

definition search_batch :: "knn_query \<Rightarrow> nat \<Rightarrow> vector_tables \<Rightarrow> f32 list \<Rightarrow> nat \<Rightarrow> store_error + vector_hit list" where
  "search_batch knn dimensions t e limit =
     (if limit = 0 then Inr []
      else result_bind (validate_embedding_vector e dimensions) (\<lambda>_.
        result_bind (usize_to_i64 limit) (\<lambda>n.
          Inr (sort_by (\<lambda>a b. f64_total_cmp (vh_distance a) (vh_distance b)) (joined_hits t (knn (v_rows t) e (nat n)))))))"

text \<open>The same ranking restricted to the rows the filter selects, \<^verbatim>\<open>filtered_embedding_search_sql\<close>.\<close>

definition eligible_rowids :: "memory_db \<Rightarrow> memory_filter \<Rightarrow> string option \<Rightarrow> datetime \<Rightarrow> int list" where
  "eligible_rowids db f caller now =
     [r. m \<leftarrow> rows db, from_filter db f caller now m, (i, r) \<leftarrow> v_map (d_vectors db), i = m_id m]"

definition filtered_batch ::
  "knn_query \<Rightarrow> memory_db \<Rightarrow> f32 list \<Rightarrow> memory_filter \<Rightarrow> string option \<Rightarrow> datetime \<Rightarrow> nat \<Rightarrow> store_error + vector_hit list" where
  "filtered_batch knn db e f caller now limit =
     result_bind (usize_to_i64 limit) (\<lambda>n.
       Inr (sort_by (\<lambda>a b. then_with (f64_total_cmp (vh_distance a) (vh_distance b)) (cmp_ord (vh_memory_id a) (vh_memory_id b)))
         (joined_hits (d_vectors db)
           (knn (filter (\<lambda>(r, _). r \<in> set (eligible_rowids db f caller now)) (v_rows (d_vectors db))) e (nat n)))))"

text \<open>\<^verbatim>\<open>filter(|hit| seen_ids.insert(hit.memory_id))\<close>\<close>

fun insert_unseen :: "memory_id set \<Rightarrow> vector_hit list \<Rightarrow> vector_hit list \<times> memory_id set" where
  "insert_unseen seen [] = ([], seen)"
| "insert_unseen seen (h # hs) =
     (if vh_memory_id h \<in> seen then insert_unseen seen hs
      else case insert_unseen (insert (vh_memory_id h) seen) hs of (new, seen') \<Rightarrow> (h # new, seen'))"

definition hydrate_candidates :: "memory_db \<Rightarrow> vector_hit list \<Rightarrow> (memory \<times> memory_id) list" where
  "hydrate_candidates db candidates =
     map (\<lambda>r. (row_to_memory r, m_id (row_to_memory r))) (filter (\<lambda>r. m_id r \<in> vh_memory_id ` set candidates) (rows db))"

section \<open>Post-filtering\<close>

record post_filter_context =
  pf_filter :: memory_filter
  pf_caller :: "string option"
  pf_now :: datetime
  pf_max_distance :: "f64 option"

text \<open>Entities put into the memories of a list of pairs (\<^verbatim>\<open>hydrate_entities_for_ranked_memories\<close>,
  \<^verbatim>\<open>hydrate_entities_for_hydrated_rows\<close>).\<close>

definition hydrate_pairs :: "sqlite_store \<Rightarrow> memory_db \<Rightarrow> (memory \<times> 'a) list \<Rightarrow> (memory \<times> 'a) list" where
  "hydrate_pairs st db xs = zip (hydrate_entities_for_memories st db (map fst xs)) (map snd xs)"

definition within_distance :: "f64 option \<Rightarrow> f64 option \<Rightarrow> bool" where
  "within_distance threshold distance =
     (case threshold of None \<Rightarrow> True | Some t \<Rightarrow> (case distance of None \<Rightarrow> False | Some d \<Rightarrow> f64_le d t))"

definition post_filter_results ::
  "sqlite_store \<Rightarrow> (string \<Rightarrow> string) \<Rightarrow> memory_db \<Rightarrow> search_result list \<Rightarrow> (memory \<times> memory_id) list \<Rightarrow> vector_hit list \<Rightarrow>
   post_filter_context \<Rightarrow> search_result list" where
  "post_filter_results st lc db results hydrated_rows candidates ctx =
     (let dist_map = map_of (rev (map (\<lambda>h. (vh_memory_id h, vh_distance h)) candidates));
          filter_needs_entities = needs_entity_hydration (pf_filter ctx);
          rs = (if filter_needs_entities then hydrate_pairs st db hydrated_rows else hydrated_rows);
          visible = List.map_filter (\<lambda>(m, i).
            let distance = dist_map i in
            if \<not> within_distance (pf_max_distance ctx) distance then None
            else if \<not> content_searchable_by m (pf_caller ctx) then None
            else map_option (\<lambda>v. (v, distance)) (apply_access_policy_for_filter lc m (pf_filter ctx) (pf_caller ctx) (pf_now ctx))) rs;
          visible' = (if visible \<noteq> [] \<and> \<not> filter_needs_entities then hydrate_pairs st db visible else visible)
      in results @ List.map_filter (\<lambda>(m, distance). map_option (plain_result distance) (apply_access_policy m (pf_caller ctx))) visible')"

definition sort_by_distance :: "search_result list \<Rightarrow> search_result list" where
  "sort_by_distance results = sort_by cmp_search_result_distance_asc results"

section \<open>The adaptive loops\<close>

partial_function (option) embedding_rounds ::
  "sqlite_store \<Rightarrow> (string \<Rightarrow> string) \<Rightarrow> knn_query \<Rightarrow> memory_db \<Rightarrow> f32 list \<Rightarrow> nat \<Rightarrow> post_filter_context \<Rightarrow>
   search_result list \<Rightarrow> memory_id set \<Rightarrow> nat \<Rightarrow> (store_error + search_result list) option" where
  "embedding_rounds st lc knn db e limit ctx results seen fetch_size =
     (case search_batch knn (ss_dimensions st) (d_vectors db) e (min fetch_size MAX_VEC_CANDIDATES) of
        Inl err \<Rightarrow> Some (Inl err)
      | Inr hits \<Rightarrow>
          (case insert_unseen seen hits of (new, seen') \<Rightarrow>
             if new = [] \<and> length hits < fetch_size then Some (Inr results)
             else let results' = (if new = [] then results
                      else post_filter_results st lc db results (hydrate_candidates db new) new ctx) in
               if length results' \<ge> limit \<or> length hits < fetch_size then Some (Inr results')
               else if fetch_size \<ge> MAX_VEC_CANDIDATES then Some (Inr results')
               else embedding_rounds st lc knn db e limit ctx results' seen' (usize_sat (fetch_size * 2))))"

definition embedding_search_loop ::
  "sqlite_store \<Rightarrow> (string \<Rightarrow> string) \<Rightarrow> knn_query \<Rightarrow> memory_db \<Rightarrow> f32 list \<Rightarrow> nat \<Rightarrow> post_filter_context \<Rightarrow>
   (store_error + search_result list) option" where
  "embedding_search_loop st lc knn db e limit ctx =
     map_option (map_sum id (\<lambda>results. take limit (sort_by_distance results)))
       (embedding_rounds st lc knn db e limit ctx [] {} (usize_sat (limit * OVERFETCH_FACTOR)))"

partial_function (option) filtered_rounds ::
  "sqlite_store \<Rightarrow> (string \<Rightarrow> string) \<Rightarrow> knn_query \<Rightarrow> memory_db \<Rightarrow> f32 list \<Rightarrow> nat \<Rightarrow> post_filter_context \<Rightarrow>
   search_result list \<Rightarrow> memory_id set \<Rightarrow> nat \<Rightarrow> (store_error + search_result list) option" where
  "filtered_rounds st lc knn db e limit ctx results seen fetch_size =
     (case filtered_batch knn db e (pf_filter ctx) (pf_caller ctx) (pf_now ctx) (min fetch_size MAX_VEC_CANDIDATES) of
        Inl err \<Rightarrow> Some (Inl err)
      | Inr found \<Rightarrow>
          (case insert_unseen seen found of (hits, seen') \<Rightarrow>
             let results' = (if hits = [] then results
                   else post_filter_results st lc db results (hydrate_candidates db hits) hits ctx) in
             if length results' \<ge> limit \<or> length found < min fetch_size MAX_VEC_CANDIDATES then Some (Inr results')
             else if fetch_size \<ge> MAX_VEC_CANDIDATES then Some (Inr results')
             else filtered_rounds st lc knn db e limit ctx results' seen' (usize_sat (fetch_size * 2))))"

definition filtered_embedding_search_loop ::
  "sqlite_store \<Rightarrow> (string \<Rightarrow> string) \<Rightarrow> knn_query \<Rightarrow> memory_db \<Rightarrow> f32 list \<Rightarrow> nat \<Rightarrow> post_filter_context \<Rightarrow>
   (store_error + search_result list) option" where
  "filtered_embedding_search_loop st lc knn db e limit ctx =
     map_option (map_sum id (\<lambda>results. take limit (sort_by_distance results)))
       (filtered_rounds st lc knn db e limit ctx [] {} (usize_sat (limit * OVERFETCH_FACTOR)))"

definition search_by_embedding_impl ::
  "sqlite_store \<Rightarrow> (string \<Rightarrow> string) \<Rightarrow> knn_query \<Rightarrow> memory_db \<Rightarrow> f32 list \<Rightarrow> nat \<Rightarrow> memory_filter \<Rightarrow> string option \<Rightarrow>
   f64 option \<Rightarrow> datetime \<Rightarrow> (store_error + search_result list) option" where
  "search_by_embedding_impl st lc knn db e limit raw caller max_distance now =
     (if limit = 0 then Some (Inr [])
      else let f = normalize_filter lc raw in
        (case validate_embedding_vector e (ss_dimensions st) of
           Inl err \<Rightarrow> Some (Inl err)
         | Inr _ \<Rightarrow>
             let ctx = \<lparr>pf_filter = f, pf_caller = caller, pf_now = now, pf_max_distance = max_distance\<rparr> in
             if mf_context_ids f \<noteq> None \<or> (case mf_legacy_context_ids_any f of None \<Rightarrow> False | Some ids \<Rightarrow> ids \<noteq> [])
             then filtered_embedding_search_loop st lc knn db e limit ctx
             else embedding_search_loop st lc knn db e limit ctx))"

section \<open>Hydrating after the filter\<close>

lemma check_access_level_entities [simp]: "check_access_level (m\<lparr>m_entities := es\<rparr>) caller = check_access_level m caller"
  by (cases "m_access_policy m"; cases "normalize_caller caller") (simp_all add: check_access_level_def Let_def)

lemma content_searchable_entities [simp]: "content_searchable_by (m\<lparr>m_entities := es\<rparr>) caller = content_searchable_by m caller"
  by (cases "check_access_level m caller") (simp_all add: content_searchable_by_def)

lemma redacted_entities:
  "redacted ((redacted m)\<lparr>m_entities := es\<rparr>) = redacted (m\<lparr>m_entities := es\<rparr>)"
  by (cases "m_access_policy m") (simp_all add: redacted_def Let_def)

lemma matches_without_entities:
  assumes "\<not> needs_entity_hydration f" and "m_content m = m_content m'" "m_tags m = m_tags m'" "m_provenance m = m_provenance m'"
    "m_created_at m = m_created_at m'" "m_has_embedding m = m_has_embedding m'" "m_memory_type m = m_memory_type m'"
    "m_superseded_by m = m_superseded_by m'" "m_expires_at m = m_expires_at m'"
  shows "matches_non_access_filter lc m f now = matches_non_access_filter lc m' f now"
  using assms by (simp add: matches_non_access_filter_def needs_entity_hydration_def expired_at_def)

text \<open>When the filter does not read entities, filtering first, hydrating what is left and applying the
  policy again gives the view of the hydrated memory.\<close>

lemma late_hydration:
  assumes "\<not> needs_entity_hydration f"
  shows "Option.bind (apply_access_policy_for_filter lc m f caller now) (\<lambda>v. apply_access_policy (v\<lparr>m_entities := es\<rparr>) caller) =
    apply_access_policy_for_filter lc (m\<lparr>m_entities := es\<rparr>) f caller now"
proof -
  have red: "check_access_level (redacted m) caller = LevelRedacted" if "check_access_level m caller = LevelRedacted"
    using check_access_level_redacted_view [OF that] by simp
  have full: "matches_non_access_filter lc (m\<lparr>m_entities := es\<rparr>) f now = matches_non_access_filter lc m f now"
    "matches_non_access_filter lc (redacted (m\<lparr>m_entities := es\<rparr>)) f now = matches_non_access_filter lc (redacted m) f now"
    by (rule matches_without_entities [OF assms]; cases "m_access_policy m"; simp add: redacted_def Let_def)+
  have searchable: "content_searchable_by (redacted (m\<lparr>m_entities := es\<rparr>)) caller = content_searchable_by (redacted m) caller"
    by (cases "m_access_policy m"; cases "normalize_caller caller")
      (simp_all add: content_searchable_by_def check_access_level_def redacted_def Let_def)
  have live: "matches_lifecycle_filter (m\<lparr>m_entities := es\<rparr>) f now = matches_lifecycle_filter m f now"
    by (simp add: matches_lifecycle_filter_def)
  show ?thesis
    by (cases "check_access_level m caller")
      (auto simp: apply_access_policy_for_filter_def apply_access_policy_def red full searchable live redacted_entities)
qed

lemma hydrate_pairs_eq:
  assumes "distinct (map (\<lambda>x. m_id (fst x)) xs)" and "\<forall>x \<in> set xs. m_entities (fst x) = []"
  shows "hydrate_pairs st db xs = map (\<lambda>(m, x). (m\<lparr>m_entities := hydrate_entities_single st db (m_id m)\<rparr>, x)) xs"
proof -
  have "hydrate_entities_for_memories st db (map fst xs) =
      map (\<lambda>x. (fst x)\<lparr>m_entities := hydrate_entities_single st db (m_id (fst x))\<rparr>) xs"
    using assms by (subst hydrate_entities_for_memories_eq) (auto simp: comp_def)
  then show ?thesis by (auto simp: hydrate_pairs_def zip_map_map zip_same_conv_map case_prod_beta)
qed

section \<open>What post-filtering keeps\<close>

definition candidate_view ::
  "sqlite_store \<Rightarrow> (string \<Rightarrow> string) \<Rightarrow> memory_db \<Rightarrow> post_filter_context \<Rightarrow> (memory_id \<Rightarrow> f64) \<Rightarrow> memory_row \<Rightarrow> search_result option" where
  "candidate_view st lc db ctx D r =
     (if within_distance (pf_max_distance ctx) (Some (D (m_id r))) \<and> content_searchable_by (hydrated st db r) (pf_caller ctx)
      then map_option (plain_result (Some (D (m_id r))))
             (apply_access_policy_for_filter lc (hydrated st db r) (pf_filter ctx) (pf_caller ctx) (pf_now ctx))
      else None)"

lemma hydrated_row: "hydrated st db r = (row_to_memory r)\<lparr>m_entities := hydrate_entities_single st db (m_id r)\<rparr>"
  by (simp add: hydrated_def hydrate_entities_single_def entity_rows_def)

lemma content_searchable_hydrated: "content_searchable_by (hydrated st db r) caller = content_searchable_by (row_to_memory r) caller"
  by (simp add: hydrated_row)

lemma row_to_memory_plain [simp]: "m_id (row_to_memory r) = m_id r" "m_entities (row_to_memory r) = []"
  by (simp_all add: row_to_memory_def memory.truncate_def)

lemma filtered_view_shape:
  "apply_access_policy_for_filter lc m f caller now = Some v \<Longrightarrow> m_entities m = [] \<Longrightarrow> m_id v = m_id m \<and> m_entities v = []"
  by (erule filtered_view_cases) (auto simp: redacted_def Let_def)

lemma distinct_map_filter_ids:
  assumes "distinct (map k xs)" and "\<And>x y. x \<in> set xs \<Longrightarrow> g x = Some y \<Longrightarrow> k' y = k x"
  shows "distinct (map k' (List.map_filter g xs))"
  using assms
proof (induction xs)
  case (Cons x xs)
  have "k' y \<in> k ` set xs" if "y \<in> set (List.map_filter g xs)" for y
    using that Cons.prems(2) by (induction xs) (auto simp: image_iff split: option.splits)
  moreover have "distinct (map k' (List.map_filter g xs))" "k x \<notin> k ` set xs" "\<And>y. g x = Some y \<Longrightarrow> k' y = k x"
    using Cons by auto
  ultimately show ?case by (fastforce split: option.splits)
qed simp

lemma dist_map_hits:
  assumes "distinct (map vh_memory_id hits)" and "\<forall>h \<in> set hits. vh_distance h = D (vh_memory_id h)" and "h \<in> set hits"
  shows "map_of (rev (map (\<lambda>h. (vh_memory_id h, vh_distance h)) hits)) (vh_memory_id h) = Some (D (vh_memory_id h))"
  using assms by (intro map_of_is_SomeI) (auto simp: comp_def image_iff rev_map [symmetric])

lemma post_filter_results_eq:
  assumes ids: "distinct (row_ids db)" and "distinct (map vh_memory_id hits)" and D: "\<forall>h \<in> set hits. vh_distance h = D (vh_memory_id h)"
  shows "post_filter_results st lc db results (hydrate_candidates db hits) hits ctx =
    results @ List.map_filter (candidate_view st lc db ctx D) (filter (\<lambda>r. m_id r \<in> vh_memory_id ` set hits) (rows db))"
proof -
  let ?f = "pf_filter ctx" let ?c = "pf_caller ctx" let ?now = "pf_now ctx"
  define R where "R = filter (\<lambda>r. m_id r \<in> vh_memory_id ` set hits) (rows db)"
  define dm where "dm = map_of (rev (map (\<lambda>h. (vh_memory_id h, vh_distance h)) hits))"
  have R_ids: "distinct (map m_id R)" using ids by (simp add: R_def row_ids_def distinct_map_filter)
  have dm: "dm (m_id r) = Some (D (m_id r))" if "r \<in> set R" for r
    using that dist_map_hits [OF assms(2) D] by (auto simp: R_def dm_def)
  have cands: "hydrate_candidates db hits = map (\<lambda>r. (row_to_memory r, m_id r)) R"
    by (simp add: hydrate_candidates_def R_def)
  let ?pick = "\<lambda>m d. if \<not> within_distance (pf_max_distance ctx) d then None else if \<not> content_searchable_by m ?c then None
     else map_option (\<lambda>v. (v, d)) (apply_access_policy_for_filter lc m ?f ?c ?now)"
  let ?last = "\<lambda>(m, d). map_option (plain_result d) (apply_access_policy m ?c)"
  show ?thesis
  proof (cases "needs_entity_hydration ?f")
    case True
    have "hydrate_pairs st db (map (\<lambda>r. (row_to_memory r, m_id r)) R) = map (\<lambda>r. (hydrated st db r, m_id r)) R"
      using R_ids by (subst hydrate_pairs_eq) (auto simp: comp_def hydrated_row)
    then have "post_filter_results st lc db results (hydrate_candidates db hits) hits ctx =
        results @ List.map_filter ?last (List.map_filter (\<lambda>r. ?pick (hydrated st db r) (dm (m_id r))) R)"
      using True by (simp add: post_filter_results_def cands dm_def [symmetric] Let_def map_filter_map)
    also have "List.map_filter ?last (List.map_filter (\<lambda>r. ?pick (hydrated st db r) (dm (m_id r))) R) =
        List.map_filter (candidate_view st lc db ctx D) R"
      unfolding map_filter_map_filter
      by (rule map_filter_cong) (auto simp: dm candidate_view_def bind_map_option Option.map_conv_bind_option filtered_view_stable split: bind_splits)
    finally show ?thesis by (simp add: R_def)
  next
    case False
    let ?vis = "List.map_filter (\<lambda>r. ?pick (row_to_memory r) (dm (m_id r))) R"
    let ?fill = "\<lambda>(m, x). (m\<lparr>m_entities := hydrate_entities_single st db (m_id m)\<rparr>, x)"
    have "distinct (map (\<lambda>x. m_id (fst x)) ?vis)"
      using R_ids by (rule distinct_map_filter_ids) (auto dest: filtered_view_shape split: if_splits)
    moreover have "\<forall>x \<in> set ?vis. m_entities (fst x) = []"
      by (auto simp: List.map_filter_def dest: filtered_view_shape [OF _ row_to_memory_plain(2)] split: if_splits)
    ultimately have "hydrate_pairs st db ?vis = map ?fill ?vis" by (rule hydrate_pairs_eq)
    then have "post_filter_results st lc db results (hydrate_candidates db hits) hits ctx =
        results @ List.map_filter ?last (map ?fill ?vis)"
      using False by (simp add: post_filter_results_def cands dm_def [symmetric] Let_def map_filter_map)
    also have "List.map_filter ?last (map ?fill ?vis) = List.map_filter (candidate_view st lc db ctx D) R"
      unfolding map_filter_map map_filter_map_filter
    proof (rule map_filter_cong)
      fix r assume "r \<in> set R"
      then show "Option.bind (?pick (row_to_memory r) (dm (m_id r))) (\<lambda>x. ?last (?fill x)) = candidate_view st lc db ctx D r"
        using late_hydration [OF False, of lc "row_to_memory r" ?c ?now "hydrate_entities_single st db (m_id r)"]
        by (cases "apply_access_policy_for_filter lc (row_to_memory r) ?f ?c ?now")
          (auto simp: dm candidate_view_def content_searchable_hydrated hydrated_row [symmetric] dest: filtered_view_shape)
    qed
    finally show ?thesis by (simp add: R_def)
  qed
qed

section \<open>What a batch contains\<close>

text \<open>What sqlite-vec documents of a nearest-neighbour query over rows with distinct ids: \<open>k\<close> of them (or
  all), each once and with its distance, none of the others nearer.\<close>

definition knn_ok :: "knn_query \<Rightarrow> (f32 list \<Rightarrow> u8 list \<Rightarrow> f64) \<Rightarrow> bool" where
  "knn_ok knn dist \<longleftrightarrow> (\<forall>rs e k. distinct (map fst rs) \<longrightarrow>
     distinct (map fst (knn rs e k)) \<and> length (knn rs e k) = min k (length rs) \<and>
     (\<forall>(r, d) \<in> set (knn rs e k). \<exists>blob. (r, blob) \<in> set rs \<and> d = dist e blob \<and>
       (\<forall>(r', blob') \<in> set rs. r' \<in> fst ` set (knn rs e k) \<or> f64_total_cmp d (dist e blob') \<noteq> GreaterThan)))"

definition vector_distance :: "(f32 list \<Rightarrow> u8 list \<Rightarrow> f64) \<Rightarrow> vector_tables \<Rightarrow> f32 list \<Rightarrow> memory_id \<Rightarrow> f64" where
  "vector_distance dist t e i = dist e (the (map_of (v_rows t) (the (map_of (v_map t) i))))"

text \<open>A batch over the memories \<open>U\<close> at distances \<open>D\<close>.\<close>

definition good_batch :: "memory_id set \<Rightarrow> (memory_id \<Rightarrow> f64) \<Rightarrow> nat \<Rightarrow> vector_hit list \<Rightarrow> bool" where
  "good_batch U D k hits \<longleftrightarrow> distinct (map vh_memory_id hits) \<and> vh_memory_id ` set hits \<subseteq> U \<and> length hits = min k (card U) \<and>
     (\<forall>h \<in> set hits. vh_distance h = D (vh_memory_id h) \<and>
       (\<forall>i \<in> U - vh_memory_id ` set hits. f64_total_cmp (vh_distance h) (D i) \<noteq> GreaterThan))"

lemma good_batch_mset:
  assumes "mset hits = mset hits'"
  shows "good_batch U D k hits = good_batch U D k hits'"
proof -
  have "set hits = set hits'" "length hits = length hits'" using assms by (auto dest: mset_eq_setD mset_eq_length)
  moreover have "distinct (map vh_memory_id hits) = distinct (map vh_memory_id hits')"
    using assms by (metis mset_eq_imp_distinct_iff mset_map)
  ultimately show ?thesis by (simp add: good_batch_def)
qed

lemma concat_singletons: "concat (map (\<lambda>(a, b). [g a b]) xs) = map (\<lambda>(a, b). g a b) xs"
  by (induction xs) auto

text \<open>In a well-formed index each ranked row joins with exactly one memory.\<close>

lemma joined_hits_eq:
  assumes wf: "vec_wf dimensions t" and "fst ` set ranked \<subseteq> fst ` set (v_rows t)"
  shows "joined_hits t ranked = map (\<lambda>(r, d). \<lparr>vh_memory_id = the (map_of (map prod.swap (v_map t)) r), vh_distance = d\<rparr>) ranked"
proof -
  have one: "[\<lparr>vh_memory_id = i, vh_distance = d\<rparr>. (i, r') \<leftarrow> xs, r' = r] =
      [\<lparr>vh_memory_id = the (map_of (map prod.swap xs) r), vh_distance = d\<rparr>]"
    if "distinct (map snd xs)" "r \<in> snd ` set xs" for xs :: "(memory_id \<times> int) list" and r d
    using that
  proof (induction xs)
    case (Cons x xs)
    obtain i r' where x: "x = (i, r')" by (cases x)
    have "[\<lparr>vh_memory_id = i, vh_distance = d\<rparr>. (i, r') \<leftarrow> xs, r' = r] = []" if "r \<notin> snd ` set xs"
      using that by (force simp: concat_eq_Nil_conv)
    then show ?case using Cons by (cases "r' = r") (auto simp: x)
  qed simp
  have "r \<in> snd ` set (v_map t)" if "(r, d) \<in> set ranked" for r d
    using wf assms(2) that by (force simp: vec_wf_def)
  moreover have "distinct (map snd (v_map t))" using wf by (simp add: vec_wf_def)
  ultimately have "map (\<lambda>(r, d). [\<lparr>vh_memory_id = i, vh_distance = d\<rparr>. (i, r') \<leftarrow> v_map t, r' = r]) ranked =
      map (\<lambda>(r, d). [\<lparr>vh_memory_id = the (map_of (map prod.swap (v_map t)) r), vh_distance = d\<rparr>]) ranked"
    by (intro map_cong refl) (auto simp: one)
  from arg_cong [OF this, of concat] show ?thesis
    by (simp only: joined_hits_def concat_singletons)
qed

lemma mapped_pair:
  assumes "vec_wf dimensions t" and "(i, r) \<in> set (v_map t)"
  shows "map_of (v_map t) i = Some r" "map_of (map prod.swap (v_map t)) r = Some i"
  using assms by (auto simp: vec_wf_def comp_def intro!: map_of_is_SomeI)

definition rows_of :: "vector_tables \<Rightarrow> memory_id set \<Rightarrow> (int \<times> u8 list) list" where
  "rows_of t U = filter (\<lambda>(r, _). \<exists>i \<in> U. (i, r) \<in> set (v_map t)) (v_rows t)"

lemma rows_of_ids:
  assumes wf: "vec_wf dimensions t" and U: "U \<subseteq> fst ` set (v_map t)"
  defines "idof \<equiv> \<lambda>r. the (map_of (map prod.swap (v_map t)) r)"
  shows "inj_on idof (fst ` set (rows_of t U))" and "idof ` fst ` set (rows_of t U) = U"
    and "distinct (map fst (rows_of t U))" and "card U = length (rows_of t U)"
    and "(r, blob) \<in> set (rows_of t U) \<Longrightarrow> vector_distance dist t e (idof r) = dist e blob"
proof -
  note pair = mapped_pair [OF wf]
  have idof: "idof r = i" if "(i, r) \<in> set (v_map t)" for i r using pair(2) [OF that] by (simp add: idof_def)
  have mem: "r \<in> fst ` set (rows_of t U) \<longleftrightarrow> (\<exists>i \<in> U. (i, r) \<in> set (v_map t))" for r
  proof -
    have "r \<in> fst ` set (v_rows t)" if "(i, r) \<in> set (v_map t)" for i
      using wf that unfolding vec_wf_def by (metis image_eqI snd_conv)
    then show ?thesis by (force simp: rows_of_def)
  qed
  show inj: "inj_on idof (fst ` set (rows_of t U))"
  proof (rule inj_onI)
    fix r r' assume "r \<in> fst ` set (rows_of t U)" "r' \<in> fst ` set (rows_of t U)" and eq: "idof r = idof r'"
    then obtain i i' where "(i, r) \<in> set (v_map t)" "(i', r') \<in> set (v_map t)" using mem by meson
    with eq idof pair(1) show "r = r'" by (metis option.inject)
  qed
  show ids: "idof ` fst ` set (rows_of t U) = U"
  proof
    show "idof ` fst ` set (rows_of t U) \<subseteq> U" using mem idof by blast
    show "U \<subseteq> idof ` fst ` set (rows_of t U)"
    proof
      fix i assume "i \<in> U"
      with U obtain r where "(i, r) \<in> set (v_map t)" by force
      with \<open>i \<in> U\<close> mem idof show "i \<in> idof ` fst ` set (rows_of t U)" by (metis imageI)
    qed
  qed
  show dist: "distinct (map fst (rows_of t U))"
    using wf by (simp add: rows_of_def vec_wf_def distinct_map_filter)
  show "card U = length (rows_of t U)"
    using card_image [OF inj] distinct_card [OF dist] by (simp add: ids)
  show "vector_distance dist t e (idof r) = dist e blob" if r: "(r, blob) \<in> set (rows_of t U)"
  proof -
    from r obtain i where i: "(i, r) \<in> set (v_map t)" and "(r, blob) \<in> set (v_rows t)" by (auto simp: rows_of_def)
    moreover have "map_of (v_rows t) r = Some blob" using wf \<open>(r, blob) \<in> set (v_rows t)\<close> by (auto simp: vec_wf_def)
    ultimately show ?thesis using pair(1) [OF i] idof [OF i] by (simp add: vector_distance_def)
  qed
qed

lemma joined_good:
  assumes wf: "vec_wf dimensions t" and knn: "knn_ok knn dist" and U: "U \<subseteq> fst ` set (v_map t)"
  shows "good_batch U (vector_distance dist t e) k (joined_hits t (knn (rows_of t U) e k))"
proof -
  let ?rs = "rows_of t U" let ?out = "knn ?rs e k" let ?D = "vector_distance dist t e"
  let ?idof = "\<lambda>r. the (map_of (map prod.swap (v_map t)) r)"
  note bij = rows_of_ids [OF wf U]
  have out: "distinct (map fst ?out)" "length ?out = min k (length ?rs)"
    and near: "\<And>r d. (r, d) \<in> set ?out \<Longrightarrow> \<exists>blob. (r, blob) \<in> set ?rs \<and> d = dist e blob \<and>
       (\<forall>(r', blob') \<in> set ?rs. r' \<in> fst ` set ?out \<or> f64_total_cmp d (dist e blob') \<noteq> GreaterThan)"
    using knn [unfolded knn_ok_def, THEN spec, THEN spec, THEN spec, THEN mp, OF bij(3), of e k] by auto
  have sub: "fst ` set ?out \<subseteq> fst ` set ?rs" using near by force
  then have "fst ` set ?out \<subseteq> fst ` set (v_rows t)" by (auto simp: rows_of_def)
  note hits = joined_hits_eq [OF wf this]
  have ids: "vh_memory_id ` set (joined_hits t ?out) = ?idof ` fst ` set ?out"
    by (force simp: hits image_iff)
  have "distinct (map ?idof (map fst ?out))"
    using out(1) inj_on_subset [OF bij(1) sub] by (simp add: distinct_map comp_inj_on)
  then have "distinct (map vh_memory_id (joined_hits t ?out))"
    by (simp add: hits comp_def case_prod_beta)
  moreover have "vh_memory_id ` set (joined_hits t ?out) \<subseteq> U"
    using ids sub bij(2) by blast
  moreover have "length (joined_hits t ?out) = min k (card U)"
    by (simp add: hits out(2) bij(4))
  moreover have "d = ?D (?idof r) \<and> (\<forall>i \<in> U - ?idof ` fst ` set ?out. f64_total_cmp d (?D i) \<noteq> GreaterThan)"
    if "(r, d) \<in> set ?out" for r d
  proof -
    from near [OF that] obtain blob where blob: "(r, blob) \<in> set ?rs" "d = dist e blob"
      and far: "\<forall>(r', blob') \<in> set ?rs. r' \<in> fst ` set ?out \<or> f64_total_cmp d (dist e blob') \<noteq> GreaterThan" by blast
    have "f64_total_cmp d (?D i) \<noteq> GreaterThan" if i: "i \<in> U - ?idof ` fst ` set ?out" for i
    proof -
      from i bij(2) obtain r' blob' where r': "(r', blob') \<in> set ?rs" "i = ?idof r'" by force
      with i have "r' \<notin> fst ` set ?out" by blast
      with far r'(1) have "f64_total_cmp d (dist e blob') \<noteq> GreaterThan" by blast
      with r'(2) bij(5) [OF r'(1)] show ?thesis by simp
    qed
    with bij(5) [OF blob(1)] blob(2) show ?thesis by simp
  qed
  ultimately show ?thesis unfolding good_batch_def ids by (force simp: hits)
qed

section \<open>What the loops return\<close>

lemma insert_unseen_eq:
  assumes "insert_unseen seen hs = (new, seen')"
  shows "seen' = seen \<union> vh_memory_id ` set hs \<and> vh_memory_id ` set new = vh_memory_id ` set hs - seen \<and>
    distinct (map vh_memory_id new) \<and> set new \<subseteq> set hs"
  using assms
proof (induction seen hs arbitrary: new seen' rule: insert_unseen.induct)
  case (2 seen h hs)
  show ?case
  proof (cases "vh_memory_id h \<in> seen")
    case True
    with 2 show ?thesis by auto
  next
    case False
    obtain new1 seen1 where rec: "insert_unseen (insert (vh_memory_id h) seen) hs = (new1, seen1)" by fastforce
    from 2(2) [OF False rec] have IH: "seen1 = insert (vh_memory_id h) seen \<union> vh_memory_id ` set hs"
      "vh_memory_id ` set new1 = vh_memory_id ` set hs - insert (vh_memory_id h) seen" "distinct (map vh_memory_id new1)" "set new1 \<subseteq> set hs"
      by simp_all
    then have "vh_memory_id h \<notin> vh_memory_id ` set new1" by simp
    moreover have "new = h # new1" "seen' = seen1" using 2(3) False rec by simp_all
    ultimately show ?thesis using IH False by (auto simp del: image_insert simp: insert_Diff_if)
  qed
qed simp

text \<open>A set of memories none of the others is nearer than.\<close>

definition nearest :: "memory_id set \<Rightarrow> (memory_id \<Rightarrow> f64) \<Rightarrow> memory_id set \<Rightarrow> bool" where
  "nearest U D S \<longleftrightarrow> S \<subseteq> U \<and> (\<forall>i \<in> S. \<forall>j \<in> U - S. f64_total_cmp (D i) (D j) \<noteq> GreaterThan)"

text \<open>The results of the memories \<open>S\<close>, and the state of a loop that has seen them.\<close>

definition results_of ::
  "sqlite_store \<Rightarrow> (string \<Rightarrow> string) \<Rightarrow> memory_db \<Rightarrow> post_filter_context \<Rightarrow> (memory_id \<Rightarrow> f64) \<Rightarrow> memory_id set \<Rightarrow> search_result list" where
  "results_of st lc db ctx D S = List.map_filter (candidate_view st lc db ctx D) (filter (\<lambda>r. m_id r \<in> S) (rows db))"

definition loop_inv ::
  "sqlite_store \<Rightarrow> (string \<Rightarrow> string) \<Rightarrow> memory_db \<Rightarrow> post_filter_context \<Rightarrow> memory_id set \<Rightarrow> (memory_id \<Rightarrow> f64) \<Rightarrow>
   search_result list \<Rightarrow> memory_id set \<Rightarrow> bool" where
  "loop_inv st lc db ctx U D results seen \<longleftrightarrow> nearest U D seen \<and> mset results = mset (results_of st lc db ctx D seen)"

lemma results_of_union:
  assumes "S \<inter> T = {}"
  shows "mset (results_of st lc db ctx D (S \<union> T)) = mset (results_of st lc db ctx D S) + mset (results_of st lc db ctx D T)"
proof -
  have "mset (List.map_filter g (filter (\<lambda>r. m_id r \<in> S \<union> T) rs)) =
      mset (List.map_filter g (filter (\<lambda>r. m_id r \<in> S) rs)) + mset (List.map_filter g (filter (\<lambda>r. m_id r \<in> T) rs))" for g and rs :: "memory_row list"
    using assms by (induction rs) (auto split: option.splits)
  then show ?thesis by (simp only: results_of_def)
qed

lemma nearest_union:
  assumes "nearest U D seen" and "good_batch U D k hits"
  shows "nearest U D (seen \<union> vh_memory_id ` set hits)"
  using assms by (auto simp: nearest_def good_batch_def)

lemma loop_step:
  assumes ids: "distinct (row_ids db)" and inv: "loop_inv st lc db ctx U D results seen"
    and batch: "good_batch U D k hits" and unseen: "insert_unseen seen hits = (new, seen')"
    and U: "finite U"
  defines "results' \<equiv> if new = [] then results else post_filter_results st lc db results (hydrate_candidates db new) new ctx"
  shows "loop_inv st lc db ctx U D results' seen'" and "length hits < k \<Longrightarrow> seen' = U" and "k \<le> card U \<Longrightarrow> k \<le> card seen'"
    and "length hits = min k (card U)"
proof -
  note eq = insert_unseen_eq [OF unseen]
  have sub: "vh_memory_id ` set hits \<subseteq> seen'" "seen' \<subseteq> U"
    using eq inv batch by (auto simp: loop_inv_def nearest_def good_batch_def)
  have card: "card (vh_memory_id ` set hits) = length hits"
    using batch by (metis card_image distinct_card distinct_map good_batch_def length_map list.set_map)
  show "length hits = min k (card U)" using batch by (simp add: good_batch_def)
  show "seen' = U" if "length hits < k"
  proof -
    have "card (vh_memory_id ` set hits) = card U" using card that batch by (simp add: good_batch_def)
    then have "vh_memory_id ` set hits = U" using batch U by (intro card_subset_eq) (auto simp: good_batch_def)
    with sub show ?thesis by blast
  qed
  show "k \<le> card seen'" if "k \<le> card U"
    using card that batch card_mono [OF finite_subset [OF sub(2) U] sub(1)] by (simp add: good_batch_def)
  have "results' = results @ results_of st lc db ctx D (vh_memory_id ` set new)"
  proof (cases "new = []")
    case True
    then show ?thesis by (simp add: results'_def results_of_def)
  next
    case False
    have "distinct (map vh_memory_id new)" "\<forall>h \<in> set new. vh_distance h = D (vh_memory_id h)"
      using eq batch by (auto simp: good_batch_def)
    from False post_filter_results_eq [OF ids this] show ?thesis by (simp add: results'_def results_of_def)
  qed
  moreover have "seen' = seen \<union> vh_memory_id ` set new" using eq by auto
  moreover have "seen \<inter> vh_memory_id ` set new = {}" using eq by blast
  ultimately have "mset results' = mset (results_of st lc db ctx D seen')"
    using inv results_of_union [of seen "vh_memory_id ` set new" st lc db ctx D] by (simp only: loop_inv_def mset_append)
  with nearest_union [of U D seen k hits] inv batch eq show "loop_inv st lc db ctx U D results' seen'"
    by (simp add: loop_inv_def)
qed

text \<open>A loop is done when it has \<open>limit\<close> results, has seen everything, or has examined the candidate
  ceiling.\<close>

definition search_done ::
  "sqlite_store \<Rightarrow> (string \<Rightarrow> string) \<Rightarrow> memory_db \<Rightarrow> post_filter_context \<Rightarrow> memory_id set \<Rightarrow> (memory_id \<Rightarrow> f64) \<Rightarrow> nat \<Rightarrow>
   (store_error + search_result list) option \<Rightarrow> bool" where
  "search_done st lc db ctx U D limit out \<longleftrightarrow> (\<exists>results S. out = Some (Inr results) \<and> loop_inv st lc db ctx U D results S \<and>
     (limit \<le> length results \<or> S = U \<or> MAX_VEC_CANDIDATES \<le> card S))"

lemma search_doneI:
  assumes "loop_inv st lc db ctx U D results S"
    and "length hits < k \<Longrightarrow> S = U" and "k \<le> card U \<Longrightarrow> k \<le> card S" and "length hits = min k (card U)"
    and "k = min fetch_size MAX_VEC_CANDIDATES"
    and "limit \<le> length results \<or> length hits < fetch_size \<or> fetch_size \<ge> MAX_VEC_CANDIDATES"
  shows "search_done st lc db ctx U D limit (Some (Inr results))"
proof -
  have "limit \<le> length results \<or> S = U \<or> MAX_VEC_CANDIDATES \<le> card S"
  proof (cases "length hits < k")
    case False
    with assms(4) have "k \<le> card U" "length hits = k" by simp_all
    with assms(3,5,6) show ?thesis by (auto simp: min_def split: if_splits)
  qed (simp add: assms(2))
  then show ?thesis using assms(1) by (auto simp: search_done_def)
qed

lemma search_batch_good:
  assumes wf: "vec_wf dimensions t" and knn: "knn_ok knn dist" and "vec_acceptable dimensions e" and k: "0 < k" "k < 2 ^ 63"
  shows "\<exists>hits. search_batch knn dimensions t e k = Inr hits \<and> good_batch (fst ` set (v_map t)) (vector_distance dist t e) k hits"
proof -
  have "rows_of t (fst ` set (v_map t)) = v_rows t"
  proof -
    have "\<exists>i \<in> fst ` set (v_map t). (i, r) \<in> set (v_map t)" if "(r, blob) \<in> set (v_rows t)" for r blob
    proof -
      have "r \<in> snd ` set (v_map t)" using wf that by (force simp: vec_wf_def)
      then show ?thesis by force
    qed
    then show ?thesis by (auto simp: rows_of_def filter_id_conv)
  qed
  then have "good_batch (fst ` set (v_map t)) (vector_distance dist t e) k (joined_hits t (knn (v_rows t) e k))"
    using joined_good [OF wf knn subset_refl, of e k] by simp
  moreover have "search_batch knn dimensions t e k =
      Inr (sort_by (\<lambda>a b. f64_total_cmp (vh_distance a) (vh_distance b)) (joined_hits t (knn (v_rows t) e k)))"
    using assms(3) k validate_iff [of e dimensions] by (simp add: search_batch_def usize_to_i64_small)
  ultimately show ?thesis by (simp add: good_batch_mset [OF mset_sort_by])
qed

lemma embedding_rounds_return:
  assumes ids: "distinct (row_ids db)" and wf: "vec_wf (ss_dimensions st) (d_vectors db)" and knn: "knn_ok knn dist"
    and e: "vec_acceptable (ss_dimensions st) e" and "0 < fetch_size" and "loop_inv st lc db ctx U D results seen"
    and U: "U = fst ` set (v_map (d_vectors db))" and D: "D = vector_distance dist (d_vectors db) e"
  shows "search_done st lc db ctx U D limit (embedding_rounds st lc knn db e limit ctx results seen fetch_size)"
  using assms(5,6)
proof (induction "MAX_VEC_CANDIDATES - fetch_size" arbitrary: results seen fetch_size rule: less_induct)
  case less
  define k where "k = min fetch_size MAX_VEC_CANDIDATES"
  have "0 < k" "k < 2 ^ 63" using less.prems(1) by (simp_all add: k_def MAX_VEC_CANDIDATES_def)
  from search_batch_good [OF wf knn e this] obtain hits where
    hits: "search_batch knn (ss_dimensions st) (d_vectors db) e k = Inr hits" "good_batch U D k hits" by (auto simp: U D)
  obtain new seen' where unseen: "insert_unseen seen hits = (new, seen')" by fastforce
  define results' where "results' = (if new = [] then results else post_filter_results st lc db results (hydrate_candidates db new) new ctx)"
  have "finite U" by (simp add: U)
  note step = loop_step [OF ids less.prems(2) hits(2) unseen this, folded results'_def]
  note finish = search_doneI [OF step k_def]
  have "embedding_rounds st lc knn db e limit ctx results seen fetch_size =
     (if new = [] \<and> length hits < fetch_size then Some (Inr results')
      else if length results' \<ge> limit \<or> length hits < fetch_size then Some (Inr results')
      else if fetch_size \<ge> MAX_VEC_CANDIDATES then Some (Inr results')
      else embedding_rounds st lc knn db e limit ctx results' seen' (usize_sat (fetch_size * 2)))"
    by (subst embedding_rounds.simps) (simp add: hits(1) [unfolded k_def] unseen results'_def Let_def)
  moreover have "search_done st lc db ctx U D limit (embedding_rounds st lc knn db e limit ctx results' seen' (usize_sat (fetch_size * 2)))"
    if "\<not> fetch_size \<ge> MAX_VEC_CANDIDATES"
    using that less.prems(1) step(1) by (intro less.hyps) (auto simp: usize_sat_def MAX_VEC_CANDIDATES_def)
  ultimately show ?case using finish [of limit] by auto
qed

definition eligible_ids :: "memory_db \<Rightarrow> memory_filter \<Rightarrow> string option \<Rightarrow> datetime \<Rightarrow> memory_id set" where
  "eligible_ids db f caller now = {i \<in> fst ` set (v_map (d_vectors db)). \<exists>r \<in> set (rows db). m_id r = i \<and> from_filter db f caller now r}"

lemma filtered_batch_good:
  assumes wf: "vec_wf dimensions (d_vectors db)" and knn: "knn_ok knn dist" and "k < 2 ^ 63"
  shows "\<exists>hits. filtered_batch knn db e f caller now k = Inr hits \<and>
    good_batch (eligible_ids db f caller now) (vector_distance dist (d_vectors db) e) k hits"
proof -
  have sub: "eligible_ids db f caller now \<subseteq> fst ` set (v_map (d_vectors db))" by (auto simp: eligible_ids_def)
  have "r \<in> set (eligible_rowids db f caller now) \<longleftrightarrow> (\<exists>i \<in> eligible_ids db f caller now. (i, r) \<in> set (v_map (d_vectors db)))" for r
    by (force simp: eligible_rowids_def eligible_ids_def)
  then have "filter (\<lambda>(r, _). r \<in> set (eligible_rowids db f caller now)) (v_rows (d_vectors db)) =
      rows_of (d_vectors db) (eligible_ids db f caller now)"
    by (simp add: rows_of_def)
  then show ?thesis
    using joined_good [OF wf knn sub, of e k] assms(3)
    by (simp add: filtered_batch_def usize_to_i64_small good_batch_mset [OF mset_sort_by])
qed

lemma filtered_rounds_return:
  assumes ids: "distinct (row_ids db)" and wf: "vec_wf dimensions (d_vectors db)" and knn: "knn_ok knn dist"
    and "0 < fetch_size" and "loop_inv st lc db ctx U D results seen"
    and U: "U = eligible_ids db (pf_filter ctx) (pf_caller ctx) (pf_now ctx)" and D: "D = vector_distance dist (d_vectors db) e"
  shows "search_done st lc db ctx U D limit (filtered_rounds st lc knn db e limit ctx results seen fetch_size)"
  using assms(4,5)
proof (induction "MAX_VEC_CANDIDATES - fetch_size" arbitrary: results seen fetch_size rule: less_induct)
  case less
  define k where "k = min fetch_size MAX_VEC_CANDIDATES"
  have "k < 2 ^ 63" by (simp add: k_def MAX_VEC_CANDIDATES_def)
  from filtered_batch_good [OF wf knn this] obtain hits where
    hits: "filtered_batch knn db e (pf_filter ctx) (pf_caller ctx) (pf_now ctx) k = Inr hits" "good_batch U D k hits"
    unfolding U D by blast
  obtain new seen' where unseen: "insert_unseen seen hits = (new, seen')" by fastforce
  define results' where "results' = (if new = [] then results else post_filter_results st lc db results (hydrate_candidates db new) new ctx)"
  have "finite U" by (simp add: U eligible_ids_def)
  note step = loop_step [OF ids less.prems(2) hits(2) unseen this, folded results'_def]
  note finish = search_doneI [OF step k_def]
  have "filtered_rounds st lc knn db e limit ctx results seen fetch_size =
     (if length results' \<ge> limit \<or> length hits < k then Some (Inr results')
      else if fetch_size \<ge> MAX_VEC_CANDIDATES then Some (Inr results')
      else filtered_rounds st lc knn db e limit ctx results' seen' (usize_sat (fetch_size * 2)))"
    by (subst filtered_rounds.simps) (simp add: hits(1) [unfolded k_def] unseen results'_def Let_def k_def)
  moreover have "search_done st lc db ctx U D limit (filtered_rounds st lc knn db e limit ctx results' seen' (usize_sat (fetch_size * 2)))"
    if "\<not> fetch_size \<ge> MAX_VEC_CANDIDATES"
    using that less.prems(1) step(1) by (intro less.hyps) (auto simp: usize_sat_def MAX_VEC_CANDIDATES_def)
  ultimately show ?case using finish [of limit] by (auto simp: k_def)
qed

lemma candidate_view_id: "candidate_view st lc db ctx D r = Some y \<Longrightarrow> m_id (sr_memory y) = m_id r"
  by (auto simp: candidate_view_def plain_result_def dest: filtered_view_id split: if_splits)

text \<open>The order of the accumulated results is irrelevant: their identifiers tell them apart.\<close>

lemma sort_results_unique:
  assumes ids: "distinct (row_ids db)" and "mset results = mset (results_of st lc db ctx D S)"
  shows "sort_by_distance results = sort_by_distance (results_of st lc db ctx D S)"
proof -
  have "distinct (map (\<lambda>x. m_id (sr_memory x)) (results_of st lc db ctx D S))"
    unfolding results_of_def
  proof (rule distinct_map_filter_ids)
    show "distinct (map m_id (filter (\<lambda>r. m_id r \<in> S) (rows db)))"
      using ids by (simp add: row_ids_def distinct_map_filter)
  qed (rule candidate_view_id)
  then have "inj_on (\<lambda>x. m_id (sr_memory x)) (set results)"
    using mset_eq_setD [OF assms(2)] by (simp add: distinct_map)
  then show ?thesis
    unfolding sort_by_distance_def using assms(2)
    by (intro distance_asc.sort_by_unique_on) (auto simp: cmp_search_result_distance_asc_def cmp_ord_def inj_on_def split: if_splits)
qed

lemma search_done_sorted:
  assumes "distinct (row_ids db)" and "search_done st lc db ctx U D limit out"
  shows "\<exists>S. nearest U D S \<and>
    map_option (map_sum id (\<lambda>results. take limit (sort_by_distance results))) out =
      Some (Inr (take limit (sort_by_distance (results_of st lc db ctx D S)))) \<and>
    (limit \<le> length (results_of st lc db ctx D S) \<or> S = U \<or> MAX_VEC_CANDIDATES \<le> card S)"
proof -
  from assms(2) obtain results S where out: "out = Some (Inr results)" and inv: "loop_inv st lc db ctx U D results S"
    and stop: "limit \<le> length results \<or> S = U \<or> MAX_VEC_CANDIDATES \<le> card S" by (auto simp: search_done_def)
  from inv have "nearest U D S" and same: "mset results = mset (results_of st lc db ctx D S)" by (simp_all add: loop_inv_def)
  with out stop sort_results_unique [OF assms(1) same] mset_eq_length [OF same] show ?thesis by auto
qed

text \<open>Whether the filter selects contexts, and the memories a search ranks.\<close>

definition governed_filter :: "memory_filter \<Rightarrow> bool" where
  "governed_filter f \<longleftrightarrow> mf_context_ids f \<noteq> None \<or> (case mf_legacy_context_ids_any f of None \<Rightarrow> False | Some ids \<Rightarrow> ids \<noteq> [])"

definition search_space :: "(string \<Rightarrow> string) \<Rightarrow> memory_db \<Rightarrow> memory_filter \<Rightarrow> string option \<Rightarrow> datetime \<Rightarrow> memory_id set" where
  "search_space lc db f caller now =
     (if governed_filter f then eligible_ids db (normalize_filter lc f) caller now else fst ` set (v_map (d_vectors db)))"

definition search_context :: "(string \<Rightarrow> string) \<Rightarrow> memory_filter \<Rightarrow> string option \<Rightarrow> f64 option \<Rightarrow> datetime \<Rightarrow> post_filter_context" where
  "search_context lc f caller max_distance now =
     \<lparr>pf_filter = normalize_filter lc f, pf_caller = caller, pf_now = now, pf_max_distance = max_distance\<rparr>"

text \<open>Whichever loop runs, it ends with the nearest of what it may rank.\<close>

lemma embedding_search_done:
  assumes ids: "distinct (row_ids db)" and wf: "vec_wf (ss_dimensions st) (d_vectors db)" and knn: "knn_ok knn dist"
    and e: "vec_acceptable (ss_dimensions st) e" and "0 < limit"
  shows "\<exists>S. nearest (search_space lc db f caller now) (vector_distance dist (d_vectors db) e) S \<and>
    search_by_embedding_impl st lc knn db e limit f caller max_distance now =
      Some (Inr (take limit (sort_by_distance
        (results_of st lc db (search_context lc f caller max_distance now) (vector_distance dist (d_vectors db) e) S)))) \<and>
    (limit \<le> length (results_of st lc db (search_context lc f caller max_distance now) (vector_distance dist (d_vectors db) e) S) \<or>
     S = search_space lc db f caller now \<or> MAX_VEC_CANDIDATES \<le> card S)"
proof -
  let ?U = "search_space lc db f caller now" let ?D = "vector_distance dist (d_vectors db) e"
  let ?ctx = "search_context lc f caller max_distance now" let ?n = "usize_sat (limit * OVERFETCH_FACTOR)"
  have n: "0 < ?n" using assms(5) by (simp add: usize_sat_def OVERFETCH_FACTOR_def)
  have start: "loop_inv st lc db ?ctx ?U ?D [] {}" by (simp add: loop_inv_def nearest_def results_of_def)
  have governed: "mf_context_ids (normalize_filter lc f) = mf_context_ids f"
    "mf_legacy_context_ids_any (normalize_filter lc f) = mf_legacy_context_ids_any f"
    by (simp_all add: normalize_filter_def Let_def split: option.splits)
  have "validate_embedding_vector e (ss_dimensions st) = Inr ()" using e by simp
  then have body: "search_by_embedding_impl st lc knn db e limit f caller max_distance now =
      (if governed_filter f then filtered_embedding_search_loop st lc knn db e limit ?ctx else embedding_search_loop st lc knn db e limit ?ctx)"
    using assms(5) by (simp only: search_by_embedding_impl_def governed_filter_def governed search_context_def Let_def sum.case) simp
  show ?thesis
  proof (cases "governed_filter f")
    case True
    then have U: "?U = eligible_ids db (pf_filter ?ctx) (pf_caller ?ctx) (pf_now ?ctx)" by (simp add: search_space_def search_context_def)
    show ?thesis
      using search_done_sorted [OF ids filtered_rounds_return [OF ids wf knn n start U refl, of limit]] True
      by (simp only: body filtered_embedding_search_loop_def if_True)
  next
    case False
    then have U: "?U = fst ` set (v_map (d_vectors db))" by (simp add: search_space_def)
    show ?thesis
      using search_done_sorted [OF ids embedding_rounds_return [OF ids wf knn e n start U refl, of limit]] False
      by (simp only: body embedding_search_loop_def if_False)
  qed
qed

text \<open>Claim C18. Vector search returns the nearest visible memories. The adaptive loop always ends, for every
  limit, and there is a set \<open>S\<close> of ranked memories, none of the others nearer, such that the answer is the
  \<^verbatim>\<open>limit\<close> nearest of the results the members of \<open>S\<close> have for the caller; \<open>S\<close> holds \<^verbatim>\<open>limit\<close> results, or is
  every ranked memory, or has reached the candidate ceiling. Batching, retries, late entity hydration
  and the order of rows leave no trace. With a context filter only the memories the filter selects are
  ranked.\<close>

theorem vector_search_nearest:
  assumes ids: "distinct (row_ids db)" and wf: "vec_wf (ss_dimensions st) (d_vectors db)" and knn: "knn_ok knn dist"
    and e: "vec_acceptable (ss_dimensions st) e" and "0 < limit"
  shows "\<exists>S. nearest (search_space lc db f caller now) (vector_distance dist (d_vectors db) e) S \<and>
    search_by_embedding_impl st lc knn db e limit f caller max_distance now =
      Some (Inr (take limit (sort_by_distance
        (results_of st lc db (search_context lc f caller max_distance now) (vector_distance dist (d_vectors db) e) S)))) \<and>
    (limit \<le> length (results_of st lc db (search_context lc f caller max_distance now) (vector_distance dist (d_vectors db) e) S) \<or>
     S = search_space lc db f caller now \<or> MAX_VEC_CANDIDATES \<le> card S)"
  by (rule embedding_search_done [OF assms])

section \<open>Witnesses\<close>

text \<open>Ranking every row meets the contract of the nearest-neighbour query, for every distance.\<close>

definition brute_knn :: "(f32 list \<Rightarrow> u8 list \<Rightarrow> f64) \<Rightarrow> knn_query" where
  "brute_knn dist rs e k = take k (sort_by (\<lambda>a b. f64_total_cmp (snd a) (snd b)) (map (\<lambda>(r, blob). (r, dist e blob)) rs))"

lemma brute_knn_ok: "knn_ok (brute_knn dist) dist"
  unfolding knn_ok_def
proof (intro allI impI)
  fix rs :: "(int \<times> u8 list) list" and e k assume ids: "distinct (map fst rs)"
  define L where "L = sort_by (\<lambda>a b :: int \<times> f64. f64_total_cmp (snd a) (snd b)) (map (\<lambda>(r, blob). (r, dist e blob)) rs)"
  have out: "brute_knn dist rs e k = take k L" by (simp add: brute_knn_def L_def)
  have L: "set L = (\<lambda>(r, blob). (r, dist e blob)) ` set rs" "length L = length rs" by (simp_all add: L_def)
  have "mset (map fst L) = mset (map fst rs)" by (simp add: L_def image_mset.compositionality comp_def case_prod_beta)
  then have "distinct (map fst L)" using ids mset_eq_imp_distinct_iff by blast
  then have distinct: "distinct (map fst (take k L))" by (simp add: take_map [symmetric])
  have sorted: "sorted_wrt (\<lambda>a b. f64_total_cmp (snd a) (snd b) \<noteq> GreaterThan) (take k L @ drop k L)"
    unfolding append_take_drop_id unfolding L_def
    by (rule comparator.sorted_sort_by [OF comparator_on [OF f64_cmp.comparator_axioms]])
  have "\<exists>blob. (r, blob) \<in> set rs \<and> d = dist e blob \<and>
       (\<forall>(r', blob') \<in> set rs. r' \<in> fst ` set (take k L) \<or> f64_total_cmp d (dist e blob') \<noteq> GreaterThan)"
    if rd: "(r, d) \<in> set (take k L)" for r d
  proof -
    from rd L(1) obtain blob where "(r, blob) \<in> set rs" "d = dist e blob" by (fastforce dest: in_set_takeD)
    moreover have "f64_total_cmp d (dist e blob') \<noteq> GreaterThan" if "(r', blob') \<in> set rs" "r' \<notin> fst ` set (take k L)" for r' blob'
    proof -
      have "(r', dist e blob') \<in> set (take k L @ drop k L)" using that(1) L(1) by (force simp: append_take_drop_id)
      moreover have "(r', dist e blob') \<notin> set (take k L)" using that(2) by (metis fst_conv imageI)
      ultimately have "(r', dist e blob') \<in> set (drop k L)" unfolding set_append by blast
      with sorted [unfolded sorted_wrt_append] rd show ?thesis by (metis snd_conv)
    qed
    ultimately show ?thesis by blast
  qed
  then show "distinct (map fst (brute_knn dist rs e k)) \<and> length (brute_knn dist rs e k) = min k (length rs) \<and>
     (\<forall>(r, d) \<in> set (brute_knn dist rs e k). \<exists>blob. (r, blob) \<in> set rs \<and> d = dist e blob \<and>
       (\<forall>(r', blob') \<in> set rs. r' \<in> fst ` set (brute_knn dist rs e k) \<or> f64_total_cmp d (dist e blob') \<noteq> GreaterThan))"
    using distinct L(2) by (auto simp: out min.commute)
qed

definition vector_mdb :: memory_db where
  "vector_mdb = (query_mdb ''secret plan'')\<lparr>d_vectors := \<lparr>v_map = [(7, 1), (8, 2)], v_rows = [(1, replicate 8 0), (2, replicate 8 1)]\<rparr>\<rparr>"

theorem vector_search_nearest_witness:
  "\<exists>S. nearest (search_space (\<lambda>s. s) vector_mdb memory_filter_default (Some ''bob'') 50) (vector_distance (\<lambda>_ blob. ucast (hd blob)) (d_vectors vector_mdb) [0, 0]) S \<and>
    search_by_embedding_impl query_sqlite (\<lambda>s. s) (brute_knn (\<lambda>_ blob. ucast (hd blob))) vector_mdb [0, 0] 3 memory_filter_default (Some ''bob'') None 50 =
      Some (Inr (take 3 (sort_by_distance
        (results_of query_sqlite (\<lambda>s. s) vector_mdb (search_context (\<lambda>s. s) memory_filter_default (Some ''bob'') None 50)
          (vector_distance (\<lambda>_ blob. ucast (hd blob)) (d_vectors vector_mdb) [0, 0]) S)))) \<and>
    (3 \<le> length (results_of query_sqlite (\<lambda>s. s) vector_mdb (search_context (\<lambda>s. s) memory_filter_default (Some ''bob'') None 50)
          (vector_distance (\<lambda>_ blob. ucast (hd blob)) (d_vectors vector_mdb) [0, 0]) S) \<or>
     S = search_space (\<lambda>s. s) vector_mdb memory_filter_default (Some ''bob'') 50 \<or> MAX_VEC_CANDIDATES \<le> card S)"
proof (rule vector_search_nearest)
  show "distinct (row_ids vector_mdb)" "vec_wf (ss_dimensions query_sqlite) (d_vectors vector_mdb)"
    "vec_acceptable (ss_dimensions query_sqlite) [0, 0]" by code_simp+
qed (simp_all add: brute_knn_ok)

end
