(* ===== verification/Engine_Consolidation.thy ===== *)
theory Engine_Consolidation
  imports Memory_Coherence Memory_Search Consolidation
begin

text \<open>
  Consolidation of near-duplicate memories: \<^verbatim>\<open>consolidate_memories\<close>, \<^verbatim>\<open>bfs_discover_pairs\<close>,
  \<^verbatim>\<open>collect_bfs_neighbors\<close> and the merge of \<^verbatim>\<open>src/src/engine.rs\<close> over the SQLite store's
  \<^verbatim>\<open>list_memories_with_embeddings\<close> (\<^verbatim>\<open>src/src/store/crud.rs\<close>) and \<^verbatim>\<open>find_embedding_neighbors_impl\<close>
  (\<^verbatim>\<open>src/src/store/search.rs\<close>).

  \<^verbatim>\<open>vec_distance_cosine\<close> of sqlite-vec is the parameter \<open>cosd\<close>, the details of an audit entry are the
  parameter \<open>details\<close>, and the clock read for the entry of a member is \<open>drafted\<close>. \<open>None\<close> is a panic: an index
  out of bounds, or one of the grouping; the theorems exclude it. A run has no other writer
  between its discovery and its merges; each merge still checks its snapshots. The discovery is generic in the
  neighbour query \<open>nearby\<close>.
\<close>

section \<open>The store's candidates\<close>

definition list_memories_with_embeddings ::
  "sqlite_store \<Rightarrow> memory_db \<Rightarrow> context_id list option \<Rightarrow> context_id list option \<Rightarrow> string \<Rightarrow> datetime \<Rightarrow> nat \<Rightarrow>
   store_error + memory_with_embedding list" where
  "list_memories_with_embeddings st db ctx_ids legacy_ids_any p now limit =
     result_bind (usize_to_i64 limit) (\<lambda>n.
       let applicable = context_conditions db
             (memory_filter_default\<lparr>mf_context_ids := ctx_ids, mf_legacy_context_ids_any := legacy_ids_any\<rparr>);
           selected = filter (\<lambda>r. m_has_embedding r \<and> m_superseded_by r = None \<and>
               (case m_expires_at r of None \<Rightarrow> True | Some t \<Rightarrow> now < t) \<and>
               list_ex (\<lambda>(i, v). i = m_id r \<and> list_ex (\<lambda>(v', _). v' = v) (v_rows (d_vectors db))) (v_map (d_vectors db)) \<and>
               sql_write_filter (Some p) (m_provenance r) (m_access_policy r) \<and> applicable (m_id r)) (rows db);
           memories = map row_to_memory (take (nat n) (sort_by cmp_newest selected));
           embeddings = fetch_many (ss_le st) (ss_dimensions st) (map m_id memories) (d_vectors db)
       in Inr (List.map_filter (\<lambda>m. map_option (\<lambda>e.
            \<lparr>me_memory = m, me_embedding = Some e, me_context_ids = sqlite_consolidation_context_profile db (m_id m)\<rparr>)
            (embeddings (m_id m))) memories))"

text \<open>\<^verbatim>\<open>ORDER BY similarity DESC, memory_id\<close>\<close>

definition cmp_neighbor :: "memory_id \<times> f64 \<Rightarrow> memory_id \<times> f64 \<Rightarrow> ordering" where
  "cmp_neighbor a b = then_with (cmp_ord (f64_key (snd b)) (f64_key (snd a))) (cmp_ord (fst a) (fst b))"

definition find_embedding_neighbors_impl ::
  "f64_arith \<Rightarrow> (u8 list \<Rightarrow> f32 list \<Rightarrow> f64) \<Rightarrow> sqlite_store \<Rightarrow> memory_db \<Rightarrow> memory_id \<Rightarrow> memory_id list \<Rightarrow> f32 list \<Rightarrow> f64 \<Rightarrow> nat \<Rightarrow>
   store_error + (memory_id \<times> f64) list" where
  "find_embedding_neighbors_impl fa cosd st db source_id candidate_ids e min_cosine_similarity limit =
     (if limit = 0 \<or> candidate_ids = [] then Inr []
      else result_bind (validate_embedding_vector e (ss_dimensions st)) (\<lambda>_.
        result_bind (usize_to_i64 limit) (\<lambda>n.
          let ranked_candidates = [(i, fa_sub fa f64_one (cosd blob e)). (rowid, blob) \<leftarrow> v_rows (d_vectors db),
                (i, v) \<leftarrow> v_map (d_vectors db), v = rowid, i \<in> set candidate_ids, i \<noteq> source_id,
                r \<leftarrow> rows db, m_id r = i, m_superseded_by r = None]
          in Inr (take (nat n) (sort_by cmp_neighbor
               (filter (\<lambda>(_, s). f64_le min_cosine_similarity s \<and> f64_le s f64_one) ranked_candidates))))))"

section \<open>Discovery\<close>

type_synonym neighbor_query = "memory_id \<Rightarrow> memory_id list \<Rightarrow> f32 list \<Rightarrow> f64 \<Rightarrow> nat \<Rightarrow> store_error + (memory_id \<times> f64) list"

type_synonym bfs_cluster = "nat set \<times> nat list \<times> neighbor_pair list"

text \<open>One turn of the loop of \<^verbatim>\<open>collect_bfs_neighbors\<close>, on the cluster, the frontier and the pairs.\<close>

definition collect_neighbor ::
  "memory_with_embedding list \<Rightarrow> f64 \<Rightarrow> nat \<Rightarrow> nat set \<Rightarrow> bfs_cluster \<Rightarrow> memory_id \<times> f64 \<Rightarrow> bfs_cluster" where
  "collect_neighbor memories threshold current queried st neighbor =
     (case st of (cluster, frontier, pairs) \<Rightarrow>
        (case id_to_idx memories (fst neighbor) of
           None \<Rightarrow> st
         | Some j \<Rightarrow>
             if me_context_ids (memories ! j) \<noteq> me_context_ids (memories ! current) then st
             else if j \<in> cluster then st
             else if f64_lt (snd neighbor) threshold then st
             else (insert j cluster, if j \<in> queried then frontier else frontier @ [j],
                   pairs @ [\<lparr>np_id_a = candidate_id memories current, np_id_b = fst neighbor, np_similarity = snd neighbor\<rparr>])))"

definition collect_bfs_neighbors ::
  "(memory_id \<times> f64) list \<Rightarrow> memory_with_embedding list \<Rightarrow> f64 \<Rightarrow> nat \<Rightarrow> nat set \<Rightarrow> bfs_cluster \<Rightarrow> bfs_cluster" where
  "collect_bfs_neighbors neighbors memories threshold current queried st =
     foldl (collect_neighbor memories threshold current queried) st neighbors"

text \<open>\<^verbatim>\<open>candidate_ids_by_profile\<close>\<close>

definition profile_candidates :: "memory_with_embedding list \<Rightarrow> context_id list \<Rightarrow> memory_id list option" where
  "profile_candidates memories profile =
     (let ids = map (\<lambda>m. m_id (me_memory m)) (filter (\<lambda>m. me_context_ids m = profile) memories)
      in if ids = [] then None else Some ids)"

record bfs_state =
  bs_queried :: "nat set"
  bs_pairs :: "neighbor_pair list"
  bs_work :: nat
  bs_capped :: bool

lemma unqueried_shrinks: "i \<notin> Q \<Longrightarrow> \<not> (n :: nat) \<le> i \<Longrightarrow> card ({..<n} - insert i Q) < card ({..<n} - Q)"
proof -
  assume "i \<notin> Q" "\<not> n \<le> i"
  then have "i \<in> {..<n} - Q" by simp
  moreover have "{..<n} - insert i Q = ({..<n} - Q) - {i}" by blast
  ultimately show ?thesis by (simp only: card_Diff1_less finite_Diff finite_lessThan)
qed

function bfs_expand ::
  "neighbor_query \<Rightarrow> memory_with_embedding list \<Rightarrow> f64 \<Rightarrow> nat \<Rightarrow> nat set \<Rightarrow> nat list \<Rightarrow> bfs_state \<Rightarrow>
   (engine_error + nat set \<times> bfs_state) option" where
  "bfs_expand nearby memories threshold neighbor_limit cluster [] st = Some (Inr (cluster, st))"
| "bfs_expand nearby memories threshold neighbor_limit cluster (i # frontier) st =
     (if i \<in> bs_queried st then bfs_expand nearby memories threshold neighbor_limit cluster frontier st
      else if length memories \<le> i then None
      else let st1 = st\<lparr>bs_queried := insert i (bs_queried st)\<rparr> in
        (case me_embedding (memories ! i) of
           None \<Rightarrow> bfs_expand nearby memories threshold neighbor_limit cluster frontier st1
         | Some e \<Rightarrow>
             (case profile_candidates memories (me_context_ids (memories ! i)) of
                None \<Rightarrow> Some (Inl (Store (Conflict ''consolidation candidate profile was not indexed'')))
              | Some candidate_ids \<Rightarrow>
                  let next_work = usize_sat (bs_work st + length candidate_ids) in
                  if next_work > usize_sat (length memories * neighbor_limit)
                  then Some (Inr (cluster, st1\<lparr>bs_capped := True\<rparr>))
                  else (case nearby (candidate_id memories i) candidate_ids e threshold neighbor_limit of
                      Inl err \<Rightarrow> Some (Inl (Store err))
                    | Inr neighbors \<Rightarrow>
                        (case collect_bfs_neighbors neighbors memories threshold i (bs_queried st1) (cluster, frontier, bs_pairs st) of
                           (cluster', frontier', pairs') \<Rightarrow>
                             bfs_expand nearby memories threshold neighbor_limit cluster' frontier'
                               (st1\<lparr>bs_pairs := pairs', bs_work := next_work\<rparr>))))))"
  by pat_completeness auto
termination
proof (relation "inv_image ({(x, y). x < y} <*lex*> {(x, y). x < y})
    (\<lambda>(nearby, memories, threshold, neighbor_limit, cluster, frontier, st). (card ({..<length memories} - bs_queried st), length frontier))", goal_cases)
  case 1
  show ?case by (intro wf_inv_image wf_lex_prod) (simp_all add: wf_less)
next
  case (3 nearby memories threshold neighbor_limit cluster i frontier st st1)
  from unqueried_shrinks [OF 3(1,2)] show ?case by (simp add: 3(3) del: card_Diff_insert)
next
  case (4 nearby memories threshold neighbor_limit cluster i frontier st st1)
  from unqueried_shrinks [OF 4(1,2)] show ?case by (simp add: 4(3) del: card_Diff_insert)
qed simp

declare bfs_expand.simps(2) [simp del]

fun bfs_roots ::
  "neighbor_query \<Rightarrow> memory_with_embedding list \<Rightarrow> f64 \<Rightarrow> nat \<Rightarrow> nat list \<Rightarrow> nat set \<Rightarrow> bfs_state \<Rightarrow> (engine_error + bfs_state) option" where
  "bfs_roots nearby memories threshold neighbor_limit [] clustered st = Some (Inr st)"
| "bfs_roots nearby memories threshold neighbor_limit (start # starts) clustered st =
     (if start \<in> clustered \<or> me_embedding (memories ! start) = None
      then bfs_roots nearby memories threshold neighbor_limit starts clustered st
      else (case bfs_expand nearby memories threshold neighbor_limit {start} [start] st of
          None \<Rightarrow> None
        | Some (Inl e) \<Rightarrow> Some (Inl e)
        | Some (Inr (cluster, st')) \<Rightarrow>
            if bs_capped st' then Some (Inr st')
            else bfs_roots nearby memories threshold neighbor_limit starts (clustered \<union> cluster) st'))"

definition bfs_discover_pairs ::
  "neighbor_query \<Rightarrow> memory_with_embedding list \<Rightarrow> f64 \<Rightarrow> nat \<Rightarrow> (engine_error + neighbor_pair list \<times> bool) option" where
  "bfs_discover_pairs nearby memories threshold neighbor_limit =
     map_option (map_sum id (\<lambda>st. (bs_pairs st, bs_capped st)))
       (bfs_roots nearby memories threshold neighbor_limit [0..<length memories] {}
         \<lparr>bs_queried = {}, bs_pairs = [], bs_work = 0, bs_capped = False\<rparr>)"

section \<open>Merging\<close>

definition consolidation_snapshot_from :: "memory_with_embedding \<Rightarrow> consolidation_snapshot" where
  "consolidation_snapshot_from candidate =
     \<lparr>cs_memory_id = m_id (me_memory candidate), cs_record_revision = m_record_revision (me_memory candidate),
      cs_context_ids = me_context_ids candidate\<rparr>"

type_synonym snapshots = "memory_id \<rightharpoonup> consolidation_snapshot"

text \<open>The loop over the members: an error ends it and keeps what was committed before; a conflict means that a
  candidate changed after discovery and is skipped.\<close>

fun merge_members ::
  "(memory_id \<Rightarrow> audit_draft) \<Rightarrow> consolidation_snapshot \<Rightarrow> snapshots \<Rightarrow> string \<Rightarrow> memory_id list \<Rightarrow> memory_db \<Rightarrow> bool \<Rightarrow>
   memory_db \<times> (engine_error + bool)" where
  "merge_members audit representative snaps p [] db merged = (db, Inr merged)"
| "merge_members audit representative snaps p (member_id # ids) db merged =
     (case snaps member_id of
        None \<Rightarrow> (db, Inl (Store (Conflict ''consolidation member snapshot is unavailable'')))
      | Some member \<Rightarrow>
          (case mark_superseded_if_unchanged member representative p (audit member_id) db of
             Inr (db', Applied) \<Rightarrow> merge_members audit representative snaps p ids db' True
           | Inr (db', OutcomeNotFound) \<Rightarrow> merge_members audit representative snaps p ids db' merged
           | Inr (db', OutcomeDenied) \<Rightarrow> merge_members audit representative snaps p ids db' merged
           | Inl (Conflict _) \<Rightarrow> merge_members audit representative snaps p ids db merged
           | Inl e \<Rightarrow> (db, Inl (Store e))))"

definition merge_consolidation_group ::
  "(duplicate_group \<Rightarrow> memory_id \<Rightarrow> audit_draft) \<Rightarrow> snapshots \<Rightarrow> string \<Rightarrow> duplicate_group \<Rightarrow> memory_db \<Rightarrow> memory_db \<times> (engine_error + bool)" where
  "merge_consolidation_group audit snaps p dup db =
     (case snaps (dg_representative_id dup) of
        None \<Rightarrow> (db, Inl (Store (Conflict ''consolidation representative snapshot is unavailable'')))
      | Some representative \<Rightarrow>
          merge_members (audit dup) representative snaps p (filter (\<lambda>i. i \<noteq> dg_representative_id dup) (dg_member_ids dup)) db False)"

fun merge_consolidation_groups ::
  "(duplicate_group \<Rightarrow> memory_id \<Rightarrow> audit_draft) \<Rightarrow> snapshots \<Rightarrow> string \<Rightarrow> duplicate_group list \<Rightarrow> memory_db \<Rightarrow> bool \<Rightarrow>
   memory_db \<times> (engine_error + bool)" where
  "merge_consolidation_groups audit snaps p [] db merged = (db, Inr merged)"
| "merge_consolidation_groups audit snaps p (dup # groups) db merged =
     (case merge_consolidation_group audit snaps p dup db of
        (db', Inl e) \<Rightarrow> (db', Inl e)
      | (db', Inr m) \<Rightarrow> merge_consolidation_groups audit snaps p groups db' (merged \<or> m))"

section \<open>Consolidation\<close>

definition MAX_CONSOLIDATION_CANDIDATE_LIMIT_CEILING :: nat where "MAX_CONSOLIDATION_CANDIDATE_LIMIT_CEILING = 10000"
definition MAX_CONSOLIDATION_NEIGHBOR_LIMIT_CEILING :: nat where "MAX_CONSOLIDATION_NEIGHBOR_LIMIT_CEILING = 100"

record consolidation_limits =
  cl_candidate_limit :: nat
  cl_neighbor_limit :: nat

definition consolidation_candidate_limit :: "consolidation_limits \<Rightarrow> nat" where
  "consolidation_candidate_limit limits = min (cl_candidate_limit limits) MAX_CONSOLIDATION_CANDIDATE_LIMIT_CEILING"

definition consolidation_neighbor_limit :: "consolidation_limits \<Rightarrow> nat" where
  "consolidation_neighbor_limit limits = min (cl_neighbor_limit limits) MAX_CONSOLIDATION_NEIGHBOR_LIMIT_CEILING"

record consolidate_result =
  cr_groups :: "duplicate_group list"
  cr_merged :: bool
  cr_candidate_count :: nat
  cr_capped :: bool

text \<open>What a run reads of its surroundings.\<close>

record consolidation_env =
  ce_arith :: f64_arith
  ce_cosine_distance :: "u8 list \<Rightarrow> f32 list \<Rightarrow> f64"
  ce_hash_order :: "(nat \<times> nat list) list \<Rightarrow> (nat \<times> nat list) list"
  ce_limits :: consolidation_limits
  ce_now :: datetime
  ce_drafted :: "memory_id \<Rightarrow> datetime"
  ce_details :: "duplicate_group \<Rightarrow> json"

definition consolidate_audit :: "consolidation_env \<Rightarrow> string \<Rightarrow> duplicate_group \<Rightarrow> memory_id \<Rightarrow> audit_draft" where
  "consolidate_audit env p dup member_id =
     \<lparr>aud_action = AuditConsolidate, aud_caller_agent = Some p, aud_timestamp = ce_drafted env member_id, aud_details = Some (ce_details env dup)\<rparr>"

text \<open>The candidates of a run and whether there were more.\<close>

definition consolidation_candidates ::
  "consolidation_env \<Rightarrow> sqlite_store \<Rightarrow> string \<Rightarrow> context_id list \<Rightarrow> context_id list option \<Rightarrow> memory_db \<Rightarrow>
   store_error + memory_with_embedding list \<times> bool" where
  "consolidation_candidates env st p ctx_ids legacy_ids_any db =
     (let candidate_limit = consolidation_candidate_limit (ce_limits env) in
      result_bind (list_memories_with_embeddings st db (Some ctx_ids) legacy_ids_any p (ce_now env) (usize_sat (candidate_limit + 1))) (\<lambda>found.
        Inr (take candidate_limit found, length found > candidate_limit)))"

definition consolidate_memories ::
  "consolidation_env \<Rightarrow> sqlite_store \<Rightarrow> string \<Rightarrow> context_id list \<Rightarrow> context_id list option \<Rightarrow> f64 \<Rightarrow> nat \<Rightarrow> bool \<Rightarrow> memory_db \<Rightarrow>
   (memory_db \<times> (engine_error + consolidate_result)) option" where
  "consolidate_memories env st p ctx_ids legacy_ids_any threshold limit dry_run db =
     (if \<not> f64_is_finite threshold \<or> \<not> (f64_le f64_zero threshold \<and> f64_le threshold f64_one)
      then Some (db, Inl (Validation (validation_error_new ''similarity_threshold'' ''must be a finite number in [0.0, 1.0]'')))
      else (case consolidation_candidates env st p ctx_ids legacy_ids_any db of
          Inl e \<Rightarrow> Some (db, Inl (Store e))
        | Inr (memories, capped) \<Rightarrow>
            let result = (\<lambda>groups merged capped. \<lparr>cr_groups = groups, cr_merged = merged, cr_candidate_count = length memories, cr_capped = capped\<rparr>) in
            if length memories < 2 then Some (db, Inr (result [] False capped))
            else (case bfs_discover_pairs (find_embedding_neighbors_impl (ce_arith env) (ce_cosine_distance env) st db) memories threshold
                     (consolidation_neighbor_limit (ce_limits env)) of
                None \<Rightarrow> None
              | Some (Inl e) \<Rightarrow> Some (db, Inl e)
              | Some (Inr (pairs, work_capped)) \<Rightarrow>
                  (case find_duplicate_groups_from_pairs (ce_arith env) (ce_hash_order env) memories pairs limit of
                     None \<Rightarrow> None
                   | Some groups \<Rightarrow>
                       if groups = [] \<or> dry_run then Some (db, Inr (result groups False (capped \<or> work_capped)))
                       else (case merge_consolidation_groups (consolidate_audit env p)
                               (map_of (rev (map (\<lambda>m. (m_id (me_memory m), consolidation_snapshot_from m)) memories))) p groups db False of
                           (db', Inl e) \<Rightarrow> Some (db', Inl e)
                         | (db', Inr merged) \<Rightarrow> Some (db', Inr (result groups merged (capped \<or> work_capped))))))))"

section \<open>Discovery spans the similarity graph\<close>

text \<open>The graph: an edge for every neighbour the query reports for a candidate, in the same ordered profile
  and not below the threshold.\<close>

definition similar :: "neighbor_query \<Rightarrow> memory_with_embedding list \<Rightarrow> f64 \<Rightarrow> nat \<Rightarrow> (nat \<times> nat) set" where
  "similar nearby memories threshold neighbor_limit =
     {(i, j). i < length memories \<and> j < length memories \<and> me_context_ids (memories ! j) = me_context_ids (memories ! i) \<and>
        (\<exists>e ids neighbors s. me_embedding (memories ! i) = Some e \<and>
           profile_candidates memories (me_context_ids (memories ! i)) = Some ids \<and>
           nearby (candidate_id memories i) ids e threshold neighbor_limit = Inr neighbors \<and>
           (candidate_id memories j, s) \<in> set neighbors \<and> \<not> f64_lt s threshold)}"

definition similar_pair :: "neighbor_query \<Rightarrow> memory_with_embedding list \<Rightarrow> f64 \<Rightarrow> nat \<Rightarrow> neighbor_pair \<Rightarrow> bool" where
  "similar_pair nearby memories threshold neighbor_limit p \<longleftrightarrow> \<not> f64_lt (np_similarity p) threshold \<and>
     (\<exists>(i, j) \<in> similar nearby memories threshold neighbor_limit. np_id_a p = candidate_id memories i \<and> np_id_b p = candidate_id memories j)"

lemma linked_mono: "set ps \<subseteq> set qs \<Longrightarrow> linked memories ps \<subseteq> linked memories qs"
  unfolding linked_def Let_def by (intro rtrancl_mono) blast

lemma linked_refl: "(i, i) \<in> linked memories ps"
  by (simp add: linked_def Let_def)

lemma linked_trans: "(i, j) \<in> linked memories ps \<Longrightarrow> (j, k) \<in> linked memories ps \<Longrightarrow> (i, k) \<in> linked memories ps"
  unfolding linked_def Let_def by (rule rtrancl_trans)

lemma linked_sym: "(i, j) \<in> linked memories ps \<Longrightarrow> (j, i) \<in> linked memories ps"
  unfolding linked_def Let_def by (metis (no_types, lifting) sym_Un_converse sym_rtrancl symD)

lemma linked_edge:
  "p \<in> set ps \<Longrightarrow> np_id_a p = candidate_id memories i \<Longrightarrow> np_id_b p = candidate_id memories j \<Longrightarrow>
   i < length memories \<Longrightarrow> j < length memories \<Longrightarrow> (i, j) \<in> linked memories ps"
  unfolding linked_def Let_def by (rule r_into_rtrancl) blast

text \<open>The state of a cluster grown from \<open>root\<close>: everything in it is connected to the root, and what is not yet
  queried is on the frontier.\<close>

definition cluster_inv :: "memory_with_embedding list \<Rightarrow> nat \<Rightarrow> nat set \<Rightarrow> bfs_cluster \<Rightarrow> bool" where
  "cluster_inv memories root queried st = (case st of (cluster, frontier, pairs) \<Rightarrow>
     cluster \<subseteq> {..<length memories} \<and> set frontier \<subseteq> cluster \<and> cluster \<subseteq> queried \<union> set frontier \<and>
     (\<forall>c \<in> cluster. (root, c) \<in> linked memories pairs))"

lemma collect_neighbor_inv:
  assumes ids: "distinct_ids memories" and inv: "cluster_inv memories root queried (cluster, frontier, pairs)" and "i \<in> cluster"
    and step: "collect_neighbor memories threshold i queried (cluster, frontier, pairs) neighbor = (cluster', frontier', pairs')"
  shows "cluster_inv memories root queried (cluster', frontier', pairs') \<and> cluster \<subseteq> cluster' \<and> set pairs \<subseteq> set pairs' \<and>
    (\<forall>j. id_to_idx memories (fst neighbor) = Some j \<longrightarrow> me_context_ids (memories ! j) = me_context_ids (memories ! i) \<longrightarrow>
       \<not> f64_lt (snd neighbor) threshold \<longrightarrow> j \<in> cluster') \<and>
    (\<forall>p \<in> set pairs' - set pairs. \<exists>j. j < length memories \<and> candidate_id memories j = fst neighbor \<and>
       me_context_ids (memories ! j) = me_context_ids (memories ! i) \<and> \<not> f64_lt (snd neighbor) threshold \<and>
       np_id_a p = candidate_id memories i \<and> np_id_b p = fst neighbor \<and> np_similarity p = snd neighbor)"
proof (cases "id_to_idx memories (fst neighbor)")
  case None
  then show ?thesis using step inv by (auto simp: collect_neighbor_def)
next
  case (Some j)
  then have j: "j < length memories" "candidate_id memories j = fst neighbor" using ids by (simp_all add: id_to_idx_Some)
  show ?thesis
  proof (cases "me_context_ids (memories ! j) = me_context_ids (memories ! i) \<and> j \<notin> cluster \<and> \<not> f64_lt (snd neighbor) threshold")
    case False
    then have "(cluster', frontier', pairs') = (cluster, frontier, pairs)"
      using step Some by (auto simp: collect_neighbor_def split: if_splits)
    then show ?thesis using False Some inv by auto
  next
    case True
    let ?p = "\<lparr>np_id_a = candidate_id memories i, np_id_b = fst neighbor, np_similarity = snd neighbor\<rparr>"
    have new: "cluster' = insert j cluster" "frontier' = (if j \<in> queried then frontier else frontier @ [j])" "pairs' = pairs @ [?p]"
      using step Some True by (auto simp: collect_neighbor_def)
    have "i < length memories" "(root, i) \<in> linked memories pairs" using inv assms(3) by (auto simp: cluster_inv_def)
    moreover have up: "linked memories pairs \<subseteq> linked memories pairs'" by (rule linked_mono) (auto simp: new)
    moreover have "(i, j) \<in> linked memories pairs'"
      by (rule linked_edge [of ?p]) (use new j \<open>i < length memories\<close> in simp_all)
    ultimately have "(root, j) \<in> linked memories pairs'" by (blast intro: linked_trans)
    then show ?thesis using inv up j True Some by (auto simp: cluster_inv_def new)
  qed
qed

lemma collect_bfs_neighbors_inv:
  assumes ids: "distinct_ids memories" and "cluster_inv memories root queried (cluster, frontier, pairs)" and "i \<in> cluster"
    and "collect_bfs_neighbors neighbors memories threshold i queried (cluster, frontier, pairs) = (cluster', frontier', pairs')"
  shows "cluster_inv memories root queried (cluster', frontier', pairs') \<and> cluster \<subseteq> cluster' \<and> set pairs \<subseteq> set pairs' \<and>
    (\<forall>(x, s) \<in> set neighbors. \<forall>j. id_to_idx memories x = Some j \<longrightarrow> me_context_ids (memories ! j) = me_context_ids (memories ! i) \<longrightarrow>
       \<not> f64_lt s threshold \<longrightarrow> j \<in> cluster') \<and>
    (\<forall>p \<in> set pairs' - set pairs. \<exists>(x, s) \<in> set neighbors. \<exists>j. j < length memories \<and> candidate_id memories j = x \<and>
       me_context_ids (memories ! j) = me_context_ids (memories ! i) \<and> \<not> f64_lt s threshold \<and>
       np_id_a p = candidate_id memories i \<and> np_id_b p = x \<and> np_similarity p = s)"
  using assms(2-)
proof (induction neighbors arbitrary: cluster frontier pairs)
  case Nil
  then show ?case by (simp add: collect_bfs_neighbors_def)
next
  case (Cons n ns)
  obtain c1 f1 p1 where step: "collect_neighbor memories threshold i queried (cluster, frontier, pairs) n = (c1, f1, p1)"
    by (rule prod_cases3)
  note one = collect_neighbor_inv [OF ids Cons.prems(1,2) step]
  have "collect_bfs_neighbors ns memories threshold i queried (c1, f1, p1) = (cluster', frontier', pairs')"
    using Cons.prems(3) step by (simp add: collect_bfs_neighbors_def)
  note rest = Cons.IH [OF one [THEN conjunct1] _ this]
  have "i \<in> c1" using one Cons.prems(2) by blast
  note rest = rest [OF this]
  show ?case
  proof (intro conjI)
    show "cluster_inv memories root queried (cluster', frontier', pairs')" "cluster \<subseteq> cluster'" "set pairs \<subseteq> set pairs'"
      using one rest by blast+
    show "\<forall>(x, s) \<in> set (n # ns). \<forall>j. id_to_idx memories x = Some j \<longrightarrow> me_context_ids (memories ! j) = me_context_ids (memories ! i) \<longrightarrow>
       \<not> f64_lt s threshold \<longrightarrow> j \<in> cluster'"
      using one rest by (cases n) auto
    show "\<forall>p \<in> set pairs' - set pairs. \<exists>(x, s) \<in> set (n # ns). \<exists>j. j < length memories \<and> candidate_id memories j = x \<and>
       me_context_ids (memories ! j) = me_context_ids (memories ! i) \<and> \<not> f64_lt s threshold \<and>
       np_id_a p = candidate_id memories i \<and> np_id_b p = x \<and> np_similarity p = s"
    proof
      fix p assume p: "p \<in> set pairs' - set pairs"
      show "\<exists>(x, s) \<in> set (n # ns). \<exists>j. j < length memories \<and> candidate_id memories j = x \<and>
        me_context_ids (memories ! j) = me_context_ids (memories ! i) \<and> \<not> f64_lt s threshold \<and>
        np_id_a p = candidate_id memories i \<and> np_id_b p = x \<and> np_similarity p = s"
      proof (cases "p \<in> set p1")
        case True
        then show ?thesis using one p by (intro bexI [of _ n]) (auto simp: case_prod_beta)
      next
        case False
        then show ?thesis using rest p by fastforce
      qed
    qed
  qed
qed

text \<open>Every edge of a queried candidate is spanned by the pairs, and every pair is an edge.\<close>

definition spanned :: "neighbor_query \<Rightarrow> memory_with_embedding list \<Rightarrow> f64 \<Rightarrow> nat \<Rightarrow> bfs_state \<Rightarrow> bool" where
  "spanned nearby memories threshold neighbor_limit st \<longleftrightarrow>
     (\<forall>(i, j) \<in> similar nearby memories threshold neighbor_limit. i \<in> bs_queried st \<longrightarrow> (i, j) \<in> linked memories (bs_pairs st))"

definition sound_pairs :: "neighbor_query \<Rightarrow> memory_with_embedding list \<Rightarrow> f64 \<Rightarrow> nat \<Rightarrow> bfs_state \<Rightarrow> bool" where
  "sound_pairs nearby memories threshold neighbor_limit st \<longleftrightarrow>
     (\<forall>p \<in> set (bs_pairs st). similar_pair nearby memories threshold neighbor_limit p)"

lemma query_step:
  assumes ids: "distinct_ids memories" and i: "i < length memories" "i \<in> cluster" and e: "me_embedding (memories ! i) = Some e"
    and cand: "profile_candidates memories (me_context_ids (memories ! i)) = Some candidate_ids"
    and nbs: "nearby (candidate_id memories i) candidate_ids e threshold nl = Inr neighbors"
    and inv: "cluster_inv memories root (insert i Q) (cluster, frontier, pairs)"
    and col: "collect_bfs_neighbors neighbors memories threshold i (insert i Q) (cluster, frontier, pairs) = (cluster', frontier', pairs')"
    and st: "bs_queried st' = insert i Q" "bs_pairs st' = pairs'" "bs_queried st = Q" "bs_pairs st = pairs"
    and old: "spanned nearby memories threshold nl st" "sound_pairs nearby memories threshold nl st"
  shows "cluster_inv memories root (bs_queried st') (cluster', frontier', bs_pairs st') \<and> cluster \<subseteq> cluster' \<and>
    spanned nearby memories threshold nl st' \<and> sound_pairs nearby memories threshold nl st'"
proof -
  note cb = collect_bfs_neighbors_inv [OF ids inv i(2) col]
  note inv' = cb [THEN conjunct1] cb [THEN conjunct2, THEN conjunct1] cb [THEN conjunct2, THEN conjunct2, THEN conjunct1]
  note found = cb [THEN conjunct2, THEN conjunct2, THEN conjunct2, THEN conjunct1]
  note new = cb [THEN conjunct2, THEN conjunct2, THEN conjunct2, THEN conjunct2]
  have up: "linked memories pairs \<subseteq> linked memories pairs'" using inv'(3) by (rule linked_mono)
  have "(i, j) \<in> linked memories pairs'" if ij: "(i, j) \<in> similar nearby memories threshold nl" for j
  proof -
    obtain s where "(candidate_id memories j, s) \<in> set neighbors" "\<not> f64_lt s threshold" "j < length memories"
      "me_context_ids (memories ! j) = me_context_ids (memories ! i)"
      using ij e cand nbs by (auto simp: similar_def)
    moreover from this have "id_to_idx memories (candidate_id memories j) = Some j" by (simp add: id_to_idx_Some [OF ids])
    ultimately have "j \<in> cluster'" using found by fast
    then have "(root, j) \<in> linked memories pairs'" "(root, i) \<in> linked memories pairs'" using inv' i(2) by (auto simp: cluster_inv_def)
    then show ?thesis by (blast intro: linked_trans linked_sym)
  qed
  then have "spanned nearby memories threshold nl st'"
    using old(1) up by (auto simp: spanned_def st)
  moreover have "similar_pair nearby memories threshold nl p" if pin: "p \<in> set pairs' - set pairs" for p
  proof -
    obtain x s j where p: "(x, s) \<in> set neighbors" "j < length memories" "candidate_id memories j = x"
       "me_context_ids (memories ! j) = me_context_ids (memories ! i)" "\<not> f64_lt s threshold"
       "np_id_a p = candidate_id memories i" "np_id_b p = x" "np_similarity p = s"
      using bspec [OF new pin] by auto
    then have "(i, j) \<in> similar nearby memories threshold nl" using i(1) e cand nbs by (auto simp: similar_def)
    then show ?thesis using p by (auto simp: similar_pair_def)
  qed
  then have "sound_pairs nearby memories threshold nl st'" using old(2) by (auto simp: sound_pairs_def st)
  ultimately show ?thesis using inv' by (simp add: st)
qed

lemma profile_candidates_own: "i < length memories \<Longrightarrow> \<exists>ids. profile_candidates memories (me_context_ids (memories ! i)) = Some ids"
  by (auto simp: profile_candidates_def Let_def filter_empty_conv)

lemma bfs_expand_spans:
  assumes "distinct_ids memories" and "cluster_inv memories root (bs_queried st) (cluster, frontier, bs_pairs st)" "\<not> bs_capped st"
    and "spanned nearby memories threshold nl st" "sound_pairs nearby memories threshold nl st"
  shows "\<exists>out. bfs_expand nearby memories threshold nl cluster frontier st = Some out \<and> (\<forall>cluster' st'. out = Inr (cluster', st') \<longrightarrow>
    sound_pairs nearby memories threshold nl st' \<and> (\<not> bs_capped st' \<longrightarrow> spanned nearby memories threshold nl st' \<and>
      cluster \<subseteq> cluster' \<and> cluster' \<subseteq> bs_queried st' \<and> bs_queried st \<subseteq> bs_queried st'))"
  using assms
proof (induction nearby memories threshold nl cluster frontier st rule: bfs_expand.induct)
  case (1 nearby memories threshold nl cluster st)
  then show ?case by (simp add: cluster_inv_def)
next
  case (2 nearby memories threshold nl cluster i frontier st)
  let ?st1 = "st\<lparr>bs_queried := insert i (bs_queried st)\<rparr>"
  have i: "i < length memories" "i \<in> cluster" using "2.prems"(2) by (auto simp: cluster_inv_def)
  then have ih: "\<not> length memories \<le> i" by simp
  have shrunk: "cluster_inv memories root (insert i (bs_queried st)) (cluster, frontier, bs_pairs st)"
    using "2.prems"(2) by (auto simp: cluster_inv_def)
  have out: "bfs_expand nearby memories threshold nl cluster (i # frontier) st =
     (if i \<in> bs_queried st then bfs_expand nearby memories threshold nl cluster frontier st
      else (case me_embedding (memories ! i) of
           None \<Rightarrow> bfs_expand nearby memories threshold nl cluster frontier ?st1
         | Some e \<Rightarrow>
             (case profile_candidates memories (me_context_ids (memories ! i)) of
                None \<Rightarrow> Some (Inl (Store (Conflict ''consolidation candidate profile was not indexed'')))
              | Some candidate_ids \<Rightarrow>
                  if usize_sat (bs_work st + length candidate_ids) > usize_sat (length memories * nl)
                  then Some (Inr (cluster, ?st1\<lparr>bs_capped := True\<rparr>))
                  else (case nearby (candidate_id memories i) candidate_ids e threshold nl of
                      Inl err \<Rightarrow> Some (Inl (Store err))
                    | Inr neighbors \<Rightarrow>
                        (case collect_bfs_neighbors neighbors memories threshold i (bs_queried ?st1) (cluster, frontier, bs_pairs st) of
                           (cluster', frontier', pairs') \<Rightarrow>
                             bfs_expand nearby memories threshold nl cluster' frontier'
                               (?st1\<lparr>bs_pairs := pairs', bs_work := usize_sat (bs_work st + length candidate_ids)\<rparr>))))))"
    by (subst bfs_expand.simps(2)) (simp only: Let_def ih if_False)
  show ?case
  proof (cases "i \<in> bs_queried st")
    case True
    then have "cluster_inv memories root (bs_queried st) (cluster, frontier, bs_pairs st)" using shrunk by (simp add: insert_absorb)
    with "2.IH"(1) [OF True "2.prems"(1)] "2.prems" True show ?thesis by (simp add: out)
  next
    case False
    show ?thesis
    proof (cases "me_embedding (memories ! i)")
      case None
      have "spanned nearby memories threshold nl ?st1" using "2.prems"(4) None by (auto simp: spanned_def similar_def)
      moreover have "sound_pairs nearby memories threshold nl ?st1" using "2.prems"(5) by (simp add: sound_pairs_def)
      ultimately have "\<exists>out. bfs_expand nearby memories threshold nl cluster frontier ?st1 = Some out \<and> (\<forall>cluster' st'. out = Inr (cluster', st') \<longrightarrow>
          sound_pairs nearby memories threshold nl st' \<and> (\<not> bs_capped st' \<longrightarrow> spanned nearby memories threshold nl st' \<and>
          cluster \<subseteq> cluster' \<and> cluster' \<subseteq> bs_queried st' \<and> bs_queried ?st1 \<subseteq> bs_queried st'))"
        using "2.IH"(2) [OF False ih refl None "2.prems"(1)] shrunk "2.prems"(3) by simp
      with None False show ?thesis by (auto simp: out)
    next
      case (Some e)
      obtain ids where cand: "profile_candidates memories (me_context_ids (memories ! i)) = Some ids"
        using profile_candidates_own [OF i(1)] by blast
      show ?thesis
      proof (cases "usize_sat (bs_work st + length ids) > usize_sat (length memories * nl)")
        case True
        then show ?thesis using False Some cand "2.prems"(5) by (simp add: out sound_pairs_def)
      next
        case fits: False
        show ?thesis
        proof (cases "nearby (candidate_id memories i) ids e threshold nl")
          case (Inl err)
          then show ?thesis using False Some cand fits by (simp add: out)
        next
          case (Inr neighbors)
          obtain c f p where col: "collect_bfs_neighbors neighbors memories threshold i (insert i (bs_queried st)) (cluster, frontier, bs_pairs st) = (c, f, p)"
            by (rule prod_cases3)
          let ?st2 = "?st1\<lparr>bs_pairs := p, bs_work := usize_sat (bs_work st + length ids)\<rparr>"
          have step: "cluster_inv memories root (bs_queried ?st2) (c, f, bs_pairs ?st2) \<and> cluster \<subseteq> c \<and>
              spanned nearby memories threshold nl ?st2 \<and> sound_pairs nearby memories threshold nl ?st2"
            by (rule query_step [OF "2.prems"(1) i Some cand Inr shrunk col _ _ refl refl "2.prems"(4,5)]) simp_all
          have "\<exists>out. bfs_expand nearby memories threshold nl c f ?st2 = Some out \<and> (\<forall>cluster' st'. out = Inr (cluster', st') \<longrightarrow>
              sound_pairs nearby memories threshold nl st' \<and> (\<not> bs_capped st' \<longrightarrow> spanned nearby memories threshold nl st' \<and>
              c \<subseteq> cluster' \<and> cluster' \<subseteq> bs_queried st' \<and> bs_queried ?st2 \<subseteq> bs_queried st'))"
            using "2.IH"(3) [OF False ih refl Some cand refl fits Inr, of c "(f, p)" f p] col step "2.prems"(1,3) by simp
          moreover have "bfs_expand nearby memories threshold nl cluster (i # frontier) st = bfs_expand nearby memories threshold nl c f ?st2"
            using False Some cand fits Inr col by (simp add: out)
          moreover have "cluster \<subseteq> cluster'" if "c \<subseteq> cluster'" for cluster' using step that by blast
          ultimately show ?thesis by auto
        qed
      qed
    qed
  qed
qed

lemma bfs_roots_span:
  assumes ids: "distinct_ids memories" and "set starts \<subseteq> {..<length memories}" "\<not> bs_capped st" "clustered \<subseteq> bs_queried st"
    and "spanned nearby memories threshold nl st" "sound_pairs nearby memories threshold nl st"
  shows "\<exists>out. bfs_roots nearby memories threshold nl starts clustered st = Some out \<and> (\<forall>st'. out = Inr st' \<longrightarrow>
    sound_pairs nearby memories threshold nl st' \<and> (\<not> bs_capped st' \<longrightarrow> spanned nearby memories threshold nl st' \<and>
      bs_queried st \<subseteq> bs_queried st' \<and> (\<forall>i \<in> set starts. me_embedding (memories ! i) \<noteq> None \<longrightarrow> i \<in> bs_queried st')))"
  using assms(2-)
proof (induction starts arbitrary: clustered st)
  case (Cons s starts)
  show ?case
  proof (cases "s \<in> clustered \<or> me_embedding (memories ! s) = None")
    case True
    then have "me_embedding (memories ! s) \<noteq> None \<longrightarrow> s \<in> bs_queried st" using subsetD [OF Cons.prems(3), of s] by auto
    moreover have "set starts \<subseteq> {..<length memories}" using Cons.prems(1) by simp
    moreover have "s \<in> bs_queried st'" if "s \<in> bs_queried st" "bs_queried st \<subseteq> bs_queried st'" for st' using that by (rule rev_subsetD)
    ultimately show ?thesis using Cons.IH [OF _ Cons.prems(2-)] True by (auto simp del: not_None_eq)
  next
    case False
    then obtain y where root: "s \<notin> clustered" "me_embedding (memories ! s) = Some y" by auto
    have "cluster_inv memories s (bs_queried st) ({s}, [s], bs_pairs st)"
      using Cons.prems(1) by (simp add: cluster_inv_def linked_refl)
    from bfs_expand_spans [OF ids this Cons.prems(2,4,5)] obtain out where
      out: "bfs_expand nearby memories threshold nl {s} [s] st = Some out" and good: "\<forall>cluster st'. out = Inr (cluster, st') \<longrightarrow>
        sound_pairs nearby memories threshold nl st' \<and> (\<not> bs_capped st' \<longrightarrow> spanned nearby memories threshold nl st' \<and>
          {s} \<subseteq> cluster \<and> cluster \<subseteq> bs_queried st' \<and> bs_queried st \<subseteq> bs_queried st')" by (elim exE conjE)
    show ?thesis
    proof (cases out)
      case (Inl e)
      then show ?thesis using root out by simp
    next
      case (Inr x)
      obtain cluster st' where x: "out = Inr (cluster, st')" using Inr by (cases x) simp
      show ?thesis
      proof (cases "bs_capped st'")
        case True
        then show ?thesis using root out x good by simp
      next
        case uncapped: False
        have g: "sound_pairs nearby memories threshold nl st'" "spanned nearby memories threshold nl st'" "s \<in> cluster"
          "cluster \<subseteq> bs_queried st'" "bs_queried st \<subseteq> bs_queried st'"
          using good x uncapped by simp_all
        have pre: "set starts \<subseteq> {..<length memories}" "clustered \<union> cluster \<subseteq> bs_queried st'" "s \<in> bs_queried st'"
          using Cons.prems(1) subset_trans [OF Cons.prems(3) g(5)] g(4) subsetD [OF g(4,3)] by simp_all
        have up: "s \<in> bs_queried st''" "bs_queried st \<subseteq> bs_queried st''" if "bs_queried st' \<subseteq> bs_queried st''" for st''
          using subsetD [OF that pre(3)] subset_trans [OF g(5) that] .
        obtain out' where run: "bfs_roots nearby memories threshold nl starts (clustered \<union> cluster) st' = Some out'"
          and fin: "\<forall>st''. out' = Inr st'' \<longrightarrow> sound_pairs nearby memories threshold nl st'' \<and>
            (\<not> bs_capped st'' \<longrightarrow> spanned nearby memories threshold nl st'' \<and> bs_queried st' \<subseteq> bs_queried st'' \<and>
             (\<forall>i \<in> set starts. me_embedding (memories ! i) \<noteq> None \<longrightarrow> i \<in> bs_queried st''))"
          using Cons.IH [OF pre(1) uncapped pre(2) g(2,1)] by (elim exE conjE)
        have "bfs_roots nearby memories threshold nl (s # starts) clustered st = Some out'"
          using root out x uncapped run by simp
        moreover have "bs_queried st \<subseteq> bs_queried st'' \<and> s \<in> bs_queried st''" if "out' = Inr st''" "\<not> bs_capped st''" for st''
          using fin that up [of st''] by (simp del: not_None_eq)
        ultimately show ?thesis using fin by (intro exI [of _ out']) (simp del: not_None_eq bfs_roots.simps)
      qed
    qed
  qed
qed simp

lemma sound_linked:
  assumes "distinct_ids memories" and sound: "\<forall>p \<in> set pairs. similar_pair nearby memories threshold nl p"
  shows "linked memories pairs \<subseteq> (similar nearby memories threshold nl \<union> (similar nearby memories threshold nl)\<inverse>)\<^sup>*"
proof -
  let ?S = "similar nearby memories threshold nl"
  have same: "i = i'" if "i < length memories" "i' < length memories" "candidate_id memories i = candidate_id memories i'" for i i'
    using inj_onD [OF distinct_ids_inj [OF assms(1)] that(3)] that(1,2) by simp
  have "(i, j) \<in> ?S" if ij: "i < length memories" "j < length memories" and p: "p \<in> set pairs"
    "np_id_a p = candidate_id memories i" "np_id_b p = candidate_id memories j" for i j p
  proof -
    obtain i' j' where "(i', j') \<in> ?S" "np_id_a p = candidate_id memories i'" "np_id_b p = candidate_id memories j'"
      using sound p(1) by (auto simp: similar_pair_def)
    moreover from this(1) have "i' < length memories" "j' < length memories" by (auto simp: similar_def)
    ultimately show ?thesis using same [of i i'] same [of j j'] ij p(2,3) by simp
  qed
  then have "{(i, j). i < length memories \<and> j < length memories \<and>
      (\<exists>p \<in> set pairs. np_id_a p = candidate_id memories i \<and> np_id_b p = candidate_id memories j)} \<subseteq> ?S"
    by blast
  then show ?thesis unfolding linked_def Let_def by (intro rtrancl_mono) blast
qed

lemma discovery_spans:
  assumes "distinct_ids memories"
  shows "\<exists>out. bfs_discover_pairs nearby memories threshold nl = Some out \<and> (\<forall>pairs capped. out = Inr (pairs, capped) \<longrightarrow>
    (\<forall>p \<in> set pairs. similar_pair nearby memories threshold nl p) \<and>
    (\<not> capped \<longrightarrow> linked memories pairs = (similar nearby memories threshold nl \<union> (similar nearby memories threshold nl)\<inverse>)\<^sup>*))"
proof -
  let ?S = "similar nearby memories threshold nl"
  let ?st = "\<lparr>bs_queried = {}, bs_pairs = [], bs_work = 0, bs_capped = False\<rparr>"
  have "set [0..<length memories] \<subseteq> {..<length memories}" "\<not> bs_capped ?st" "{} \<subseteq> bs_queried ?st"
    "spanned nearby memories threshold nl ?st" "sound_pairs nearby memories threshold nl ?st"
    by (auto simp: spanned_def sound_pairs_def)
  from bfs_roots_span [OF assms this] obtain out where
    out: "bfs_roots nearby memories threshold nl [0..<length memories] {} ?st = Some out"
    and sound: "\<And>st'. out = Inr st' \<Longrightarrow> sound_pairs nearby memories threshold nl st'"
    and full: "\<And>st'. out = Inr st' \<Longrightarrow> \<not> bs_capped st' \<Longrightarrow> spanned nearby memories threshold nl st' \<and>
      (\<forall>i \<in> set [0..<length memories]. me_embedding (memories ! i) \<noteq> None \<longrightarrow> i \<in> bs_queried st')" by blast
  have "linked memories (bs_pairs st') = (?S \<union> ?S\<inverse>)\<^sup>*" if "out = Inr st'" "\<not> bs_capped st'" for st'
  proof
    show "linked memories (bs_pairs st') \<subseteq> (?S \<union> ?S\<inverse>)\<^sup>*"
      using sound [OF \<open>out = Inr st'\<close>] by (intro sound_linked [OF assms]) (simp add: sound_pairs_def)
  next
    have "(i, j) \<in> linked memories (bs_pairs st')" if "(i, j) \<in> ?S" for i j
    proof -
      have "i \<in> set [0..<length memories]" "me_embedding (memories ! i) \<noteq> None" using that by (auto simp: similar_def)
      then have "i \<in> bs_queried st'" using full [OF \<open>out = Inr st'\<close> \<open>\<not> bs_capped st'\<close>] by (elim conjE) (drule (1) bspec, drule (1) mp)
      then show ?thesis using full [OF \<open>out = Inr st'\<close> \<open>\<not> bs_capped st'\<close>] that by (fastforce simp: spanned_def)
    qed
    then have "?S \<union> ?S\<inverse> \<subseteq> linked memories (bs_pairs st')" by (auto intro: linked_sym)
    then have "(?S \<union> ?S\<inverse>)\<^sup>* \<subseteq> (linked memories (bs_pairs st'))\<^sup>*" by (rule rtrancl_mono)
    then show "(?S \<union> ?S\<inverse>)\<^sup>* \<subseteq> linked memories (bs_pairs st')" by (simp add: linked_def Let_def)
  qed
  then show ?thesis using out sound by (cases out) (auto simp: bfs_discover_pairs_def sound_pairs_def)
qed

section \<open>Merging supersedes safely\<close>

text \<open>The row of \<open>i\<close> is superseded by \<open>rep\<close>: it was free, the principal may change it, it has the same ordered
  context profile, and its revision moves.\<close>

definition superseded_row :: "string \<Rightarrow> memory_db \<Rightarrow> memory_db \<Rightarrow> memory_id \<Rightarrow> memory_id \<Rightarrow> bool" where
  "superseded_row p db db' i rep \<longleftrightarrow> (\<exists>r. find_row db i = Some r \<and> m_superseded_by r = None \<and>
     write_access_allowed (m_provenance r) (m_access_policy r) p \<and>
     find_row db' i = Some (bump (r\<lparr>m_superseded_by := Some rep\<rparr>)) \<and>
     sqlite_consolidation_context_profile db i = sqlite_consolidation_context_profile db rep)"

definition merges :: "string \<Rightarrow> (memory_id \<times> memory_id) set \<Rightarrow> memory_db \<Rightarrow> memory_db \<Rightarrow> bool" where
  "merges p T db db' \<longleftrightarrow> row_ids db' = row_ids db \<and> t_memory_contexts (d_ctx db') = t_memory_contexts (d_ctx db) \<and>
     (\<forall>i. find_row db' i = find_row db i \<or> (\<exists>rep. (i, rep) \<in> T \<and> superseded_row p db db' i rep))"

lemma merges_refl: "merges p T db db"
  by (simp add: merges_def)

lemma merges_mono: "merges p T db db' \<Longrightarrow> T \<subseteq> T' \<Longrightarrow> merges p T' db db'"
  by (fastforce simp: merges_def)

lemma merges_trans:
  assumes "merges p T db db1" "merges p T db1 db2"
  shows "merges p T db db2"
proof -
  have same: "sqlite_consolidation_context_profile db1 = sqlite_consolidation_context_profile db"
    using assms(1) by (simp add: merges_def sqlite_consolidation_context_profile_def [abs_def])
  have "find_row db2 i = find_row db i \<or> (\<exists>rep. (i, rep) \<in> T \<and> superseded_row p db db2 i rep)" for i
  proof (cases "find_row db2 i = find_row db1 i")
    case True
    then show ?thesis using assms(1) by (auto simp: merges_def superseded_row_def)
  next
    case False
    then obtain rep where rep: "(i, rep) \<in> T" "superseded_row p db1 db2 i rep" using assms(2) by (auto simp: merges_def)
    then have "find_row db1 i = find_row db i"
      using assms(1) by (force simp: merges_def superseded_row_def bump_def)
    then show ?thesis using rep same by (auto simp: superseded_row_def)
  qed
  then show ?thesis using assms by (simp add: merges_def)
qed

lemma find_row_mapped:
  assumes "\<And>r. m_id (f r) = m_id r"
  shows "find_row (set_rows (map f (rows db)) db) i = map_option f (find_row db i)"
proof -
  have "rows (set_rows rs db) = rs" for rs by (simp add: rows_def set_rows_def)
  moreover have "find (\<lambda>r. m_id r = i) (map f rs) = map_option f (find (\<lambda>r. m_id r = i) rs)" for rs
    by (induction rs) (simp_all add: assms)
  ultimately show ?thesis by (simp add: find_row_def)
qed

lemma mark_superseded_merges:
  assumes "mark_superseded_if_unchanged member representative p a db = Inr (db', out)"
  shows "merges p {(cs_memory_id member, cs_memory_id representative)} db db'"
proof (cases "out = Applied")
  case False
  then have "db' = db"
    using assms by (auto simp: mark_superseded_if_unchanged_def mark_superseded_def split: if_splits option.splits prod.splits)
  then show ?thesis by (simp add: merges_refl)
next
  case True
  let ?i = "cs_memory_id member" let ?rep = "cs_memory_id representative"
  let ?f = "\<lambda>r. if m_id r = ?i \<and> m_superseded_by r = None then bump (r\<lparr>m_superseded_by := Some ?rep\<rparr>) else r"
  obtain m m' where m: "fetch_memory_by_id db ?i = Some m" "has_write_access m p" "m_superseded_by m = None"
      "fetch_memory_by_id db ?rep = Some m'"
    and cur: "snapshot_current db m member" "snapshot_current db m' representative" "cs_context_ids member = cs_context_ids representative"
    and db': "db' = insert_audit_draft (m_id m) a (set_rows (map ?f (rows db)) db)"
    using assms True by (auto simp: mark_superseded_if_unchanged_def mark_superseded_def split: if_splits option.splits prod.splits)
  obtain r where r: "find_row db ?i = Some r" "m = row_to_memory r" using fetch_Some [OF m(1)] by blast
  have row: "m_superseded_by (row_to_memory r) = m_superseded_by r" "m_provenance (row_to_memory r) = m_provenance r"
    "m_access_policy (row_to_memory r) = m_access_policy r" by (simp_all add: row_to_memory_def memory.truncate_def)
  have f_id: "m_id (?f x) = m_id x" for x by (simp add: bump_def)
  have find': "find_row db' j = map_option ?f (find_row db j)" for j
    using find_row_mapped [of ?f db j, OF f_id] by (simp add: db' find_row_def)
  have other: "find_row db' j = find_row db j" if "j \<noteq> ?i" for j
    using that find_row_mem [of db j] by (cases "find_row db j") (auto simp: find')
  have "superseded_row p db db' ?i ?rep"
    using r m(2,3) row cur find_row_mem [OF r(1)] by (auto simp: superseded_row_def find' snapshot_current_def has_write_access_def)
  moreover have "row_ids db' = row_ids db"
    using f_id by (auto simp: db' row_ids_def rows_def set_rows_def insert_audit_draft_def)
  moreover have "t_memory_contexts (d_ctx db') = t_memory_contexts (d_ctx db)"
    by (simp add: db' set_rows_def insert_audit_draft_def)
  moreover have "find_row db' j = find_row db j \<or> (\<exists>rep. (j, rep) \<in> {(?i, ?rep)} \<and> superseded_row p db db' j rep)" for j
  proof (cases "j = ?i")
    case True
    then show ?thesis using \<open>superseded_row p db db' ?i ?rep\<close> by simp
  next
    case False
    then show ?thesis using other [of j] by simp
  qed
  ultimately show ?thesis unfolding merges_def by (intro conjI allI)
qed

lemma merge_members_merges:
  assumes snaps: "\<And>i x. snaps i = Some x \<Longrightarrow> cs_memory_id x = i" and "snaps rep_id = Some rep"
  shows "merge_members audit rep snaps p ids db merged = (db', out) \<Longrightarrow> merges p (set ids \<times> {rep_id}) db db'"
proof (induction ids arbitrary: db merged)
  case Nil
  then show ?case by (simp add: merges_refl)
next
  case (Cons i ids)
  have wider: "merges p (set (i # ids) \<times> {rep_id}) d db'" if "merge_members audit rep snaps p ids d b = (db', out)" for d b
    using Cons.IH [OF that] by (rule merges_mono) auto
  show ?case
  proof (cases "snaps i")
    case None
    then show ?thesis using Cons.prems by (simp add: merges_refl)
  next
    case (Some member)
    show ?thesis
    proof (cases "mark_superseded_if_unchanged member rep p (audit i) db")
      case (Inl e)
      then show ?thesis using Cons.prems Some wider by (cases e) (auto simp: merges_refl)
    next
      case (Inr x)
      obtain d o1 where x: "x = (d, o1)" by (cases x)
      have "merges p {(cs_memory_id member, cs_memory_id rep)} db d"
        using Inr by (intro mark_superseded_merges) (simp add: x)
      then have "merges p (set (i # ids) \<times> {rep_id}) db d"
        by (rule merges_mono) (simp add: snaps [OF Some] snaps [OF assms(2)])
      moreover have "\<exists>b. merge_members audit rep snaps p ids d b = (db', out)"
        using Cons.prems Some Inr x by (cases o1) auto
      ultimately show ?thesis using wider by (blast intro: merges_trans)
    qed
  qed
qed

text \<open>The members of the groups with their representatives.\<close>

definition merge_tasks :: "duplicate_group list \<Rightarrow> (memory_id \<times> memory_id) set" where
  "merge_tasks groups = {(i, rep). \<exists>g \<in> set groups. rep = dg_representative_id g \<and> i \<in> set (dg_member_ids g) \<and> i \<noteq> rep}"

lemma merge_groups_merges:
  assumes snaps: "\<And>i x. snaps i = Some x \<Longrightarrow> cs_memory_id x = i"
  shows "merge_consolidation_groups audit snaps p groups db merged = (db', out) \<Longrightarrow> merges p (merge_tasks groups) db db'"
proof (induction groups arbitrary: db merged)
  case Nil
  then show ?case by (simp add: merges_refl)
next
  case (Cons g groups)
  obtain d r where step: "merge_consolidation_group audit snaps p g db = (d, r)" by (cases "merge_consolidation_group audit snaps p g db")
  have one: "merges p (merge_tasks (g # groups)) db d"
  proof (cases "snaps (dg_representative_id g)")
    case None
    then show ?thesis using step by (simp add: merge_consolidation_group_def merges_refl)
  next
    case (Some rep)
    then have "merge_members (audit g) rep snaps p (filter (\<lambda>i. i \<noteq> dg_representative_id g) (dg_member_ids g)) db False = (d, r)"
      using step by (simp add: merge_consolidation_group_def)
    from merge_members_merges [OF snaps Some this] show ?thesis by (rule merges_mono) (auto simp: merge_tasks_def)
  qed
  show ?case
  proof (cases r)
    case (Inl e)
    then show ?thesis using Cons.prems step one by simp
  next
    case (Inr m)
    then have "merge_consolidation_groups audit snaps p groups d (merged \<or> m) = (db', out)" using Cons.prems step by simp
    from Cons.IH [OF this] have "merges p (merge_tasks (g # groups)) d db'" by (rule merges_mono) (auto simp: merge_tasks_def)
    then show ?thesis using one by (blast intro: merges_trans)
  qed
qed

lemma component_eq:
  assumes "a \<in> component memories pairs x" "a \<in> component memories pairs y"
  shows "component memories pairs x = component memories pairs y"
proof -
  have "(x, y) \<in> linked memories pairs" using assms by (auto simp: component_def intro: linked_trans linked_sym)
  then show ?thesis by (auto simp: component_def intro: linked_trans linked_sym)
qed

text \<open>A member that gives way is connected to its representative, which gives way in no group.\<close>

lemma merge_tasks_linked:
  assumes "\<forall>g \<in> set groups. \<exists>c \<in> big_components memories pairs. reports memories c g" "(i, rep) \<in> merge_tasks groups"
  shows "\<exists>a b. a < length memories \<and> b < length memories \<and> (a, b) \<in> linked memories pairs \<and>
    i = candidate_id memories a \<and> rep = candidate_id memories b"
proof -
  obtain g x where g: "reports memories (component memories pairs x) g" "rep = dg_representative_id g" "i \<in> set (dg_member_ids g)"
    using assms by (fastforce simp: merge_tasks_def big_components_def)
  then obtain a b where "a \<in> component memories pairs x" "b \<in> component memories pairs x"
    "i = candidate_id memories a" "rep = candidate_id memories b" by (auto simp: reports_def)
  then show ?thesis using linked_trans [OF linked_sym, of x a memories pairs b] by (auto simp: component_def)
qed

lemma representative_stays:
  assumes ids: "distinct_ids memories" and good: "\<forall>g \<in> set groups. \<exists>c \<in> big_components memories pairs. reports memories c g"
    and "(i, rep) \<in> merge_tasks groups"
  shows "(rep, rep') \<notin> merge_tasks groups"
proof
  assume "(rep, rep') \<in> merge_tasks groups"
  then obtain g' y where g': "reports memories (component memories pairs y) g'" "rep' = dg_representative_id g'"
    "rep \<in> set (dg_member_ids g')" "rep \<noteq> rep'" using good by (fastforce simp: merge_tasks_def big_components_def)
  obtain g x where g: "reports memories (component memories pairs x) g" "rep = dg_representative_id g"
    using assms(2,3) by (fastforce simp: merge_tasks_def big_components_def)
  obtain b where b: "b \<in> component memories pairs x" "rep = candidate_id memories b"
    "\<forall>j \<in> component memories pairs x. cmp_duplicate_representative (me_memory (memories ! j)) (me_memory (memories ! b)) \<noteq> GreaterThan"
    using g by (auto simp: reports_def)
  obtain b' where b': "b' \<in> component memories pairs y" "rep' = candidate_id memories b'"
    "\<forall>j \<in> component memories pairs y. cmp_duplicate_representative (me_memory (memories ! j)) (me_memory (memories ! b')) \<noteq> GreaterThan"
    using g'(1,2) by (auto simp: reports_def)
  obtain a where a: "a \<in> component memories pairs y" "rep = candidate_id memories a" using g'(1,3) by (auto simp: reports_def)
  have "a = b" using inj_onD [OF distinct_ids_inj [OF ids], of a b] a b(1,2) by (simp add: component_def)
  then have "component memories pairs x = component memories pairs y" using component_eq [of b] a(1) b(1) by simp
  then have "rep = rep'" using representative_unique b b' by simp
  with g'(4) show False by simp
qed

lemma distinct_map_filtered:
  assumes "distinct (map f xs)" and same: "\<And>x y. g x = Some y \<Longrightarrow> h y = f x"
  shows "distinct (map h (List.map_filter g xs))"
  using assms(1)
proof (induction xs)
  case (Cons x xs)
  have "h ` set (List.map_filter g xs) \<subseteq> f ` set xs" using same by (force simp: map_filter_def)
  with Cons same show ?case by (auto simp: List.map_filter_simps split: option.split)
qed (simp add: List.map_filter_simps)

text \<open>The candidates of a run: distinct ids, and every one a row that nothing supersedes.\<close>

lemma consolidation_candidates_live:
  assumes ids: "distinct (row_ids db)" and found: "consolidation_candidates env st p ctx_ids legacy_ids_any db = Inr (memories, capped)"
  shows "distinct_ids memories" "\<forall>m \<in> set memories. \<exists>r. find_row db (m_id (me_memory m)) = Some r \<and> m_superseded_by r = None"
proof -
  obtain all n where all: "list_memories_with_embeddings st db (Some ctx_ids) legacy_ids_any p (ce_now env) n = Inr all"
    and memories: "memories = take (consolidation_candidate_limit (ce_limits env)) all"
    using found by (auto simp: consolidation_candidates_def Let_def split: sum.splits)
  obtain keep k emb where all_def: "all = List.map_filter (\<lambda>m. map_option (\<lambda>e.
        \<lparr>me_memory = m, me_embedding = Some e, me_context_ids = sqlite_consolidation_context_profile db (m_id m)\<rparr>) (emb (m_id m)))
      (map row_to_memory (take k (sort_by cmp_newest (filter keep (rows db)))))" and keep: "\<And>r. keep r \<Longrightarrow> m_superseded_by r = None"
    using all by (auto simp: list_memories_with_embeddings_def Let_def split: sum.splits)
  let ?ms = "map row_to_memory (take k (sort_by cmp_newest (filter keep (rows db))))"
  have rows_of: "map m_id ?ms = map m_id (take k (sort_by cmp_newest (filter keep (rows db))))" by simp
  have "distinct (map m_id (filter keep (rows db)))" using ids by (simp add: row_ids_def distinct_map_filter)
  then have "distinct (map m_id (sort_by cmp_newest (filter keep (rows db))))"
    by (metis distinct_map distinct_sort_by set_sort_by)
  then have "distinct (take k (map m_id (sort_by cmp_newest (filter keep (rows db)))))" by (rule distinct_take)
  then have "distinct (map m_id ?ms)" by (simp only: rows_of take_map)
  then have "distinct (map (m_id \<circ> me_memory) all)" unfolding all_def by (rule distinct_map_filtered) auto
  then show "distinct_ids memories" by (simp add: distinct_ids_def memories take_map [symmetric])
  show "\<forall>m \<in> set memories. \<exists>r. find_row db (m_id (me_memory m)) = Some r \<and> m_superseded_by r = None"
  proof
    fix m assume "m \<in> set memories"
    then have "m \<in> set all" by (auto simp: memories dest: in_set_takeD)
    then have "me_memory m \<in> set ?ms" by (auto simp: all_def map_filter_def)
    then obtain r where r: "r \<in> set (rows db)" "keep r" "m_id (me_memory m) = m_id r" by (auto dest!: in_set_takeD)
    then obtain r' where "find_row db (m_id r) = Some r'" using find_row_None [of db "m_id r"] by (auto simp: row_ids_def)
    then show "\<exists>r. find_row db (m_id (me_memory m)) = Some r \<and> m_superseded_by r = None"
      using distinct_row [OF ids _ r(1) refl] r keep by auto
  qed
qed

abbreviation snapshots_of :: "memory_with_embedding list \<Rightarrow> snapshots" where
  "snapshots_of memories \<equiv> map_of (rev (map (\<lambda>m. (m_id (me_memory m), consolidation_snapshot_from m)) memories))"

lemma merge_safely:
  assumes ids: "distinct_ids memories"
    and live: "\<forall>m \<in> set memories. \<exists>r. find_row db (m_id (me_memory m)) = Some r \<and> m_superseded_by r = None"
    and good: "\<forall>g \<in> set groups. \<exists>c \<in> big_components memories pairs. reports memories c g"
    and run: "merge_consolidation_groups audit (snapshots_of memories) p groups db merged = (db', out)"
  shows "row_ids db' = row_ids db" "find_row db' i \<noteq> find_row db i \<Longrightarrow> \<exists>a b r. a < length memories \<and> b < length memories \<and>
    (a, b) \<in> linked memories pairs \<and> i = candidate_id memories a \<and> superseded_row p db db' i (candidate_id memories b) \<and>
    find_row db (candidate_id memories b) = Some r \<and> m_superseded_by r = None \<and> find_row db' (candidate_id memories b) = Some r"
proof -
  have snaps: "cs_memory_id x = j" if "snapshots_of memories j = Some x" for j x
    using map_of_SomeD [OF that] by (auto simp: consolidation_snapshot_from_def)
  have m: "merges p (merge_tasks groups) db db'" by (rule merge_groups_merges [OF snaps run])
  then show "row_ids db' = row_ids db" by (simp add: merges_def)
  assume "find_row db' i \<noteq> find_row db i"
  then obtain rep where rep: "(i, rep) \<in> merge_tasks groups" "superseded_row p db db' i rep" using m by (auto simp: merges_def)
  from merge_tasks_linked [OF good rep(1)] obtain a b where ab: "a < length memories" "b < length memories"
    "(a, b) \<in> linked memories pairs" "i = candidate_id memories a" "rep = candidate_id memories b" by (elim exE conjE)
  have "find_row db' rep = find_row db rep" using m representative_stays [OF ids good rep(1)] by (auto simp: merges_def)
  moreover obtain r where "find_row db rep = Some r" "m_superseded_by r = None" using live nth_mem [OF ab(2)] ab(5) by blast
  ultimately show "\<exists>a b r. a < length memories \<and> b < length memories \<and>
    (a, b) \<in> linked memories pairs \<and> i = candidate_id memories a \<and> superseded_row p db db' i (candidate_id memories b) \<and>
    find_row db (candidate_id memories b) = Some r \<and> m_superseded_by r = None \<and> find_row db' (candidate_id memories b) = Some r"
    using ab rep(2) by (intro exI [of _ a] exI [of _ b] exI [of _ r]) simp
qed

text \<open>How a run ends: with an error, with fewer than two candidates, or with the groups of what was found,
  merged unless the run is dry.\<close>

definition grouped_result :: "memory_with_embedding list \<Rightarrow> duplicate_group list \<Rightarrow> bool \<Rightarrow> bool \<Rightarrow> consolidate_result" where
  "grouped_result memories groups capped merged =
     \<lparr>cr_groups = groups, cr_merged = merged, cr_candidate_count = length memories, cr_capped = capped\<rparr>"

lemma consolidation_cases:
  assumes "distinct (row_ids db)" "\<forall>xs. mset (ce_hash_order env xs) = mset xs"
    and nearby: "nearby = find_embedding_neighbors_impl (ce_arith env) (ce_cosine_distance env) st db"
    and nl: "nl = consolidation_neighbor_limit (ce_limits env)"
  obtains (failed) e where "consolidate_memories env st p ctx_ids legacy_ids_any threshold limit dry_run db = Some (db, Inl e)"
  | (few) memories capped where "consolidation_candidates env st p ctx_ids legacy_ids_any db = Inr (memories, capped)" "length memories < 2"
      "consolidate_memories env st p ctx_ids legacy_ids_any threshold limit dry_run db = Some (db, Inr (grouped_result memories [] capped False))"
  | (grouped) memories capped pairs work groups db' out' where
      "consolidation_candidates env st p ctx_ids legacy_ids_any db = Inr (memories, capped)"
      "bfs_discover_pairs nearby memories threshold nl = Some (Inr (pairs, work))"
      "find_duplicate_groups_from_pairs (ce_arith env) (ce_hash_order env) memories pairs limit = Some groups"
      "merge_consolidation_groups (consolidate_audit env p) (snapshots_of memories) p groups db False = (db', out')"
      "consolidate_memories env st p ctx_ids legacy_ids_any threshold limit dry_run db =
        Some (if groups = [] \<or> dry_run then (db, Inr (grouped_result memories groups (capped \<or> work) False))
              else (db', map_sum id (grouped_result memories groups (capped \<or> work)) out'))"
proof (cases "consolidation_candidates env st p ctx_ids legacy_ids_any db")
  case (Inl e)
  then have "\<exists>e. consolidate_memories env st p ctx_ids legacy_ids_any threshold limit dry_run db = Some (db, Inl e)"
    by (simp add: consolidate_memories_def)
  then show thesis using failed by blast
next
  case (Inr found)
  obtain memories capped where cand: "consolidation_candidates env st p ctx_ids legacy_ids_any db = Inr (memories, capped)"
    using Inr by (cases found) simp
  show thesis
  proof (cases "\<not> f64_is_finite threshold \<or> \<not> (f64_le f64_zero threshold \<and> f64_le threshold f64_one)")
    case True
    then show thesis by (intro failed) (simp only: consolidate_memories_def if_True)
  next
    case False
    then have valid: "(\<not> f64_is_finite threshold \<or> \<not> (f64_le f64_zero threshold \<and> f64_le threshold f64_one)) = False" by simp
    show thesis
    proof (cases "length memories < 2")
      case True
      then show thesis using cand
        by (intro few) (simp_all only: consolidate_memories_def valid if_False if_True sum.case prod.case Let_def grouped_result_def)
    next
      case False
      then have many: "(length memories < 2) = False" by simp
      have ids: "distinct_ids memories" by (rule consolidation_candidates_live(1) [OF assms(1) cand])
      obtain found where found: "bfs_discover_pairs nearby memories threshold nl = Some found"
        using discovery_spans [OF ids, of nearby threshold nl] by (elim exE conjE)
      note run = consolidate_memories_def [of env st p ctx_ids legacy_ids_any threshold limit dry_run db,
          unfolded cand sum.case prod.case valid many if_False Let_def, folded nearby nl, unfolded found option.case]
      show thesis
      proof (cases found)
        case (Inl e)
        then show thesis by (intro failed) (simp add: run)
      next
        case (Inr x)
        obtain pairs work where x: "found = Inr (pairs, work)" using Inr by (cases x) simp
        obtain groups where groups: "find_duplicate_groups_from_pairs (ce_arith env) (ce_hash_order env) memories pairs limit = Some groups"
          using duplicate_groups_found [OF ids assms(2)] by blast
        obtain db' out' where m: "merge_consolidation_groups (consolidate_audit env p) (snapshots_of memories) p groups db False = (db', out')"
          by (cases "merge_consolidation_groups (consolidate_audit env p) (snapshots_of memories) p groups db False")
        show thesis
          by (rule grouped [OF cand found [unfolded x] groups m], unfold run x) (cases out'; simp add: groups m grouped_result_def)
      qed
    qed
  qed
qed

text \<open>Claim C16. Consolidation supersedes safely. The run returns, whatever the index reports and also when it ends in an error
  half-way; a dry run changes nothing; no memory is added or removed; and a memory whose row differs afterwards was an
  active candidate that the principal may change, has only been marked as superseded, at its next revision, by another
  candidate of the same ordered context profile to which it is connected by similar pairs, and that candidate is active
  before and after: no chain and no cycle of supersession arises.\<close>

theorem consolidation_supersedes_safely:
  assumes "distinct (row_ids db)" "\<forall>xs. mset (ce_hash_order env xs) = mset xs"
    and nearby: "nearby = find_embedding_neighbors_impl (ce_arith env) (ce_cosine_distance env) st db"
  shows "\<exists>db' out. consolidate_memories env st p ctx_ids legacy_ids_any threshold limit dry_run db = Some (db', out) \<and>
    (dry_run \<longrightarrow> db' = db) \<and> row_ids db' = row_ids db \<and>
    (\<forall>i. find_row db' i \<noteq> find_row db i \<longrightarrow> (\<exists>memories capped a b r.
       consolidation_candidates env st p ctx_ids legacy_ids_any db = Inr (memories, capped) \<and> a < length memories \<and> b < length memories \<and>
       (a, b) \<in> (similar nearby memories threshold (consolidation_neighbor_limit (ce_limits env)) \<union>
                 (similar nearby memories threshold (consolidation_neighbor_limit (ce_limits env)))\<inverse>)\<^sup>* \<and>
       i = candidate_id memories a \<and> superseded_row p db db' i (candidate_id memories b) \<and>
       find_row db (candidate_id memories b) = Some r \<and> m_superseded_by r = None \<and> find_row db' (candidate_id memories b) = Some r))"
  (is "\<exists>db' out. ?run = Some (db', out) \<and> ?ok db'")
  using assms(1,2) nearby refl
proof (cases rule: consolidation_cases [where p = p and ctx_ids = ctx_ids and legacy_ids_any = legacy_ids_any and threshold = threshold
    and limit = limit and dry_run = dry_run])
  case (grouped memories capped pairs work groups db' out')
  let ?nl = "consolidation_neighbor_limit (ce_limits env)"
  note ids = consolidation_candidates_live [OF assms(1) grouped(1)]
  have good: "\<forall>g \<in> set groups. \<exists>c \<in> big_components memories pairs. reports memories c g"
    using duplicate_groups_found [OF ids(1) assms(2), of "ce_arith env" pairs limit] grouped(3) by simp
  have "\<forall>p \<in> set pairs. similar_pair nearby memories threshold ?nl p"
    using discovery_spans [OF ids(1), of nearby threshold ?nl] grouped(2) by simp
  note span = subsetD [OF sound_linked [OF ids(1) this]]
  show ?thesis
  proof (cases "groups = [] \<or> dry_run")
    case True
    then show ?thesis using grouped(5) by simp
  next
    case False
    have "?ok db'"
    proof (intro conjI allI impI)
      show "dry_run \<Longrightarrow> db' = db" using False by simp
      show "row_ids db' = row_ids db" by (rule merge_safely(1) [OF ids good grouped(4)])
      fix i assume "find_row db' i \<noteq> find_row db i"
      from merge_safely(2) [OF ids good grouped(4) this] show "\<exists>memories capped a b r.
         consolidation_candidates env st p ctx_ids legacy_ids_any db = Inr (memories, capped) \<and> a < length memories \<and> b < length memories \<and>
         (a, b) \<in> (similar nearby memories threshold ?nl \<union> (similar nearby memories threshold ?nl)\<inverse>)\<^sup>* \<and>
         i = candidate_id memories a \<and> superseded_row p db db' i (candidate_id memories b) \<and>
         find_row db (candidate_id memories b) = Some r \<and> m_superseded_by r = None \<and> find_row db' (candidate_id memories b) = Some r"
        by (elim exE conjE) (intro exI conjI, rule grouped(1), assumption, assumption, erule span, assumption+)
    qed
    then show ?thesis using grouped(5) False by simp
  qed
qed simp_all





text \<open>Two memories of alice in one context with the same vector.\<close>

definition twin :: "memory_id \<Rightarrow> memory_row" where
  "twin i = prepared_row (sample_memory\<lparr>m_id := i, m_access_policy := Restricted [''alice'']\<rparr>) (Some [0, 0])"

definition twin_mdb :: memory_db where
  "twin_mdb = vector_mdb\<lparr>d_ctx := sample_db\<lparr>t_memories := [twin 7, twin 8],
       t_memory_contexts := map (\<lambda>i. \<lparr>mc_memory_id = i, mc_context_id = 2, mc_ordinal = 0, mc_created_at = 0\<rparr>) [7, 8]\<rparr>,
     d_vectors := \<lparr>v_map = [(7, 1), (8, 2)], v_rows = [(1, replicate 8 0), (2, replicate 8 0)]\<rparr>\<rparr>"

definition twin_env :: consolidation_env where
  "twin_env = \<lparr>ce_arith = sample_arith, ce_cosine_distance = (\<lambda>_ _. f64_zero), ce_hash_order = rev,
     ce_limits = \<lparr>cl_candidate_limit = 10, cl_neighbor_limit = 5\<rparr>, ce_now = 300, ce_drafted = (\<lambda>_. 300), ce_details = (\<lambda>_. JNull)\<rparr>"


lemma twin_ids: "distinct (row_ids twin_mdb)" by code_simp







theorem consolidation_supersedes_safely_witness:
  "\<exists>db' out. consolidate_memories twin_env query_sqlite ''alice'' [2] None f64_one 5 False twin_mdb = Some (db', out) \<and>
    row_ids db' = [7, 8] \<and>
    (find_row db' 7 \<noteq> find_row twin_mdb 7 \<longrightarrow> (\<exists>rep r. superseded_row ''alice'' twin_mdb db' 7 rep \<and> find_row twin_mdb rep = Some r \<and> find_row db' rep = Some r))"
proof -
  have h: "\<forall>xs. mset (ce_hash_order twin_env xs) = mset xs" by (simp add: twin_env_def)
  have "row_ids twin_mdb = [7, 8]" by code_simp
  then show ?thesis
    using consolidation_supersedes_safely [OF twin_ids h refl, of query_sqlite "''alice''" "[2]" None f64_one 5 False]
    by (elim exE conjE) (intro exI conjI, assumption, simp, metis)
qed

end
