(* ===== verification/Memory_Fts.thy ===== *)
theory Memory_Fts
  imports Memory_Search
begin

text \<open>
  Full-text search over the SQLite memory store, \<^verbatim>\<open>sanitize_fts_query_with_context\<close>,
  \<^verbatim>\<open>search_by_fts_impl\<close> and \<^verbatim>\<open>fts_search_scan\<close> of \<^verbatim>\<open>src/src/store/search.rs\<close>.

  The FTS5 extension is the parameter \<open>fts\<close>: given the rows its triggers have indexed and a \<^verbatim>\<open>MATCH\<close>
  expression it fails, at preparation or when it runs, or gives a rank to every matching row. Nothing
  is assumed of it. FTS5's documented syntax of a sequence of double-quoted strings is \<open>fts5_strings\<close>,
  against which the sanitizer is checked.
\<close>

section \<open>The MATCH expression\<close>

text \<open>\<^verbatim>\<open>str::split_whitespace\<close>\<close>

function split_words :: "string \<Rightarrow> string \<Rightarrow> string list" where
  "split_words word s =
     (if s = [] then (if word = [] then [] else [word])
      else if ws_len s > 0 then (if word = [] then [] else [word]) @ split_words [] (drop (ws_len s) s)
      else split_words (word @ [hd s]) (tl s))"
  by pat_completeness auto
termination by (relation "measure (\<lambda>(_, s). length s)") auto

declare split_words.simps [simp del]

definition split_whitespace :: "string \<Rightarrow> string list" where
  "split_whitespace s = split_words [] s"

text \<open>\<^verbatim>\<open>t.replace('"', "\"\"")\<close> and the quotes around it.\<close>

abbreviation dquote :: char where "dquote \<equiv> CHR 0x22"

definition quote_token :: "string \<Rightarrow> string" where
  "quote_token t = dquote # concat (map (\<lambda>c. if c = dquote then [dquote, dquote] else [c]) t) @ [dquote]"

fun join_spaces :: "string list \<Rightarrow> string" where
  "join_spaces [] = []"
| "join_spaces [t] = t"
| "join_spaces (t # ts) = t @ CHR '' '' # join_spaces ts"

definition sanitize_fts_query_with_context :: "string \<Rightarrow> string option \<Rightarrow> string option" where
  "sanitize_fts_query_with_context query context =
     (let main_tokens = map quote_token (filter (\<lambda>t. t \<noteq> []) (split_whitespace query)) in
      if main_tokens = [] then None else Some (join_spaces main_tokens))"

section \<open>The scan\<close>

datatype fts_reply =
    FtsUnprepared
  | FtsFailed
  | FtsRanked "memory_id \<rightharpoonup> f64"

type_synonym fts_match = "memory_row list \<Rightarrow> string \<Rightarrow> fts_reply"

text \<open>\<^verbatim>\<open>ORDER BY fts.rank, m.created_at DESC, m.id DESC\<close>\<close>

definition cmp_fts_rank :: "memory_row \<times> f64 \<Rightarrow> memory_row \<times> f64 \<Rightarrow> ordering" where
  "cmp_fts_rank a b = then_with (cmp_ord (f64_key (snd a)) (f64_key (snd b))) (cmp_newest (fst a) (fst b))"

definition fts_rows ::
  "memory_db \<Rightarrow> (memory_id \<rightharpoonup> f64) \<Rightarrow> memory_filter \<Rightarrow> string option \<Rightarrow> datetime \<Rightarrow> (memory_row \<times> f64) list" where
  "fts_rows db rank f caller now =
     sort_by cmp_fts_rank
       (List.map_filter (\<lambda>r. map_option (Pair r) (rank (m_id r))) (filter (from_filter db f caller now) (rows db)))"

text \<open>The visible results of one page, at most \<open>room\<close> of them: the loop over the page stops once the limit is
  reached.\<close>

definition fts_visible ::
  "sqlite_store \<Rightarrow> (string \<Rightarrow> string) \<Rightarrow> memory_db \<Rightarrow> memory_filter \<Rightarrow> string option \<Rightarrow> datetime \<Rightarrow> nat \<Rightarrow>
   (memory \<times> f64) list \<Rightarrow> search_result list" where
  "fts_visible st lc db f caller now room page =
     (let filter_needs_entities = needs_entity_hydration f;
          ranked = (if filter_needs_entities then hydrate_pairs st db page else page);
          shown = take room (List.map_filter (\<lambda>(m, rank).
            if \<not> content_searchable_by m caller then None
            else map_option (\<lambda>v. (v, rank)) (apply_access_policy_for_filter lc m f caller now)) ranked);
          shown' = (if shown \<noteq> [] \<and> \<not> filter_needs_entities then hydrate_pairs st db shown else shown)
      in List.map_filter (\<lambda>(m, rank). map_option (plain_result (Some rank)) (apply_access_policy m caller)) shown')"

function fts_pages ::
  "sqlite_store \<Rightarrow> (string \<Rightarrow> string) \<Rightarrow> memory_db \<Rightarrow> (memory_row \<times> f64) list \<Rightarrow> memory_filter \<Rightarrow> string option \<Rightarrow> datetime \<Rightarrow>
   nat \<Rightarrow> search_result list \<Rightarrow> nat \<Rightarrow> store_error + search_result list" where
  "fts_pages st lc db matched f caller now limit results off =
     (let page_size = max (usize_sat (limit * OVERFETCH_FACTOR)) 1 in
      case usize_to_i64 page_size of Inl e \<Rightarrow> Inl e | Inr limit_i64 \<Rightarrow>
      case usize_to_i64 off of Inl e \<Rightarrow> Inl e | Inr offset_i64 \<Rightarrow>
        let page = take (nat limit_i64) (drop (nat offset_i64) matched);
            results' = results @ fts_visible st lc db f caller now (limit - length results) (map (\<lambda>(r, rank). (row_to_memory r, rank)) page)
        in if length results' \<ge> limit \<or> length page < page_size then Inr results'
           else let off' = usize_sat (off + page_size) in
             if off' \<ge> MAX_SCAN_ROWS then Inr results'
             else fts_pages st lc db matched f caller now limit results' off')"
  by pat_completeness auto
termination
  by (relation "measure (\<lambda>(_, _, _, _, _, _, _, _, _, off). MAX_SCAN_ROWS - off)")
    (auto simp: usize_sat_def MAX_SCAN_ROWS_def Let_def)

declare fts_pages.simps [simp del]

definition fts_search_scan ::
  "sqlite_store \<Rightarrow> (string \<Rightarrow> string) \<Rightarrow> fts_match \<Rightarrow> memory_db \<Rightarrow> string \<Rightarrow> memory_filter \<Rightarrow> string option \<Rightarrow> datetime \<Rightarrow> nat \<Rightarrow>
   store_error + search_result list" where
  "fts_search_scan st lc fts db fts_query f caller now limit =
     (case fts (rows db) fts_query of
        FtsUnprepared \<Rightarrow> Inr []
      | FtsFailed \<Rightarrow> result_bind (usize_to_i64 (max (usize_sat (limit * OVERFETCH_FACTOR)) 1)) (\<lambda>_. Inr [])
      | FtsRanked rank \<Rightarrow> fts_pages st lc db (fts_rows db rank f caller now) f caller now limit [] 0)"

definition search_by_fts_impl ::
  "sqlite_store \<Rightarrow> (string \<Rightarrow> string) \<Rightarrow> fts_match \<Rightarrow> memory_db \<Rightarrow> string \<Rightarrow> nat \<Rightarrow> memory_filter \<Rightarrow> string option \<Rightarrow>
   string option \<Rightarrow> datetime \<Rightarrow> store_error + search_result list" where
  "search_by_fts_impl st lc fts db query limit f caller context now =
     (if limit = 0 then Inr []
      else (case sanitize_fts_query_with_context query context of
          None \<Rightarrow> search_by_text_impl st lc db query limit f caller now
        | Some fts_query \<Rightarrow> fts_search_scan st lc fts db fts_query (normalize_filter lc f) caller now limit))"

section \<open>The expression is a sequence of literal strings\<close>

text \<open>FTS5's syntax of strings: a double quote, any bytes with double quotes doubled, a double quote. The
  strings of an expression that is a sequence of such strings separated by spaces; \<open>None\<close> for every other
  expression. The second argument is the string being read.\<close>

fun fts5_strings :: "string \<Rightarrow> string option \<Rightarrow> string list option" where
  "fts5_strings [] None = Some []"
| "fts5_strings [] (Some w) = None"
| "fts5_strings (c # cs) None =
     (if c = dquote then fts5_strings cs (Some [])
      else if c = CHR '' '' then fts5_strings cs None else None)"
| "fts5_strings [c] (Some w) = (if c = dquote then Some [w] else None)"
| "fts5_strings (c # d # cs) (Some w) =
     (if c \<noteq> dquote then fts5_strings (d # cs) (Some (w @ [c]))
      else if d = dquote then fts5_strings cs (Some (w @ [dquote]))
      else map_option (Cons w) (fts5_strings (d # cs) None))"

lemma fts5_string_body:
  "rest = [] \<or> hd rest = CHR '' '' \<Longrightarrow>
   fts5_strings (concat (map (\<lambda>c. if c = dquote then [dquote, dquote] else [c]) t) @ dquote # rest) (Some w) =
     map_option (Cons (w @ t)) (fts5_strings rest None)"
proof (induction t arbitrary: w)
  case Nil
  then show ?case by (cases rest) auto
next
  case (Cons c t)
  obtain d ds where tail: "concat (map (\<lambda>c. if c = dquote then [dquote, dquote] else [c]) t) @ dquote # rest = d # ds"
    by (cases "concat (map (\<lambda>c. if c = dquote then [dquote, dquote] else [c]) t) @ dquote # rest") auto
  then show ?case using Cons.IH [OF Cons.prems, of "w @ [c]"] by (cases "c = dquote") auto
qed

lemma fts5_quoted:
  "rest = [] \<or> hd rest = CHR '' '' \<Longrightarrow> fts5_strings (quote_token t @ rest) None = map_option (Cons t) (fts5_strings rest None)"
  using fts5_string_body [of rest t "[]"] by (simp add: quote_token_def)

lemma fts5_join: "fts5_strings (join_spaces (map quote_token ts)) None = Some ts"
proof (induction ts rule: join_spaces.induct)
  case (2 t)
  show ?case using fts5_quoted [of "[]" t] by simp
next
  case (3 t u ts)
  then show ?case using fts5_quoted [of "CHR '' '' # join_spaces (map quote_token (u # ts))" t] by simp
qed simp

lemma split_words_nonempty: "[] \<notin> set (split_words word s)"
  by (induction word s rule: split_words.induct) (subst split_words.simps, auto)

lemma split_words_bytes: "ws_len s = 0 \<Longrightarrow> s \<noteq> [] \<Longrightarrow> split_words word s = split_words (word @ [hd s]) (tl s)"
  by (subst split_words.simps) simp

lemma split_words_empty: "split_words word s = [] \<longleftrightarrow> word = [] \<and> trim_start s = []"
proof (induction word s rule: split_words.induct)
  case (1 word s)
  show ?case
  proof (cases "s = []")
    case False
    then show ?thesis
      using 1 by (subst split_words.simps) (auto simp: trim_start_def strip.simps [of ws_len s] split: if_splits)
  qed (subst split_words.simps, simp add: trim_start_def strip.simps [of ws_len "[]"])
qed

text \<open>Claim C20. The full-text query is injection-free: the expression handed to \<^verbatim>\<open>MATCH\<close> is a sequence of quoted
  strings that reads back as exactly the whitespace-separated words of the query, whatever quotes and
  operators they contain and whatever the conversation context; there is no expression exactly when
  the query is blank.\<close>

theorem fts_query_is_literal:
  "(case sanitize_fts_query_with_context query context of
      None \<Rightarrow> trim_start query = [] \<and> split_whitespace query = []
    | Some fts_query \<Rightarrow> split_whitespace query \<noteq> [] \<and> fts5_strings fts_query None = Some (split_whitespace query))"
proof -
  have "filter (\<lambda>t. t \<noteq> []) (split_whitespace query) = split_whitespace query"
    unfolding filter_id_conv split_whitespace_def by (metis split_words_nonempty)
  then show ?thesis
    using split_words_empty [of "[]" query]
    by (auto simp: sanitize_fts_query_with_context_def Let_def fts5_join split_whitespace_def)
qed

section \<open>The scan returns the best ranked views\<close>

definition fts_view ::
  "sqlite_store \<Rightarrow> (string \<Rightarrow> string) \<Rightarrow> memory_db \<Rightarrow> memory_filter \<Rightarrow> string option \<Rightarrow> datetime \<Rightarrow> memory_row \<times> f64 \<Rightarrow> search_result option" where
  "fts_view st lc db f caller now x =
     (if content_searchable_by (hydrated st db (fst x)) caller
      then map_option (plain_result (Some (snd x))) (apply_access_policy_for_filter lc (hydrated st db (fst x)) f caller now)
      else None)"

lemma map_filter_take:
  "(\<And>x. x \<in> set xs \<Longrightarrow> g x \<noteq> None) \<Longrightarrow> List.map_filter g (take n xs) = take n (List.map_filter g xs)"
proof (induction xs arbitrary: n)
  case (Cons x xs)
  then obtain y where "g x = Some y" by fastforce
  with Cons show ?case by (cases n) simp_all
qed simp

lemma view_with_entities_readable:
  assumes "apply_access_policy_for_filter lc m f caller now = Some v"
  shows "\<exists>z. apply_access_policy (v\<lparr>m_entities := es\<rparr>) caller = Some z"
  using filtered_view_stable [OF assms] by (auto simp: apply_access_policy_def split: access_level.splits)

lemma view_searchable:
  assumes "apply_access_policy_for_filter lc m f caller now = Some v"
  shows "content_searchable_by v caller = content_searchable_by m caller"
  using assms
proof (cases rule: filtered_view_cases)
  case (Redacted fs)
  have "m_access_policy (redacted m) = m_access_policy m" by (simp add: redacted_def Let_def)
  with Redacted show ?thesis
    by (simp add: content_searchable_by_def check_access_level_redacted_view)
qed simp

lemma fts_visible_eq:
  assumes ids: "distinct (map (\<lambda>x. m_id (fst x)) page)"
  shows "fts_visible st lc db f caller now room (map (\<lambda>(r, rank). (row_to_memory r, rank)) page) =
    take room (List.map_filter (fts_view st lc db f caller now) page)"
proof -
  let ?pick = "\<lambda>(m, rank :: f64). if \<not> content_searchable_by m caller then None
     else map_option (\<lambda>v. (v, rank)) (apply_access_policy_for_filter lc m f caller now)"
  let ?last = "\<lambda>(m, rank). map_option (plain_result (Some rank)) (apply_access_policy m caller)"
  let ?fill = "\<lambda>(m, x). (m\<lparr>m_entities := hydrate_entities_single st db (m_id m)\<rparr>, x)"
  let ?plain = "\<lambda>x. (row_to_memory (fst x), snd x)"
  have plain: "map (\<lambda>(r, rank). (row_to_memory r, rank)) page = map ?plain page" by (simp add: case_prod_beta)
  show ?thesis
  proof (cases "needs_entity_hydration f")
    case True
    have "hydrate_pairs st db (map ?plain page) = map (\<lambda>x. (hydrated st db (fst x), snd x)) page"
      using ids by (subst hydrate_pairs_eq) (auto simp: comp_def hydrated_row)
    then have "fts_visible st lc db f caller now room (map ?plain page) =
        List.map_filter ?last (take room (List.map_filter (\<lambda>x. ?pick (hydrated st db (fst x), snd x)) page))"
      using True by (simp add: fts_visible_def Let_def map_filter_map)
    also have "\<dots> = take room (List.map_filter (\<lambda>x. Option.bind (?pick (hydrated st db (fst x), snd x)) ?last) page)"
      by (subst map_filter_take) (auto simp: set_map_filter map_filter_map_filter dest!: filtered_view_stable split: if_splits)
    also have "List.map_filter (\<lambda>x. Option.bind (?pick (hydrated st db (fst x), snd x)) ?last) page = List.map_filter (fts_view st lc db f caller now) page"
      by (rule map_filter_cong) (auto simp: fts_view_def Option.map_conv_bind_option filtered_view_stable split: bind_splits)
    finally show ?thesis by (simp only: plain)
  next
    case False
    let ?vis = "List.map_filter (\<lambda>x. ?pick (?plain x)) page"
    have "distinct (map (\<lambda>x. m_id (fst x)) ?vis)"
      using ids by (rule distinct_map_filter_ids) (auto dest: filtered_view_shape split: if_splits)
    then have "distinct (map (\<lambda>x. m_id (fst x)) (take room ?vis))" by (simp add: take_map [symmetric])
    moreover have "\<forall>x \<in> set (take room ?vis). m_entities (fst x) = []"
      by (auto simp: set_map_filter dest!: in_set_takeD dest: filtered_view_shape [OF _ row_to_memory_plain(2)] split: if_splits)
    ultimately have "hydrate_pairs st db (take room ?vis) = map ?fill (take room ?vis)" by (rule hydrate_pairs_eq)
    then have "fts_visible st lc db f caller now room (map ?plain page) = List.map_filter (\<lambda>x. ?last (?fill x)) (take room ?vis)"
      using False by (simp add: fts_visible_def Let_def map_filter_map)
    also have "\<dots> = take room (List.map_filter (\<lambda>x. Option.bind (?pick (?plain x)) (\<lambda>x. ?last (?fill x))) page)"
      by (subst map_filter_take) (auto simp: set_map_filter map_filter_map_filter intro: view_with_entities_readable split: if_splits)
    also have "List.map_filter (\<lambda>x. Option.bind (?pick (?plain x)) (\<lambda>x. ?last (?fill x))) page = List.map_filter (fts_view st lc db f caller now) page"
    proof (rule map_filter_cong)
      fix x assume "x \<in> set page"
      show "Option.bind (?pick (?plain x)) (\<lambda>x. ?last (?fill x)) = fts_view st lc db f caller now x"
        using late_hydration [OF False, of lc "row_to_memory (fst x)" caller now "hydrate_entities_single st db (m_id (fst x))"]
        by (cases "apply_access_policy_for_filter lc (row_to_memory (fst x)) f caller now")
          (auto simp: fts_view_def content_searchable_hydrated hydrated_row [symmetric] dest: filtered_view_shape)
    qed
    finally show ?thesis by (simp only: plain)
  qed
qed

lemma fts_pages_window:
  assumes ids: "distinct (map (\<lambda>x. m_id (fst x)) matched)" and "0 < limit" and "limit * OVERFETCH_FACTOR < 2 ^ 63"
  shows "fts_pages st lc db matched f caller now limit [] 0 =
    Inr (take limit (List.map_filter (fts_view st lc db f caller now) (take (scan_window (limit * OVERFETCH_FACTOR)) matched)))"
proof -
  let ?n = "limit * OVERFETCH_FACTOR" let ?g = "fts_view st lc db f caller now"
  have n: "0 < ?n" "max (usize_sat ?n) 1 = ?n" using assms(2,3) by (simp_all add: OVERFETCH_FACTOR_def usize_sat_def)
  have "fts_pages st lc db matched f caller now limit [] 0 =
      Inr (take limit ([] @ List.map_filter ?g (take (scan_window ?n - 0) (drop 0 matched))))"
  proof (rule paged_window [OF n(1), where k = 0])
    fix s off rs out
    assume off: "off < MAX_SCAN_ROWS" and s: "length s < limit" and rs: "rs = take ?n (drop off matched)"
      and out: "out = s @ List.map_filter ?g rs"
    have "distinct (map (\<lambda>x. m_id (fst x)) rs)" using ids by (simp add: rs take_map [symmetric] drop_map [symmetric])
    note shown = fts_visible_eq [OF this, of st lc db f caller now "limit - length s"]
    have grow: "s @ take (limit - length s) (List.map_filter ?g rs) = take limit out" using s by (simp add: out)
    have "off < 2 ^ 63" using off by (simp add: MAX_SCAN_ROWS_def)
    then have "fts_pages st lc db matched f caller now limit s off =
      (if length (take limit out) \<ge> limit \<or> length rs < ?n then Inr (take limit out)
       else if usize_sat (off + ?n) \<ge> MAX_SCAN_ROWS then Inr (take limit out)
       else fts_pages st lc db matched f caller now limit (take limit out) (usize_sat (off + ?n)))"
      using assms(3) by (subst fts_pages.simps) (simp only: n(2) usize_to_i64_small Let_def sum.case nat_int rs [symmetric] shown grow)
    moreover have "take limit out = out" if "length out \<le> limit" using that by simp
    moreover have "length rs < ?n" "out = s" if "rs = []" using that n(1) by (simp_all add: out)
    ultimately show "fts_pages st lc db matched f caller now limit s off =
      (if rs = [] then Inr s else if \<not> length out < limit then Inr (take limit out) else if length rs < ?n then Inr out
       else if MAX_SCAN_ROWS \<le> usize_sat (off + ?n) then Inr out
       else fts_pages st lc db matched f caller now limit out (usize_sat (off + ?n)))"
      using s by (cases "rs = []"; cases "length out < limit") auto
  qed (use assms(2) in \<open>simp_all add: MAX_SCAN_ROWS_def\<close>)
  then show ?thesis by simp
qed

text \<open>The matching rows in the order of their rank, equal ranks newest first.\<close>

definition ranked_rows :: "memory_db \<Rightarrow> (memory_id \<rightharpoonup> f64) \<Rightarrow> (memory_row \<times> f64) list" where
  "ranked_rows db rank = sort_by cmp_fts_rank (List.map_filter (\<lambda>r. map_option (Pair r) (rank (m_id r))) (rows db))"

interpretation fts_rank: comparator cmp_fts_rank
  using comparator_cmp_then [OF comparator_on [OF ord_cmp.comparator_axioms, of "\<lambda>x. f64_key (snd x)"]
      comparator_on [OF newest.comparator_axioms, of fst]]
  by (simp add: cmp_fts_rank_def [abs_def] cmp_then_def [abs_def])

lemma fts_rows_eq: "fts_rows db rank f caller now = filter (\<lambda>x. from_filter db f caller now (fst x)) (ranked_rows db rank)"
proof -
  have "List.map_filter (\<lambda>r. map_option (Pair r) (rank (m_id r))) (filter P rs) =
      filter (\<lambda>x. P (fst x)) (List.map_filter (\<lambda>r. map_option (Pair r) (rank (m_id r))) rs)" for P and rs :: "memory_row list"
    by (induction rs) (auto split: option.splits)
  then show ?thesis by (simp add: fts_rows_def ranked_rows_def fts_rank.filter_sort_by)
qed

lemma ranked_rows_ids: "distinct (row_ids db) \<Longrightarrow> distinct (map (\<lambda>x. m_id (fst x)) (ranked_rows db rank))"
proof -
  assume "distinct (row_ids db)"
  then have "distinct (map (\<lambda>x. m_id (fst x)) (List.map_filter (\<lambda>r. map_option (Pair r) (rank (m_id r))) (rows db)))"
    unfolding row_ids_def by (rule distinct_map_filter_ids) auto
  then show ?thesis by (simp add: ranked_rows_def distinct_map)
qed

lemma length_map_filter_le: "length (List.map_filter g xs) \<le> length xs"
  by (induction xs) (auto split: option.splits)

lemma length_ranked_rows: "length (ranked_rows db rank) \<le> length (rows db)"
  by (simp add: ranked_rows_def length_map_filter_le)

lemma fts_view_of_row:
  "(if from_filter db f caller now (fst x) then fts_view st lc db f caller now x else None) =
   (case x of (r, score) \<Rightarrow> Option.bind (row_view lc st db f caller now r)
      (\<lambda>v. if content_searchable_by v caller then Some (plain_result (Some score) v) else None))"
  by (cases x; cases "apply_access_policy_for_filter lc (hydrated st db (fst x)) f caller now")
    (auto simp: fts_view_def row_view_def dest: view_searchable)

lemma fts_search_scan_eq:
  assumes "distinct (row_ids db)" and "length (rows db) \<le> MAX_SCAN_ROWS" and "0 < limit" "limit * OVERFETCH_FACTOR < 2 ^ 63"
  shows "fts_search_scan st lc fts db q f caller now limit = Inr (case fts (rows db) q of
      FtsRanked rank \<Rightarrow> take limit (List.map_filter (\<lambda>(r, score).
        Option.bind (row_view lc st db f caller now r)
          (\<lambda>v. if content_searchable_by v caller then Some (plain_result (Some score) v) else None)) (ranked_rows db rank))
    | _ \<Rightarrow> [])"
proof (cases "fts (rows db) q")
  case (FtsRanked rank)
  let ?M = "fts_rows db rank f caller now"
  have "distinct (map (\<lambda>x. m_id (fst x)) ?M)"
    using ranked_rows_ids [OF assms(1), of rank] by (simp add: fts_rows_eq distinct_map_filter)
  note pages = fts_pages_window [OF this assms(3,4), of st lc db f caller now]
  have "length ?M \<le> length (rows db)"
    using le_trans [OF length_filter_le length_ranked_rows [of db rank]] by (simp add: fts_rows_eq)
  then have "take (scan_window (limit * OVERFETCH_FACTOR)) ?M = ?M"
    using assms(2,3) scan_window_covers [of "limit * OVERFETCH_FACTOR"] by (simp add: OVERFETCH_FACTOR_def)
  moreover have "List.map_filter (fts_view st lc db f caller now) ?M = List.map_filter (\<lambda>(r, score).
        Option.bind (row_view lc st db f caller now r)
          (\<lambda>v. if content_searchable_by v caller then Some (plain_result (Some score) v) else None)) (ranked_rows db rank)"
    unfolding fts_rows_eq map_filter_filter
    by (rule map_filter_cong) (simp only: fts_view_of_row)
  ultimately show ?thesis using pages FtsRanked by (simp add: fts_search_scan_def)
next
  case FtsFailed
  have "max (usize_sat (limit * OVERFETCH_FACTOR)) 1 < 2 ^ 63" using assms(4) by (simp add: usize_sat_def)
  then show ?thesis using FtsFailed by (simp add: fts_search_scan_def usize_to_i64_small)
qed (simp add: fts_search_scan_def)

text \<open>Claim C19. Full-text search is exact and degrades gracefully. On a store whose rows fit the scan ceiling,
  \<^verbatim>\<open>search_by_fts\<close> returns, for whatever ranks the index gives, the \<^verbatim>\<open>limit\<close> best ranked results (newest
  first among equals) of the rows the filter leaves to the caller whose content the caller may search;
  paging, early stops and late entity hydration leave no trace. A blank query is a text search, and an
  expression the index rejects gives no results instead of an error.\<close>

theorem fts_search_exact:
  assumes "distinct (row_ids db)" and "length (rows db) \<le> MAX_SCAN_ROWS" and "0 < limit" "limit * OVERFETCH_FACTOR < 2 ^ 63"
  shows "search_by_fts_impl st lc fts db query limit f caller context now =
    (case sanitize_fts_query_with_context query None of
       None \<Rightarrow> search_by_text_impl st lc db query limit f caller now
     | Some q \<Rightarrow> Inr (case fts (rows db) q of
         FtsRanked rank \<Rightarrow> take limit (List.map_filter (\<lambda>(r, score).
           Option.bind (row_view lc st db (normalize_filter lc f) caller now r)
             (\<lambda>v. if content_searchable_by v caller then Some (plain_result (Some score) v) else None)) (ranked_rows db rank))
       | _ \<Rightarrow> []))"
  using assms(3) fts_search_scan_eq [OF assms]
  by (simp add: search_by_fts_impl_def sanitize_fts_query_with_context_def Let_def)

theorem fts_search_exact_witness:
  "map_sum id (map (\<lambda>r. (m_id (sr_memory r), sr_distance r)))
     (search_by_fts_impl query_sqlite (\<lambda>s. s) (\<lambda>_ _. FtsRanked (map_of [(7, 1), (8, 2)])) (query_mdb ''plan'') ''plan'' 5 memory_filter_default
       (Some ''alice'') None 50) = Inr [(7, Some 1), (8, Some 2)]"
proof -
  have "0 < (5 :: nat)" by simp
  from fts_search_exact [OF query_mdb_small this five_rows] show ?thesis by simp code_simp
qed

end
