(* ===== verification/Engine_Search.thy ===== *)
theory Engine_Search
  imports Memory_Fts Scoring Validation
begin

text \<open>
  The search path of the engine, \<^verbatim>\<open>search_memories_inner\<close> of \<^verbatim>\<open>src/src/engine.rs\<close>: validation, the choice
  of the retrieval path, hybrid fusion with its fallbacks, reranking, composite scoring, duplicate
  suppression and the final cut.

  The engine is generic in its store, so the methods of the trait \<^verbatim>\<open>MemoryReader\<close> it calls are the record
  \<open>engine_store\<close>; an answer \<open>None\<close> of the vector search is a call that never returns. The embedding
  provider and the reranker are functions of the engine's record, and so are the arithmetic and the
  order in which a hash map is enumerated. What a store promises is the locale \<open>search_provider\<close>: the
  engine's theorem is proved there once and holds of the SQLite store by its interpretation.
\<close>

section \<open>Configuration and requests\<close>

record engine_search_config = search_config +
  sc_default_mode :: search_mode
  sc_semantic_candidate_k :: nat
  sc_keyword_candidate_k :: nat
  sc_rerank_top_m :: nat
  sc_suppression_enabled :: bool
  sc_suppression_lambda :: f64

record reranker_score =
  rs_index :: nat
  rs_score :: f64

type_synonym reranker = "string \<Rightarrow> string list \<Rightarrow> string + reranker_score list"

record engine_store =
  es_search_by_embedding :: "f32 list \<Rightarrow> nat \<Rightarrow> memory_filter \<Rightarrow> string option \<Rightarrow> f64 option \<Rightarrow> (store_error + search_result list) option"
  es_fts_available :: bool
  es_search_by_fts :: "string \<Rightarrow> nat \<Rightarrow> memory_filter \<Rightarrow> string option \<Rightarrow> string option \<Rightarrow> store_error + search_result list"
  es_search_by_text :: "string \<Rightarrow> nat \<Rightarrow> memory_filter \<Rightarrow> string option \<Rightarrow> store_error + search_result list"
  es_fetch_embeddings_for_ids :: "memory_id list \<Rightarrow> store_error + (memory_id \<Rightarrow> f32 list option)"

record search_engine =
  en_store :: engine_store
  en_embed :: "string \<Rightarrow> embedding_error + f32 list"
  en_now :: datetime
  en_max_search_limit :: nat
  en_max_candidate_pool_size :: nat
  en_search_config :: engine_search_config
  en_reranker :: "reranker option"
  en_arith :: f64_arith
  en_arith32 :: f32_arith
  en_hash_order :: "fused_result list \<Rightarrow> fused_result list"

record search_request =
  rq_query :: string
  rq_limit :: nat
  rq_filter :: memory_filter
  rq_principal :: "string option"
  rq_max_distance :: "f64 option"
  rq_keywords :: "string option"
  rq_search_mode :: "search_mode option"
  rq_context :: "string option"

record fusion_metadata =
  fm_match_sources :: "search_mode list"
  fm_rrf_score :: f64

record search_outcome =
  so_results :: "search_result list"
  so_search_mode :: search_mode
  so_fusion_metadata :: "fusion_metadata list"

definition single_path :: "search_result list \<Rightarrow> search_mode \<Rightarrow> search_outcome" where
  "single_path results mode = \<lparr>so_results = results, so_search_mode = mode, so_fusion_metadata = []\<rparr>"

text \<open>\<^verbatim>\<open>Display\<close> of an embedding error, as the messages of the engine embed it.\<close>

fun embedding_error_display :: "embedding_error \<Rightarrow> string" where
  "embedding_error_display (Transient e) = ''transient embedding error: '' @ e"
| "embedding_error_display (RateLimited e _) = ''embedding provider rate limited the request: '' @ e"
| "embedding_error_display (Permanent e) = ''permanent embedding error: '' @ e"
| "embedding_error_display Disabled = ''embedding is disabled''"

section \<open>Candidate pools\<close>

record pool_limits =
  pl_semantic :: nat
  pl_keyword :: nat
  pl_text :: nat
  pl_fused :: nat

definition base_candidate_pool_limit :: "search_engine \<Rightarrow> nat \<Rightarrow> nat" where
  "base_candidate_pool_limit en user_limit =
     (if user_limit = 0 then 0
      else let pool = user_limit;
               pool = (if en_reranker en \<noteq> None then max pool (sc_rerank_top_m (en_search_config en)) else pool);
               pool = (if sc_suppression_enabled (en_search_config en) then usize_sat (pool * 2) else pool)
           in min pool (en_max_candidate_pool_size en))"

definition candidate_pool_limits :: "search_engine \<Rightarrow> nat \<Rightarrow> pool_limits" where
  "candidate_pool_limits en final_limit =
     (let base = base_candidate_pool_limit en final_limit;
          max_pool = en_max_candidate_pool_size en;
          semantic = min (max base (sc_semantic_candidate_k (en_search_config en))) max_pool;
          keyword = min (max base (sc_keyword_candidate_k (en_search_config en))) max_pool
      in \<lparr>pl_semantic = semantic, pl_keyword = keyword, pl_text = keyword,
          pl_fused = min (usize_sat (semantic + keyword)) max_pool\<rparr>)"

section \<open>Hybrid search\<close>

datatype hybrid_candidates =
    HybridSingle search_outcome
  | HybridBoth "search_result list" "search_result list"

definition hybrid_path_candidates :: "bool \<Rightarrow> search_result list \<Rightarrow> search_result list \<Rightarrow> hybrid_candidates" where
  "hybrid_path_candidates strict semantic keyword =
     (if strict then HybridBoth semantic keyword
      else (case (semantic = [], keyword = []) of
          (False, True) \<Rightarrow> HybridSingle (single_path semantic ModeSemantic)
        | (True, False) \<Rightarrow> HybridSingle (single_path keyword ModeKeyword)
        | _ \<Rightarrow> HybridBoth semantic keyword))"

text \<open>Rank fusion, its metadata and the scores normalised into the results.\<close>

definition fuse_paths :: "search_engine \<Rightarrow> search_result list \<Rightarrow> search_result list \<Rightarrow> nat \<Rightarrow> search_outcome" where
  "fuse_paths en semantic keyword limit =
     (let fa = en_arith en; cfg = en_search_config en;
          fused = reciprocal_rank_fusion fa (en_hash_order en) semantic keyword
            (sc_rrf_k cfg) (sc_rrf_semantic_weight cfg) (sc_rrf_keyword_weight cfg) limit;
          metadata = map (\<lambda>x. \<lparr>fm_match_sources = fr_match_sources x, fm_rrf_score = fr_rrf_score x\<rparr>) fused;
          max_rrf = foldl f64_max f64_zero (map fr_rrf_score fused)
      in \<lparr>so_results = map (\<lambda>x. (fr_result x)\<lparr>sr_retrieval_score := Some (fa_div fa (fr_rrf_score x) (fa_add fa max_rrf f64_tiny))\<rparr>) fused,
          so_search_mode = ModeHybrid, so_fusion_metadata = metadata\<rparr>)"

abbreviation engine_store_error :: "store_error + 'a \<Rightarrow> engine_error + 'a" where
  "engine_store_error r \<equiv> map_sum Store id r"

definition embedding_path :: "search_engine \<Rightarrow> search_request \<Rightarrow> f32 list \<Rightarrow> nat \<Rightarrow> (engine_error + search_result list) option" where
  "embedding_path en rq e limit =
     map_option engine_store_error (es_search_by_embedding (en_store en) e limit (rq_filter rq) (rq_principal rq) (rq_max_distance rq))"

definition keyword_path :: "search_engine \<Rightarrow> search_request \<Rightarrow> string option \<Rightarrow> nat \<Rightarrow> engine_error + search_result list" where
  "keyword_path en rq fts_context limit =
     engine_store_error (es_search_by_fts (en_store en)
       (case rq_keywords rq of None \<Rightarrow> rq_query rq | Some k \<Rightarrow> k) limit (rq_filter rq) (rq_principal rq) fts_context)"

definition text_path :: "search_engine \<Rightarrow> search_request \<Rightarrow> nat \<Rightarrow> engine_error + search_result list" where
  "text_path en rq limit = engine_store_error (es_search_by_text (en_store en) (rq_query rq) limit (rq_filter rq) (rq_principal rq))"

definition search_hybrid_with_context ::
  "search_engine \<Rightarrow> search_request \<Rightarrow> string \<Rightarrow> string option \<Rightarrow> bool \<Rightarrow> (engine_error + search_outcome) option" where
  "search_hybrid_with_context en rq embed_query fts_context strict =
     (let limits = candidate_pool_limits en (rq_limit rq) in
      case (en_embed en embed_query, es_fts_available (en_store en)) of
        (Inr query_emb, True) \<Rightarrow>
          Option.bind (embedding_path en rq query_emb (pl_semantic limits)) (\<lambda>r.
            Some (result_bind r (\<lambda>semantic.
              result_bind (keyword_path en rq fts_context (pl_keyword limits)) (\<lambda>keyword.
                (case hybrid_path_candidates strict semantic keyword of
                   HybridSingle outcome \<Rightarrow> Inr outcome
                 | HybridBoth semantic keyword \<Rightarrow> Inr (fuse_paths en semantic keyword (pl_fused limits)))))))
      | (Inr query_emb, False) \<Rightarrow>
          if strict then Some (Inl (SearchUnavailable ''hybrid search requires FTS5 keyword search support''))
          else Option.bind (embedding_path en rq query_emb (pl_semantic limits)) (\<lambda>r.
            Some (result_bind r (\<lambda>results. Inr (single_path results ModeSemantic))))
      | (Inl _, True) \<Rightarrow>
          if strict then Some (Inl (SearchUnavailable ''hybrid search requires embedding support''))
          else Some (result_bind (keyword_path en rq fts_context (pl_keyword limits)) (\<lambda>results.
            Inr (single_path results ModeKeyword)))
      | (Inl e, False) \<Rightarrow>
          if strict then Some (Inl (SearchUnavailable
            (''hybrid search requires both embedding and FTS5 support: embedding error: '' @ embedding_error_display e)))
          else Some (result_bind (text_path en rq (pl_text limits)) (\<lambda>results. Inr (single_path results ModeText))))"

section \<open>Reranking\<close>

definition set_reranker_score :: "nat list \<Rightarrow> search_result list \<Rightarrow> reranker_score \<Rightarrow> search_result list" where
  "set_reranker_score eligible results s =
     (if rs_index s \<ge> length eligible then results
      else let i = eligible ! rs_index s in results[i := (results ! i)\<lparr>sr_reranker_score := Some (rs_score s)\<rparr>])"

definition apply_reranker :: "search_engine \<Rightarrow> search_result list \<Rightarrow> string \<Rightarrow> reranker \<Rightarrow> search_result list" where
  "apply_reranker en results query rerank =
     (let pool_size = min (sc_rerank_top_m (en_search_config en)) (length results) in
      if pool_size = 0 then results
      else let eligible = take pool_size
                 (filter (\<lambda>i. field_visible_in_view (sr_memory (results ! i)) FieldContent) [0..<length results]) in
        if eligible = [] then results
        else (case rerank query (map (\<lambda>i. m_content (sr_memory (results ! i))) eligible) of
            Inl _ \<Rightarrow> results
          | Inr scores \<Rightarrow> foldl (set_reranker_score eligible) results scores))"

section \<open>Search\<close>

fun concrete_zero_limit_search_mode :: "search_mode \<Rightarrow> search_mode" where
  "concrete_zero_limit_search_mode ModeAuto = ModeHybrid"
| "concrete_zero_limit_search_mode ModeHybrid = ModeHybrid"
| "concrete_zero_limit_search_mode ModeSemantic = ModeSemantic"
| "concrete_zero_limit_search_mode ModeText = ModeText"
| "concrete_zero_limit_search_mode ModeKeyword = ModeKeyword"

text \<open>The first stage: the outcome of the retrieval path of the mode.\<close>

definition retrieve ::
  "search_engine \<Rightarrow> search_request \<Rightarrow> search_mode \<Rightarrow> string \<Rightarrow> string option \<Rightarrow> (engine_error + search_outcome) option" where
  "retrieve en rq mode embed_query fts_context =
     (let limits = candidate_pool_limits en (rq_limit rq) in
      case mode of
        ModeSemantic \<Rightarrow>
          (case en_embed en embed_query of
             Inl e \<Rightarrow> Some (Inl (SearchUnavailable (''semantic search requires embedding support: '' @ embedding_error_display e)))
           | Inr query_emb \<Rightarrow>
               Option.bind (embedding_path en rq query_emb (pl_semantic limits)) (\<lambda>r.
                 Some (result_bind r (\<lambda>results. Inr (single_path results ModeSemantic)))))
      | ModeKeyword \<Rightarrow>
          if \<not> es_fts_available (en_store en) then Some (Inl (SearchUnavailable ''keyword search requires FTS5 support''))
          else Some (result_bind (keyword_path en rq fts_context (pl_keyword limits)) (\<lambda>results. Inr (single_path results ModeKeyword)))
      | ModeText \<Rightarrow> Some (result_bind (text_path en rq (pl_text limits)) (\<lambda>results. Inr (single_path results ModeText)))
      | ModeAuto \<Rightarrow> search_hybrid_with_context en rq embed_query fts_context False
      | ModeHybrid \<Rightarrow> search_hybrid_with_context en rq embed_query fts_context True)"

text \<open>The second stage: scores, reranking, ordering, suppression and the final cut.\<close>

definition rank_results :: "search_engine \<Rightarrow> string \<Rightarrow> nat \<Rightarrow> search_result list \<Rightarrow> search_result list" where
  "rank_results en raw_query final_limit retrieved =
     (let cfg = en_search_config en;
          results = seed_retrieval_scores (en_arith en) retrieved;
          results = (case en_reranker en of None \<Rightarrow> results | Some rerank \<Rightarrow> apply_reranker en results raw_query rerank);
          results = apply_composite_scoring (en_arith en) results (en_now en) (search_config.truncate cfg);
          results = (if sc_suppression_enabled cfg
            then (case es_fetch_embeddings_for_ids (en_store en) (map (\<lambda>r. m_id (sr_memory r)) results) of
                Inl _ \<Rightarrow> results
              | Inr embeddings \<Rightarrow>
                  apply_duplicate_suppression (en_arith en) (en_arith32 en) results embeddings (sc_suppression_lambda cfg) (en_now en))
            else results)
      in if length results > final_limit then take final_limit results else results)"

text \<open>The second component is the list of ids whose impression the engine records afterwards.\<close>

definition search_memories_inner ::
  "search_engine \<Rightarrow> search_request \<Rightarrow> bool \<Rightarrow> (engine_error + search_outcome \<times> memory_id list) option" where
  "search_memories_inner en request record_impressions =
     (case validate_non_blank ''query'' (rq_query request) of Inl e \<Rightarrow> Some (Inl (Validation e)) | Inr _ \<Rightarrow>
     (case validate_max_distance (rq_max_distance request) of Inl e \<Rightarrow> Some (Inl (Validation e)) | Inr _ \<Rightarrow>
      let final_limit = min (rq_limit request) (en_max_search_limit en);
          mode = (case rq_search_mode request of None \<Rightarrow> sc_default_mode (en_search_config en) | Some m \<Rightarrow> m) in
      if final_limit = 0 then Some (Inr (single_path [] (concrete_zero_limit_search_mode mode), []))
      else let context = (case rq_context request of None \<Rightarrow> None | Some c \<Rightarrow> if trim c = [] then None else Some c);
               embed_query = (case context of None \<Rightarrow> rq_query request | Some c \<Rightarrow> rq_query request @ CHR '' '' # c) in
        Option.bind (retrieve en (request\<lparr>rq_limit := final_limit\<rparr>) mode embed_query context) (\<lambda>r.
          Some (result_bind r (\<lambda>outcome.
            let results = rank_results en (rq_query request) final_limit (so_results outcome) in
            Inr (outcome\<lparr>so_results := results\<rparr>,
                 if record_impressions then map (\<lambda>r. m_id (sr_memory r)) results else []))))))"

section \<open>What the stages keep\<close>

abbreviation result_id :: "search_result \<Rightarrow> memory_id" where
  "result_id r \<equiv> m_id (sr_memory r)"

abbreviation memories_of :: "search_result list \<Rightarrow> memory multiset" where
  "memories_of results \<equiv> image_mset sr_memory (mset results)"

text \<open>At most \<open>limit\<close> results, each memory once, each one of \<open>P\<close>.\<close>

definition answer_within :: "(memory \<Rightarrow> bool) \<Rightarrow> nat \<Rightarrow> search_result list \<Rightarrow> bool" where
  "answer_within P limit results \<longleftrightarrow> length results \<le> limit \<and> distinct (map result_id results) \<and> (\<forall>r \<in> set results. P (sr_memory r))"

lemma distinct_submset:
  assumes "mset ys \<subseteq># mset xs" "distinct xs"
  shows "distinct ys"
proof -
  obtain C where "mset xs = mset ys + C" using assms(1) by (auto simp: mset_subset_eq_exists_conv)
  moreover obtain zs where "mset zs = C" using ex_mset by blast
  ultimately have "mset xs = mset (ys @ zs)" by simp
  then show ?thesis using assms(2) by (metis distinct_append mset_eq_imp_distinct_iff)
qed

lemma answer_within_sub:
  assumes "answer_within P n results" and sub: "memories_of results' \<subseteq># memories_of results" and "length results' \<le> n'"
  shows "answer_within P n' results'"
proof -
  have "distinct (map result_id results)" using assms(1) by (simp add: answer_within_def)
  moreover have "mset (map result_id results') \<subseteq># mset (map result_id results)"
    using image_mset_subseteq_mono [OF sub, of m_id] by (simp add: image_mset.compositionality comp_def)
  ultimately have "distinct (map result_id results')"
    by (rule distinct_submset [rotated])
  moreover have "sr_memory ` set results' \<subseteq> sr_memory ` set results"
    using set_mset_mono [OF sub] by simp
  ultimately show ?thesis using assms(1,3) by (auto simp: answer_within_def)
qed

lemma seed_keeps: "map sr_memory (seed_retrieval_scores fa results) = map sr_memory results"
  by (simp add: seed_retrieval_scores_def Let_def)

lemma set_reranker_keeps: "map sr_memory (set_reranker_score eligible results x) = map sr_memory results"
proof -
  have "(map sr_memory results)[i := sr_memory (results ! i)] = map sr_memory results" for i
    by (cases "i < length results") (simp_all add: list_update_same_conv list_update_beyond)
  then show ?thesis by (simp add: set_reranker_score_def Let_def map_update)
qed

lemma apply_reranker_keeps: "map sr_memory (apply_reranker en results query rerank) = map sr_memory results"
proof -
  have "map sr_memory (foldl (set_reranker_score eligible) results scores) = map sr_memory results" for eligible scores
    by (induction scores rule: rev_induct) (simp_all add: set_reranker_keeps)
  then show ?thesis by (simp add: apply_reranker_def Let_def split: sum.splits)
qed

lemma composite_keeps: "memories_of (apply_composite_scoring fa results now cfg) = memories_of results"
  by (simp add: apply_composite_scoring_alt image_mset.compositionality comp_def scored_def score_result_def)

lemma suppression_keeps: "memories_of (apply_duplicate_suppression fa ga results embeddings lambda now) \<subseteq># memories_of results"
proof (cases "f64_le lambda f64_zero \<or> length results < 2")
  case False
  obtain adjusted sel where scan: "suppression_scan fa ga embeddings lambda results = (adjusted, sel)"
    by (cases "suppression_scan fa ga embeddings lambda results")
  then have kept: "map sr_memory adjusted = map sr_memory results" "sorted_wrt (<) sel" "set sel \<subseteq> {..<length results}"
    using suppression_scan_inv [of embeddings results fa ga lambda] by (simp_all add: scan_inv_def)
  then have len: "length adjusted = length results" and "distinct sel" by (auto simp: strict_sorted_iff dest: map_eq_imp_length_eq)
  then have "mset sel \<subseteq># mset [0..<length adjusted]"
    using kept(3) mset_set_set [of sel] mset_set_set [of "[0..<length adjusted]"]
    by (metis atLeastLessThan_upt distinct_upt finite_atLeastLessThan lessThan_atLeast0 subset_imp_msubset_mset_set)
  then have "image_mset ((!) adjusted) (mset sel) \<subseteq># image_mset ((!) adjusted) (mset [0..<length adjusted])"
    by (rule image_mset_subseteq_mono)
  then have "mset (map ((!) adjusted) sel) \<subseteq># mset adjusted" by (metis map_nth mset_map)
  then have "image_mset sr_memory (mset (map ((!) adjusted) sel)) \<subseteq># mset (map sr_memory adjusted)"
    unfolding mset_map [of sr_memory] by (rule image_mset_subseteq_mono)
  with False show ?thesis by (simp add: apply_duplicate_suppression_alt [OF scan] kept(1) flip: mset_map)
qed (auto simp: apply_duplicate_suppression_def)

lemma take_keeps: "memories_of (take n results) \<subseteq># memories_of results"
proof -
  have "mset (take n results) \<subseteq># mset results"
    by (metis append_take_drop_id mset_append mset_subset_eq_add_left)
  then show ?thesis by (rule image_mset_subseteq_mono)
qed

lemma rank_results_keeps:
  "memories_of (rank_results en q n retrieved) \<subseteq># memories_of retrieved" "length (rank_results en q n retrieved) \<le> n"
proof -
  define seeded where "seeded = (case en_reranker en of None \<Rightarrow> seed_retrieval_scores (en_arith en) retrieved
    | Some rerank \<Rightarrow> apply_reranker en (seed_retrieval_scores (en_arith en) retrieved) q rerank)"
  define ordered where "ordered = apply_composite_scoring (en_arith en) seeded (en_now en) (search_config.truncate (en_search_config en))"
  define final where "final = (if sc_suppression_enabled (en_search_config en)
      then (case es_fetch_embeddings_for_ids (en_store en) (map result_id ordered) of Inl _ \<Rightarrow> ordered
        | Inr embeddings \<Rightarrow> apply_duplicate_suppression (en_arith en) (en_arith32 en) ordered embeddings
            (sc_suppression_lambda (en_search_config en)) (en_now en)) else ordered)"
  have "map sr_memory seeded = map sr_memory retrieved"
    by (simp add: seeded_def seed_keeps apply_reranker_keeps split: option.splits)
  then have "memories_of seeded = memories_of retrieved" by (metis mset_map)
  then have "memories_of ordered = memories_of retrieved" by (simp add: ordered_def composite_keeps)
  then have final: "memories_of final \<subseteq># memories_of retrieved"
    using suppression_keeps [of "en_arith en" "en_arith32 en" ordered] by (simp add: final_def split: sum.splits)
  have "rank_results en q n retrieved = (if length final > n then take n final else final)"
    by (simp only: rank_results_def Let_def seeded_def ordered_def final_def)
  then have "rank_results en q n retrieved = take n final" by simp
  with final take_keeps [of n final] show "memories_of (rank_results en q n retrieved) \<subseteq># memories_of retrieved"
    "length (rank_results en q n retrieved) \<le> n" by (auto intro: subset_mset.order_trans)
qed

section \<open>What fusion keeps\<close>

lemma add_rank_results: "fr_result ` set (add_rank fa k w source (rank, sr) entries) \<subseteq> insert sr (fr_result ` set entries)"
  by (auto simp: add_rank_def Let_def fuse_hit_def)

lemma accumulate_results: "fr_result ` set (accumulate_rrf fa entries results k w source) \<subseteq> fr_result ` set entries \<union> set results"
proof (induction results rule: rev_induct)
  case (snoc sr results)
  then show ?case using add_rank_results [of fa k w source "length results" sr] by (force simp: accumulate_snoc)
qed (simp add: accumulate_rrf_def)

lemma fusion_entries_results: "fr_result ` set (fusion_entries fa sem fts k ws wk) \<subseteq> set sem \<union> set fts"
  using accumulate_results [of fa "accumulate_rrf fa [] sem k ws ModeSemantic" fts k wk ModeKeyword]
    accumulate_results [of fa "[]" sem k ws ModeSemantic] by (auto simp: fusion_entries_def)

lemma fuse_paths_answer:
  assumes "answer_within P n sem" "answer_within P n' fts" and "\<forall>xs. mset (en_hash_order en xs) = mset xs"
  shows "answer_within P limit (so_results (fuse_paths en sem fts limit))"
proof -
  define es where "es = fusion_entries (en_arith en) sem fts (fa_of_int (en_arith en) (uint (sc_rrf_k (en_search_config en))))
    (sc_rrf_semantic_weight (en_search_config en)) (sc_rrf_keyword_weight (en_search_config en))"
  define fused where "fused = take limit (sort_by cmp_fused (en_hash_order en es))"
  have same: "mset (sort_by cmp_fused (en_hash_order en es)) = mset es" using assms(3) by simp
  have ids: "distinct (map entry_id es)" unfolding es_def by (rule conjunct1 [OF fusion_entries_ids])
  have "fr_result ` set es \<subseteq> set sem \<union> set fts" unfolding es_def by (rule fusion_entries_results)
  moreover have "set fused \<subseteq> set es"
    using mset_eq_setD [OF same] set_take_subset [of limit "sort_by cmp_fused (en_hash_order en es)"] by (simp only: fused_def)
  ultimately have "fr_result ` set fused \<subseteq> set sem \<union> set fts" by blast
  moreover have "distinct (map entry_id (sort_by cmp_fused (en_hash_order en es)))"
    using ids same by (metis mset_eq_imp_distinct_iff mset_map)
  then have "distinct (map entry_id fused)" by (simp add: fused_def flip: take_map)
  ultimately have "answer_within P limit (map (\<lambda>x. (fr_result x)\<lparr>sr_retrieval_score := g x\<rparr>) fused)" for g
    using assms(1,2) by (auto simp: answer_within_def fused_def comp_def entry_id_def [abs_def])
  then show ?thesis
    by (simp add: fuse_paths_def Let_def reciprocal_rank_fusion_def fused_def es_def fusion_entries_def)
qed

section \<open>The contract of a store\<close>

lemma pool_limits_bounded:
  "pl_semantic (candidate_pool_limits en n) \<le> en_max_candidate_pool_size en"
  "pl_keyword (candidate_pool_limits en n) \<le> en_max_candidate_pool_size en"
  "pl_text (candidate_pool_limits en n) \<le> en_max_candidate_pool_size en"
  "pl_fused (candidate_pool_limits en n) \<le> en_max_candidate_pool_size en"
  by (simp_all add: candidate_pool_limits_def Let_def)

lemma engine_store_error_Inr: "engine_store_error r = Inr x \<longleftrightarrow> r = Inr x"
  by (cases r) simp_all

lemma answer_within_mono: "answer_within P n results \<Longrightarrow> n \<le> n' \<Longrightarrow> answer_within P n' results"
  by (auto simp: answer_within_def)

text \<open>Every search method of the store returns, and an answer has at most as many results as asked for,
  each memory once, each one the caller may be shown.\<close>

locale search_provider =
  fixes store :: "'s \<Rightarrow> engine_store"
    and ok :: "'s \<Rightarrow> bool"
    and answers :: "'s \<Rightarrow> memory_filter \<Rightarrow> string option \<Rightarrow> memory \<Rightarrow> bool"
  assumes embedding_law: "ok s \<Longrightarrow> \<exists>r. es_search_by_embedding (store s) e n f caller d = Some r \<and>
      (\<forall>results. r = Inr results \<longrightarrow> answer_within (answers s f caller) n results)"
    and fts_law: "ok s \<Longrightarrow> es_search_by_fts (store s) q n f caller ctx = Inr results \<Longrightarrow> answer_within (answers s f caller) n results"
    and text_law: "ok s \<Longrightarrow> es_search_by_text (store s) q n f caller = Inr results \<Longrightarrow> answer_within (answers s f caller) n results"
begin

definition pooled :: "search_engine \<Rightarrow> 's \<Rightarrow> search_request \<Rightarrow> (engine_error + search_outcome) option \<Rightarrow> bool" where
  "pooled en s rq r \<longleftrightarrow> (\<exists>x. r = Some x \<and> (\<forall>outcome. x = Inr outcome \<longrightarrow>
     answer_within (answers s (rq_filter rq) (rq_principal rq)) (en_max_candidate_pool_size en) (so_results outcome)))"

lemma embedding_path_law:
  assumes "ok s" "en_store en = store s"
  shows "\<exists>r. embedding_path en rq e n = Some r \<and>
    (\<forall>results. r = Inr results \<longrightarrow> answer_within (answers s (rq_filter rq) (rq_principal rq)) n results)"
  using embedding_law [OF assms(1), of e n "rq_filter rq" "rq_principal rq" "rq_max_distance rq"] assms(2)
  by (auto simp: embedding_path_def engine_store_error_Inr)

lemma keyword_path_law:
  assumes "ok s" "en_store en = store s" "keyword_path en rq ctx n = Inr results"
  shows "answer_within (answers s (rq_filter rq) (rq_principal rq)) n results"
  using assms fts_law [OF assms(1)] by (auto simp: keyword_path_def engine_store_error_Inr)

lemma text_path_law:
  assumes "ok s" "en_store en = store s" "text_path en rq n = Inr results"
  shows "answer_within (answers s (rq_filter rq) (rq_principal rq)) n results"
  using assms text_law [OF assms(1)] by (auto simp: text_path_def engine_store_error_Inr)

lemma pooled_embedding:
  assumes "ok s" "en_store en = store s" and "n \<le> en_max_candidate_pool_size en"
    and "\<And>results. answer_within (answers s (rq_filter rq) (rq_principal rq)) n results \<Longrightarrow> pooled en s rq (Some (g results))"
  shows "pooled en s rq (Option.bind (embedding_path en rq e n) (\<lambda>r. Some (result_bind r g)))"
proof -
  obtain r where r: "embedding_path en rq e n = Some r"
    "\<forall>results. r = Inr results \<longrightarrow> answer_within (answers s (rq_filter rq) (rq_principal rq)) n results"
    using embedding_path_law [OF assms(1,2)] by blast
  show ?thesis using assms(4) r(2) by (cases r) (auto simp: r(1) pooled_def)
qed

lemma pooled_single: "answer_within (answers s (rq_filter rq) (rq_principal rq)) n results \<Longrightarrow> n \<le> en_max_candidate_pool_size en \<Longrightarrow>
    pooled en s rq (Some (Inr (single_path results mode)))"
  by (auto simp: pooled_def single_path_def intro: answer_within_mono)

lemma pooled_bind: "(\<And>results. r = Inr results \<Longrightarrow> pooled en s rq (Some (g results))) \<Longrightarrow> pooled en s rq (Some (result_bind r g))"
  by (cases r) (auto simp: pooled_def)

lemma pooled_error: "pooled en s rq (Some (Inl e))"
  by (simp add: pooled_def)

lemma pooled_semantic:
  assumes "ok s" "en_store en = store s"
  shows "pooled en s rq (Option.bind (embedding_path en rq e (pl_semantic (candidate_pool_limits en n)))
      (\<lambda>r. Some (result_bind r (\<lambda>results. Inr (single_path results mode)))))"
  by (rule pooled_embedding [OF assms pool_limits_bounded(1) pooled_single [OF _ pool_limits_bounded(1)]])

lemma pooled_keyword:
  assumes "ok s" "en_store en = store s"
  shows "pooled en s rq (Some (result_bind (keyword_path en rq ctx (pl_keyword (candidate_pool_limits en n)))
      (\<lambda>results. Inr (single_path results mode))))"
  by (rule pooled_bind, rule pooled_single [OF keyword_path_law [OF assms] pool_limits_bounded(2)])

lemma pooled_text:
  assumes "ok s" "en_store en = store s"
  shows "pooled en s rq (Some (result_bind (text_path en rq (pl_text (candidate_pool_limits en n)))
      (\<lambda>results. Inr (single_path results mode))))"
  by (rule pooled_bind, rule pooled_single [OF text_path_law [OF assms] pool_limits_bounded(3)])

lemma hybrid_pooled:
  assumes "ok s" "en_store en = store s" "\<forall>xs. mset (en_hash_order en xs) = mset xs"
  shows "pooled en s rq (search_hybrid_with_context en rq embed_query ctx strict)"
proof -
  let ?P = "answers s (rq_filter rq) (rq_principal rq)"
  have both: "pooled en s rq (Some (case hybrid_path_candidates strict sem kw of HybridSingle outcome \<Rightarrow> Inr outcome
      | HybridBoth sem kw \<Rightarrow> Inr (fuse_paths en sem kw (pl_fused (candidate_pool_limits en n)))))"
    if "answer_within ?P (pl_semantic (candidate_pool_limits en n)) sem" "answer_within ?P (pl_keyword (candidate_pool_limits en n)) kw" for sem kw n
    using fuse_paths_answer [OF that assms(3), of "pl_fused (candidate_pool_limits en n)"]
      that(1) [THEN answer_within_mono, OF pool_limits_bounded(1)] that(2) [THEN answer_within_mono, OF pool_limits_bounded(2)]
    by (auto simp: hybrid_path_candidates_def pooled_def single_path_def pool_limits_bounded intro: answer_within_mono
        split: bool.splits)
  have fused: "pooled en s rq (Option.bind (embedding_path en rq e (pl_semantic (candidate_pool_limits en n))) (\<lambda>r.
      Some (result_bind r (\<lambda>sem. result_bind (keyword_path en rq ctx (pl_keyword (candidate_pool_limits en n))) (\<lambda>kw.
        case hybrid_path_candidates strict sem kw of HybridSingle outcome \<Rightarrow> Inr outcome
        | HybridBoth sem kw \<Rightarrow> Inr (fuse_paths en sem kw (pl_fused (candidate_pool_limits en n))))))))" for e n
    by (rule pooled_embedding [OF assms(1,2) pool_limits_bounded(1)], rule pooled_bind, rule both, assumption,
        rule keyword_path_law [OF assms(1,2)])
  show ?thesis
    using pooled_semantic [OF assms(1,2)] pooled_keyword [OF assms(1,2)] pooled_text [OF assms(1,2)] fused pooled_error
    by (cases "en_embed en embed_query"; cases "es_fts_available (en_store en)") (simp_all add: search_hybrid_with_context_def Let_def)
qed

lemma retrieve_pooled:
  assumes "ok s" "en_store en = store s" "\<forall>xs. mset (en_hash_order en xs) = mset xs"
  shows "pooled en s rq (retrieve en rq mode embed_query ctx)"
  using pooled_semantic [OF assms(1,2)] pooled_keyword [OF assms(1,2)] pooled_text [OF assms(1,2)] hybrid_pooled [OF assms] pooled_error
  by (cases mode; cases "en_embed en embed_query") (simp_all add: retrieve_def Let_def)

lemma search_answer:
  assumes "ok s" "en_store en = store s" "\<forall>xs. mset (en_hash_order en xs) = mset xs"
  shows "\<exists>r. search_memories_inner en rq rec = Some r \<and> (\<forall>outcome ids. r = Inr (outcome, ids) \<longrightarrow>
    answer_within (answers s (rq_filter rq) (rq_principal rq)) (min (rq_limit rq) (en_max_search_limit en)) (so_results outcome))"
proof -
  define final where "final = min (rq_limit rq) (en_max_search_limit en)"
  have ranked: "answer_within P final (rank_results en q final retrieved)" if "answer_within P n retrieved" for P n q retrieved
    using answer_within_sub [OF that rank_results_keeps] .
  have "\<exists>r. retrieve en (rq\<lparr>rq_limit := final\<rparr>) mode embed_query ctx = Some r \<and> (\<forall>outcome. r = Inr outcome \<longrightarrow>
      answer_within (answers s (rq_filter rq) (rq_principal rq)) (en_max_candidate_pool_size en) (so_results outcome))" for mode embed_query ctx
    using retrieve_pooled [OF assms, of "rq\<lparr>rq_limit := final\<rparr>"] by (simp add: pooled_def)
  note retrieved = this
  have stage: "\<exists>r. Option.bind (retrieve en (rq\<lparr>rq_limit := final\<rparr>) mode embed_query ctx) (\<lambda>r. Some (result_bind r (\<lambda>outcome.
        let results = rank_results en (rq_query rq) final (so_results outcome) in
        Inr (outcome\<lparr>so_results := results\<rparr>, g results)))) = Some r \<and> (\<forall>outcome ids. r = Inr (outcome, ids) \<longrightarrow>
        answer_within (answers s (rq_filter rq) (rq_principal rq)) final (so_results outcome))" for mode embed_query ctx and g :: "search_result list \<Rightarrow> memory_id list"
  proof -
    obtain r where "retrieve en (rq\<lparr>rq_limit := final\<rparr>) mode embed_query ctx = Some r" "\<forall>outcome. r = Inr outcome \<longrightarrow>
        answer_within (answers s (rq_filter rq) (rq_principal rq)) (en_max_candidate_pool_size en) (so_results outcome)"
      using retrieved [of mode embed_query ctx] by blast
    then show ?thesis by (cases r) (auto simp: Let_def intro: ranked)
  qed
  show ?thesis
    using stage [where g = "\<lambda>results. if rec then map result_id results else []"]
    by (cases "validate_non_blank ''query'' (rq_query rq)"; cases "validate_max_distance (rq_max_distance rq)")
      (simp_all add: search_memories_inner_def Let_def single_path_def answer_within_def [of _ _ "[]"] flip: final_def)
qed

end

end
