(* ===== verification/Engine_Sqlite.thy ===== *)
theory Engine_Sqlite
  imports Engine_Search
begin

text \<open>
  The engine over the SQLite store (\<^verbatim>\<open>impl MemoryReader for SqliteStore\<close> of \<^verbatim>\<open>src/src/store/sqlite.rs\<close>): the
  store's vector, text and full-text searches meet the contract \<open>search_provider\<close>, so the engine's search
  answers with views of stored memories the caller may see, whatever the embedding provider, the
  full-text index and the reranker return.
\<close>

section \<open>The SQLite store as a search provider\<close>

definition sqlite_engine_store ::
  "sqlite_store \<Rightarrow> (string \<Rightarrow> string) \<Rightarrow> knn_query \<Rightarrow> fts_match \<Rightarrow> bool \<Rightarrow> datetime \<Rightarrow> memory_db \<Rightarrow> engine_store" where
  "sqlite_engine_store st lc knn fts fts_available now db =
     \<lparr>es_search_by_embedding = (\<lambda>e limit f caller max_distance. search_by_embedding_impl st lc knn db e limit f caller max_distance now),
      es_fts_available = fts_available,
      es_search_by_fts = (\<lambda>query limit f caller context. search_by_fts_impl st lc fts db query limit f caller context now),
      es_search_by_text = (\<lambda>query limit f caller. search_by_text_impl st lc db query limit f caller now),
      es_fetch_embeddings_for_ids = (\<lambda>ids. Inr (fetch_many (ss_le st) (ss_dimensions st) ids (d_vectors db)))\<rparr>"

text \<open>The store is coherent and the nearest-neighbour query does what sqlite-vec documents.\<close>

definition sqlite_search_ok :: "sqlite_store \<Rightarrow> knn_query \<Rightarrow> memory_db \<Rightarrow> bool" where
  "sqlite_search_ok st knn db \<longleftrightarrow> distinct (row_ids db) \<and> vec_wf (ss_dimensions st) (d_vectors db) \<and> (\<exists>dist. knn_ok knn dist)"

text \<open>A memory a search with filter \<open>f\<close> may show the caller: the caller's view of a stored row that applies
  to the filter's contexts and passes the filter, with content the caller may search.\<close>

definition searchable_view ::
  "sqlite_store \<Rightarrow> (string \<Rightarrow> string) \<Rightarrow> datetime \<Rightarrow> memory_db \<Rightarrow> memory_filter \<Rightarrow> string option \<Rightarrow> memory \<Rightarrow> bool" where
  "searchable_view st lc now db f caller m \<longleftrightarrow>
     (\<exists>r \<in> set (rows db). context_conditions db f (m_id r) \<and>
        apply_access_policy_for_filter lc (hydrated st db r) (normalize_filter lc f) caller now = Some m \<and> content_searchable_by m caller)"

lemma searchable_viewI:
  assumes "r \<in> set (rows db)" "context_conditions db f (m_id r)" "content_searchable_by (hydrated st db r) caller"
    "apply_access_policy_for_filter lc (hydrated st db r) (normalize_filter lc f) caller now = Some m"
  shows "searchable_view st lc now db f caller m"
  using assms view_searchable [OF assms(4)] by (auto simp: searchable_view_def)

lemma answer_of_views:
  assumes "distinct (map k R)" and view: "\<And>x y. x \<in> set R \<Longrightarrow> view x = Some y \<Longrightarrow> P (sr_memory y) \<and> result_id y = k x"
  shows "answer_within P n (take n (List.map_filter view R))"
proof -
  have "distinct (map result_id (List.map_filter view R))"
    using assms(1) by (rule distinct_map_filter_ids) (simp add: view)
  then have "distinct (map result_id (take n (List.map_filter view R)))" by (simp flip: take_map)
  then show ?thesis by (auto simp: answer_within_def set_map_filter dest!: in_set_takeD view)
qed

lemma plain_result_simps [simp]: "sr_memory (plain_result d m) = m"
  by (simp add: plain_result_def)

lemma from_filter_contexts: "from_filter db (normalize_filter lc f) caller now r \<Longrightarrow> context_conditions db f (m_id r)"
  by (simp add: from_filter_def)

lemma hydrated_id: "m_id (hydrated st db r) = m_id r"
  by (simp add: hydrated_row)

lemma text_search_answer:
  assumes ids: "distinct (row_ids db)" and res: "search_by_text_impl st lc db q n f caller now = Inr results"
  shows "answer_within (searchable_view st lc now db f caller) n results"
proof (cases "n = 0")
  case False
  define cfg where "cfg = \<lparr>sc_filter = normalize_filter lc f, sc_caller = caller, sc_now = now, sc_page_size = max (usize_sat (n * OVERFETCH_FACTOR)) 1\<rparr>"
  define look where "look = (\<lambda>m. if content_searchable_by m caller then map_option (plain_result None) (apply_access_policy m caller) else None)"
  let ?R = "scan_rows db cfg (\<lambda>r. sql_like (like_pattern q) (m_content r))"
  have loop: "paged_scan_loop st lc db cfg (\<lambda>r. sql_like (like_pattern q) (m_content r)) True
      (\<lambda>s ms. Inr (accumulate_memory_page (push_view look n) s ms)) [] 0 = Inr results"
    using res False by (simp add: search_by_text_impl_def text_search_scan_def run_with_extra_hydrated_def text_push_eq look_def cfg_def)
  then have page: "sc_page_size cfg < 2 ^ 63"
    by (subst (asm) paged_scan_loop.simps) (auto simp: usize_to_i64_def split: if_splits)
  have "results = take n (List.map_filter (scan_view st lc db cfg look) (take (scan_window (sc_page_size cfg)) ?R))"
    using loop scan_loop_from [OF _ page ids, of 0 0 "[]" n st lc "\<lambda>r. sql_like (like_pattern q) (m_content r)" look] False
    by (simp add: cfg_def MAX_SCAN_ROWS_def)
  moreover have "answer_within (searchable_view st lc now db f caller) n
      (take n (List.map_filter (scan_view st lc db cfg look) (take (scan_window (sc_page_size cfg)) ?R)))"
  proof (rule answer_of_views [where k = m_id])
    show "distinct (map m_id (take (scan_window (sc_page_size cfg)) ?R))" using distinct_scan_rows [OF ids] by (simp flip: take_map)
  next
    fix r y assume "r \<in> set (take (scan_window (sc_page_size cfg)) ?R)" and y: "scan_view st lc db cfg look r = Some y"
    then have r: "r \<in> set (rows db)" "context_conditions db f (m_id r)"
      by (auto simp: scan_rows_def cfg_def dest!: in_set_takeD intro: from_filter_contexts)
    from y obtain v where "apply_access_policy_for_filter lc (hydrated st db r) (normalize_filter lc f) caller now = Some v" "look v = Some y"
      by (auto simp: scan_view_def cfg_def bind_eq_Some_conv)
    moreover from this have "y = plain_result None v" "content_searchable_by v caller"
      by (auto simp: look_def filtered_view_stable split: if_splits)
    ultimately show "searchable_view st lc now db f caller (sr_memory y) \<and> result_id y = m_id r"
      using r by (auto simp: searchable_view_def hydrated_id dest: filtered_view_id)
  qed
  ultimately show ?thesis by simp
qed (use res in \<open>simp add: search_by_text_impl_def answer_within_def\<close>)

lemma fts_search_answer:
  assumes ids: "distinct (row_ids db)" and res: "search_by_fts_impl st lc fts db q n f caller ctx now = Inr results"
  shows "answer_within (searchable_view st lc now db f caller) n results"
proof (cases "n = 0 \<or> sanitize_fts_query_with_context q ctx = None")
  case True
  then show ?thesis using res text_search_answer [OF ids, of st lc q n f caller now results]
    by (auto simp: search_by_fts_impl_def answer_within_def split: if_splits)
next
  case False
  then obtain query where scan: "fts_search_scan st lc fts db query (normalize_filter lc f) caller now n = Inr results"
    using res by (auto simp: search_by_fts_impl_def)
  show ?thesis
  proof (cases "fts (rows db) query")
    case (FtsRanked rank)
    let ?M = "fts_rows db rank (normalize_filter lc f) caller now"
    let ?g = "fts_view st lc db (normalize_filter lc f) caller now"
    have pages: "fts_pages st lc db ?M (normalize_filter lc f) caller now n [] 0 = Inr results"
      using scan FtsRanked by (simp add: fts_search_scan_def)
    then have "max (usize_sat (n * OVERFETCH_FACTOR)) 1 < 2 ^ 63"
      by (subst (asm) fts_pages.simps) (auto simp: usize_to_i64_def Let_def split: if_splits)
    then have n: "n * OVERFETCH_FACTOR < 2 ^ 63" by (simp add: usize_sat_def)
    have M: "distinct (map (\<lambda>x. m_id (fst x)) ?M)"
      using ranked_rows_ids [OF ids, of rank] by (simp add: fts_rows_eq distinct_map_filter)
    have "results = take n (List.map_filter ?g (take (scan_window (n * OVERFETCH_FACTOR)) ?M))"
      using pages fts_pages_window [OF M _ n, of st lc db "normalize_filter lc f" caller now] False by simp
    moreover have "answer_within (searchable_view st lc now db f caller) n (take n (List.map_filter ?g (take (scan_window (n * OVERFETCH_FACTOR)) ?M)))"
    proof (rule answer_of_views [where k = "\<lambda>x. m_id (fst x)"])
      show "distinct (map (\<lambda>x. m_id (fst x)) (take (scan_window (n * OVERFETCH_FACTOR)) ?M))" using M by (simp flip: take_map)
    next
      fix x y assume x: "x \<in> set (take (scan_window (n * OVERFETCH_FACTOR)) ?M)" and y: "?g x = Some y"
      then have "fst x \<in> set (rows db)" "context_conditions db f (m_id (fst x))"
        by (auto simp: fts_rows_def set_map_filter dest!: in_set_takeD from_filter_contexts)
      with y show "searchable_view st lc now db f caller (sr_memory y) \<and> result_id y = m_id (fst x)"
        by (auto simp: fts_view_def hydrated_id dest: filtered_view_id intro: searchable_viewI split: if_splits)
    qed
    ultimately show ?thesis by simp
  qed (use scan in \<open>auto simp: fts_search_scan_def answer_within_def\<close>)
qed

lemma candidate_view_answer:
  assumes "candidate_view st lc db (search_context lc f caller d now) D r = Some y" "r \<in> set (rows db)" "context_conditions db f (m_id r)"
  shows "searchable_view st lc now db f caller (sr_memory y)"
  using assms by (auto simp: candidate_view_def search_context_def intro: searchable_viewI split: if_splits)

lemma search_space_contexts:
  assumes ids: "distinct (row_ids db)" and "r \<in> set (rows db)" "m_id r \<in> search_space lc db f caller now"
  shows "context_conditions db f (m_id r)"
proof (cases "governed_filter f")
  case True
  then obtain r' where "r' \<in> set (rows db)" "m_id r' = m_id r" "from_filter db (normalize_filter lc f) caller now r'"
    using assms(3) by (auto simp: search_space_def eligible_ids_def)
  then show ?thesis using from_filter_contexts [of db lc f caller now r'] by simp
next
  case False
  then show ?thesis by (auto simp: governed_filter_def context_conditions_def when_some_def split: option.splits)
qed

lemma vector_search_answer:
  assumes "sqlite_search_ok st knn db"
  shows "\<exists>r. search_by_embedding_impl st lc knn db e n f caller d now = Some r \<and>
    (\<forall>results. r = Inr results \<longrightarrow> answer_within (searchable_view st lc now db f caller) n results)"
proof -
  from assms obtain dist where ids: "distinct (row_ids db)" and wf: "vec_wf (ss_dimensions st) (d_vectors db)" and knn: "knn_ok knn dist"
    by (auto simp: sqlite_search_ok_def)
  consider (Zero) "n = 0" | (Invalid) err where "n \<noteq> 0" "validate_embedding_vector e (ss_dimensions st) = Inl err"
    | (Valid) "0 < n" "vec_acceptable (ss_dimensions st) e"
    by (cases "validate_embedding_vector e (ss_dimensions st)") (auto simp flip: validate_iff)
  then show ?thesis
  proof cases
    case Valid
    let ?ctx = "search_context lc f caller d now" let ?D = "vector_distance dist (d_vectors db) e"
    obtain S where S: "S \<subseteq> search_space lc db f caller now" and out: "search_by_embedding_impl st lc knn db e n f caller d now =
        Some (Inr (take n (sort_by_distance (results_of st lc db ?ctx ?D S))))"
      using embedding_search_done [OF ids wf knn Valid(2,1), of lc f caller now d] by (auto simp: nearest_def)
    have "answer_within (searchable_view st lc now db f caller) (length (results_of st lc db ?ctx ?D S)) (results_of st lc db ?ctx ?D S)"
    proof -
      let ?R = "filter (\<lambda>r. m_id r \<in> S) (rows db)" let ?v = "candidate_view st lc db ?ctx ?D"
      have "answer_within (searchable_view st lc now db f caller) (length (List.map_filter ?v ?R)) (take (length (List.map_filter ?v ?R)) (List.map_filter ?v ?R))"
      proof (rule answer_of_views [where k = m_id])
        show "distinct (map m_id ?R)" using ids by (simp add: row_ids_def distinct_map_filter)
      next
        fix r y assume "r \<in> set ?R" and y: "?v r = Some y"
        then have "r \<in> set (rows db)" "m_id r \<in> search_space lc db f caller now" using S by auto
        with search_space_contexts [OF ids this] y
        show "searchable_view st lc now db f caller (sr_memory y) \<and> result_id y = m_id r"
          by (simp add: candidate_view_answer candidate_view_id)
      qed
      then show ?thesis by (simp add: results_of_def)
    qed
    then have "answer_within (searchable_view st lc now db f caller) n (take n (sort_by_distance (results_of st lc db ?ctx ?D S)))"
      by (rule answer_within_sub) (use take_keeps [of n "sort_by_distance (results_of st lc db ?ctx ?D S)"] in \<open>simp_all add: sort_by_distance_def\<close>)
    then show ?thesis by (simp add: out)
  qed (simp_all add: search_by_embedding_impl_def answer_within_def Let_def)
qed

interpretation sqlite: search_provider "sqlite_engine_store st lc knn fts fts_available now" "sqlite_search_ok st knn" "searchable_view st lc now"
  for st lc knn fts fts_available now
proof
  fix s e n f caller d
  assume "sqlite_search_ok st knn s"
  then show "\<exists>r. es_search_by_embedding (sqlite_engine_store st lc knn fts fts_available now s) e n f caller d = Some r \<and>
      (\<forall>results. r = Inr results \<longrightarrow> answer_within (searchable_view st lc now s f caller) n results)"
    using vector_search_answer by (simp add: sqlite_engine_store_def)
next
  fix s q n f caller ctx results
  assume "sqlite_search_ok st knn s" "es_search_by_fts (sqlite_engine_store st lc knn fts fts_available now s) q n f caller ctx = Inr results"
  then show "answer_within (searchable_view st lc now s f caller) n results"
    by (intro fts_search_answer) (simp_all add: sqlite_engine_store_def sqlite_search_ok_def)
next
  fix s q n f caller results
  assume "sqlite_search_ok st knn s" "es_search_by_text (sqlite_engine_store st lc knn fts fts_available now s) q n f caller = Inr results"
  then show "answer_within (searchable_view st lc now s f caller) n results"
    by (intro text_search_answer) (simp_all add: sqlite_engine_store_def sqlite_search_ok_def)
qed

section \<open>The engine's answers\<close>

lemma path_not_unavailable:
  "embedding_path en rq e n = Some r \<Longrightarrow> r \<noteq> Inl (SearchUnavailable message)"
  "keyword_path en rq ctx n \<noteq> Inl (SearchUnavailable message)"
  "text_path en rq n \<noteq> Inl (SearchUnavailable message)"
proof -
  have "engine_store_error x \<noteq> Inl (SearchUnavailable message)" for x :: "store_error + search_result list"
    by (cases x) simp_all
  then show "embedding_path en rq e n = Some r \<Longrightarrow> r \<noteq> Inl (SearchUnavailable message)"
    "keyword_path en rq ctx n \<noteq> Inl (SearchUnavailable message)" "text_path en rq n \<noteq> Inl (SearchUnavailable message)"
    by (auto simp: embedding_path_def keyword_path_def text_path_def)
qed

lemma hybrid_unavailable:
  "(\<exists>message. search_hybrid_with_context en rq q ctx strict = Some (Inl (SearchUnavailable message))) \<longleftrightarrow>
   strict \<and> ((\<exists>e. en_embed en q = Inl e) \<or> \<not> es_fts_available (en_store en))"
  by (cases "en_embed en q"; cases "es_fts_available (en_store en)")
    (auto simp: search_hybrid_with_context_def Let_def bind_eq_Some_conv result_bind_Inl_iff path_not_unavailable
      split: hybrid_candidates.splits dest: path_not_unavailable(1))

lemma retrieve_unavailable:
  "(\<exists>message. retrieve en rq mode q ctx = Some (Inl (SearchUnavailable message))) \<longleftrightarrow>
   (case mode of ModeSemantic \<Rightarrow> \<exists>e. en_embed en q = Inl e | ModeKeyword \<Rightarrow> \<not> es_fts_available (en_store en)
    | ModeHybrid \<Rightarrow> (\<exists>e. en_embed en q = Inl e) \<or> \<not> es_fts_available (en_store en) | ModeAuto \<Rightarrow> False | ModeText \<Rightarrow> False)"
  by (cases mode; cases "en_embed en q")
    (auto simp: retrieve_def Let_def hybrid_unavailable bind_eq_Some_conv result_bind_Inl_iff path_not_unavailable dest: path_not_unavailable(1))

text \<open>Claim C14. The engine's search is sound end to end. Over a coherent SQLite store every search returns, in
  every mode and whatever the embedding provider, the full-text index and the reranker answer, with a
  nearest-neighbour query that answers as documented (\<open>knn_ok\<close>); and a
  successful answer has at most as many results as the request and the configured ceiling allow, no
  memory twice, and only the caller's own views of stored memories that apply to the requested contexts,
  pass the filter and have content the caller may search. Fusion, reranking, scoring and suppression
  add nothing.\<close>

theorem engine_search_sound:
  assumes "sqlite_search_ok st knn db" and "en_store en = sqlite_engine_store st lc knn fts fts_available now db"
    and "\<forall>xs. mset (en_hash_order en xs) = mset xs"
  shows "\<exists>r. search_memories_inner en request record_impressions = Some r \<and>
    (\<forall>outcome ids. r = Inr (outcome, ids) \<longrightarrow>
       length (so_results outcome) \<le> min (rq_limit request) (en_max_search_limit en) \<and>
       distinct (map (\<lambda>x. m_id (sr_memory x)) (so_results outcome)) \<and>
       (\<forall>x \<in> set (so_results outcome). searchable_view st lc now db (rq_filter request) (rq_principal request) (sr_memory x)))"
  using sqlite.search_answer [OF assms, of request record_impressions] by (simp add: answer_within_def)

text \<open>Claim C21. A search is reported unavailable exactly when its mode needs what is missing: semantic search
  without embeddings, keyword search without the full-text index, hybrid search without either; the
  request is then valid and asks for results. The automatic mode and text search never are, they
  fall back.\<close>

theorem search_unavailable_iff:
  "(\<exists>message. search_memories_inner en request record_impressions = Some (Inl (SearchUnavailable message))) \<longleftrightarrow>
     trim (rq_query request) \<noteq> [] \<and> validate_max_distance (rq_max_distance request) = Inr () \<and>
     0 < min (rq_limit request) (en_max_search_limit en) \<and>
     (let no_embedding = (\<exists>e. en_embed en (case rq_context request of
            Some c \<Rightarrow> if trim c = [] then rq_query request else rq_query request @ '' '' @ c | None \<Rightarrow> rq_query request) = Inl e);
          no_index = (\<not> es_fts_available (en_store en))
      in case (case rq_search_mode request of None \<Rightarrow> sc_default_mode (en_search_config en) | Some m \<Rightarrow> m) of
           ModeSemantic \<Rightarrow> no_embedding
         | ModeKeyword \<Rightarrow> no_index
         | ModeHybrid \<Rightarrow> no_embedding \<or> no_index
         | ModeAuto \<Rightarrow> False
         | ModeText \<Rightarrow> False)"
  (is "?L \<longleftrightarrow> ?R")
proof -
  define ctx where "ctx = (case rq_context request of None \<Rightarrow> None | Some c \<Rightarrow> if trim c = [] then None else Some c)"
  define eq where "eq = (case ctx of None \<Rightarrow> rq_query request | Some c \<Rightarrow> rq_query request @ CHR '' '' # c)"
  define mode where "mode = (case rq_search_mode request of None \<Rightarrow> sc_default_mode (en_search_config en) | Some m \<Rightarrow> m)"
  define n where "n = min (rq_limit request) (en_max_search_limit en)"
  have query: "(case rq_context request of Some c \<Rightarrow> if trim c = [] then rq_query request else rq_query request @ '' '' @ c
      | None \<Rightarrow> rq_query request) = eq" by (simp add: eq_def ctx_def split: option.splits)
  have unavailable: "(\<exists>message. retrieve en (request\<lparr>rq_limit := n\<rparr>) mode eq ctx = Some (Inl (SearchUnavailable message))) \<longleftrightarrow>
     (case mode of ModeSemantic \<Rightarrow> \<exists>e. en_embed en eq = Inl e | ModeKeyword \<Rightarrow> \<not> es_fts_available (en_store en)
      | ModeHybrid \<Rightarrow> (\<exists>e. en_embed en eq = Inl e) \<or> \<not> es_fts_available (en_store en) | ModeAuto \<Rightarrow> False | ModeText \<Rightarrow> False)"
    by (rule retrieve_unavailable)
  have "?L \<longleftrightarrow> trim (rq_query request) \<noteq> [] \<and> validate_max_distance (rq_max_distance request) = Inr () \<and> 0 < n \<and>
     (\<exists>message. retrieve en (request\<lparr>rq_limit := n\<rparr>) mode eq ctx = Some (Inl (SearchUnavailable message)))"
    unfolding search_memories_inner_def Let_def ctx_def [symmetric] eq_def [symmetric] mode_def [symmetric] n_def [symmetric]
    by (cases "validate_max_distance (rq_max_distance request)")
      (auto simp: validate_non_blank_def result_bind_Inl_iff bind_eq_Some_conv single_path_def Let_def split: sum.splits)
  then show ?thesis
    unfolding Let_def query mode_def [symmetric] n_def [symmetric] unavailable .
qed

section \<open>Candidate pools\<close>

text \<open>Claim C22. Candidate pools are bounded and deep enough. No retrieval path and no fusion works on more than
  the configured pool size; a request that fits the pool gets pools of at least its limit on every
  path, at least the reranking depth when a reranker is configured, and at least twice the limit when
  suppression may drop results, as far as the pool allows. No product or sum overflows.\<close>

theorem candidate_pools_sufficient:
  assumes "limits = candidate_pool_limits en n" and "0 < n" "n \<le> en_max_candidate_pool_size en" "en_max_candidate_pool_size en < 2 ^ 64"
    and "wanted = (if sc_suppression_enabled (en_search_config en) then 2 else 1) *
      (if en_reranker en \<noteq> None then max n (sc_rerank_top_m (en_search_config en)) else n)"
  shows "\<forall>p \<in> {pl_semantic limits, pl_keyword limits, pl_text limits, pl_fused limits}.
    n \<le> p \<and> min wanted (en_max_candidate_pool_size en) \<le> p \<and> p \<le> en_max_candidate_pool_size en"
proof -
  define b where "b = base_candidate_pool_limit en n"
  let ?M = "en_max_candidate_pool_size en"
  have "min (usize_sat x) ?M = min x ?M" for x using assms(4) by (auto simp: usize_sat_def)
  then have b: "b = min wanted ?M"
    using assms(2,5) by (simp add: b_def base_candidate_pool_limit_def Let_def mult.commute)
  have "n \<le> wanted" unfolding assms(5) by (simp add: trans_le_add1 mult_2)
  then have "n \<le> b" "b \<le> ?M" using assms(3) by (simp_all add: b)
  moreover have "b \<le> min (max b k) ?M" for k using \<open>b \<le> ?M\<close> by simp
  moreover from this have "b \<le> min (usize_sat (min (max b k) ?M + k')) ?M" for k k'
    using \<open>b \<le> ?M\<close> assms(4) trans_le_add1 [of b "min (max b k) ?M" k'] by (simp add: usize_sat_def)
  ultimately have "\<forall>p \<in> {pl_semantic limits, pl_keyword limits, pl_text limits, pl_fused limits}. b \<le> p \<and> p \<le> ?M"
    by (simp add: assms(1) candidate_pool_limits_def Let_def flip: b_def)
  then show ?thesis using \<open>n \<le> b\<close> by (auto simp flip: b)
qed

section \<open>What the reranker sees\<close>

lemma content_of_searchable_view:
  assumes "searchable_view st lc now db f caller m"
  obtains r where "r \<in> set (rows db)" "content_searchable_by (hydrated st db r) caller" "m_content m = m_content r"
proof -
  from assms obtain r where r: "r \<in> set (rows db)" "content_searchable_by m caller"
    and v: "apply_access_policy_for_filter lc (hydrated st db r) (normalize_filter lc f) caller now = Some m"
    by (auto simp: searchable_view_def)
  have ok: "content_searchable_by (hydrated st db r) caller" using r(2) view_searchable [OF v] by simp
  have row: "m_content (hydrated st db r) = m_content r" by (simp add: hydrated_row row_to_memory_def memory.truncate_def)
  have "m_content m = m_content (hydrated st db r)"
    using v
  proof (cases rule: filtered_view_cases)
    case (Redacted fs)
    then have "FieldContent \<in> set fs" using ok by (simp add: content_searchable_by_def)
    then show ?thesis using Redacted by (simp add: redacted_def Let_def)
  qed simp
  then show thesis using that r(1) ok row by simp
qed

lemma apply_reranker_agree:
  assumes "\<And>docs. length docs \<le> sc_rerank_top_m (en_search_config en) \<Longrightarrow> set docs \<subseteq> (\<lambda>r. m_content (sr_memory r)) ` set results \<Longrightarrow>
    rerank q docs = rerank' q docs"
  shows "apply_reranker en results q rerank = apply_reranker en results q rerank'"
proof -
  define eligible where "eligible = take (min (sc_rerank_top_m (en_search_config en)) (length results))
    (filter (\<lambda>i. field_visible_in_view (sr_memory (results ! i)) FieldContent) [0..<length results])"
  have "set eligible \<subseteq> {..<length results}" using set_take_subset by (fastforce simp: eligible_def)
  then have "set (map (\<lambda>i. m_content (sr_memory (results ! i))) eligible) \<subseteq> (\<lambda>r. m_content (sr_memory r)) ` set results" by auto
  moreover have "length (map (\<lambda>i. m_content (sr_memory (results ! i))) eligible) \<le> sc_rerank_top_m (en_search_config en)"
    by (simp add: eligible_def)
  ultimately have "rerank q (map (\<lambda>i. m_content (sr_memory (results ! i))) eligible) = rerank' q (map (\<lambda>i. m_content (sr_memory (results ! i))) eligible)"
    by (intro assms)
  then show ?thesis by (simp only: apply_reranker_def Let_def eligible_def [symmetric])
qed

lemma reranker_irrelevant:
  "apply_reranker (en\<lparr>en_reranker := x\<rparr>) results q rerank = apply_reranker en results q rerank"
  "embedding_path (en\<lparr>en_reranker := x\<rparr>) rq e n = embedding_path en rq e n"
  "keyword_path (en\<lparr>en_reranker := x\<rparr>) rq ctx n = keyword_path en rq ctx n"
  "text_path (en\<lparr>en_reranker := x\<rparr>) rq n = text_path en rq n" "fuse_paths (en\<lparr>en_reranker := x\<rparr>) sem kw n = fuse_paths en sem kw n"
  by (simp_all add: apply_reranker_def embedding_path_def keyword_path_def text_path_def fuse_paths_def Let_def)

lemma reranker_fields:
  "en_store (en\<lparr>en_reranker := x\<rparr>) = en_store en" "en_embed (en\<lparr>en_reranker := x\<rparr>) = en_embed en"
  "en_max_search_limit (en\<lparr>en_reranker := x\<rparr>) = en_max_search_limit en" "en_search_config (en\<lparr>en_reranker := x\<rparr>) = en_search_config en"
  "en_max_candidate_pool_size (en\<lparr>en_reranker := x\<rparr>) = en_max_candidate_pool_size en"
  by simp_all

lemma pools_reranker: "candidate_pool_limits (en\<lparr>en_reranker := Some rr\<rparr>) n = candidate_pool_limits (en\<lparr>en_reranker := Some rr'\<rparr>) n"
proof -
  have "base_candidate_pool_limit (en\<lparr>en_reranker := Some rr\<rparr>) n = base_candidate_pool_limit (en\<lparr>en_reranker := Some rr'\<rparr>) n"
    by (simp add: base_candidate_pool_limit_def)
  then show ?thesis unfolding candidate_pool_limits_def reranker_fields by (simp only:)
qed

lemma retrieve_reranker:
  "retrieve (en\<lparr>en_reranker := Some rr\<rparr>) rq mode q ctx = retrieve (en\<lparr>en_reranker := Some rr'\<rparr>) rq mode q ctx"
  unfolding retrieve_def search_hybrid_with_context_def pools_reranker [where rr = rr and rr' = rr'] reranker_irrelevant reranker_fields ..

lemma rank_results_reranker:
  assumes "apply_reranker en (seed_retrieval_scores (en_arith en) retrieved) q rr = apply_reranker en (seed_retrieval_scores (en_arith en) retrieved) q rr'"
  shows "rank_results (en\<lparr>en_reranker := Some rr\<rparr>) q n retrieved = rank_results (en\<lparr>en_reranker := Some rr'\<rparr>) q n retrieved"
  using assms by (simp add: rank_results_def reranker_irrelevant Let_def cong: sum.case_cong if_cong)

text \<open>Claim C15. The reranker, an external model, is shown nothing the caller may not read: two rerankers that
  agree on the query and every list, of at most the configured number, of contents of stored memories
  whose content the caller may search give the same answer to every request. So no search can send
  them the content of any other memory, and redacted contents stay hidden.\<close>

theorem reranker_sees_searchable_content:
  assumes "sqlite_search_ok st knn db" and "en_store en = sqlite_engine_store st lc knn fts fts_available now db"
    and "\<forall>xs. mset (en_hash_order en xs) = mset xs"
    and agree: "\<forall>docs. length docs \<le> sc_rerank_top_m (en_search_config en) \<longrightarrow>
      set docs \<subseteq> m_content ` {r \<in> set (rows db). content_searchable_by (hydrated st db r) (rq_principal request)} \<longrightarrow>
      rr (rq_query request) docs = rr' (rq_query request) docs"
  shows "search_memories_inner (en\<lparr>en_reranker := Some rr\<rparr>) request record_impressions =
    search_memories_inner (en\<lparr>en_reranker := Some rr'\<rparr>) request record_impressions"
proof -
  let ?P = "searchable_view st lc now db (rq_filter request) (rq_principal request)"
  have same: "rank_results (en\<lparr>en_reranker := Some rr\<rparr>) (rq_query request) n retrieved =
      rank_results (en\<lparr>en_reranker := Some rr'\<rparr>) (rq_query request) n retrieved" if "\<forall>r \<in> set retrieved. ?P (sr_memory r)" for n retrieved
  proof (intro rank_results_reranker apply_reranker_agree agree [rule_format])
    fix docs :: "string list" assume "length docs \<le> sc_rerank_top_m (en_search_config en)"
    then show "length docs \<le> sc_rerank_top_m (en_search_config en)" .
    assume "set docs \<subseteq> (\<lambda>r. m_content (sr_memory r)) ` set (seed_retrieval_scores (en_arith en) retrieved)"
    moreover have "sr_memory ` set (seed_retrieval_scores (en_arith en) retrieved) = sr_memory ` set retrieved"
      by (metis list.set_map seed_keeps)
    ultimately have "set docs \<subseteq> m_content ` sr_memory ` set retrieved" by (metis image_image)
    then show "set docs \<subseteq> m_content ` {r \<in> set (rows db). content_searchable_by (hydrated st db r) (rq_principal request)}"
      using that by (fastforce elim: content_of_searchable_view)
  qed
  have retrieved: "\<forall>r \<in> set (so_results outcome). ?P (sr_memory r)"
    if "retrieve (en\<lparr>en_reranker := Some rr'\<rparr>) (request\<lparr>rq_limit := n\<rparr>) mode q ctx = Some (Inr outcome)" for n mode q ctx outcome
    using sqlite.retrieve_pooled [OF assms(1), of "en\<lparr>en_reranker := Some rr'\<rparr>" lc fts fts_available now "request\<lparr>rq_limit := n\<rparr>" mode q ctx]
      that assms(2,3) by (simp add: sqlite.pooled_def answer_within_def)
  have "Option.bind (retrieve (en\<lparr>en_reranker := Some rr\<rparr>) (request\<lparr>rq_limit := n\<rparr>) mode q ctx) (\<lambda>r. Some (result_bind r (\<lambda>outcome.
        Inr (outcome\<lparr>so_results := rank_results (en\<lparr>en_reranker := Some rr\<rparr>) (rq_query request) n (so_results outcome)\<rparr>,
          g (rank_results (en\<lparr>en_reranker := Some rr\<rparr>) (rq_query request) n (so_results outcome)))))) =
      Option.bind (retrieve (en\<lparr>en_reranker := Some rr'\<rparr>) (request\<lparr>rq_limit := n\<rparr>) mode q ctx) (\<lambda>r. Some (result_bind r (\<lambda>outcome.
        Inr (outcome\<lparr>so_results := rank_results (en\<lparr>en_reranker := Some rr'\<rparr>) (rq_query request) n (so_results outcome)\<rparr>,
          g (rank_results (en\<lparr>en_reranker := Some rr'\<rparr>) (rq_query request) n (so_results outcome))))))" for n mode q ctx and g :: "search_result list \<Rightarrow> memory_id list"
    unfolding retrieve_reranker [where rr = rr and rr' = rr']
    by (rule Option.bind_cong [OF refl], rule arg_cong [of _ _ Some])
      (auto simp: result_bind_def same [OF retrieved] split: sum.splits)
  from this [where g = "\<lambda>results. if record_impressions then map result_id results else []"] show ?thesis
    unfolding search_memories_inner_def Let_def reranker_fields by (simp only:)
qed

section \<open>Witnesses\<close>

definition sample_search_config :: engine_search_config where
  "sample_search_config = \<lparr>sc_rrf_k = 60, sc_rrf_semantic_weight = f64_one, sc_rrf_keyword_weight = f64_one, sc_relevance_weight = f64_one,
     sc_activity_weight = f64_one, sc_importance_weight = f64_one, sc_activity_half_life_hours = f64_one, sc_activity_saturation = f64_one,
     sc_freshness_weight = f64_one, sc_freshness_half_life_semantic_days = f64_one, sc_freshness_half_life_episodic_days = f64_one,
     sc_freshness_half_life_procedural_days = f64_one, sc_confidence_weight = f64_one, sc_relevance_floor = f64_zero,
     sc_relevance_floor_penalty = f64_one, sc_superseded_penalty = f64_one, sc_reranker_blend_weight = f64_half,
     sc_default_mode = ModeAuto, sc_semantic_candidate_k = 20, sc_keyword_candidate_k = 20, sc_rerank_top_m = 5,
     sc_suppression_enabled = False, sc_suppression_lambda = f64_zero\<rparr>"

definition sample_engine :: search_engine where
  "sample_engine = \<lparr>en_store = sqlite_engine_store query_sqlite (\<lambda>s. s) (brute_knn (\<lambda>_ blob. ucast (hd blob)))
       (\<lambda>_ _. FtsRanked (map_of [(7, 1), (8, 2)])) True 50 vector_mdb,
     en_embed = (\<lambda>_. Inr [0, 0]), en_now = 50, en_max_search_limit = 10, en_max_candidate_pool_size = 100,
     en_search_config = sample_search_config, en_reranker = None, en_arith = sample_arith, en_arith32 = sample_arith32, en_hash_order = id\<rparr>"

definition sample_search :: search_request where
  "sample_search = \<lparr>rq_query = ''plan'', rq_limit = 3, rq_filter = memory_filter_default, rq_principal = Some ''bob'', rq_max_distance = None,
     rq_keywords = None, rq_search_mode = None, rq_context = None\<rparr>"

lemma sample_engine_ok:
  "sqlite_search_ok query_sqlite (brute_knn (\<lambda>_ blob. ucast (hd blob))) vector_mdb"
  "\<forall>xs. mset (en_hash_order sample_engine xs) = mset xs"
proof -
  have "distinct (row_ids vector_mdb)" "vec_wf (ss_dimensions query_sqlite) (d_vectors vector_mdb)" by code_simp+
  then show "sqlite_search_ok query_sqlite (brute_knn (\<lambda>_ blob. ucast (hd blob))) vector_mdb"
    unfolding sqlite_search_ok_def using brute_knn_ok by blast
qed (simp add: sample_engine_def)

lemma sample_engine_store:
  "en_store sample_engine = sqlite_engine_store query_sqlite (\<lambda>s. s) (brute_knn (\<lambda>_ blob. ucast (hd blob)))
     (\<lambda>_ _. FtsRanked (map_of [(7, 1), (8, 2)])) True 50 vector_mdb"
  by (simp add: sample_engine_def)

theorem engine_search_sound_witness:
  "\<exists>r. search_memories_inner sample_engine sample_search True = Some r \<and>
    (\<forall>outcome ids. r = Inr (outcome, ids) \<longrightarrow>
       length (so_results outcome) \<le> min (rq_limit sample_search) (en_max_search_limit sample_engine) \<and>
       distinct (map (\<lambda>x. m_id (sr_memory x)) (so_results outcome)) \<and>
       (\<forall>x \<in> set (so_results outcome).
          searchable_view query_sqlite (\<lambda>s. s) 50 vector_mdb (rq_filter sample_search) (rq_principal sample_search) (sr_memory x)))"
  by (rule engine_search_sound [OF sample_engine_ok(1) sample_engine_store sample_engine_ok(2)])

theorem candidate_pools_sufficient_witness:
  "5 \<le> pl_fused (candidate_pool_limits sample_engine 5) \<and> pl_fused (candidate_pool_limits sample_engine 5) \<le> 100"
  using candidate_pools_sufficient [OF refl _ _ _ refl, of 5 sample_engine] by (simp add: sample_engine_def)

lemma vector_mdb_contents: "map m_content (rows vector_mdb) = [''secret plan'', ''Plan 100%'']"
  by code_simp

lemma vector_mdb_searchable:
  "map (\<lambda>r. content_searchable_by (hydrated query_sqlite vector_mdb r) (Some ''bob'')) (rows vector_mdb) = [False, True]"
  by code_simp

text \<open>A reranker that answers only when it is shown the hidden content is never triggered.\<close>

theorem reranker_sees_searchable_content_witness:
  "search_memories_inner (sample_engine\<lparr>en_reranker := Some (\<lambda>_ _. Inl ''down'')\<rparr>) sample_search True =
   search_memories_inner (sample_engine\<lparr>en_reranker := Some (\<lambda>_ docs. if ''secret plan'' \<in> set docs
     then Inr [\<lparr>rs_index = 0, rs_score = f64_one\<rparr>] else Inl ''down'')\<rparr>) sample_search True"
proof (rule reranker_sees_searchable_content [OF sample_engine_ok(1) sample_engine_store sample_engine_ok(2)], intro allI impI)
  fix docs :: "string list"
  assume docs: "set docs \<subseteq> m_content ` {r \<in> set (rows vector_mdb). content_searchable_by (hydrated query_sqlite vector_mdb r) (rq_principal sample_search)}"
  let ?cs = "\<lambda>r. content_searchable_by (hydrated query_sqlite vector_mdb r) (Some ''bob'')"
  have "m_content r = ''Plan 100%''" if "r \<in> set (rows vector_mdb)" "?cs r" for r
  proof -
    obtain a b where ab: "rows vector_mdb = [a, b]"
      using arg_cong [OF vector_mdb_contents, of length] by (auto simp: length_Suc_conv numeral_2_eq_2)
    then show ?thesis using that vector_mdb_contents vector_mdb_searchable by auto
  qed
  moreover have "rq_principal sample_search = Some ''bob''" by (simp add: sample_search_def)
  ultimately have "set docs \<subseteq> {''Plan 100%''}" using docs by auto
  then have "''secret plan'' \<notin> set docs" by auto
  then show "(\<lambda>_ _. Inl ''down'') (rq_query sample_search) docs = (\<lambda>_ docs. if ''secret plan'' \<in> set docs
     then Inr [\<lparr>rs_index = 0, rs_score = f64_one\<rparr>] else Inl ''down'') (rq_query sample_search) docs" by simp
qed

end
