(* ===== verification/Spec2Isabelle.thy ===== *)
theory Spec2Isabelle
  imports Validation Context_Selection Context_Invariants Embedding_Resilience Consolidation Background_Tasks Memory_Contract
    Engine_Consolidation Engine_Sqlite
begin

text \<open>
  A verification development of LocalHold (\<^verbatim>\<open>src/\<close>), a server that keeps the memories of software
  agents: texts with provenance, an access policy, entities, embeddings and usage counters, grouped by
  governed contexts, and searched by text, meaning or both.

  \<^bold>\<open>The program.\<close> Requests carry a principal (\<^verbatim>\<open>http_auth.rs\<close>), are validated (\<^verbatim>\<open>validation.rs\<close>) and
  reach a store. The SQLite store keeps memories, contexts, vectors, tombstones and audit rows in one
  database (\<^verbatim>\<open>store/schema.rs\<close>); contexts are resolved and governed by layered policies
  (\<^verbatim>\<open>context.rs\<close>, \<^verbatim>\<open>store/context_store.rs\<close>), memories are written by \<^verbatim>\<open>store/crud.rs\<close> and
  \<^verbatim>\<open>store/admin.rs\<close> and read by \<^verbatim>\<open>store/query.rs\<close> and \<^verbatim>\<open>store/search.rs\<close>. What a caller gets of a
  memory is decided by its access policy (\<^verbatim>\<open>types.rs\<close>). Search results are fused, scored and
  deduplicated (\<^verbatim>\<open>fusion.rs\<close>, \<^verbatim>\<open>scoring.rs\<close>, \<^verbatim>\<open>consolidation.rs\<close>) by the engine (\<^verbatim>\<open>engine.rs\<close>). Embeddings are made by a provider
  behind retries, an availability flag and batching (\<^verbatim>\<open>embedding/\<close>), partly by background tasks that are
  admitted and drained (\<^verbatim>\<open>background_tasks.rs\<close>).

  \<^bold>\<open>Theories.\<close> Each names the functions it models in its own opening text.

    \<^item> \<open>Hold_Prelude\<close>: Rust strings as UTF-8 bytes, results, stable sorting with the locales \<open>comparator\<close> and
      \<open>strict_comparator\<close>, saturating words. \<open>F64\<close>: \<^verbatim>\<open>f64\<close> bit patterns and their orders. \<open>Hold_Error\<close>:
      \<^verbatim>\<open>error.rs\<close>.
    \<^item> \<open>Hold_Types\<close>: \<^verbatim>\<open>types.rs\<close>: identifiers with their text forms (locales \<open>parse_print\<close>,
      \<open>exact_parse_print\<close>, \<open>trimmed_newtype\<close>), memories, access levels, redaction, write access. A redacted
      view reveals nothing of the hidden fields. \<open>Validation\<close>: \<^verbatim>\<open>validation.rs\<close>.
    \<^item> \<open>Context_Types\<close>, \<open>Context_Identity\<close>, \<open>Context_Policy\<close>: \<^verbatim>\<open>context.rs\<close>: keys, kinds, identities and
      fingerprints, the merge of operator, principal and anchor policies. Ceilings hold, denials win, the
      order of anchors is irrelevant. \<open>Http_Auth\<close>: \<^verbatim>\<open>http_auth.rs\<close>.
    \<^item> \<open>Context_Store\<close>, \<open>Context_Ops\<close>: the tables and write transactions of \<^verbatim>\<open>store/context_store.rs\<close>;
      \<open>Context_Hierarchy\<close> (locale \<open>sql_table\<close>) and \<open>Context_Invariants\<close>: a step relation over them: the
      hierarchy stays a forest, only owners change a context, every change is audited, grants are
      explicit. \<open>Context_Selection\<close>: expansion of a selection, exact and total.
    \<^item> \<open>Vector_Index\<close>: \<^verbatim>\<open>store/vector/\<close> refines a finite map from memories to vectors (locale
      \<open>embedding_index\<close>).
    \<^item> \<open>Memory_Store\<close>: the write transactions of \<^verbatim>\<open>store/crud.rs\<close> and \<^verbatim>\<open>store/admin.rs\<close>.
      \<open>Memory_Invariants\<close>, \<open>Memory_Coherence\<close>: the tables stay coherent; \<open>Memory_Revisions\<close>: a revision
      moves with every change of a record (its embedding flag and usage counters are outside it);
      \<open>Memory_Safety\<close>: over all runs of the step relation \<open>memory_step\<close> no update is lost, no vector of an old
      content is stored, a standing claim is exclusive; \<open>Memory_Contract\<close>: reads after writes, complete
      deletion, exact bulk deletion and eviction with their audit rows, uses counted once.
    \<^item> \<open>Memory_Filter\<close>, \<open>Memory_Query\<close>, \<open>Memory_Search\<close>, \<open>Memory_Fts\<close>: filters as SQL conditions and as
      predicates on a view, the paged scan, listing, text, vector and full-text search. On ASCII contents
      filtering in SQL loses nothing, paging and late hydration leave no trace, filters are no oracle for hidden fields,
      vector search ends and returns the nearest visible memories, a full-text query is literal.
    \<^item> \<open>Ranking\<close>, \<open>Scoring\<close>, \<open>Union_Find\<close>, \<open>Consolidation\<close>: orderings, reciprocal rank fusion, composite
      scores, duplicate suppression, shown to be the greedy pass it is meant to be, and duplicate groups as
      connected components.
    \<^item> \<open>Engine_Search\<close>, \<open>Engine_Sqlite\<close>: the search path of \<^verbatim>\<open>engine.rs\<close> over any store that meets the locale
      \<open>search_provider\<close>, interpreted on the SQLite store: answers are bounded, distinct and visible to the
      caller, the reranker sees no hidden content, candidate pools are bounded and deep enough, modes
      fail exactly when what they need is missing. \<open>Engine_Consolidation\<close>: consolidation runs: the groups are
      the clusters of similar candidates, and merging supersedes only active memories the principal may
      change, by active ones of the same context profile.
    \<^item> \<open>Embedding_Resilience\<close>: retries, availability, batching. \<open>Background_Tasks\<close>: admissions and shutdown as
      interleaved atomic steps; drained shutdowns are complete and waiters are woken; two races around a
      timed-out shutdown are exhibited. Atomic accesses are sequentially consistent there, which the code's
      acquire and release orderings do not by themselves give, and shutdown calls do not overlap.

  \<^bold>\<open>Reading the model.\<close> A struct is a record, an enum a datatype, a \<^verbatim>\<open>Result\<close> a sum with the error on the
  left, a table a list of rows in insertion order, a transaction a function from the database to an
  error or the new database; an error leaves the old one. Transactions are \<^verbatim>\<open>BEGIN IMMEDIATE\<close> and do not
  interleave; runs are sequences of them. A search of the engine reads one state of the store and one
  clock value, and a consolidation run has no other writer in between; the code reads and writes in
  several calls. \<^verbatim>\<open>usize\<close> values are naturals with the saturation and the
  conversion to \<^verbatim>\<open>i64\<close> written out; words keep their width where the code wraps or saturates. Messages
  keep their format string.

  \<^bold>\<open>Parameters.\<close> Code of other crates and of the platform is an argument: Unicode lower-casing \<open>lc\<close>,
  rounding arithmetic on \<^verbatim>\<open>f64\<close> and \<^verbatim>\<open>f32\<close>, clocks and random draws, URL parsing and SHA-256, row ids and
  the order of unordered queries of SQLite, the nearest-neighbour query of sqlite-vec, the FTS5 index,
  the embedding provider, the reranker. What a theorem needs of one is a named hypothesis (\<open>scan_returns_rows\<close>,
  \<open>knn_ok\<close>, \<open>fresh_rowids\<close>, \<open>returning_ok\<close>), met by a concrete instance in the witness. SQL text is
  modelled by its meaning on the tables; \<^verbatim>\<open>LIKE\<close> is \<open>sql_like\<close>, up to SQLite's limit on the length of a
  pattern. Columns hold their values as they are: revisions are unbounded where SQLite has \<^verbatim>\<open>i64\<close>, and a NaN,
  which SQLite turns into \<^verbatim>\<open>NULL\<close> and a \<^verbatim>\<open>NOT NULL\<close> column rejects, is outside the model. Allocation does not
  fail.

  \<^bold>\<open>Loops and bounds.\<close> Loops are structural or have a measure; the adaptive vector searches are partial
  functions proved to return. Theorems on listings, text and full-text search suppose at most
  \<^verbatim>\<open>MAX_SCAN_ROWS\<close> rows, beyond which the code stops scanning; the general window is \<open>scan_window\<close> in
  \<open>Memory_Query\<close>. No fuel is used.

  \<^bold>\<open>Not modelled.\<close> The PostgreSQL store (the same contracts over another driver), schema migrations,
  backup and import, the MCP handlers, the terminal interface, configuration loading, HTTP clients and
  the ONNX runtime: input and output, drivers and glue, whose logic of interest sits in the parts
  above. Of the engine, the write operations, which wrap the modelled transactions, and the recording
  of impressions by background tasks. Of the SQLite store, statistics, scope reassignment and the legacy
  metadata migration.
\<close>

end
